(* ===== verification/Errors.thy ===== *)
theory Errors
  imports Main
begin

text \<open>
  Result codes, the engine's error type (\<^verbatim>\<open>sqllite-core/src/error.rs\<close>) and the way a call
  of the code ends. A Rust \<^verbatim>\<open>Result\<close> is a sum whose left side is a \<open>fault\<close>: an error the code
  returns (\<open>Fail\<close>), a panic (\<open>Panic\<close>: an index out of range, a failed \<^verbatim>\<open>unwrap\<close> or
  \<^verbatim>\<open>assert!\<close>, an arithmetic overflow of an overflow-checked build), or a recursion of the model
  that has used up its fuel (\<open>Diverge\<close>).
\<close>

section \<open>Result codes and errors\<close>

datatype result_code =
    RcOk | RcError | RcInternal | RcPerm | RcAbort | RcBusy | RcLocked | RcNoMem | RcReadOnly
  | RcInterrupt | RcIoErr | RcCorrupt | RcNotFound | RcFull | RcCantOpen | RcProtocol | RcEmpty
  | RcSchema | RcTooBig | RcConstraint | RcMismatch | RcMisuse | RcNoLfs | RcAuth | RcFormat
  | RcRange | RcNotADb | RcNotice | RcWarning | RcRow | RcDone

definition is_ok :: "result_code \<Rightarrow> bool" where
  "is_ok c = (c = RcOk \<or> c = RcRow \<or> c = RcDone)"

fun result_message :: "result_code \<Rightarrow> string" where
  "result_message RcOk = ''not an error''"
| "result_message RcError = ''SQL logic error''"
| "result_message RcInternal = ''internal logic error''"
| "result_message RcPerm = ''access permission denied''"
| "result_message RcAbort = ''callback requested query abort''"
| "result_message RcBusy = ''database is locked''"
| "result_message RcLocked = ''database table is locked''"
| "result_message RcNoMem = ''out of memory''"
| "result_message RcReadOnly = ''attempt to write a readonly database''"
| "result_message RcInterrupt = ''operation interrupted''"
| "result_message RcIoErr = ''disk I/O error''"
| "result_message RcCorrupt = ''database disk image is malformed''"
| "result_message RcNotFound = ''unknown operation''"
| "result_message RcFull = ''database or disk is full''"
| "result_message RcCantOpen = ''unable to open database file''"
| "result_message RcProtocol = ''locking protocol''"
| "result_message RcEmpty = ''table contains no data''"
| "result_message RcSchema = ''database schema has changed''"
| "result_message RcTooBig = ''string or blob too big''"
| "result_message RcConstraint = ''constraint failed''"
| "result_message RcMismatch = ''datatype mismatch''"
| "result_message RcMisuse = ''library routine called out of sequence''"
| "result_message RcNoLfs = ''large file support is disabled''"
| "result_message RcAuth = ''authorization denied''"
| "result_message RcFormat = ''auxiliary database format error''"
| "result_message RcRange = ''bind or column index out of range''"
| "result_message RcNotADb = ''file is not a database''"
| "result_message RcNotice = ''notification message''"
| "result_message RcWarning = ''warning message''"
| "result_message RcRow = ''another row available''"
| "result_message RcDone = ''execution finished''"

text \<open>An operating-system error is carried by its text; nothing else of it is read.\<close>

datatype sqllite_error = Sql result_code string | Io string | Parse string

fun error_code :: "sqllite_error \<Rightarrow> result_code" where
  "error_code (Sql code message) = code"
| "error_code (Io e) = RcIoErr"
| "error_code (Parse m) = RcError"

fun error_message :: "sqllite_error \<Rightarrow> string" where
  "error_message (Sql code message) = message"
| "error_message (Io e) = e"
| "error_message (Parse m) = m"

section \<open>How a call ends\<close>

datatype fault = Fail sqllite_error | Panic | Diverge

type_synonym 'a res = "fault + 'a"

abbreviation sql_err :: "result_code \<Rightarrow> string \<Rightarrow> 'a res" where
  "sql_err c m \<equiv> Inl (Fail (Sql c m))"

abbreviation panic :: "'a res" where
  "panic \<equiv> Inl Panic"

lemma is_ok_not_error: "is_ok c \<Longrightarrow> c \<noteq> RcError \<and> c \<noteq> RcCorrupt \<and> c \<noteq> RcConstraint"
  by (auto simp: is_ok_def)

end
