(* ===== verification/Prelude.thy ===== *)
theory Prelude
  imports Errors "HOL-Library.Word"
begin

text \<open>
  The shared prelude: the machine-integer types, the two error monads the model is written in
  (\<open>res\<close> for pure fallible code, \<open>sres\<close> for code that also updates a state and keeps what it has
  written when it fails), checked access to byte buffers (a Rust slice index out of range is a
  panic) and the lemmas about overlaying one buffer on another that every component uses.
\<close>

unbundle bit_operations_syntax

section \<open>Types\<close>

type_synonym u8 = "8 word"
type_synonym u16 = "16 word"
type_synonym u32 = "32 word"
type_synonym u64 = "64 word"
type_synonym i32 = "32 word"
type_synonym i64 = "64 word"
type_synonym bytes = "u8 list"

named_theorems res_simps \<open>rewriting in the error monads\<close>
named_theorems len_simps \<open>lengths of updated buffers\<close>

section \<open>The pure error monad\<close>

definition bindR :: "'a res \<Rightarrow> ('a \<Rightarrow> 'b res) \<Rightarrow> 'b res" where
  "bindR m f = (case m of Inl e \<Rightarrow> Inl e | Inr x \<Rightarrow> f x)"

lemma bindR_Inl [simp, res_simps]: "bindR (Inl e) f = Inl e"
  by (simp add: bindR_def)

lemma bindR_Inr [simp, res_simps]: "bindR (Inr x) f = f x"
  by (simp add: bindR_def)

lemma bindR_eq_Inr: "bindR m f = Inr y \<longleftrightarrow> (\<exists>x. m = Inr x \<and> f x = Inr y)"
  by (cases m) auto

lemma bindR_eq_Inl: "bindR m f = Inl e \<longleftrightarrow> m = Inl e \<or> (\<exists>x. m = Inr x \<and> f x = Inl e)"
  by (cases m) auto

lemma bindR_assoc: "bindR (bindR m f) g = bindR m (\<lambda>x. bindR (f x) g)"
  by (cases m) auto

lemma bindR_cong [fundef_cong]:
  "m = m' \<Longrightarrow> (\<And>x. m' = Inr x \<Longrightarrow> f x = f' x) \<Longrightarrow> bindR m f = bindR m' f'"
  by (cases m') auto

lemma bindR_E:
  assumes "bindR m f = Inr y"
  obtains x where "m = Inr x" and "f x = Inr y"
  using assms by (auto simp: bindR_eq_Inr)

definition isOk :: "'a res \<Rightarrow> bool" where
  "isOk r = (case r of Inl e \<Rightarrow> False | Inr x \<Rightarrow> True)"

lemma isOk_simps [simp]: "isOk (Inr x)" "\<not> isOk (Inl e)"
  by (simp_all add: isOk_def)

lemma isOk_iff: "isOk r \<longleftrightarrow> (\<exists>x. r = Inr x)"
  by (cases r) auto

lemma isOk_bindR: "isOk (bindR m f) \<longleftrightarrow> (\<exists>x. m = Inr x \<and> isOk (f x))"
  by (cases m) auto

section \<open>The state and error monad\<close>

type_synonym ('s, 'a) sres = "'s \<Rightarrow> 'a res \<times> 's"

definition retS :: "'a \<Rightarrow> ('s, 'a) sres" where
  "retS x = (\<lambda>s. (Inr x, s))"

definition throwS :: "fault \<Rightarrow> ('s, 'a) sres" where
  "throwS e = (\<lambda>s. (Inl e, s))"

definition liftS :: "'a res \<Rightarrow> ('s, 'a) sres" where
  "liftS r = (\<lambda>s. (r, s))"

definition getS :: "('s \<Rightarrow> 'a) \<Rightarrow> ('s, 'a) sres" where
  "getS f = (\<lambda>s. (Inr (f s), s))"

definition modifyS :: "('s \<Rightarrow> 's) \<Rightarrow> ('s, unit) sres" where
  "modifyS f = (\<lambda>s. (Inr (), f s))"

definition bindS :: "('s, 'a) sres \<Rightarrow> ('a \<Rightarrow> ('s, 'b) sres) \<Rightarrow> ('s, 'b) sres" where
  "bindS m f = (\<lambda>s. case m s of (r, s') \<Rightarrow> (case r of Inl e \<Rightarrow> (Inl e, s') | Inr x \<Rightarrow> f x s'))"

lemma retS_app [simp, res_simps]: "retS x s = (Inr x, s)"
  by (simp add: retS_def)

lemma throwS_app [simp, res_simps]: "throwS e s = (Inl e, s)"
  by (simp add: throwS_def)

lemma liftS_app [simp, res_simps]: "liftS r s = (r, s)"
  by (simp add: liftS_def)

lemma getS_app [simp, res_simps]: "getS f s = (Inr (f s), s)"
  by (simp add: getS_def)

lemma modifyS_app [simp, res_simps]: "modifyS f s = (Inr (), f s)"
  by (simp add: modifyS_def)

lemma bindS_app:
  "bindS m f s = (case m s of (r, s') \<Rightarrow> (case r of Inl e \<Rightarrow> (Inl e, s') | Inr x \<Rightarrow> f x s'))"
  by (simp add: bindS_def)

lemma bindS_Inr [simp, res_simps]: "m s = (Inr x, s') \<Longrightarrow> bindS m f s = f x s'"
  by (simp add: bindS_app)

lemma bindS_Inl [simp, res_simps]: "m s = (Inl e, s') \<Longrightarrow> bindS m f s = (Inl e, s')"
  by (simp add: bindS_app)

lemma bindS_eq_Inr:
  "bindS m f s = (Inr y, t) \<longleftrightarrow> (\<exists>x s'. m s = (Inr x, s') \<and> f x s' = (Inr y, t))"
  by (cases "m s"; cases "fst (m s)") (auto simp: bindS_app)

lemma bindS_E:
  assumes "bindS m f s = (Inr y, t)"
  obtains x s' where "m s = (Inr x, s')" and "f x s' = (Inr y, t)"
  using assms by (auto simp: bindS_eq_Inr)

lemma bindS_cong [fundef_cong]:
  "m s = m' s' \<Longrightarrow> (\<And>x t. m' s' = (Inr x, t) \<Longrightarrow> f x t = f' x t) \<Longrightarrow> s = s'
   \<Longrightarrow> bindS m f s = bindS m' f' s'"
  by (cases "m' s'"; cases "fst (m' s')") (auto simp: bindS_app)

section \<open>Checked access to buffers\<close>

definition get_at :: "'a list \<Rightarrow> nat \<Rightarrow> 'a res" where
  "get_at xs i = (if i < length xs then Inr (xs ! i) else panic)"

definition set_at :: "'a list \<Rightarrow> nat \<Rightarrow> 'a \<Rightarrow> 'a list res" where
  "set_at xs i x = (if i < length xs then Inr (xs[i := x]) else panic)"

definition slice_of :: "'a list \<Rightarrow> nat \<Rightarrow> nat \<Rightarrow> 'a list" where
  "slice_of xs a n = take n (drop a xs)"

definition slice :: "'a list \<Rightarrow> nat \<Rightarrow> nat \<Rightarrow> 'a list res" where
  "slice xs a b = (if a \<le> b \<and> b \<le> length xs then Inr (slice_of xs a (b - a)) else panic)"

definition overlay :: "'a list \<Rightarrow> nat \<Rightarrow> 'a list \<Rightarrow> 'a list" where
  "overlay xs a ys = take a xs @ ys @ drop (a + length ys) xs"

definition copy_at :: "'a list \<Rightarrow> nat \<Rightarrow> 'a list \<Rightarrow> 'a list res" where
  "copy_at xs a ys = (if a + length ys \<le> length xs then Inr (overlay xs a ys) else panic)"

lemma get_at_eq_Inr [simp]: "get_at xs i = Inr x \<longleftrightarrow> i < length xs \<and> x = xs ! i"
  by (auto simp: get_at_def)

lemma set_at_eq_Inr [simp]: "set_at xs i x = Inr ys \<longleftrightarrow> i < length xs \<and> ys = xs[i := x]"
  by (auto simp: set_at_def)

lemma slice_eq_Inr [simp]:
  "slice xs a b = Inr ys \<longleftrightarrow> a \<le> b \<and> b \<le> length xs \<and> ys = slice_of xs a (b - a)"
  by (auto simp: slice_def)

lemma copy_at_eq_Inr [simp]:
  "copy_at xs a ys = Inr zs \<longleftrightarrow> a + length ys \<le> length xs \<and> zs = overlay xs a ys"
  by (auto simp: copy_at_def)

lemma length_slice_of [simp, len_simps]: "length (slice_of xs a n) = min n (length xs - a)"
  by (simp add: slice_of_def)

lemma length_overlay [simp, len_simps]:
  "a + length ys \<le> length xs \<Longrightarrow> length (overlay xs a ys) = length xs"
  by (simp add: overlay_def)

lemma overlay_Nil [simp]: "overlay xs a [] = xs"
  by (simp add: overlay_def)

lemma nth_overlay:
  assumes "a + length ys \<le> length xs" and "i < length xs"
  shows "overlay xs a ys ! i = (if a \<le> i \<and> i < a + length ys then ys ! (i - a) else xs ! i)"
  using assms by (auto simp: overlay_def nth_append min_def)

lemma nth_slice_of [simp]: "i < n \<Longrightarrow> a + i < length xs \<Longrightarrow> slice_of xs a n ! i = xs ! (a + i)"
  by (simp add: slice_of_def)

lemma slice_of_eqI:
  assumes "a + n \<le> length xs" and "length ys = n" and "\<And>i. i < n \<Longrightarrow> xs ! (a + i) = ys ! i"
  shows "slice_of xs a n = ys"
  using assms by (intro nth_equalityI) auto

lemma slice_of_overlay_same:
  "a + length ys \<le> length xs \<Longrightarrow> slice_of (overlay xs a ys) a (length ys) = ys"
  by (simp add: slice_of_def overlay_def)

lemma slice_of_overlay_within:
  assumes "a + length ys \<le> length xs" and "a \<le> b" and "b + n \<le> a + length ys"
  shows "slice_of (overlay xs a ys) b n = slice_of ys (b - a) n"
  using assms by (intro slice_of_eqI) (auto simp: nth_overlay)

lemma slice_of_overlay_other:
  assumes "a + length ys \<le> length xs" and "b + n \<le> a \<or> a + length ys \<le> b"
  shows "slice_of (overlay xs a ys) b n = slice_of xs b n"
proof (rule nth_equalityI)
  show "length (slice_of (overlay xs a ys) b n) = length (slice_of xs b n)"
    using assms by simp
next
  fix i assume "i < length (slice_of (overlay xs a ys) b n)"
  then have "i < n" and "b + i < length xs" using assms by auto
  with assms show "slice_of (overlay xs a ys) b n ! i = slice_of xs b n ! i"
    by (auto simp: nth_overlay)
qed

lemma slice_of_append_right: "slice_of (xs @ ys) (length xs) n = take n ys"
  by (simp add: slice_of_def)

lemma slice_of_middle: "slice_of (xs @ ys @ zs) (length xs) (length ys) = ys"
  by (simp add: slice_of_def)

lemma slice_of_all: "n = length xs \<Longrightarrow> slice_of xs 0 n = xs"
  by (simp add: slice_of_def)

lemma slice_of_append: "slice_of xs a m @ slice_of xs (a + m) n = slice_of xs a (m + n)"
  by (simp add: slice_of_def take_add add.commute)

lemma slice_of_slice_of:
  "slice_of (slice_of xs a n) b m = slice_of xs (a + b) (min m (n - b))"
  by (simp add: slice_of_def drop_take add.commute min.commute)

lemma set_conv_overlay: "i < length xs \<Longrightarrow> xs[i := x] = overlay xs i [x]"
  by (simp add: overlay_def upd_conv_take_nth_drop)

section \<open>Signed 64-bit values\<close>

lemma uint_eq_sint_mod: "uint (v :: i64) = sint v mod 2 ^ 64"
  using uint_word_of_int [of "sint v", where 'a = 64] by simp

lemma sint_range_64: "- (2 ^ 63) \<le> sint (v :: i64)" "sint (v :: i64) < 2 ^ 63"
  using sint_greater_eq [of v] sint_less [of v] by simp_all

lemma sint_neg_iff_bit: "sint (v :: i64) < 0 \<longleftrightarrow> bit v 63"
  by (simp add: sint_uint signed_take_bit_negative_iff bit_uint_iff)

lemma uint_nonneg: "0 \<le> sint (v :: i64) \<Longrightarrow> uint v = sint v"
  using sint_range_64 [of v] by (simp add: uint_eq_sint_mod)

lemma uint_negative: "sint (v :: i64) < 0 \<Longrightarrow> uint v = sint v + 2 ^ 64"
  using sint_range_64 [of v] zmod_trivial_iff [of "sint v + 2 ^ 64" "2 ^ 64"]
  by (simp add: uint_eq_sint_mod)

lemma unat_nonneg: "0 \<le> sint (v :: i64) \<Longrightarrow> unat v = nat (sint v)"
  by (simp add: unat_eq_nat_uint uint_nonneg del: nat_uint_eq)

lemma unat_less_63_iff: "unat (v :: i64) < 2 ^ 63 \<longleftrightarrow> 0 \<le> sint v"
proof (cases "0 \<le> sint v")
  case True
  then show ?thesis using sint_range_64 [of v] by (simp add: unat_nonneg nat_less_iff)
next
  case False
  then have "uint v = sint v + 2 ^ 64" by (simp add: uint_negative)
  then have "2 ^ 63 \<le> uint v" using sint_range_64 [of v] by simp
  then have "2 ^ 63 \<le> unat v" by (simp add: unat_eq_nat_uint le_nat_iff del: nat_uint_eq)
  with False show ?thesis by simp
qed

end
