(* ===== verification/Float64.thy ===== *)
theory Float64
  imports Prelude
begin

text \<open>
  What the code uses of Rust's \<^verbatim>\<open>f64\<close> and of the number parsing and printing of its standard
  library: an IEEE 754 double is its 64 bits. Comparison, conversion from and to \<^verbatim>\<open>i64\<close>, the
  arithmetic operations (exact rational result, rounded to nearest even), \<^verbatim>\<open>parse\<close> and
  \<^verbatim>\<open>to_string\<close> (the shortest decimal that reads back as the same double).
\<close>

type_synonym f64 = "64 word"

section \<open>Classification and order\<close>

definition f64_magnitude :: "f64 \<Rightarrow> nat" where
  "f64_magnitude x = unat (take_bit 63 x)"

definition f64_negative :: "f64 \<Rightarrow> bool" where
  "f64_negative x = bit x 63"

definition f64_inf_bits :: nat where
  "f64_inf_bits = 0x7ff0000000000000"

definition f64_is_nan :: "f64 \<Rightarrow> bool" where
  "f64_is_nan x = (f64_inf_bits < f64_magnitude x)"

definition f64_is_infinite :: "f64 \<Rightarrow> bool" where
  "f64_is_infinite x = (f64_magnitude x = f64_inf_bits)"

text \<open>The magnitude bits of a non-NaN double are ordered as its absolute value is.\<close>

definition f64_key :: "f64 \<Rightarrow> int" where
  "f64_key x = (if f64_negative x then - int (f64_magnitude x) else int (f64_magnitude x))"

datatype ordering = Less | Equal | Greater

fun reverse_ordering :: "ordering \<Rightarrow> ordering" where
  "reverse_ordering Less = Greater"
| "reverse_ordering Equal = Equal"
| "reverse_ordering Greater = Less"

definition cmp :: "'a::linorder \<Rightarrow> 'a \<Rightarrow> ordering" where
  "cmp a b = (if a < b then Less else if a = b then Equal else Greater)"

definition f64_partial_cmp :: "f64 \<Rightarrow> f64 \<Rightarrow> ordering option" where
  "f64_partial_cmp a b =
     (if f64_is_nan a \<or> f64_is_nan b then None else Some (cmp (f64_key a) (f64_key b)))"

section \<open>Rounding and conversions\<close>

fun bitlen :: "nat \<Rightarrow> nat" where
  "bitlen n = (if n = 0 then 0 else Suc (bitlen (n div 2)))"

declare bitlen.simps [simp del]

definition round_half_even :: "nat \<Rightarrow> nat \<Rightarrow> nat" where
  "round_half_even p q =
     (let d = p div q; r = p mod q in
      if 2 * r < q \<or> (2 * r = q \<and> even d) then d else d + 1)"

definition f64_assemble :: "bool \<Rightarrow> nat \<Rightarrow> f64" where
  "f64_assemble neg b = (if neg then set_bit 63 (of_nat b) else of_nat b)"

text \<open>The double nearest to \<open>p / q\<close> (\<open>0 < q\<close>), with the given sign. \<open>e\<close> is the exponent of the
  last place; the bits of the result are \<open>(e + 1074) * 2 ^ 52\<close> plus the rounded significand.\<close>

definition f64_round :: "bool \<Rightarrow> nat \<Rightarrow> nat \<Rightarrow> f64" where
  "f64_round neg p q =
     (if p = 0 then f64_assemble neg 0
      else (let k = int (bitlen p) - int (bitlen q);
                fl = (if q * 2 ^ nat k \<le> p * 2 ^ nat (- k) then k else k - 1);
                e = max (- 1074) (fl - 52);
                n = (if 0 \<le> e then round_half_even p (q * 2 ^ nat e)
                     else round_half_even (p * 2 ^ nat (- e)) q);
                b = nat (e + 1074) * 2 ^ 52 + n
            in f64_assemble neg (min b f64_inf_bits)))"

text \<open>A finite double is its signed significand times two to its exponent.\<close>

definition f64_exponent :: "f64 \<Rightarrow> int" where
  "f64_exponent x = max 1 (int (f64_magnitude x div 2 ^ 52)) - 1075"

definition f64_significand :: "f64 \<Rightarrow> nat" where
  "f64_significand x =
     (if f64_magnitude x < 2 ^ 52 then f64_magnitude x
      else 2 ^ 52 + f64_magnitude x mod 2 ^ 52)"

definition f64_of_int :: "int \<Rightarrow> f64" where
  "f64_of_int i = f64_round (i < 0) (nat \<bar>i\<bar>) 1"

definition f64_of_i64 :: "i64 \<Rightarrow> f64" where
  "f64_of_i64 i = f64_of_int (sint i)"

text \<open>\<open>r as i64\<close>: towards zero, saturating, zero for NaN.\<close>

definition f64_trunc_nat :: "f64 \<Rightarrow> nat" where
  "f64_trunc_nat x =
     (let e = f64_exponent x; m = f64_significand x in
      if 0 \<le> e then m * 2 ^ nat e else m div 2 ^ nat (- e))"

definition f64_to_i64 :: "f64 \<Rightarrow> i64" where
  "f64_to_i64 x =
     (if f64_is_nan x then 0
      else (let t = int (f64_trunc_nat x); i = (if f64_negative x then - t else t) in
        word_of_int (max (- (2 ^ 63)) (min (2 ^ 63 - 1) i))))"

text \<open>\<open>r.fract() == 0.0\<close>, which is false for NaN and infinities.\<close>

definition f64_is_integral :: "f64 \<Rightarrow> bool" where
  "f64_is_integral x =
     (f64_magnitude x < f64_inf_bits \<and>
      (0 \<le> f64_exponent x \<or> f64_significand x mod 2 ^ nat (- f64_exponent x) = 0))"

section \<open>Printing\<close>

definition digit_char :: "nat \<Rightarrow> char" where
  "digit_char d = char_of (48 + d)"

fun nat_to_string :: "nat \<Rightarrow> string" where
  "nat_to_string n =
     (if n < 10 then [digit_char n] else nat_to_string (n div 10) @ [digit_char (n mod 10)])"

declare nat_to_string.simps [simp del]

definition int_to_string :: "int \<Rightarrow> string" where
  "int_to_string i = (if i < 0 then CHR ''-'' # nat_to_string (nat (- i)) else nat_to_string (nat i))"

definition i64_to_string :: "i64 \<Rightarrow> string" where
  "i64_to_string i = int_to_string (sint i)"

text \<open>\<open>format!("{:.0}", r)\<close> of an integral double.\<close>

definition f64_format_0 :: "f64 \<Rightarrow> string" where
  "f64_format_0 x = (if f64_negative x then ''-'' else []) @ nat_to_string (f64_trunc_nat x)"

text \<open>
  The shortest digits. A double \<open>x = p / q\<close> with neighbours owns the decimals in the interval
  between the midpoints to them, ends included when its significand is even. \<open>pow10\<close> scales by a
  power of ten; \<open>dec_digits\<close> is the \<open>k\<close> with \<open>10 ^ (k - 1) \<le> x < 10 ^ k\<close>; the search tries
  \<open>n = 1, 2, \<dots>\<close> digits and rounds to the nearer of the two candidates inside, ties up.
\<close>

definition scale10 :: "nat \<times> nat \<Rightarrow> int \<Rightarrow> nat \<times> nat" where
  "scale10 x k = (if 0 \<le> k then (fst x * 10 ^ nat k, snd x) else (fst x, snd x * 10 ^ nat (- k)))"

definition f64_ratio :: "nat \<Rightarrow> int \<Rightarrow> nat \<times> nat" where
  "f64_ratio m e = (if 0 \<le> e then (m * 2 ^ nat e, 1) else (m, 2 ^ nat (- e)))"

fun dec_digits :: "nat \<Rightarrow> nat \<times> nat \<Rightarrow> int \<Rightarrow> int" where
  "dec_digits 0 x k = k"
| "dec_digits (Suc fuel) x k =
     (if fst (scale10 x (- k)) \<ge> snd (scale10 x (- k)) then dec_digits fuel x (k + 1) else k)"

definition in_interval :: "bool \<Rightarrow> nat \<times> nat \<Rightarrow> nat \<times> nat \<Rightarrow> nat \<times> nat \<Rightarrow> bool" where
  "in_interval closed lo hi c =
     (if closed then fst lo * snd c \<le> fst c * snd lo \<and> fst c * snd hi \<le> fst hi * snd c
      else fst lo * snd c < fst c * snd lo \<and> fst c * snd hi < fst hi * snd c)"

fun shortest :: "nat \<Rightarrow> nat \<Rightarrow> int \<Rightarrow> bool \<Rightarrow> nat \<times> nat \<Rightarrow> nat \<times> nat \<Rightarrow> nat \<times> nat \<Rightarrow> nat \<times> int" where
  "shortest 0 n k closed lo hi x = (0, 0)"
| "shortest (Suc fuel) n k closed lo hi x =
     (let t = k - int n;
          s = scale10 x (- t);
          c = fst s div snd s;
          down = in_interval closed lo hi (scale10 (c, 1) t);
          up = in_interval closed lo hi (scale10 (c + 1, 1) t)
      in if up \<and> (\<not> down \<or> snd s \<le> 2 * (fst s mod snd s)) then (c + 1, t)
         else if down then (c, t)
         else shortest fuel (n + 1) k closed lo hi x)"

fun strip_zeros :: "nat \<Rightarrow> nat \<Rightarrow> int \<Rightarrow> nat \<times> int" where
  "strip_zeros 0 c t = (c, t)"
| "strip_zeros (Suc fuel) c t =
     (if c \<noteq> 0 \<and> c mod 10 = 0 then strip_zeros fuel (c div 10) (t + 1) else (c, t))"

definition positional :: "nat \<Rightarrow> int \<Rightarrow> string" where
  "positional c t =
     (let ds = nat_to_string c in
      if 0 \<le> t then ds @ replicate (nat t) (CHR ''0'')
      else (let f = nat (- t) in
        if f < length ds then take (length ds - f) ds @ ''.'' @ drop (length ds - f) ds
        else ''0.'' @ replicate (f - length ds) (CHR ''0'') @ ds))"

definition f64_shortest :: "f64 \<Rightarrow> nat \<times> int" where
  "f64_shortest x =
     (let m = f64_significand x; e = f64_exponent x;
          r = f64_ratio (4 * m) (e - 2);
          hi = f64_ratio (4 * m + 2) (e - 2);
          lo = (if m = 2 ^ 52 \<and> - 1074 < e then f64_ratio (4 * m - 1) (e - 2)
                else f64_ratio (4 * m - 2) (e - 2));
          k = dec_digits 700 r (- 330);
          (c, t) = shortest 20 1 k (even m) lo hi r
      in strip_zeros 20 c t)"

definition f64_to_string :: "f64 \<Rightarrow> string" where
  "f64_to_string x =
     (if f64_is_nan x then ''NaN''
      else (if f64_negative x then ''-'' else []) @
        (if f64_is_infinite x then ''inf''
         else if f64_magnitude x = 0 then ''0''
         else (case f64_shortest x of (c, t) \<Rightarrow> positional c t)))"

text \<open>\<open>format!("{:?}", r)\<close>: at least one decimal, scientific from \<open>1e16\<close> on and below \<open>1e-4\<close>.\<close>

definition scientific :: "nat \<Rightarrow> int \<Rightarrow> string" where
  "scientific c t =
     (let ds = nat_to_string c in
      take 1 ds @ (if length ds = 1 then [] else ''.'' @ drop 1 ds)
      @ ''e'' @ int_to_string (t + int (length ds) - 1))"

definition f64_debug :: "f64 \<Rightarrow> string" where
  "f64_debug x =
     (if f64_is_nan x then ''NaN''
      else (if f64_negative x then ''-'' else []) @
        (if f64_is_infinite x then ''inf''
         else if f64_magnitude x = 0 then ''0.0''
         else (case f64_shortest x of (c, t) \<Rightarrow>
           (let k = t + int (length (nat_to_string c)) in
            if 16 < k \<or> k < - 3 then scientific c t
            else if 0 \<le> t then positional c t @ ''.0''
            else positional c t))))"

section \<open>Parsing\<close>

definition is_digit :: "char \<Rightarrow> bool" where
  "is_digit c = (48 \<le> (of_char c :: nat) \<and> (of_char c :: nat) \<le> 57)"

definition digit_value :: "char \<Rightarrow> nat" where
  "digit_value c = (of_char c :: nat) - 48"

definition digits_value :: "string \<Rightarrow> nat" where
  "digits_value ds = foldl (\<lambda>n d. 10 * n + digit_value d) 0 ds"

definition split_sign :: "string \<Rightarrow> bool \<times> string" where
  "split_sign s =
     (case s of [] \<Rightarrow> (False, [])
      | c # cs \<Rightarrow> (if c = CHR ''-'' then (True, cs) else if c = CHR ''+'' then (False, cs)
                  else (False, s)))"

definition parse_i64 :: "string \<Rightarrow> i64 option" where
  "parse_i64 s =
     (let (neg, ds) = split_sign s in
      if ds = [] \<or> \<not> list_all is_digit ds then None
      else (let n = int (digits_value ds); i = (if neg then - n else n) in
        if - (2 ^ 63) \<le> i \<and> i < 2 ^ 63 then Some (word_of_int i) else None))"

definition ascii_lower :: "char \<Rightarrow> char" where
  "ascii_lower c =
     (if 65 \<le> (of_char c :: nat) \<and> (of_char c :: nat) \<le> 90 then char_of ((of_char c :: nat) + 32) else c)"

definition parse_exponent :: "string \<Rightarrow> int option" where
  "parse_exponent s =
     (case s of [] \<Rightarrow> Some 0
      | c # cs \<Rightarrow>
        (if ascii_lower c = CHR ''e'' then
           (let (neg, ds) = split_sign cs in
            if ds = [] \<or> \<not> list_all is_digit ds then None
            else Some (if neg then - int (digits_value ds) else int (digits_value ds)))
         else None))"

definition parse_decimal :: "bool \<Rightarrow> string \<Rightarrow> f64 option" where
  "parse_decimal neg s =
     (let ip = takeWhile is_digit s; r1 = dropWhile is_digit s;
          (fp, r2) = (case r1 of c # cs \<Rightarrow> (if c = CHR ''.'' then (takeWhile is_digit cs, dropWhile is_digit cs)
                                          else ([], r1)) | [] \<Rightarrow> ([], []))
      in if ip = [] \<and> fp = [] then None
         else (case parse_exponent r2 of None \<Rightarrow> None
               | Some e \<Rightarrow>
                 (let x = scale10 (digits_value (ip @ fp), 1) (e - int (length fp))
                  in Some (f64_round neg (fst x) (snd x)))))"

definition parse_f64 :: "string \<Rightarrow> f64 option" where
  "parse_f64 s =
     (let (neg, r) = split_sign s; l = map ascii_lower r in
      if l = ''inf'' \<or> l = ''infinity'' then Some (f64_assemble neg f64_inf_bits)
      else if l = ''nan'' then Some (f64_assemble neg 0x7ff8000000000000)
      else parse_decimal neg r)"

end
