(* ===== verification/Values.thy ===== *)
theory Values
  imports Float64 "HOL-Library.List_Lexorder"
begin

text \<open>
  \<^verbatim>\<open>sqllite-core/src/types.rs\<close>: SQL values, their conversions and comparison, and column affinity.
  A Rust \<^verbatim>\<open>String\<close> is its UTF-8 bytes, held as a \<open>string\<close> (a \<open>char\<close> is a byte); byte strings are
  ordered lexicographically. \<^verbatim>\<open>String::from_utf8_lossy\<close> is modelled after the standard library's
  decoder, which replaces each maximal invalid prefix by U+FFFD.
\<close>

section \<open>Strings as bytes\<close>

definition str_bytes :: "string \<Rightarrow> bytes" where
  "str_bytes s = map (\<lambda>c. of_nat (of_char c)) s"

definition bytes_str :: "bytes \<Rightarrow> string" where
  "bytes_str bs = map (\<lambda>b. char_of (unat b)) bs"

lemma unat_lt_256: "unat (b :: u8) < 256"
  using unsigned_less [of b] by simp

lemma str_bytes_inverse [simp]: "bytes_str (str_bytes s) = s"
  by (simp add: bytes_str_def str_bytes_def o_def unat_of_nat)

lemma bytes_str_inverse [simp]: "str_bytes (bytes_str bs) = bs"
  by (simp add: bytes_str_def str_bytes_def o_def unat_lt_256)

lemma length_str_bytes [simp, len_simps]: "length (str_bytes s) = length s"
  by (simp add: str_bytes_def)

lemma length_bytes_str [simp, len_simps]: "length (bytes_str bs) = length bs"
  by (simp add: bytes_str_def)

section \<open>UTF-8 decoding\<close>

definition is_cont :: "u8 \<Rightarrow> bool" where
  "is_cont b = (b AND 0xc0 = 0x80)"

text \<open>A read past the end of the input delivers 0, as the decoder's \<^verbatim>\<open>safe_get\<close> does.\<close>

definition byte_or_0 :: "bytes \<Rightarrow> nat \<Rightarrow> u8" where
  "byte_or_0 bs i = (if i < length bs then bs ! i else 0)"

definition second_ok :: "u8 \<Rightarrow> u8 \<Rightarrow> bool" where
  "second_ok b c =
     (if b < 0xe0 then is_cont c
      else if b = 0xe0 then 0xa0 \<le> c \<and> c \<le> 0xbf
      else if b = 0xed then 0x80 \<le> c \<and> c \<le> 0x9f
      else if b = 0xf0 then 0x90 \<le> c \<and> c \<le> 0xbf
      else if b = 0xf4 then 0x80 \<le> c \<and> c \<le> 0x8f
      else 0x80 \<le> c \<and> c \<le> 0xbf)"

definition utf8_width :: "u8 \<Rightarrow> nat" where
  "utf8_width b =
     (if b < 0x80 then 1 else if b < 0xc2 then 0 else if b < 0xe0 then 2
      else if b < 0xf0 then 3 else if b < 0xf5 then 4 else 0)"

text \<open>The length of the first chunk and whether it is a character.\<close>

definition utf8_step :: "bytes \<Rightarrow> nat \<times> bool" where
  "utf8_step bs =
     (let b = byte_or_0 bs 0; w = utf8_width b in
      if w = 0 then (1, False)
      else if w = 1 then (1, True)
      else if \<not> second_ok b (byte_or_0 bs 1) then (1, False)
      else if w = 2 then (2, True)
      else if \<not> is_cont (byte_or_0 bs 2) then (2, False)
      else if w = 3 then (3, True)
      else if \<not> is_cont (byte_or_0 bs 3) then (3, False)
      else (4, True))"

lemma utf8_step_pos [simp]: "0 < fst (utf8_step bs)"
  by (simp add: utf8_step_def Let_def)

function utf8_lossy :: "bytes \<Rightarrow> bytes" where
  "utf8_lossy bs =
     (if bs = [] then []
      else (if snd (utf8_step bs) then take (fst (utf8_step bs)) bs else [0xef, 0xbf, 0xbd])
           @ utf8_lossy (drop (fst (utf8_step bs)) bs))"
  by pat_completeness auto
termination
  by (relation "measure length") (auto intro: diff_less)

function utf8_valid :: "bytes \<Rightarrow> bool" where
  "utf8_valid bs =
     (if bs = [] then True
      else if snd (utf8_step bs) then utf8_valid (drop (fst (utf8_step bs)) bs) else False)"
  by pat_completeness auto
termination
  by (relation "measure length") (auto intro: diff_less)

declare utf8_lossy.simps [simp del] utf8_valid.simps [simp del]

definition from_utf8_lossy :: "bytes \<Rightarrow> string" where
  "from_utf8_lossy bs = bytes_str (utf8_lossy bs)"

lemma utf8_lossy_valid: "utf8_valid bs \<Longrightarrow> utf8_lossy bs = bs"
proof (induction bs rule: utf8_lossy.induct)
  case (1 bs)
  show ?case
  proof (cases "bs = []")
    case False
    with 1 have "utf8_lossy (drop (fst (utf8_step bs)) bs) = drop (fst (utf8_step bs)) bs"
      and "snd (utf8_step bs)"
      by (auto simp: utf8_valid.simps [of bs] split: if_splits)
    then show ?thesis by (subst utf8_lossy.simps) simp
  qed (subst utf8_lossy.simps, simp)
qed

definition text_ok :: "string \<Rightarrow> bool" where
  "text_ok s = utf8_valid (str_bytes s)"

lemma from_utf8_lossy_text: "text_ok s \<Longrightarrow> from_utf8_lossy (str_bytes s) = s"
  by (simp add: from_utf8_lossy_def text_ok_def utf8_lossy_valid)

lemma utf8_valid_ascii: "\<forall>b \<in> set bs. b < 0x80 \<Longrightarrow> utf8_valid bs"
proof (induction bs)
  case (Cons b bs)
  then have "utf8_step (b # bs) = (1, True)"
    by (simp add: utf8_step_def utf8_width_def byte_or_0_def)
  with Cons show ?case by (subst utf8_valid.simps) simp
qed (subst utf8_valid.simps, simp)

section \<open>Values\<close>

datatype affinity = AffText | AffNumeric | AffInteger | AffReal | AffBlob

fun affinity_from_char :: "char \<Rightarrow> affinity" where
  "affinity_from_char c =
     (if c = CHR ''t'' \<or> c = CHR ''T'' then AffText
      else if c = CHR ''i'' \<or> c = CHR ''I'' then AffInteger
      else if c = CHR ''r'' \<or> c = CHR ''R'' then AffReal
      else if c = CHR ''b'' \<or> c = CHR ''B'' then AffBlob
      else AffNumeric)"

fun affinity_as_char :: "affinity \<Rightarrow> char" where
  "affinity_as_char AffText = CHR ''t''"
| "affinity_as_char AffNumeric = CHR ''n''"
| "affinity_as_char AffInteger = CHR ''i''"
| "affinity_as_char AffReal = CHR ''r''"
| "affinity_as_char AffBlob = CHR ''b''"

datatype val = VNull | VInteger i64 | VReal f64 | VText string | VBlob bytes

definition is_null :: "val \<Rightarrow> bool" where
  "is_null v = (v = VNull)"

fun as_integer :: "val \<Rightarrow> i64 option" where
  "as_integer (VInteger i) = Some i"
| "as_integer (VReal r) = Some (f64_to_i64 r)"
| "as_integer (VText s) = parse_i64 s"
| "as_integer _ = None"

fun as_real :: "val \<Rightarrow> f64 option" where
  "as_real (VInteger i) = Some (f64_of_i64 i)"
| "as_real (VReal r) = Some r"
| "as_real (VText s) = parse_f64 s"
| "as_real _ = None"

fun as_text :: "val \<Rightarrow> string option" where
  "as_text (VText s) = Some s"
| "as_text (VInteger i) = None"
| "as_text (VReal r) = None"
| "as_text VNull = None"
| "as_text (VBlob b) = None"

definition real_to_text :: "f64 \<Rightarrow> string" where
  "real_to_text r =
     (if f64_is_integral r \<and> f64_trunc_nat r < 9007199254740992 then f64_format_0 r
      else f64_to_string r)"

fun to_text :: "val \<Rightarrow> string" where
  "to_text VNull = []"
| "to_text (VInteger i) = i64_to_string i"
| "to_text (VReal r) = real_to_text r"
| "to_text (VText s) = s"
| "to_text (VBlob b) = from_utf8_lossy b"

fun val_affinity :: "val \<Rightarrow> affinity" where
  "val_affinity VNull = AffText"
| "val_affinity (VInteger i) = AffInteger"
| "val_affinity (VReal r) = AffReal"
| "val_affinity (VText s) = AffText"
| "val_affinity (VBlob b) = AffBlob"

definition cmp_f64 :: "f64 \<Rightarrow> f64 \<Rightarrow> ordering" where
  "cmp_f64 a b = (case f64_partial_cmp a b of Some c \<Rightarrow> c | None \<Rightarrow> Equal)"

definition cmp_text :: "string \<Rightarrow> string \<Rightarrow> ordering" where
  "cmp_text a b = cmp (str_bytes a) (str_bytes b)"

fun compare_val :: "val \<Rightarrow> val \<Rightarrow> ordering" where
  "compare_val VNull VNull = Equal"
| "compare_val VNull _ = Less"
| "compare_val _ VNull = Greater"
| "compare_val (VInteger a) (VInteger b) = cmp (sint a) (sint b)"
| "compare_val (VInteger a) (VReal b) = cmp_f64 (f64_of_i64 a) b"
| "compare_val (VReal a) (VInteger b) = cmp_f64 a (f64_of_i64 b)"
| "compare_val (VReal a) (VReal b) = cmp_f64 a b"
| "compare_val (VText a) (VText b) = cmp_text a b"
| "compare_val (VBlob a) (VBlob b) = cmp a b"
| "compare_val a b = cmp_text (to_text a) (to_text b)"

definition apply_affinity :: "val \<Rightarrow> affinity \<Rightarrow> val" where
  "apply_affinity v aff =
     (if v = VNull then VNull
      else case aff of
        AffText \<Rightarrow> VText (to_text v)
      | AffInteger \<Rightarrow> (case as_integer v of Some i \<Rightarrow> VInteger i | None \<Rightarrow> v)
      | AffReal \<Rightarrow> (case as_real v of Some r \<Rightarrow> VReal r | None \<Rightarrow> v)
      | AffNumeric \<Rightarrow> (case as_integer v of Some i \<Rightarrow> VInteger i
          | None \<Rightarrow> (case as_real v of Some r \<Rightarrow> VReal r | None \<Rightarrow> VText (to_text v)))
      | AffBlob \<Rightarrow> (case v of VBlob b \<Rightarrow> VBlob b | _ \<Rightarrow> VBlob (str_bytes (to_text v))))"

section \<open>Comparison\<close>

lemma reverse_reverse [simp]: "reverse_ordering (reverse_ordering c) = c"
  by (cases c) auto

lemma cmp_swap: "cmp b a = reverse_ordering (cmp a (b :: 'a :: linorder))"
  by (auto simp: cmp_def)

lemma cmp_eq_simps:
  "cmp a b = Equal \<longleftrightarrow> a = b" "cmp a b = Less \<longleftrightarrow> a < b" "cmp a b = Greater \<longleftrightarrow> b < (a :: 'a :: linorder)"
  by (auto simp: cmp_def)

lemma cmp_f64_swap: "cmp_f64 b a = reverse_ordering (cmp_f64 a b)"
  by (auto simp: cmp_f64_def f64_partial_cmp_def intro: cmp_swap)

text \<open>
  Comparing in the other direction gives the opposite answer, for every pair of values of any
  storage classes, NaN included.
\<close>

lemma compare_antisymmetric: "compare_val b a = reverse_ordering (compare_val a b)"
  by (cases a; cases b) (auto simp: cmp_text_def intro: cmp_swap cmp_f64_swap)

fun is_nan_val :: "val \<Rightarrow> bool" where
  "is_nan_val (VReal r) = f64_is_nan r"
| "is_nan_val _ = False"

fun same_class :: "val \<Rightarrow> val \<Rightarrow> bool" where
  "same_class VNull b = True"
| "same_class a VNull = True"
| "same_class (VInteger a) (VInteger b) = True"
| "same_class (VReal a) (VReal b) = True"
| "same_class (VText a) (VText b) = True"
| "same_class (VBlob a) (VBlob b) = True"
| "same_class a b = False"

lemma cmp_f64_le_iff:
  "\<not> f64_is_nan a \<Longrightarrow> \<not> f64_is_nan b \<Longrightarrow> cmp_f64 a b = cmp (f64_key a) (f64_key b)"
  by (simp add: cmp_f64_def f64_partial_cmp_def)

lemma cmp_trans: "cmp a b \<noteq> Greater \<Longrightarrow> cmp b c \<noteq> Greater \<Longrightarrow> cmp a (c :: 'a :: linorder) \<noteq> Greater"
  by (auto simp: cmp_def split: if_splits)

text \<open>
  Within one storage class, NULLs included and NaN excluded, the comparison is transitive, so
  that sorting a column of one class by it is sorting by a total preorder.
\<close>

lemma compare_transitive:
  assumes "same_class a b" and "same_class b c" and "same_class a c"
    and "\<not> is_nan_val a" and "\<not> is_nan_val b" and "\<not> is_nan_val c"
    and "compare_val a b \<noteq> Greater" and "compare_val b c \<noteq> Greater"
  shows "compare_val a c \<noteq> Greater"
proof (cases "a = VNull \<or> b = VNull \<or> c = VNull")
  case True
  with assms(7,8) show ?thesis by (cases a; cases b; cases c) auto
next
  case False
  with assms show ?thesis
    by (cases a; cases b; cases c)
       (auto simp: cmp_f64_le_iff cmp_text_def dest: cmp_trans)
qed

text \<open>
  Across classes it is not: an integer and a text are compared as texts, so 9 is below 10, 10 is
  below the text 9, and 9 is equal to the text 9.
\<close>

lemma compare_not_transitive:
  "compare_val (VInteger 9) (VInteger 10) = Less \<and> compare_val (VInteger 10) (VText ''9'') = Less
   \<and> compare_val (VInteger 9) (VText ''9'') = Equal"
  by (simp add: cmp_def cmp_text_def i64_to_string_def int_to_string_def nat_to_string.simps
      digit_char_def str_bytes_def)

end
