(* ===== verification/Varint.thy ===== *)
theory Varint
  imports Prelude
begin

text \<open>
  \<^verbatim>\<open>sqllite-core/src/varint.rs\<close>: the reader, the writer and the zigzag pair. The writer emits
  base-128 digits, seven bits to a byte; the reader shifts the ninth byte in by eight bits, so the
  two agree below \<open>2 ^ 56\<close> and only there, and the writer's nine-byte scratch array overflows at
  \<open>2 ^ 63\<close>.
\<close>

definition MAX_VARINT_LEN :: nat where [simp]: "MAX_VARINT_LEN = 9"

section \<open>Reading and writing\<close>

text \<open>The loop \<^verbatim>\<open>for i in 0..MAX_VARINT_LEN\<close>: the first argument counts the rounds left; none left
  is the code's \<^verbatim>\<open>unreachable!()\<close>.\<close>

fun read_varint_loop :: "nat \<Rightarrow> bytes \<Rightarrow> nat \<Rightarrow> nat \<Rightarrow> u64 \<Rightarrow> (u64 \<times> nat) res" where
  "read_varint_loop 0 data offset i result = panic"
| "read_varint_loop (Suc k) data offset i result =
     (if length data \<le> offset + i then sql_err RcCorrupt ''truncated varint''
      else (let byte = data ! (offset + i) in
        if i = MAX_VARINT_LEN - 1
        then Inr (push_bit 8 result OR ucast byte, MAX_VARINT_LEN)
        else (let result' = push_bit 7 result OR ucast (byte AND 0x7f) in
          if byte AND 0x80 = 0 then Inr (result', i + 1)
          else read_varint_loop k data offset (i + 1) result')))"

definition read_varint :: "bytes \<Rightarrow> nat \<Rightarrow> (u64 \<times> nat) res" where
  "read_varint data offset =
     (if length data \<le> offset then sql_err RcCorrupt ''truncated varint''
      else read_varint_loop MAX_VARINT_LEN data offset 0 0)"

text \<open>\<open>tmp\<close> is the filled part of the scratch array, so its length is the code's \<^verbatim>\<open>len\<close>.\<close>

lemma unat_drop_bit_7: "unat (drop_bit 7 (v :: u64)) = unat v div 128"
  unfolding unat_drop_bit_eq by (simp add: drop_bit_eq_div)

lemma drop_bit_7_less: "v \<noteq> (0 :: u64) \<Longrightarrow> unat (drop_bit 7 v) < unat v"
  unfolding unat_drop_bit_7 by (simp add: unat_gt_0)

function varint_digits :: "u64 \<Rightarrow> bytes \<Rightarrow> bytes res" where
  "varint_digits value tmp =
     (if value = 0 then Inr tmp
      else if length tmp < MAX_VARINT_LEN
      then varint_digits (drop_bit 7 value) (tmp @ [ucast (value AND 0x7f)])
      else panic)"
  by pat_completeness auto
termination
  by (relation "measure (\<lambda>(value, tmp). unat value)") (auto simp: drop_bit_7_less)

declare varint_digits.simps [simp del]

text \<open>The copy loop: \<^verbatim>\<open>buf[i] = tmp[len - 1 - i]\<close>, with the high bit on all but the last byte.\<close>

definition varint_marked :: "bytes \<Rightarrow> bytes" where
  "varint_marked tmp =
     map (\<lambda>i. let b = tmp ! (length tmp - 1 - i) in if i < length tmp - 1 then b OR 0x80 else b)
       [0..<length tmp]"

definition write_varint :: "u64 \<Rightarrow> bytes \<Rightarrow> (nat \<times> bytes) res" where
  "write_varint value buf =
     (if value = 0 then bindR (set_at buf 0 0) (\<lambda>buf. Inr (1, buf))
      else bindR (varint_digits value []) (\<lambda>tmp.
             bindR (copy_at buf 0 (varint_marked tmp)) (\<lambda>buf. Inr (length tmp, buf))))"

text \<open>The callers' idiom: \<^verbatim>\<open>let n = write_varint(x, &mut buf); v.extend_from_slice(&buf[..n])\<close> with
  a nine-byte \<^verbatim>\<open>buf\<close>.\<close>

definition put_varint :: "u64 \<Rightarrow> bytes \<Rightarrow> bytes res" where
  "put_varint x acc =
     bindR (write_varint x (replicate 9 0)) (\<lambda>(n, buf). bindR (slice buf 0 n) (\<lambda>bs. Inr (acc @ bs)))"

function varint_len_loop :: "u64 \<Rightarrow> nat \<Rightarrow> nat" where
  "varint_len_loop value len = (if value = 0 then len else varint_len_loop (drop_bit 7 value) (len + 1))"
  by pat_completeness auto
termination
  by (relation "measure (\<lambda>(value, len). unat value)") (auto simp: drop_bit_7_less)

declare varint_len_loop.simps [simp del]

definition varint_len :: "u64 \<Rightarrow> nat" where
  "varint_len value = (if value = 0 then 1 else varint_len_loop value 0)"

text \<open>Zigzag. \<^verbatim>\<open>-value\<close> overflows at the least integer.\<close>

definition read_signed_varint :: "bytes \<Rightarrow> nat \<Rightarrow> (i64 \<times> nat) res" where
  "read_signed_varint data offset =
     bindR (read_varint data offset) (\<lambda>(uv, n).
       Inr (if uv AND 1 = 1 then - drop_bit 1 uv - 1 else drop_bit 1 uv, n))"

definition zigzag :: "i64 \<Rightarrow> u64 res" where
  "zigzag value =
     (if sint value < 0
      then (if sint value = - (2 ^ 63) then panic else Inr (push_bit 1 (- value - 1) OR 1))
      else Inr (push_bit 1 value))"

definition write_signed_varint :: "i64 \<Rightarrow> bytes \<Rightarrow> (nat \<times> bytes) res" where
  "write_signed_varint value buf = bindR (zigzag value) (\<lambda>uv. write_varint uv buf)"

section \<open>The encoding as base-128 digits\<close>

function varint_be :: "u64 \<Rightarrow> bytes" where
  "varint_be v = (if v = 0 then [] else varint_be (drop_bit 7 v) @ [ucast (v AND 0x7f)])"
  by pat_completeness auto
termination
  by (relation "measure unat") (auto simp: drop_bit_7_less)

declare varint_be.simps [simp del]

fun mark_all_but_last :: "bytes \<Rightarrow> bytes" where
  "mark_all_but_last [] = []"
| "mark_all_but_last [b] = [b]"
| "mark_all_but_last (b # c # bs) = (b OR 0x80) # mark_all_but_last (c # bs)"

definition varint_enc :: "u64 \<Rightarrow> bytes" where
  "varint_enc v = (if v = 0 then [0] else mark_all_but_last (varint_be v))"

lemma varint_be_0 [simp]: "varint_be 0 = []"
  by (simp add: varint_be.simps)

lemma varint_be_nonzero:
  "v \<noteq> 0 \<Longrightarrow> varint_be v = varint_be (drop_bit 7 v) @ [ucast (v AND 0x7f)]"
  by (simp add: varint_be.simps [of v])

lemma length_mark [simp, len_simps]: "length (mark_all_but_last bs) = length bs"
  by (induction bs rule: mark_all_but_last.induct) auto

lemma nth_mark:
  "i < length bs \<Longrightarrow> mark_all_but_last bs ! i = (if i < length bs - 1 then bs ! i OR 0x80 else bs ! i)"
proof (induction bs arbitrary: i rule: mark_all_but_last.induct)
  case (3 b c bs)
  then show ?case by (cases i) auto
qed auto

lemma varint_marked_rev: "varint_marked (rev bs) = mark_all_but_last bs"
proof (rule nth_equalityI)
  fix i assume "i < length (varint_marked (rev bs))"
  then have "i < length bs" by (simp add: varint_marked_def)
  then show "varint_marked (rev bs) ! i = mark_all_but_last bs ! i"
    by (cases "i = length bs - 1") (auto simp: varint_marked_def Let_def nth_mark rev_nth)
qed (simp add: varint_marked_def)

lemma varint_digits_eq:
  "varint_digits v tmp =
     (if length tmp + length (varint_be v) \<le> 9 then Inr (tmp @ rev (varint_be v))
      else if v = 0 then Inr tmp else panic)"
proof (induction v tmp rule: varint_digits.induct)
  case (1 v tmp)
  show ?case
  proof (cases "v = 0")
    case False
    then show ?thesis
      using 1 by (auto simp: varint_digits.simps [of v tmp] varint_be_nonzero [of v])
  qed (simp add: varint_digits.simps)
qed

lemma varint_be_eq_Nil [simp]: "varint_be v = [] \<longleftrightarrow> v = 0"
  by (cases "v = 0") (simp_all add: varint_be_nonzero)

lemma length_varint_be: "length (varint_be v) \<le> n \<longleftrightarrow> unat v < 128 ^ n"
proof (induction n arbitrary: v)
  case 0
  then show ?case by (auto simp: unat_eq_zero)
next
  case (Suc n)
  show ?case
  proof (cases "v = 0")
    case False
    then have "length (varint_be v) \<le> Suc n \<longleftrightarrow> unat (drop_bit 7 v) < 128 ^ n"
      using Suc [of "drop_bit 7 v"] by (simp add: varint_be_nonzero [of v])
    also have "\<dots> \<longleftrightarrow> unat v < 128 ^ Suc n"
      unfolding unat_drop_bit_7 by (simp add: div_less_iff_less_mult mult.commute)
    finally show ?thesis .
  qed simp
qed

lemma length_varint_enc: "length (varint_enc v) = max 1 (length (varint_be v))"
  by (auto simp: varint_enc_def max_def not_le Suc_le_eq)

lemma mask_7: "(0x7f :: u64) = mask 7" "(0x7f :: u8) = mask 7"
  by (simp_all add: mask_eq_exp_minus_1)

lemma low_7_small: "(ucast (v AND 0x7f) :: u8) AND 0x7f = ucast ((v :: u64) AND 0x7f)"
  unfolding mask_7 by (rule bit_word_eqI) (auto simp: bit_simps)

lemma shift_7_join: "push_bit 7 (drop_bit 7 v) OR ucast (ucast (v AND 0x7f) :: u8) = (v :: u64)"
  unfolding mask_7
proof (rule bit_word_eqI)
  fix n assume "n < LENGTH(64)"
  then show "bit (push_bit 7 (drop_bit 7 v) OR ucast (ucast (v AND mask 7) :: u8)) n = bit v n"
    by (cases "n < 7") (auto simp: bit_simps)
qed

lemma set_varint_be: "b \<in> set (varint_be v) \<Longrightarrow> b AND 0x7f = b"
proof (induction v rule: varint_be.induct)
  case (1 v)
  then show ?case
    by (cases "v = 0") (auto simp: varint_be_nonzero [of v] low_7_small)
qed

definition varint_value :: "u64 \<Rightarrow> bytes \<Rightarrow> u64" where
  "varint_value r bs = foldl (\<lambda>r b. push_bit 7 r OR ucast b) r bs"

lemma varint_value_simps [simp]:
  "varint_value r [] = r"
  "varint_value r (b # bs) = varint_value (push_bit 7 r OR ucast b) bs"
  "varint_value r (bs @ [b]) = push_bit 7 (varint_value r bs) OR ucast b"
  by (simp_all add: varint_value_def)

lemma varint_value_be: "varint_value 0 (varint_be v) = v"
proof (induction v rule: varint_be.induct)
  case (1 v)
  then show ?case
    by (cases "v = 0") (simp_all add: varint_be_nonzero [of v] shift_7_join)
qed

lemma small_byte:
  assumes "(b :: u8) AND 0x7f = b"
  shows "b AND 0x80 = 0" and "(b OR 0x80) AND 0x7f = b" and "(b OR 0x80) AND 0x80 \<noteq> 0"
proof -
  have "b AND 0x80 = b AND (0x7f AND 0x80)" by (metis assms and.assoc)
  then show "b AND 0x80 = 0" by simp
  then show "(b OR 0x80) AND 0x80 \<noteq> 0" by (simp add: bit.conj_disj_distrib2)
  show "(b OR 0x80) AND 0x7f = b" using assms by (simp add: bit.conj_disj_distrib2)
qed

section \<open>Reading what was written\<close>

lemma mark_all_but_last_snoc: "mark_all_but_last (xs @ [y]) = map (\<lambda>b. b OR 0x80) xs @ [y]"
proof (induction xs)
  case (Cons x xs)
  then show ?case by (cases "xs @ [y]") auto
qed simp

text \<open>The reader consumes the marked bytes, one round each.\<close>

lemma read_loop_marked:
  assumes "\<forall>b \<in> set xs. b AND 0x7f = b"
    and "slice_of data (offset + i) (length xs) = map (\<lambda>b. b OR 0x80) xs"
    and "i + length xs \<le> 8"
  shows "read_varint_loop (length xs + k) data offset i r
    = read_varint_loop k data offset (i + length xs) (varint_value r xs)"
  using assms
proof (induction xs arbitrary: i r)
  case (Cons b xs)
  have len: "offset + i + length xs < length data"
    using arg_cong [OF Cons.prems(2), of length] by auto
  have "slice_of data (offset + i) 1 @ slice_of data (offset + Suc i) (length xs)
      = (b OR 0x80) # map (\<lambda>b. b OR 0x80) xs"
    using Cons.prems(2) slice_of_append [of data "offset + i" 1 "length xs"] by simp
  then have b: "data ! (offset + i) = b OR 0x80"
    and rest: "slice_of data (offset + Suc i) (length xs) = map (\<lambda>b. b OR 0x80) xs"
    using len by (auto simp: slice_of_def take_Suc_conv_app_nth hd_drop_conv_nth)
  have "read_varint_loop (length xs + k) data offset (Suc i) (push_bit 7 r OR ucast b)
      = read_varint_loop k data offset (Suc i + length xs) (varint_value (push_bit 7 r OR ucast b) xs)"
    using Cons.prems rest by (intro Cons.IH) auto
  with Cons.prems len show ?case by (simp add: b Let_def small_byte)
qed simp

lemma read_loop_last:
  assumes "data ! (offset + i) = y" and "y AND 0x7f = y" and "offset + i < length data"
  shows "read_varint_loop (Suc k) data offset i r =
    (if i = 8 then Inr (push_bit 8 r OR ucast y, 9) else Inr (push_bit 7 r OR ucast y, i + 1))"
  using assms by (simp add: Let_def small_byte)

text \<open>Reading an encoding of at most nine bytes, wherever it stands.\<close>

lemma read_varint_enc_gen:
  assumes "unat v < 2 ^ 63" and "v \<noteq> 0"
  shows "read_varint (pre @ varint_enc v @ post) (length pre) =
    (if unat v < 2 ^ 56 then Inr (v, length (varint_enc v))
     else Inr (push_bit 8 (drop_bit 7 v) OR (v AND 0x7f), 9))"
proof -
  let ?xs = "varint_be (drop_bit 7 v)" and ?y = "ucast (v AND 0x7f) :: u8"
  let ?data = "pre @ varint_enc v @ post"
  have be: "varint_be v = ?xs @ [?y]" using assms(2) by (simp add: varint_be_nonzero)
  have enc: "varint_enc v = map (\<lambda>b. b OR 0x80) ?xs @ [?y]"
    using assms(2) by (simp add: varint_enc_def be mark_all_but_last_snoc)
  have len: "length ?xs \<le> 8"
    using length_varint_be [of v 9] assms(1) by (simp add: be)
  have short: "length ?xs \<le> 7 \<longleftrightarrow> unat v < 2 ^ 56"
    using length_varint_be [of v 8] by (simp add: be)
  have "read_varint ?data (length pre) = read_varint_loop (length ?xs + Suc (8 - length ?xs)) ?data
      (length pre) 0 0"
    using len by (simp add: read_varint_def enc)
  also have "\<dots> = read_varint_loop (Suc (8 - length ?xs)) ?data (length pre) (0 + length ?xs)
      (varint_value 0 ?xs)"
    using len by (intro read_loop_marked) (auto dest: set_varint_be simp: enc slice_of_def)
  also have "\<dots> = (if length ?xs = 8 then Inr (push_bit 8 (drop_bit 7 v) OR (v AND 0x7f), 9)
      else Inr (v, length ?xs + 1))"
  proof -
    have "?data ! (length pre + (0 + length ?xs)) = ?y" by (simp add: enc nth_append)
    moreover have "?y AND 0x7f = ?y" by (rule low_7_small)
    moreover have "ucast ?y = v AND 0x7f" unfolding mask_7
      by (rule bit_word_eqI) (auto simp: bit_simps)
    ultimately show ?thesis
      using read_loop_last [of ?data "length pre" "0 + length ?xs" ?y "8 - length ?xs"]
        shift_7_join [of v]
      by (simp add: varint_value_be enc)
  qed
  finally show ?thesis
    using short len by (cases "unat v < 2 ^ 56") (simp_all add: enc)
qed

lemma read_varint_enc:
  assumes "unat v < 2 ^ 56"
  shows "read_varint (pre @ varint_enc v @ post) (length pre) = Inr (v, length (varint_enc v))"
proof (cases "v = 0")
  case True
  then show ?thesis by (simp add: read_varint_def varint_enc_def numeral_eq_Suc)
next
  case False
  with assms show ?thesis by (simp add: read_varint_enc_gen)
qed

lemma length_varint_enc_bounds:
  "0 < length (varint_enc v)" "unat v < 2 ^ 63 \<Longrightarrow> length (varint_enc v) \<le> 9"
  using length_varint_be [of v 9] by (auto simp: length_varint_enc)

lemma varint_enc_nonempty [simp]: "varint_enc v \<noteq> []"
  using length_varint_enc_bounds(1) [of v] by auto

lemma write_varint_eq:
  assumes "9 \<le> length buf"
  shows "write_varint v buf =
    (if unat v < 2 ^ 63 then Inr (length (varint_enc v), overlay buf 0 (varint_enc v)) else panic)"
proof (cases "v = 0")
  case True
  have "buf \<noteq> []" using assms by auto
  with True show ?thesis
    by (simp add: write_varint_def varint_enc_def set_at_def set_conv_overlay)
next
  case False
  have 9: "length (varint_be v) \<le> 9 \<longleftrightarrow> unat v < 2 ^ 63"
    using length_varint_be [of v 9] by simp
  show ?thesis
  proof (cases "unat v < 2 ^ 63")
    case True
    with 9 False assms show ?thesis
      by (simp add: write_varint_def varint_digits_eq varint_marked_rev varint_enc_def copy_at_def)
  next
    case nle: False
    with 9 False show ?thesis by (simp add: write_varint_def varint_digits_eq)
  qed
qed

lemma put_varint_eq:
  "put_varint v acc = (if unat v < 2 ^ 63 then Inr (acc @ varint_enc v) else panic)"
proof (cases "unat v < 2 ^ 63")
  case True
  then have "length (varint_enc v) \<le> 9" by (rule length_varint_enc_bounds(2))
  with True show ?thesis
    using slice_of_overlay_same [of 0 "varint_enc v" "replicate 9 0"]
    by (simp add: put_varint_def write_varint_eq slice_def)
qed (simp add: put_varint_def write_varint_eq)

lemma push_8_less_le:
  assumes "2 ^ 56 \<le> unat v" and "unat v < 2 ^ 63"
  shows "push_bit 8 (drop_bit 7 v) OR (v AND 0x7f) \<noteq> (v :: u64)"
proof -
  have "unat (push_bit 8 (drop_bit 7 v)) = 256 * (unat v div 128)"
    using assms(2) by (simp add: push_bit_eq_mult unat_word_ariths unat_drop_bit_7 del: drop_bit_eq_div)
  moreover have "unat v < 256 * (unat v div 128)"
  proof -
    have "128 \<le> unat v" using assms(1) by simp
    then have "0 < unat v div 128" by (simp add: div_greater_zero_iff)
    moreover have "unat v mod 128 < 128" by simp
    moreover have "unat v div 128 * 128 + unat v mod 128 = unat v" by (rule div_mult_mod_eq)
    ultimately show ?thesis by linarith
  qed
  ultimately have "v < push_bit 8 (drop_bit 7 v)"
    by (simp only: word_less_nat_alt)
  also have "\<dots> \<le> push_bit 8 (drop_bit 7 v) OR (v AND 0x7f)"
    by (rule le_word_or2)
  finally show ?thesis by (metis less_irrefl)
qed

text \<open>
  C31. The variable-length integers round trip exactly below \<open>2 ^ 56\<close>: whatever bytes follow, reading
  what \<^verbatim>\<open>write_varint\<close> wrote gives the value back and consumes exactly the written bytes if and
  only if the value is below \<open>2 ^ 56\<close>. Above, the ninth byte is read with a shift of eight where
  it was written with a shift of seven, and from \<open>2 ^ 63\<close> on the writer panics.
\<close>

theorem varint_roundtrip_iff:
  "(\<exists>bs. put_varint v [] = Inr bs \<and> read_varint (bs @ post) 0 = Inr (v, length bs))
   \<longleftrightarrow> unat v < 2 ^ 56"
proof -
  have "read_varint (varint_enc v @ post) 0 = Inr (v, length (varint_enc v)) \<longleftrightarrow> unat v < 2 ^ 56"
    if "unat v < 2 ^ 63" and "v \<noteq> 0"
    using read_varint_enc_gen [OF that, of "[]" post] push_8_less_le [of v] that(1) by auto
  then show ?thesis
    using read_varint_enc [of v "[]" post] by (cases "v = 0") (auto simp: put_varint_eq)
qed

lemma varint_len_loop_eq: "varint_len_loop v n = n + length (varint_be v)"
proof (induction v n rule: varint_len_loop.induct)
  case (1 v n)
  then show ?case
    by (subst varint_len_loop.simps) (simp add: varint_be_nonzero)
qed

lemma varint_len_eq: "varint_len v = length (varint_enc v)"
  by (auto simp: varint_len_def varint_len_loop_eq length_varint_enc max_def Suc_le_eq not_le)

text \<open>
  \<^verbatim>\<open>varint_len\<close> computes the length of what \<^verbatim>\<open>write_varint\<close> writes, for every value and every
  buffer of at least nine bytes, and nine bytes are enough exactly when it is at most nine.
\<close>

lemma varint_len_is_written_length:
  "write_varint v (replicate (9 + k) 0) =
     (if varint_len v \<le> 9 then Inr (varint_len v, varint_enc v @ replicate (9 + k - varint_len v) 0)
      else panic)"
proof -
  have "varint_len v \<le> 9 \<longleftrightarrow> unat v < 2 ^ 63"
    using length_varint_be [of v 9] by (simp add: varint_len_eq length_varint_enc)
  then show ?thesis
    by (simp add: write_varint_eq overlay_def varint_len_eq)
qed

section \<open>The reader on arbitrary bytes\<close>

lemma read_varint_loop_total:
  assumes "k = 9 - i" and "i \<le> 8"
  shows "(\<exists>v n. read_varint_loop k data offset i r = Inr (v, n) \<and> i < n \<and> n \<le> 9
            \<and> offset + n \<le> length data)
    \<or> read_varint_loop k data offset i r = sql_err RcCorrupt ''truncated varint''"
  using assms
proof (induction k data offset i r rule: read_varint_loop.induct)
  case (2 k data offset i r)
  show ?case
  proof (cases "length data \<le> offset + i \<or> i = 8 \<or> data ! (offset + i) AND 0x80 = 0")
    case True
    with 2(3) show ?thesis by (auto simp: Let_def)
  next
    case False
    with 2(2,3) have "(\<exists>v n. read_varint_loop k data offset (i + 1)
          (push_bit 7 r OR ucast (data ! (offset + i) AND 0x7f)) = Inr (v, n) \<and> i + 1 < n \<and> n \<le> 9
          \<and> offset + n \<le> length data)
        \<or> read_varint_loop k data offset (i + 1)
          (push_bit 7 r OR ucast (data ! (offset + i) AND 0x7f))
          = sql_err RcCorrupt ''truncated varint''"
      by (intro 2(1)) auto
    with False show ?thesis by (auto simp: Let_def intro: Suc_lessD)
  qed
qed simp

text \<open>
  C32. The reader is total and memory safe: on every byte string and offset it either returns a
  value with between one and nine consumed bytes that all lie inside the data, or the error
  ``truncated varint''; it never panics and its unreachable branch is not reached.
\<close>

theorem read_varint_total:
  "(\<exists>v n. read_varint data offset = Inr (v, n) \<and> 1 \<le> n \<and> n \<le> 9 \<and> offset + n \<le> length data)
   \<or> read_varint data offset = sql_err RcCorrupt ''truncated varint''"
  using read_varint_loop_total [of 9 0 data offset 0] by (auto simp: read_varint_def)

lemma read_varint_bounds:
  assumes "read_varint data offset = Inr (v, n)"
  shows "0 < n" and "n \<le> 9" and "offset + n \<le> length data"
  using read_varint_loop_total [of 9 0 data offset 0] assms
  by (auto simp: read_varint_def split: if_splits)

lemma read_varint_no_panic: "read_varint data offset \<noteq> Inl e \<or> e = Fail (Sql RcCorrupt ''truncated varint'')"
  using read_varint_loop_total [of 9 0 data offset 0] by (auto simp: read_varint_def)

section \<open>Zigzag\<close>

lemma zigzag_inverse:
  assumes "zigzag v = Inr uv"
  shows "(if uv AND 1 = 1 then - drop_bit 1 uv - 1 else drop_bit 1 uv) = v"
proof (cases "sint v < 0")
  case True
  then have b: "bit v 63" by (simp add: sint_neg_iff_bit)
  have uv: "uv = push_bit 1 (NOT v) OR 1"
    using assms True by (simp add: zigzag_def not_eq_complement split: if_splits)
  have "uv AND 1 = 1"
    unfolding uv by (rule bit_word_eqI) (auto simp: bit_simps)
  moreover have "drop_bit 1 uv = NOT v"
    unfolding uv
  proof (rule bit_word_eqI)
    fix n assume n: "n < LENGTH(64)"
    show "bit (drop_bit 1 (push_bit 1 (NOT v) OR 1)) n = bit (NOT v) n"
      using b n by (cases "n = 63") (auto simp: bit_simps bit_double_iff mult.commute [of _ "2 :: u64"])
  qed
  ultimately show ?thesis by (simp add: not_eq_complement)
next
  case False
  then have b: "\<not> bit v 63" by (simp add: sint_neg_iff_bit)
  have uv: "uv = push_bit 1 v"
    using assms False by (simp add: zigzag_def)
  have "uv AND 1 \<noteq> 1"
    by (simp add: uv and_one_eq mod_2_eq_odd push_bit_eq_mult)
  moreover have "drop_bit 1 uv = v"
    unfolding uv
  proof (rule bit_word_eqI)
    fix n assume n: "n < LENGTH(64)"
    show "bit (drop_bit 1 (push_bit 1 v)) n = bit v n"
      using b n by (cases "n = 63") (auto simp: bit_simps bit_double_iff mult.commute [of _ "2 :: u64"])
  qed
  ultimately show ?thesis by simp
qed

lemma zigzag_small:
  assumes "- (2 ^ 55) \<le> sint v" and "sint v < 2 ^ 55"
  shows "\<exists>uv. zigzag v = Inr uv \<and> unat uv < 2 ^ 56"
proof (cases "sint v < 0")
  case True
  define w :: i64 where "w = - v - 1"
  have "w = word_of_int (- sint v - 1)" by (simp add: w_def)
  then have "uint w = (- sint v - 1) mod 2 ^ 64" by (simp only: uint_word_of_int) simp
  then have "uint w = - sint v - 1"
    using True assms(1) by simp
  then have "unat w < 2 ^ 55"
    using assms(1) by (simp add: unat_eq_nat_uint nat_less_iff del: nat_uint_eq)
  moreover have "push_bit 1 w OR 1 = 2 * w + 1"
    by (simp add: or_one_eq push_bit_eq_mult mult.commute)
  ultimately have "unat (push_bit 1 w OR 1) < 2 ^ 56"
    by (simp add: unat_word_ariths)
  with True assms(1) show ?thesis by (simp add: zigzag_def w_def)
next
  case False
  then have "unat v < 2 ^ 55"
    using assms(2) by (simp add: unat_nonneg nat_less_iff)
  then have "unat (push_bit 1 v) < 2 ^ 56"
    by (simp add: push_bit_eq_mult unat_word_ariths)
  with False show ?thesis by (simp add: zigzag_def)
qed

text \<open>
  Zigzag integers of magnitude below \<open>2 ^ 55\<close> round trip through \<^verbatim>\<open>write_signed_varint\<close> and
  \<^verbatim>\<open>read_signed_varint\<close>, whatever bytes follow in the buffer.
\<close>

lemma signed_varint_roundtrip:
  assumes "- (2 ^ 55) \<le> sint v" and "sint v < 2 ^ 55"
  shows "\<exists>n buf. write_signed_varint v (replicate (9 + k) 0) = Inr (n, buf)
    \<and> read_signed_varint buf 0 = Inr (v, n)"
proof -
  obtain uv where uv: "zigzag v = Inr uv" "unat uv < 2 ^ 56"
    using zigzag_small [OF assms] by auto
  then have "write_varint uv (replicate (9 + k) 0)
      = Inr (length (varint_enc uv), varint_enc uv @ replicate (9 + k - length (varint_enc uv)) 0)"
    by (simp add: write_varint_eq overlay_def)
  with uv show ?thesis
    using read_varint_enc [OF uv(2), of "[]"] zigzag_inverse [OF uv(1)]
    by (simp add: write_signed_varint_def read_signed_varint_def)
qed

lemma signed_varint_roundtrip_witness:
  "\<exists>n buf. write_signed_varint (- 100) (replicate (9 + 0) 0) = Inr (n, buf)
    \<and> read_signed_varint buf 0 = Inr (- 100, n)"
  by (rule signed_varint_roundtrip [of "- 100" 0]) simp_all

end
