(* ===== verification/Codec.thy ===== *)
theory Codec
  imports Varint
begin

text \<open>
  The interface between the encoders and the loops that read a run of encoded items: an encoder
  and a reader at an offset, with the law that the reader gives back the item and the length of its
  encoding wherever it stands. The variable-length integers are an instance, and the loops
  \<^verbatim>\<open>for _ in 0..n { let (x, k) = read(data, offset)?; xs.push(x); offset += k; }\<close> of the record
  format are correct for every instance.
\<close>

fun decode_seq :: "(bytes \<Rightarrow> nat \<Rightarrow> ('a \<times> nat) res) \<Rightarrow> nat \<Rightarrow> bytes \<Rightarrow> nat \<Rightarrow> ('a list \<times> nat) res" where
  "decode_seq dec 0 data offset = Inr ([], offset)"
| "decode_seq dec (Suc n) data offset =
     bindR (dec data offset) (\<lambda>(x, k).
     bindR (decode_seq dec n data (offset + k)) (\<lambda>(xs, offset'). Inr (x # xs, offset')))"

lemma decode_seq_length: "decode_seq dec n data offset = Inr (xs, offset') \<Longrightarrow> length xs = n"
  by (induction n arbitrary: offset xs offset') (auto simp: bindR_eq_Inr split: prod.splits)

locale codec =
  fixes enc :: "'a \<Rightarrow> bytes"
    and dec :: "bytes \<Rightarrow> nat \<Rightarrow> ('a \<times> nat) res"
    and encodable :: "'a \<Rightarrow> bool"
  assumes dec_enc: "encodable x \<Longrightarrow> dec (pre @ enc x @ post) (length pre) = Inr (x, length (enc x))"
begin

lemma dec_enc_start: "encodable x \<Longrightarrow> dec (enc x @ post) 0 = Inr (x, length (enc x))"
  using dec_enc [of x "[]"] by simp

lemma decode_seq_enc:
  assumes "list_all encodable xs"
  shows "decode_seq dec (length xs) (pre @ concat (map enc xs) @ post) (length pre)
    = Inr (xs, length pre + length (concat (map enc xs)))"
  using assms
proof (induction xs arbitrary: pre)
  case (Cons x xs)
  have "dec (pre @ enc x @ concat (map enc xs) @ post) (length pre) = Inr (x, length (enc x))"
    using Cons.prems by (intro dec_enc) simp
  moreover have "decode_seq dec (length xs) ((pre @ enc x) @ concat (map enc xs) @ post)
      (length (pre @ enc x)) = Inr (xs, length (pre @ enc x) + length (concat (map enc xs)))"
    using Cons.prems by (intro Cons.IH) simp
  ultimately show ?case by simp
qed simp

text \<open>Two items with the same encoding are the same item.\<close>

lemma enc_injective:
  assumes "encodable x" and "encodable y" and "enc x = enc y"
  shows "x = y"
  using dec_enc_start [OF assms(1), of "[]"] dec_enc_start [OF assms(2), of "[]"] assms(3) by simp

text \<open>No encoding is a proper prefix of another.\<close>

lemma enc_prefix_free:
  assumes "encodable x" and "encodable y" and "enc x @ zs = enc y"
  shows "x = y \<and> zs = []"
  using dec_enc_start [OF assms(1), of zs] dec_enc_start [OF assms(2), of "[]"] assms(3)
  by (metis append.right_neutral assms(1,2) enc_injective length_append Inr_inject Pair_inject
      add_cancel_right_right length_0_conv)

end

interpretation vc: codec varint_enc read_varint "\<lambda>v. unat v < 2 ^ 56"
  by unfold_locales (rule read_varint_enc)

end
