(* ===== verification/Record_Format.thy ===== *)
theory Record_Format
  imports Values Codec
begin

text \<open>
  \<^verbatim>\<open>sqllite-core/src/record.rs\<close>: serial types, the record encoder, the decoder and the length
  scanner. A record is the header length, the column count, one serial type per column, and the
  bodies, integers in little-endian order.
\<close>

definition SERIAL_NULL :: u64 where [simp]: "SERIAL_NULL = 0"
definition SERIAL_INT8 :: u64 where [simp]: "SERIAL_INT8 = 1"
definition SERIAL_INT16 :: u64 where [simp]: "SERIAL_INT16 = 2"
definition SERIAL_INT24 :: u64 where [simp]: "SERIAL_INT24 = 3"
definition SERIAL_INT32 :: u64 where [simp]: "SERIAL_INT32 = 4"
definition SERIAL_INT48 :: u64 where [simp]: "SERIAL_INT48 = 5"
definition SERIAL_INT64 :: u64 where [simp]: "SERIAL_INT64 = 6"
definition SERIAL_FLOAT64 :: u64 where [simp]: "SERIAL_FLOAT64 = 7"
definition SERIAL_TEXT_MIN :: u64 where [simp]: "SERIAL_TEXT_MIN = 12"
definition SERIAL_BLOB_MIN :: u64 where [simp]: "SERIAL_BLOB_MIN = 13"

section \<open>Encoding\<close>

fun serial_type :: "val \<Rightarrow> u64" where
  "serial_type VNull = SERIAL_NULL"
| "serial_type (VInteger i) =
     (if - (2 ^ 7) \<le> sint i \<and> sint i \<le> 2 ^ 7 - 1 then SERIAL_INT8
      else if - (2 ^ 15) \<le> sint i \<and> sint i \<le> 2 ^ 15 - 1 then SERIAL_INT16
      else if - (2 ^ 23) \<le> sint i \<and> sint i < 2 ^ 23 then SERIAL_INT24
      else if - (2 ^ 31) \<le> sint i \<and> sint i \<le> 2 ^ 31 - 1 then SERIAL_INT32
      else if - (2 ^ 47) \<le> sint i \<and> sint i < 2 ^ 47 then SERIAL_INT48
      else SERIAL_INT64)"
| "serial_type (VReal r) = SERIAL_FLOAT64"
| "serial_type (VText s) = of_nat (length s * 2) + SERIAL_TEXT_MIN"
| "serial_type (VBlob b) = of_nat (length b * 2) + SERIAL_BLOB_MIN"

definition to_le_bytes :: "64 word \<Rightarrow> bytes" where
  "to_le_bytes w = map (\<lambda>i. ucast (drop_bit (8 * i) w)) [0..<8]"

definition from_le_bytes :: "bytes \<Rightarrow> 64 word" where
  "from_le_bytes bs = foldr (\<lambda>b w. push_bit 8 w OR ucast b) bs 0"

fun encode_value :: "val \<Rightarrow> u64 \<Rightarrow> bytes \<Rightarrow> bytes" where
  "encode_value VNull serial buf = buf"
| "encode_value (VInteger i) serial buf = buf @
     (if serial = SERIAL_INT8 then take 1 (to_le_bytes i)
      else if serial = SERIAL_INT16 then take 2 (to_le_bytes i)
      else if serial = SERIAL_INT24 then take 3 (to_le_bytes i)
      else if serial = SERIAL_INT32 then take 4 (to_le_bytes i)
      else if serial = SERIAL_INT48 then take 6 (to_le_bytes i)
      else to_le_bytes i)"
| "encode_value (VReal r) serial buf = buf @ to_le_bytes r"
| "encode_value (VText s) serial buf = buf @ str_bytes s"
| "encode_value (VBlob b) serial buf = buf @ b"

fun encode_columns :: "val list \<Rightarrow> bytes \<Rightarrow> bytes \<Rightarrow> (bytes \<times> bytes) res" where
  "encode_columns [] header_buf body = Inr (header_buf, body)"
| "encode_columns (v # vs) header_buf body =
     (let st = serial_type v in
      bindR (put_varint st header_buf) (\<lambda>header_buf.
        encode_columns vs header_buf (encode_value v st body)))"

definition encode_record :: "val list \<Rightarrow> bytes res" where
  "encode_record vals =
     bindR (put_varint (of_nat (length vals)) []) (\<lambda>header_buf.
     bindR (encode_columns vals header_buf []) (\<lambda>(header_buf, body).
     bindR (put_varint (of_nat (length header_buf)) []) (\<lambda>record.
       Inr (record @ header_buf @ body))))"

section \<open>Decoding\<close>

definition read_int :: "bytes \<Rightarrow> nat \<Rightarrow> nat \<Rightarrow> i64 res" where
  "read_int data offset nbytes =
     (if length data < offset + nbytes then sql_err RcCorrupt ''truncated integer''
      else bindR (slice data offset (offset + nbytes)) (\<lambda>bs.
        bindR (get_at data (offset + nbytes - 1)) (\<lambda>top.
          Inr (from_le_bytes (bs @ replicate (8 - nbytes)
            (if nbytes < 8 \<and> top AND 0x80 \<noteq> 0 then 0xff else 0))))))"

definition decode_serial :: "u64 \<Rightarrow> bytes \<Rightarrow> nat \<Rightarrow> (val \<times> nat) res" where
  "decode_serial serial data offset =
     (if serial = SERIAL_NULL then Inr (VNull, 0)
      else if serial = SERIAL_INT8 then bindR (read_int data offset 1) (\<lambda>v. Inr (VInteger v, 1))
      else if serial = SERIAL_INT16 then bindR (read_int data offset 2) (\<lambda>v. Inr (VInteger v, 2))
      else if serial = SERIAL_INT24 then bindR (read_int data offset 3) (\<lambda>v. Inr (VInteger v, 3))
      else if serial = SERIAL_INT32 then bindR (read_int data offset 4) (\<lambda>v. Inr (VInteger v, 4))
      else if serial = SERIAL_INT48 then bindR (read_int data offset 6) (\<lambda>v. Inr (VInteger v, 6))
      else if serial = SERIAL_INT64 then bindR (read_int data offset 8) (\<lambda>v. Inr (VInteger v, 8))
      else if serial = SERIAL_FLOAT64 then
        (if length data < offset + 8 then sql_err RcCorrupt ''truncated float''
         else bindR (slice data offset (offset + 8)) (\<lambda>bs. Inr (VReal (from_le_bytes bs), 8)))
      else if SERIAL_TEXT_MIN \<le> serial \<and> serial mod 2 = 0 then
        (let len = unat ((serial - SERIAL_TEXT_MIN) div 2) in
         if length data < offset + len then sql_err RcCorrupt ''truncated text''
         else bindR (slice data offset (offset + len)) (\<lambda>bs. Inr (VText (from_utf8_lossy bs), len)))
      else if SERIAL_BLOB_MIN \<le> serial \<and> serial mod 2 = 1 then
        (let len = unat ((serial - SERIAL_BLOB_MIN) div 2) in
         if length data < offset + len then sql_err RcCorrupt ''truncated blob''
         else bindR (slice data offset (offset + len)) (\<lambda>bs. Inr (VBlob bs, len)))
      else sql_err RcCorrupt (''invalid serial type '' @ nat_to_string (unat serial)))"

fun decode_columns :: "u64 list \<Rightarrow> bytes \<Rightarrow> nat \<Rightarrow> (val list \<times> nat) res" where
  "decode_columns [] body body_offset = Inr ([], body_offset)"
| "decode_columns (st # sts) body body_offset =
     bindR (decode_serial st body body_offset) (\<lambda>(v, consumed).
     bindR (decode_columns sts body (body_offset + consumed)) (\<lambda>(vs, e). Inr (v # vs, e)))"

text \<open>
  The first half of \<^verbatim>\<open>decode_record\<close>: the serial types and the end of the header.
  \<open>n + header_size\<close> is a \<^verbatim>\<open>usize\<close> sum, and \<^verbatim>\<open>Vec::with_capacity\<close> panics when the eight-byte
  elements asked for exceed \<^verbatim>\<open>isize::MAX\<close> bytes. The second \<^verbatim>\<open>Vec::with_capacity\<close> of the decoder,
  for the values, asks for as many elements as serial types were read, one byte of the record or
  more each, so it cannot fail and is left out.
\<close>

definition decode_header :: "bytes \<Rightarrow> (u64 list \<times> nat) res" where
  "decode_header data =
     bindR (read_varint data 0) (\<lambda>(header_size, n).
       if 2 ^ 64 \<le> n + unat header_size then panic
       else (let header_end = n + unat header_size in
         if length data < header_end then sql_err RcCorrupt ''truncated record header''
         else bindR (read_varint data n) (\<lambda>(col_count, m).
           if 2 ^ 63 \<le> unat col_count * 8 then panic
           else bindR (decode_seq read_varint (unat col_count) data (n + m)) (\<lambda>(serial_types, offset).
             Inr (serial_types, header_end)))))"

definition decode_record :: "bytes \<Rightarrow> val list res" where
  "decode_record data =
     bindR (decode_header data) (\<lambda>(serial_types, header_end).
     bindR (decode_columns serial_types (drop header_end data) 0) (\<lambda>(vals, body_offset).
       Inr vals))"

text \<open>
  \<^verbatim>\<open>record_byte_length\<close> is written apart from the decoder, with loops of its own: one pushes the
  serial types, one steps over the bodies and keeps only the offset.
\<close>

fun push_serials :: "nat \<Rightarrow> bytes \<Rightarrow> nat \<Rightarrow> u64 list \<Rightarrow> u64 list res" where
  "push_serials 0 data offset serial_types = Inr serial_types"
| "push_serials (Suc i) data offset serial_types =
     bindR (read_varint data offset) (\<lambda>(st, k). push_serials i data (offset + k) (serial_types @ [st]))"

fun skip_columns :: "u64 list \<Rightarrow> bytes \<Rightarrow> nat \<Rightarrow> nat res" where
  "skip_columns [] body body_offset = Inr body_offset"
| "skip_columns (st # sts) body body_offset =
     bindR (decode_serial st body body_offset) (\<lambda>(_, consumed).
       skip_columns sts body (body_offset + consumed))"

definition record_byte_length :: "bytes \<Rightarrow> nat res" where
  "record_byte_length data =
     bindR (read_varint data 0) (\<lambda>(header_size, n).
       if 2 ^ 64 \<le> n + unat header_size then panic
       else (let header_end = n + unat header_size in
         if length data < header_end then sql_err RcCorrupt ''truncated record header''
         else bindR (read_varint data n) (\<lambda>(col_count, m).
           if 2 ^ 63 \<le> unat col_count * 8 then panic
           else bindR (push_serials (unat col_count) data (n + m) []) (\<lambda>serial_types.
           bindR (skip_columns serial_types (drop header_end data) 0) (\<lambda>body_offset.
             Inr (header_end + body_offset))))))"

section \<open>Integers\<close>

lemma length_to_le_bytes [simp, len_simps]: "length (to_le_bytes w) = 8"
  by (simp add: to_le_bytes_def)

lemma bit_from_le_bytes:
  "bit (from_le_bytes bs) k \<longleftrightarrow> k < 64 \<and> k div 8 < length bs \<and> bit (bs ! (k div 8)) (k mod 8)"
proof (induction bs arbitrary: k)
  case (Cons b bs)
  have "bit (from_le_bytes (b # bs)) k \<longleftrightarrow>
      k < 64 \<and> (8 \<le> k \<and> bit (from_le_bytes bs) (k - 8) \<or> k < 8 \<and> bit b k)"
    by (auto simp: from_le_bytes_def bit_simps dest: bit_imp_le_length)
  also have "\<dots> \<longleftrightarrow> k < 64 \<and> k div 8 < length (b # bs) \<and> bit ((b # bs) ! (k div 8)) (k mod 8)"
  proof (cases "k < 8")
    case False
    then have "k div 8 = Suc ((k - 8) div 8)" and "k mod 8 = (k - 8) mod 8"
      by (simp_all add: le_div_geq le_mod_geq)
    with False show ?thesis by (auto simp: Cons.IH)
  qed simp
  finally show ?case .
qed (simp add: from_le_bytes_def)

lemma nth_to_le_bytes: "i < 8 \<Longrightarrow> to_le_bytes w ! i = ucast (drop_bit (8 * i) w)"
  by (simp add: to_le_bytes_def)

lemma bit_nth_to_le_bytes:
  "i < 8 \<Longrightarrow> j < 8 \<Longrightarrow> bit (to_le_bytes w ! i) j \<longleftrightarrow> bit w (8 * i + j)"
  by (auto simp: nth_to_le_bytes bit_simps dest: bit_imp_le_length)

lemma from_le_to_le [simp]: "from_le_bytes (to_le_bytes w) = w"
proof (rule bit_word_eqI)
  fix k assume "k < LENGTH(64)"
  then have "k div 8 < 8" by (simp add: div_less_iff_less_mult)
  then show "bit (from_le_bytes (to_le_bytes w)) k = bit w k"
    by (auto simp: bit_from_le_bytes bit_nth_to_le_bytes dest: bit_imp_le_length)
qed

lemma bit_sint_high:
  assumes "- (2 ^ m) \<le> sint (w :: i64)" and "sint w < 2 ^ m" and "m \<le> k" and "k < 64"
  shows "bit w k \<longleftrightarrow> bit w m"
proof -
  have "signed_take_bit m (sint w) = sint w"
    using assms(1,2) by (simp add: signed_take_bit_int_eq_self)
  then have "bit (sint w) k \<longleftrightarrow> bit (sint w) m"
    using assms(3) bit_signed_take_bit_iff [of m "sint w" k] by (simp add: min_def)
  then show ?thesis using assms(3,4) by (simp add: bit_sint_iff)
qed


lemma and_80_iff: "(x :: u8) AND 0x80 \<noteq> 0 \<longleftrightarrow> bit x 7"
proof -
  have "(0x80 :: u8) = mask 1 * 2 ^ 7" by simp
  moreover have "x AND push_bit 7 1 \<noteq> 0 \<longleftrightarrow> bit x 7"
    by (simp add: bit_iff_and_push_bit_not_eq_0)
  ultimately show ?thesis by (simp add: push_bit_eq_mult)
qed

lemma bit_ff: "bit (0xff :: u8) j \<longleftrightarrow> j < 8"
  using bit_mask_iff [of 8 j, where 'a = u8] by (simp add: mask_eq_exp_minus_1)

lemma from_le_extend:
  assumes n: "0 < n" "n < 8"
    and range: "- (2 ^ (8 * n - 1)) \<le> sint i" "sint i < 2 ^ (8 * n - 1)"
  shows "from_le_bytes (take n (to_le_bytes i) @ replicate (8 - n)
      (if to_le_bytes i ! (n - 1) AND 0x80 \<noteq> 0 then 0xff else 0)) = i"
    (is "from_le_bytes (take n ?L @ replicate (8 - n) ?fill) = i")
proof (rule bit_word_eqI)
  fix k assume "k < LENGTH(64)"
  then have k: "k < 64" by simp
  then have k8: "k div 8 < 8" by (simp add: div_less_iff_less_mult)
  have top: "?L ! (n - 1) AND 0x80 \<noteq> 0 \<longleftrightarrow> bit i (8 * n - 1)"
    using n by (simp only: and_80_iff) (subst bit_nth_to_le_bytes; simp add: diff_mult_distrib2)
  show "bit (from_le_bytes (take n ?L @ replicate (8 - n) ?fill)) k = bit i k"
  proof (cases "k div 8 < n")
    case True
    with k k8 show ?thesis
      using n by (simp add: bit_from_le_bytes nth_append bit_nth_to_le_bytes min_def)
  next
    case False
    then have "8 * n \<le> k" using div_less_iff_less_mult [of 8 k n] by simp
    then have "bit i k = bit i (8 * n - 1)"
      using k range by (intro bit_sint_high) auto
    moreover have "bit ?fill (k mod 8) = bit i (8 * n - 1)"
      using top bit_ff [of "k mod 8"] by simp
    ultimately show ?thesis
      using False k k8 n by (simp add: bit_from_le_bytes nth_append)
  qed
qed

lemma read_int_enc:
  assumes n: "0 < n" "n \<le> 8"
    and range: "n < 8 \<Longrightarrow> - (2 ^ (8 * n - 1)) \<le> sint i \<and> sint i < 2 ^ (8 * n - 1)"
  shows "read_int (pre @ take n (to_le_bytes i) @ post) (length pre) n = Inr i"
proof -
  obtain m where m: "n = Suc m" using n(1) by (cases n) auto
  have bs: "slice_of (pre @ take n (to_le_bytes i) @ post) (length pre) n = take n (to_le_bytes i)"
    using n by (simp add: slice_of_def)
  have "from_le_bytes (take n (to_le_bytes i) @ replicate (8 - n)
      (if n < 8 \<and> to_le_bytes i ! (n - 1) AND 0x80 \<noteq> 0 then 0xff else 0)) = i"
    using from_le_extend [of n i] n range by (cases "n < 8") simp_all
  then show ?thesis
    using n(2) bs by (simp add: m read_int_def slice_def get_at_def nth_append)
qed

section \<open>The round trip of a record\<close>

definition value_bytes :: "val \<Rightarrow> bytes" where
  "value_bytes v = encode_value v (serial_type v) []"

definition storable :: "val \<Rightarrow> bool" where
  "storable v = (case v of VText s \<Rightarrow> text_ok s \<and> length s < 2 ^ 54
     | VBlob b \<Rightarrow> length b < 2 ^ 54 | _ \<Rightarrow> True)"

lemma encode_value_append: "encode_value v st buf = buf @ encode_value v st []"
  by (cases v) auto

lemma unat_double_plus:
  assumes "n < 2 ^ 54" and "m \<le> 100"
  shows "unat (of_nat n * 2 + of_nat m :: u64) = n * 2 + m"
proof -
  have "unat (of_nat (n * 2 + m) :: u64) = n * 2 + m"
    using assms by (simp only: unat_of_nat) simp
  then show ?thesis by simp
qed

lemma decode_serial_text:
  assumes "n < 2 ^ 54"
  shows "decode_serial (of_nat n * 2 + 12) data offset =
    (if length data < offset + n then sql_err RcCorrupt ''truncated text''
     else Inr (VText (from_utf8_lossy (slice_of data offset n)), n))"
proof -
  define st :: u64 where "st = of_nat n * 2 + 12"
  have u: "unat st = n * 2 + 12"
    using unat_double_plus [OF assms, of 12] by (simp add: st_def)
  have "unat (st - 12) = n * 2"
    using unat_double_plus [OF assms, of 0] by (simp add: st_def)
  then have len: "unat ((st - 12) div 2) = n" by (simp add: unat_div)
  have "decode_serial st data offset =
    (if length data < offset + n then sql_err RcCorrupt ''truncated text''
     else Inr (VText (from_utf8_lossy (slice_of data offset n)), n))"
    by (simp add: decode_serial_def len word_unat_eq_iff word_le_nat_alt unat_mod u slice_def)
  then show ?thesis by (simp add: st_def)
qed

lemma decode_serial_blob:
  assumes "n < 2 ^ 54"
  shows "decode_serial (of_nat n * 2 + 13) data offset =
    (if length data < offset + n then sql_err RcCorrupt ''truncated blob''
     else Inr (VBlob (slice_of data offset n), n))"
proof -
  define st :: u64 where "st = of_nat n * 2 + 13"
  have u: "unat st = n * 2 + 13"
    using unat_double_plus [OF assms, of 13] by (simp add: st_def)
  have "unat (st - 13) = n * 2"
    using unat_double_plus [OF assms, of 0] by (simp add: st_def)
  then have len: "unat ((st - 13) div 2) = n" by (simp add: unat_div)
  have "decode_serial st data offset =
    (if length data < offset + n then sql_err RcCorrupt ''truncated blob''
     else Inr (VBlob (slice_of data offset n), n))"
    by (simp add: decode_serial_def len word_unat_eq_iff word_le_nat_alt unat_mod u slice_def)
  then show ?thesis by (simp add: st_def)
qed

lemma decode_serial_int:
  assumes "serial_type (VInteger i) = st"
  shows "decode_serial st (pre @ encode_value (VInteger i) st [] @ post) (length pre)
    = Inr (VInteger i, length (encode_value (VInteger i) st []))"
proof -
  note r = read_int_enc [of _ i pre post]
  show ?thesis
    using assms r [of 1] r [of 2] r [of 3] r [of 4] r [of 6] r [of 8] sint_range_64 [of i]
    by (simp add: decode_serial_def split: if_splits)
qed

lemma decode_serial_enc:
  assumes "storable v"
  shows "decode_serial (serial_type v) (pre @ value_bytes v @ post) (length pre)
    = Inr (v, length (value_bytes v))"
proof (cases v)
  case VNull
  then show ?thesis by (simp add: decode_serial_def value_bytes_def)
next
  case (VInteger i)
  then show ?thesis unfolding value_bytes_def VInteger by (intro decode_serial_int) simp
next
  case (VReal r)
  then show ?thesis
    using from_le_to_le [of r] slice_of_middle [of pre "to_le_bytes r" post]
    by (simp add: decode_serial_def value_bytes_def slice_def)
next
  case (VText s)
  then have "from_utf8_lossy (str_bytes s) = s" and "length s < 2 ^ 54"
    using assms by (simp_all add: storable_def from_utf8_lossy_text)
  then show ?thesis
    using slice_of_middle [of pre "str_bytes s" post]
    by (simp add: VText value_bytes_def decode_serial_text)
next
  case (VBlob b)
  then have "length b < 2 ^ 54" using assms by (simp add: storable_def)
  then show ?thesis
    using slice_of_middle [of pre b post]
    by (simp add: VBlob value_bytes_def decode_serial_blob)
qed

lemma unat_serial_type:
  assumes "storable v"
  shows "unat (serial_type v) < 2 ^ 56"
proof (cases v)
  case (VText s)
  then show ?thesis using assms unat_double_plus [of "length s" 12] by (simp add: storable_def)
next
  case (VBlob b)
  then show ?thesis using assms unat_double_plus [of "length b" 13] by (simp add: storable_def)
qed simp_all

lemma decode_columns_enc:
  assumes "list_all storable vs"
  shows "decode_columns (map serial_type vs) (pre @ concat (map value_bytes vs) @ post) (length pre)
    = Inr (vs, length pre + length (concat (map value_bytes vs)))"
  using assms
proof (induction vs arbitrary: pre)
  case (Cons v vs)
  have "decode_serial (serial_type v) (pre @ value_bytes v @ concat (map value_bytes vs) @ post)
      (length pre) = Inr (v, length (value_bytes v))"
    using Cons.prems by (intro decode_serial_enc) simp
  moreover have "decode_columns (map serial_type vs)
      ((pre @ value_bytes v) @ concat (map value_bytes vs) @ post) (length (pre @ value_bytes v))
      = Inr (vs, length (pre @ value_bytes v) + length (concat (map value_bytes vs)))"
    using Cons.prems by (intro Cons.IH) simp
  ultimately show ?case by simp
qed simp

lemma encode_columns_eq:
  assumes "list_all storable vs"
  shows "encode_columns vs header_buf body = Inr (header_buf @ concat (map (varint_enc \<circ> serial_type) vs),
    body @ concat (map value_bytes vs))"
  using assms
proof (induction vs arbitrary: header_buf body)
  case (Cons v vs)
  then show ?case
    using unat_serial_type [of v] encode_value_append [of v "serial_type v" body]
    by (simp add: put_varint_eq value_bytes_def Let_def)
qed simp

text \<open>The header after its own length, and the whole record, as one expression.\<close>

definition record_header :: "val list \<Rightarrow> bytes" where
  "record_header vs = varint_enc (of_nat (length vs)) @ concat (map (varint_enc \<circ> serial_type) vs)"

definition record_bytes :: "val list \<Rightarrow> bytes" where
  "record_bytes vs = varint_enc (of_nat (length (record_header vs))) @ record_header vs
     @ concat (map value_bytes vs)"

definition storable_row :: "val list \<Rightarrow> bool" where
  "storable_row vs = (list_all storable vs \<and> length vs < 2 ^ 50)"

lemma length_header_columns:
  assumes "list_all storable vs"
  shows "length (concat (map (varint_enc \<circ> serial_type) vs)) \<le> 9 * length vs"
  using assms
proof (induction vs)
  case (Cons v vs)
  then show ?case
    using unat_serial_type [of v] length_varint_enc_bounds(2) [of "serial_type v"] by simp
qed simp

lemma storable_row_header:
  assumes "storable_row vs"
  shows "unat (of_nat (length vs) :: u64) = length vs"
    and "unat (of_nat (length (record_header vs)) :: u64) = length (record_header vs)"
    and "length (record_header vs) < 2 ^ 55"
proof -
  have n: "length vs < 2 ^ 50" and st: "list_all storable vs"
    using assms by (simp_all add: storable_row_def)
  show u: "unat (of_nat (length vs) :: u64) = length vs"
    using n by (simp only: unat_of_nat) simp
  have "length (varint_enc (of_nat (length vs))) \<le> 9"
    using n u by (intro length_varint_enc_bounds(2)) simp
  then show h: "length (record_header vs) < 2 ^ 55"
    using length_header_columns [OF st] n by (simp add: record_header_def)
  then show "unat (of_nat (length (record_header vs)) :: u64) = length (record_header vs)"
    by (simp only: unat_of_nat) simp
qed

lemma encode_record_eq:
  assumes "storable_row vs"
  shows "encode_record vs = Inr (record_bytes vs)"
proof -
  have "encode_columns vs (varint_enc (of_nat (length vs))) []
      = Inr (record_header vs, concat (map value_bytes vs))"
    using assms by (simp add: encode_columns_eq storable_row_def record_header_def)
  moreover have "length vs < 2 ^ 50" using assms by (simp add: storable_row_def)
  ultimately show ?thesis
    using storable_row_header [OF assms]
    by (simp add: encode_record_def put_varint_eq record_bytes_def)
qed

lemma decode_header_enc:
  assumes "storable_row vs"
  shows "decode_header (record_bytes vs @ post) = Inr (map serial_type vs,
    length (varint_enc (of_nat (length (record_header vs)))) + length (record_header vs))"
proof -
  define h where "h = varint_enc (of_nat (length (record_header vs)))"
  define c where "c = varint_enc (of_nat (length vs))"
  define s where "s = concat (map varint_enc (map serial_type vs))"
  define rest where "rest = concat (map value_bytes vs) @ post"
  note u = storable_row_header [OF assms]
  have st: "list_all (\<lambda>v. unat v < 2 ^ 56) (map serial_type vs)"
    using assms unat_serial_type by (auto simp: storable_row_def list_all_iff)
  have data: "record_bytes vs @ post = h @ c @ s @ rest"
    by (simp add: record_bytes_def record_header_def h_def c_def s_def rest_def)
  have h: "read_varint (h @ c @ s @ rest) 0 = Inr (of_nat (length (record_header vs)), length h)"
    unfolding h_def using u by (intro vc.dec_enc_start) simp
  have c: "read_varint (h @ c @ s @ rest) (length h) = Inr (of_nat (length vs), length c)"
    unfolding c_def using u assms by (intro vc.dec_enc) (simp add: storable_row_def)
  have s: "decode_seq read_varint (length vs) (h @ c @ s @ rest) (length h + length c)
      = Inr (map serial_type vs, length h + length c + length s)"
    using vc.decode_seq_enc [OF st, of "h @ c" rest] by (simp add: s_def)
  have hl: "length (record_header vs) = length c + length s"
    by (simp add: record_header_def c_def s_def)
  have "length h \<le> 9"
    unfolding h_def using u by (intro length_varint_enc_bounds(2)) simp
  then have small: "length h + length (record_header vs) < 2 ^ 64" using u(3) by simp
  have cap: "length vs * 8 < 2 ^ 63" using assms by (simp add: storable_row_def)
  show ?thesis
    unfolding data h_def [symmetric]
    using small cap hl s by (simp add: decode_header_def h c u(1) u(2) [unfolded hl, simplified])
qed

text \<open>The loops of the length scanner against those of the decoder.\<close>

lemma push_serials_eq:
  "push_serials i data offset sts =
    map_sum id (\<lambda>(xs, offset'). sts @ xs) (decode_seq read_varint i data offset)"
proof (induction i arbitrary: offset sts)
  case (Suc i)
  then show ?case
    by (cases "read_varint data offset"; cases "decode_seq read_varint i data (offset + snd (projr (read_varint data offset)))")
      (auto split: prod.splits)
qed simp

lemma skip_columns_eq: "skip_columns sts body k = map_sum id snd (decode_columns sts body k)"
proof (induction sts arbitrary: k)
  case (Cons st sts)
  then show ?case
    by (cases "decode_serial st body k"; cases "decode_columns sts body (k + snd (projr (decode_serial st body k)))")
      (auto split: prod.splits)
qed simp

lemma record_byte_length_eq:
  "record_byte_length data =
     bindR (decode_header data) (\<lambda>(serial_types, header_end).
     bindR (skip_columns serial_types (drop header_end data) 0) (\<lambda>body_offset.
       Inr (header_end + body_offset)))"
proof -
  have push: "bindR (push_serials i data offset []) f
      = bindR (decode_seq read_varint i data offset) (\<lambda>(xs, _). f xs)" for i offset f
    by (cases "decode_seq read_varint i data offset") (auto simp: push_serials_eq)
  then show ?thesis
    by (cases "read_varint data 0"; cases "read_varint data (snd (projr (read_varint data 0)))")
      (auto simp: record_byte_length_def decode_header_def Let_def bindR_assoc push case_prod_unfold)
qed

text \<open>What the body decoder reads lies within the body.\<close>

lemma decode_serial_within:
  "decode_serial st body k = Inr (v, c) \<Longrightarrow> k \<le> length body \<Longrightarrow> k + c \<le> length body"
  by (auto simp: decode_serial_def read_int_def Let_def bindR_eq_Inr split: if_splits)

lemma decode_columns_within:
  "decode_columns sts body k = Inr (vs, e) \<Longrightarrow> k \<le> length body \<Longrightarrow> e \<le> length body"
proof (induction sts arbitrary: k vs)
  case (Cons st sts)
  then show ?case
    by (auto simp: bindR_eq_Inr split: prod.splits dest!: decode_serial_within)
qed simp

lemma decode_header_within:
  "decode_header data = Inr (sts, h) \<Longrightarrow> h \<le> length data"
  by (auto simp: decode_header_def Let_def bindR_eq_Inr split: if_splits prod.splits)

lemma record_decodes:
  assumes "storable_row vs"
  shows "decode_record (record_bytes vs @ post) = Inr vs"
    and "record_byte_length (record_bytes vs @ post) = Inr (length (record_bytes vs))"
proof -
  let ?n = "length (varint_enc (of_nat (length (record_header vs)))) + length (record_header vs)"
  have body: "drop ?n (record_bytes vs @ post) = [] @ concat (map value_bytes vs) @ post"
    by (simp add: record_bytes_def)
  have "decode_columns (map serial_type vs) (drop ?n (record_bytes vs @ post)) 0
      = Inr (vs, length (concat (map value_bytes vs)))"
    unfolding body using decode_columns_enc [of vs "[]" post] assms
    by (simp add: storable_row_def)
  moreover have "length (record_bytes vs) = ?n + length (concat (map value_bytes vs))"
    by (simp add: record_bytes_def)
  ultimately show "decode_record (record_bytes vs @ post) = Inr vs"
    and "record_byte_length (record_bytes vs @ post) = Inr (length (record_bytes vs))"
    using decode_header_enc [OF assms, of post]
    by (simp_all add: decode_record_def record_byte_length_eq skip_columns_eq)
qed

text \<open>
  C19. Whatever a table row holds (text that is UTF-8, bodies below \<open>2 ^ 54\<close> bytes, fewer than
  \<open>2 ^ 50\<close> columns), the record encoder succeeds, the decoder gives the row back whatever bytes
  follow the record on the page, and the length scanner the b-tree uses to find the end of an index
  key returns the length of the encoding.
\<close>

theorem record_roundtrip:
  assumes "storable_row vs"
  shows "\<exists>data. encode_record vs = Inr data \<and> decode_record (data @ post) = Inr vs
    \<and> record_byte_length (data @ post) = Inr (length data)"
  using encode_record_eq [OF assms] record_decodes [OF assms] by simp

theorem record_roundtrip_witness:
  "\<exists>data. encode_record [VInteger (- 70000), VText ''ab'', VNull, VBlob [1, 255]] = Inr data
    \<and> decode_record (data @ [7]) = Inr [VInteger (- 70000), VText ''ab'', VNull, VBlob [1, 255]]
    \<and> record_byte_length (data @ [7]) = Inr (length data)"
  by (rule record_roundtrip)
    (simp add: storable_row_def storable_def text_ok_def utf8_valid_ascii str_bytes_def)

text \<open>
  C20. On arbitrary bytes the length scanner, which has a body and loops of its own, fails exactly
  when the decoder does and with the same error, and when the decoder gives values the scanner gives
  a length within the data: a b-tree page never mixes two readings of one cell, and cutting the
  record out of its cell never leaves the page.
\<close>

theorem record_length_agrees_with_decoder:
  "(case decode_record data of Inl e \<Rightarrow> record_byte_length data = Inl e
    | Inr vs \<Rightarrow> \<exists>n. record_byte_length data = Inr n \<and> n \<le> length data)"
proof (cases "decode_header data")
  case (Inr p)
  obtain sts h where p: "p = (sts, h)" by fastforce
  have h: "h \<le> length data" using Inr decode_header_within by (simp add: p)
  show ?thesis
  proof (cases "decode_columns sts (drop h data) 0")
    case (Inr q)
    then obtain vs e where q: "decode_columns sts (drop h data) 0 = Inr (vs, e)"
      by (cases q) auto
    from decode_columns_within [OF q] h
    show ?thesis
      using q \<open>decode_header data = Inr p\<close>
      by (simp add: p decode_record_def record_byte_length_eq skip_columns_eq)
  qed (simp add: Inr p decode_record_def record_byte_length_eq skip_columns_eq)
qed (simp add: decode_record_def record_byte_length_eq)

end
