(* ===== verification/Vfs_IO.thy ===== *)
theory Vfs_IO
  imports Prelude
begin

text \<open>
  \<^verbatim>\<open>sqllite-core/src/io/mod.rs\<close>: big-endian integers in byte buffers, the in-memory file, and the
  loops \<^verbatim>\<open>read_exact_at\<close> and \<^verbatim>\<open>write_exact_at\<close> over the trait \<^verbatim>\<open>VfsFile\<close>. The trait is the locale
  \<open>vfs_file\<close>: a provider may read and write less than it was asked for, as \<^verbatim>\<open>std::fs::File\<close> does,
  and the loops are correct for every provider that makes progress. The in-memory file is an
  instance.
\<close>

section \<open>Big-endian integers\<close>

definition u16_of_be :: "u8 \<Rightarrow> u8 \<Rightarrow> u16" where
  "u16_of_be b0 b1 = push_bit 8 (ucast b0) OR ucast b1"

definition be_of_u16 :: "u16 \<Rightarrow> bytes" where
  "be_of_u16 w = [ucast (drop_bit 8 w), ucast w]"

definition u32_of_be :: "u8 \<Rightarrow> u8 \<Rightarrow> u8 \<Rightarrow> u8 \<Rightarrow> u32" where
  "u32_of_be b0 b1 b2 b3 =
     push_bit 24 (ucast b0) OR push_bit 16 (ucast b1) OR push_bit 8 (ucast b2) OR ucast b3"

definition be_of_u32 :: "u32 \<Rightarrow> bytes" where
  "be_of_u32 w = [ucast (drop_bit 24 w), ucast (drop_bit 16 w), ucast (drop_bit 8 w), ucast w]"

definition read_u16_be :: "bytes \<Rightarrow> nat \<Rightarrow> u16 res" where
  "read_u16_be data offset =
     bindR (get_at data offset) (\<lambda>b0. bindR (get_at data (offset + 1)) (\<lambda>b1.
       Inr (u16_of_be b0 b1)))"

definition write_u16_be :: "bytes \<Rightarrow> nat \<Rightarrow> u16 \<Rightarrow> bytes res" where
  "write_u16_be data offset value = copy_at data offset (be_of_u16 value)"

definition read_u32_be :: "bytes \<Rightarrow> nat \<Rightarrow> u32 res" where
  "read_u32_be data offset =
     bindR (get_at data offset) (\<lambda>b0. bindR (get_at data (offset + 1)) (\<lambda>b1.
     bindR (get_at data (offset + 2)) (\<lambda>b2. bindR (get_at data (offset + 3)) (\<lambda>b3.
       Inr (u32_of_be b0 b1 b2 b3)))))"

definition write_u32_be :: "bytes \<Rightarrow> nat \<Rightarrow> u32 \<Rightarrow> bytes res" where
  "write_u32_be data offset value = copy_at data offset (be_of_u32 value)"

text \<open>What a read returns when it is in range.\<close>

definition u16_at :: "bytes \<Rightarrow> nat \<Rightarrow> u16" where
  "u16_at data i = u16_of_be (data ! i) (data ! (i + 1))"

definition u32_at :: "bytes \<Rightarrow> nat \<Rightarrow> u32" where
  "u32_at data i = u32_of_be (data ! i) (data ! (i + 1)) (data ! (i + 2)) (data ! (i + 3))"

lemma length_be [simp, len_simps]: "length (be_of_u16 w) = 2" "length (be_of_u32 v) = 4"
  by (simp_all add: be_of_u16_def be_of_u32_def)

lemma read_u16_be_eq: "i + 2 \<le> length data \<Longrightarrow> read_u16_be data i = Inr (u16_at data i)"
  by (simp add: read_u16_be_def get_at_def u16_at_def)

lemma read_u32_be_eq: "i + 4 \<le> length data \<Longrightarrow> read_u32_be data i = Inr (u32_at data i)"
  by (simp add: read_u32_be_def get_at_def u32_at_def)

lemma read_u16_be_Inr [simp]:
  "read_u16_be data i = Inr w \<longleftrightarrow> i + 2 \<le> length data \<and> w = u16_at data i"
  by (auto simp: read_u16_be_def bindR_eq_Inr u16_at_def)

lemma read_u32_be_Inr [simp]:
  "read_u32_be data i = Inr w \<longleftrightarrow> i + 4 \<le> length data \<and> w = u32_at data i"
  by (auto simp: read_u32_be_def bindR_eq_Inr u32_at_def)

lemma u16_of_be_inverse: "u16_of_be (ucast (drop_bit 8 w)) (ucast w) = (w :: u16)"
  unfolding u16_of_be_def by (rule bit_word_eqI) (auto simp: bit_simps)

lemma u32_of_be_inverse:
  "u32_of_be (ucast (drop_bit 24 w)) (ucast (drop_bit 16 w)) (ucast (drop_bit 8 w)) (ucast w)
   = (w :: u32)"
proof (rule bit_word_eqI)
  fix n assume n: "n < LENGTH(32)"
  consider "n < 8" | "8 \<le> n" "n < 16" | "16 \<le> n" "n < 24" | "24 \<le> n" by linarith
  then show "bit (u32_of_be (ucast (drop_bit 24 w)) (ucast (drop_bit 16 w)) (ucast (drop_bit 8 w))
               (ucast w)) n \<longleftrightarrow> bit w n"
    using n by cases (simp add: u32_of_be_def bit_simps, arith?)+
qed

lemma not_bit_beyond: "8 \<le> n \<Longrightarrow> \<not> bit (b :: u8) n"
  by (auto dest: bit_imp_le_length)

lemma be_of_u16_inverse: "be_of_u16 (u16_of_be b0 b1) = [b0, b1]"
  unfolding be_of_u16_def u16_of_be_def
  by (auto intro!: bit_word_eqI simp: bit_simps not_bit_beyond)

lemma be_of_u32_inverse: "be_of_u32 (u32_of_be b0 b1 b2 b3) = [b0, b1, b2, b3]"
  unfolding be_of_u32_def u32_of_be_def
  by (auto intro!: bit_word_eqI simp: bit_simps not_bit_beyond)

lemma u16_at_be: "u16_at (be_of_u16 w) 0 = w"
  by (simp add: u16_at_def be_of_u16_def u16_of_be_inverse)

lemma u32_at_be: "u32_at (be_of_u32 w) 0 = w"
  by (simp add: u32_at_def be_of_u32_def u32_of_be_inverse)

lemma u16_at_slice: "i + 2 \<le> length d \<Longrightarrow> u16_at d i = u16_at (slice_of d i 2) 0"
  by (simp add: u16_at_def)

lemma u32_at_slice: "i + 4 \<le> length d \<Longrightarrow> u32_at d i = u32_at (slice_of d i 4) 0"
  by (simp add: u32_at_def)

lemma u16_at_append [simp]: "i + 2 \<le> length d \<Longrightarrow> u16_at (d @ e) i = u16_at d i"
  by (simp add: u16_at_def nth_append)

lemma u32_at_append [simp]: "i + 4 \<le> length d \<Longrightarrow> u32_at (d @ e) i = u32_at d i"
  by (simp add: u32_at_def nth_append)

lemma u16_at_overlay_same [simp]:
  "i + 2 \<le> length d \<Longrightarrow> u16_at (overlay d i (be_of_u16 w)) i = w"
  using slice_of_overlay_same [of i "be_of_u16 w" d] u16_at_slice [of i "overlay d i (be_of_u16 w)"]
  by (simp add: u16_at_be)

lemma u32_at_overlay_same [simp]:
  "i + 4 \<le> length d \<Longrightarrow> u32_at (overlay d i (be_of_u32 w)) i = w"
  using slice_of_overlay_same [of i "be_of_u32 w" d] u32_at_slice [of i "overlay d i (be_of_u32 w)"]
  by (simp add: u32_at_be)

lemma u16_at_overlay_other:
  assumes "a + length ys \<le> length d" and "i + 2 \<le> length d" and "i + 2 \<le> a \<or> a + length ys \<le> i"
  shows "u16_at (overlay d a ys) i = u16_at d i"
  using assms by (auto simp: u16_at_def nth_overlay)

lemma u32_at_overlay_other:
  assumes "a + length ys \<le> length d" and "i + 4 \<le> length d" and "i + 4 \<le> a \<or> a + length ys \<le> i"
  shows "u32_at (overlay d a ys) i = u32_at d i"
  using assms by (auto simp: u32_at_def nth_overlay)

section \<open>The in-memory file\<close>

record memory_file =
  mf_data :: bytes
  mf_path :: "string option"

definition memory_file_new :: memory_file where
  "memory_file_new = \<lparr>mf_data = [], mf_path = None\<rparr>"

definition memory_file_with_path :: "string \<Rightarrow> memory_file" where
  "memory_file_with_path p = \<lparr>mf_data = [], mf_path = Some p\<rparr>"

text \<open>The bytes a read delivers stand for the filled part of the caller's buffer of length \<open>n\<close>.\<close>

definition mem_read_at :: "memory_file \<Rightarrow> nat \<Rightarrow> nat \<Rightarrow> bytes res" where
  "mem_read_at f offset n =
     (if length (mf_data f) \<le> offset then Inr []
      else (let e = min (offset + n) (length (mf_data f)) in slice (mf_data f) offset e))"

definition resize :: "'a list \<Rightarrow> nat \<Rightarrow> 'a \<Rightarrow> 'a list" where
  "resize xs n x = (if n \<le> length xs then take n xs else xs @ replicate (n - length xs) x)"

definition mem_write_at :: "nat \<Rightarrow> bytes \<Rightarrow> (memory_file, nat) sres" where
  "mem_write_at offset buf f =
     (let e = offset + length buf;
          d = (if length (mf_data f) < e then resize (mf_data f) e 0 else mf_data f)
      in (Inr (length buf), f\<lparr>mf_data := overlay d offset buf\<rparr>))"

definition mem_truncate :: "nat \<Rightarrow> memory_file \<Rightarrow> memory_file" where
  "mem_truncate n f = f\<lparr>mf_data := take n (mf_data f)\<rparr>"

definition mem_size :: "memory_file \<Rightarrow> nat" where
  "mem_size f = length (mf_data f)"

section \<open>Exact reads and writes\<close>

function read_exact_loop ::
    "('f \<Rightarrow> nat \<Rightarrow> nat \<Rightarrow> bytes res) \<Rightarrow> 'f \<Rightarrow> nat \<Rightarrow> nat \<Rightarrow> bytes \<Rightarrow> bytes res" where
  "read_exact_loop rd f offset n acc =
     (if length acc < n
      then bindR (rd f (offset + length acc) (n - length acc)) (\<lambda>bs.
             if bs = [] then sql_err RcIoErr ''unexpected EOF''
             else read_exact_loop rd f offset n (acc @ bs))
      else Inr acc)"
  by pat_completeness auto
termination
  by (relation "measure (\<lambda>(rd, f, offset, n, acc). n - length acc)") (auto simp: neq_Nil_conv)

declare read_exact_loop.simps [simp del]

definition read_exact_at ::
    "('f \<Rightarrow> nat \<Rightarrow> nat \<Rightarrow> bytes res) \<Rightarrow> 'f \<Rightarrow> nat \<Rightarrow> nat \<Rightarrow> bytes res" where
  "read_exact_at rd f offset n = read_exact_loop rd f offset n []"

function write_exact_loop ::
    "(nat \<Rightarrow> bytes \<Rightarrow> ('f, nat) sres) \<Rightarrow> nat \<Rightarrow> bytes \<Rightarrow> nat \<Rightarrow> ('f, unit) sres" where
  "write_exact_loop wr offset buf written =
     (if written < length buf
      then bindS (wr (offset + written) (drop written buf)) (\<lambda>n.
             if n = 0 then throwS (Fail (Sql RcIoErr ''write failed''))
             else write_exact_loop wr offset buf (written + n))
      else retS ())"
  by pat_completeness auto
termination
  by (relation "measure (\<lambda>(wr, offset, buf, written). length buf - written)") auto

declare write_exact_loop.simps [simp del]

definition write_exact_at ::
    "(nat \<Rightarrow> bytes \<Rightarrow> ('f, nat) sres) \<Rightarrow> nat \<Rightarrow> bytes \<Rightarrow> ('f, unit) sres" where
  "write_exact_at wr offset buf = write_exact_loop wr offset buf 0"

text \<open>What a write leaves in the file: the gap before the offset is filled with zeros.\<close>

definition put_bytes :: "bytes \<Rightarrow> nat \<Rightarrow> bytes \<Rightarrow> bytes" where
  "put_bytes d a ys =
     (if ys = [] then d
      else overlay (d @ replicate (a + length ys - length d) 0) a ys)"

lemma length_put_bytes [len_simps]:
  "length (put_bytes d a ys) = (if ys = [] then length d else max (length d) (a + length ys))"
  by (simp add: put_bytes_def max_def)

lemma slice_put_bytes_same: "slice_of (put_bytes d a ys) a (length ys) = ys"
  by (cases "ys = []") (simp_all add: put_bytes_def slice_of_overlay_same, simp add: slice_of_def)

lemma slice_put_bytes_other:
  assumes "b + n \<le> length d" and "b + n \<le> a \<or> a + length ys \<le> b"
  shows "slice_of (put_bytes d a ys) b n = slice_of d b n"
proof (cases "ys = []")
  case False
  let ?d = "d @ replicate (a + length ys - length d) 0"
  have "slice_of (overlay ?d a ys) b n = slice_of ?d b n"
    using assms by (intro slice_of_overlay_other) auto
  also have "\<dots> = slice_of d b n"
    using assms(1) by (simp add: slice_of_def)
  finally show ?thesis using False by (simp add: put_bytes_def)
qed (simp add: put_bytes_def)

lemma put_bytes_inside: "a + length ys \<le> length d \<Longrightarrow> put_bytes d a ys = overlay d a ys"
  by (simp add: put_bytes_def)

lemma put_bytes_append: "put_bytes d (length d) ys = d @ ys"
  by (simp add: put_bytes_def overlay_def)

lemma nth_put_bytes:
  assumes "i < length (put_bytes d a ys)"
  shows "put_bytes d a ys ! i =
    (if a \<le> i \<and> i < a + length ys then ys ! (i - a) else if i < length d then d ! i else 0)"
  using assms by (auto simp: put_bytes_def nth_overlay nth_append split: if_splits)

lemma put_bytes_parts:
  assumes "k \<le> length ys"
  shows "put_bytes (put_bytes d a (take k ys)) (a + k) (drop k ys) = put_bytes d a ys"
proof (cases "k = 0 \<or> k = length ys")
  case False
  with assms have k: "0 < k" "k < length ys" "ys \<noteq> []" "take k ys \<noteq> []" "drop k ys \<noteq> []"
    by auto
  have len1: "length (put_bytes d a (take k ys)) = max (length d) (a + k)"
    using k by (simp add: length_put_bytes)
  have len2: "length (put_bytes (put_bytes d a (take k ys)) (a + k) (drop k ys))
      = max (length d) (a + length ys)"
    using k by (simp add: length_put_bytes len1)
  have len3: "length (put_bytes d a ys) = max (length d) (a + length ys)"
    using k by (simp add: length_put_bytes)
  show ?thesis
  proof (rule nth_equalityI)
    fix i assume "i < length (put_bytes (put_bytes d a (take k ys)) (a + k) (drop k ys))"
    moreover from this have "i < length (put_bytes d a ys)" by (simp only: len2 len3)
    ultimately show
      "put_bytes (put_bytes d a (take k ys)) (a + k) (drop k ys) ! i = put_bytes d a ys ! i"
      using k by (auto simp: nth_put_bytes len1)
  qed (simp only: len2 len3)
qed (auto simp: put_bytes_def)

locale vfs_file =
  fixes content :: "'f \<Rightarrow> bytes"
    and rd :: "'f \<Rightarrow> nat \<Rightarrow> nat \<Rightarrow> bytes res"
    and wr :: "nat \<Rightarrow> bytes \<Rightarrow> ('f, nat) sres"
    and writable :: "'f \<Rightarrow> bool"
  assumes rd_prefix: "rd f a n = Inr bs \<Longrightarrow> length bs \<le> n \<and> bs = slice_of (content f) a (length bs)"
    and rd_progress: "a < length (content f) \<Longrightarrow> 0 < n \<Longrightarrow> \<exists>b bs. rd f a n = Inr (b # bs)"
    and rd_eof: "length (content f) \<le> a \<Longrightarrow> rd f a n = Inr []"
    and wr_progress: "writable f \<Longrightarrow> buf \<noteq> [] \<Longrightarrow> \<exists>k f'. wr a buf f = (Inr k, f') \<and> 0 < k
        \<and> k \<le> length buf \<and> writable f' \<and> content f' = put_bytes (content f) a (take k buf)"
begin

lemma rd_extends:
  assumes "acc = slice_of (content f) a (length acc)"
    and "rd f (a + length acc) m = Inr bs"
  shows "acc @ bs = slice_of (content f) a (length (acc @ bs))"
  using assms(1) rd_prefix [OF assms(2)] by (simp flip: slice_of_append)

lemma read_exact_loop_ok:
  assumes "a + n \<le> length (content f)" and "length acc \<le> n"
    and "acc = slice_of (content f) a (length acc)"
  shows "read_exact_loop rd f a n acc = Inr (slice_of (content f) a n)"
  using assms
proof (induction "n - length acc" arbitrary: acc rule: less_induct)
  case less
  show ?case
  proof (cases "length acc < n")
    case True
    with less.prems obtain b bs where bs: "rd f (a + length acc) (n - length acc) = Inr (b # bs)"
      using rd_progress [of "a + length acc" f "n - length acc"] by auto
    have shorter: "n - length (acc @ b # bs) < n - length acc" using True by simp
    have le: "length (acc @ b # bs) \<le> n" using rd_prefix [OF bs, THEN conjunct1] True by simp
    have "read_exact_loop rd f a n (acc @ b # bs) = Inr (slice_of (content f) a n)"
      by (rule less.hyps [OF shorter less.prems(1) le rd_extends [OF less.prems(3) bs]])
    with True bs show ?thesis by (simp add: read_exact_loop.simps [of rd f a n acc])
  next
    case False
    then show ?thesis
      by (subst read_exact_loop.simps) (use less.prems in simp)
  qed
qed

lemma read_exact_loop_eof:
  assumes "length (content f) < a + n" and "length acc < n"
    and "acc = slice_of (content f) a (length acc)"
  shows "read_exact_loop rd f a n acc = sql_err RcIoErr ''unexpected EOF''"
  using assms
proof (induction "n - length acc" arbitrary: acc rule: less_induct)
  case less
  show ?case
  proof (cases "length (content f) \<le> a + length acc")
    case True
    with less.prems show ?thesis
      by (simp add: read_exact_loop.simps [of rd f a n acc] rd_eof)
  next
    case False
    with less.prems obtain b bs where bs: "rd f (a + length acc) (n - length acc) = Inr (b # bs)"
      using rd_progress [of "a + length acc" f "n - length acc"] by auto
    have ext: "acc @ b # bs = slice_of (content f) a (length (acc @ b # bs))"
      using less.prems(3) bs by (rule rd_extends)
    then have "length (acc @ b # bs) \<le> length (content f) - a"
      by (metis length_slice_of min.cobounded2)
    then have "read_exact_loop rd f a n (acc @ b # bs) = sql_err RcIoErr ''unexpected EOF''"
      using less.hyps [of "acc @ b # bs"] less.prems ext by simp
    with less.prems bs show ?thesis by (simp add: read_exact_loop.simps [of rd f a n acc])
  qed
qed

lemma read_exact_at_eq:
  "read_exact_at rd f a n =
     (if n = 0 \<or> a + n \<le> length (content f) then Inr (slice_of (content f) a n)
      else sql_err RcIoErr ''unexpected EOF'')"
proof -
  have nil: "[] = slice_of (content f) a (length [])" by (simp add: slice_of_def)
  show ?thesis
    using read_exact_loop_ok [OF _ _ nil, of n] read_exact_loop_eof [OF _ _ nil, of n]
    by (auto simp: read_exact_at_def slice_of_def read_exact_loop.simps [of rd f a 0 "[]"])
qed

lemma write_exact_loop_ok:
  assumes "writable f" and "w \<le> length buf"
  shows "\<exists>f'. write_exact_loop wr a buf w f = (Inr (), f') \<and> writable f'
    \<and> content f' = put_bytes (content f) (a + w) (drop w buf)"
  using assms
proof (induction "length buf - w" arbitrary: w f rule: less_induct)
  case less
  show ?case
  proof (cases "w < length buf")
    case True
    then obtain k f1 where k: "wr (a + w) (drop w buf) f = (Inr k, f1)" "0 < k" "k \<le> length buf - w"
      and wf1: "writable f1"
      and f1: "content f1 = put_bytes (content f) (a + w) (take k (drop w buf))"
      using wr_progress [of f "drop w buf" "a + w"] less.prems(1) by auto
    have "length buf - (w + k) < length buf - w" and "w + k \<le> length buf"
      using True k(2,3) by simp_all
    from less.hyps [OF this(1) wf1 this(2)]
    obtain f' where f': "write_exact_loop wr a buf (w + k) f1 = (Inr (), f')" "writable f'"
      and c: "content f' = put_bytes (content f1) (a + (w + k)) (drop (w + k) buf)"
      by auto
    have "content f' = put_bytes (content f) (a + w) (drop w buf)"
      using put_bytes_parts [of k "drop w buf" "content f" "a + w"] k(3) c f1
      by (simp add: add.assoc add.commute [of k w])
    with True k(1,2) f' show ?thesis
      by (simp add: write_exact_loop.simps [of wr a buf w])
  next
    case False
    with less.prems show ?thesis
      by (subst write_exact_loop.simps) (simp add: put_bytes_def)
  qed
qed

lemma write_exact_at_ok:
  assumes "writable f"
  shows "\<exists>f'. write_exact_at wr a buf f = (Inr (), f') \<and> writable f'
    \<and> content f' = put_bytes (content f) a buf"
  using write_exact_loop_ok [OF assms, of 0 buf a] by (simp add: write_exact_at_def)

lemma read_after_write:
  assumes "writable f" and "write_exact_at wr a buf f = (Inr (), f')"
  shows "read_exact_at rd f' a (length buf) = Inr buf"
proof -
  have "content f' = put_bytes (content f) a buf"
    using write_exact_at_ok [OF assms(1), of a buf] assms(2) by auto
  then show ?thesis
    by (simp add: read_exact_at_eq slice_put_bytes_same) (simp add: length_put_bytes)
qed

end

section \<open>The in-memory file is a provider\<close>

interpretation mem: vfs_file mf_data mem_read_at mem_write_at "\<lambda>f. True"
proof unfold_locales
  fix f :: memory_file and a n bs assume "mem_read_at f a n = Inr bs"
  then show "length bs \<le> n \<and> bs = slice_of (mf_data f) a (length bs)"
    by (auto simp: mem_read_at_def Let_def slice_of_def split: if_splits)
next
  fix a and f :: memory_file and n :: nat assume "a < length (mf_data f)" "0 < n"
  then show "\<exists>b bs. mem_read_at f a n = Inr (b # bs)"
    by (auto simp: mem_read_at_def Let_def slice_of_def slice_def neq_Nil_conv
        simp flip: neq_Nil_conv)
next
  fix f :: memory_file and a assume "length (mf_data f) \<le> a"
  then show "mem_read_at f a n = Inr []" for n by (simp add: mem_read_at_def)
next
  fix buf a and f :: memory_file assume "buf \<noteq> ([] :: bytes)"
  moreover have "mf_data (snd (mem_write_at a buf f)) = put_bytes (mf_data f) a buf"
    if "buf \<noteq> []" using that by (simp add: mem_write_at_def put_bytes_def resize_def Let_def)
  ultimately show "\<exists>k f'. mem_write_at a buf f = (Inr k, f') \<and> 0 < k \<and> k \<le> length buf \<and> True
      \<and> mf_data f' = put_bytes (mf_data f) a (take k buf)"
    by (auto simp: mem_write_at_def Let_def)
qed

end
