(* ===== verification/Constants.thy ===== *)
theory Constants
  imports Vfs_IO
begin

text \<open>
  \<^verbatim>\<open>sqllite-core/src/constants.rs\<close>: the constants of the file format that the engine reads. The
  ones it only declares (limits it never checks, UTF-16 encodings, the rollback-journal magic) are
  left out.
\<close>

definition DATABASE_HEADER_MAGIC :: bytes where
  "DATABASE_HEADER_MAGIC =
     [0x53, 0x51, 0x4c, 0x69, 0x74, 0x65, 0x20, 0x66, 0x6f, 0x72, 0x6d, 0x61, 0x74, 0x20, 0x33, 0]"

definition DATABASE_HEADER_SIZE :: nat where [simp]: "DATABASE_HEADER_SIZE = 100"
definition DEFAULT_PAGE_SIZE :: u32 where [simp]: "DEFAULT_PAGE_SIZE = 4096"
definition MIN_PAGE_SIZE :: u32 where [simp]: "MIN_PAGE_SIZE = 512"
definition MAX_PAGE_SIZE :: u32 where [simp]: "MAX_PAGE_SIZE = 65536"

definition HEADER_OFFSET_PAGE_SIZE :: nat where [simp]: "HEADER_OFFSET_PAGE_SIZE = 16"
definition HEADER_OFFSET_WRITE_VERSION :: nat where [simp]: "HEADER_OFFSET_WRITE_VERSION = 18"
definition HEADER_OFFSET_READ_VERSION :: nat where [simp]: "HEADER_OFFSET_READ_VERSION = 19"
definition HEADER_OFFSET_RESERVED :: nat where [simp]: "HEADER_OFFSET_RESERVED = 20"
definition HEADER_OFFSET_MAX_EMBED_PAYLOAD :: nat where [simp]: "HEADER_OFFSET_MAX_EMBED_PAYLOAD = 21"
definition HEADER_OFFSET_MIN_EMBED_PAYLOAD :: nat where [simp]: "HEADER_OFFSET_MIN_EMBED_PAYLOAD = 22"
definition HEADER_OFFSET_LEAF_PAYLOAD :: nat where [simp]: "HEADER_OFFSET_LEAF_PAYLOAD = 23"
definition HEADER_OFFSET_CHANGE_COUNTER :: nat where [simp]: "HEADER_OFFSET_CHANGE_COUNTER = 24"
definition HEADER_OFFSET_DATABASE_SIZE :: nat where [simp]: "HEADER_OFFSET_DATABASE_SIZE = 28"
definition HEADER_OFFSET_FREELIST_TRUNK :: nat where [simp]: "HEADER_OFFSET_FREELIST_TRUNK = 32"
definition HEADER_OFFSET_FREELIST_COUNT :: nat where [simp]: "HEADER_OFFSET_FREELIST_COUNT = 36"
definition HEADER_OFFSET_SCHEMA_COOKIE :: nat where [simp]: "HEADER_OFFSET_SCHEMA_COOKIE = 40"
definition HEADER_OFFSET_SCHEMA_FORMAT :: nat where [simp]: "HEADER_OFFSET_SCHEMA_FORMAT = 44"
definition HEADER_OFFSET_DEFAULT_CACHE :: nat where [simp]: "HEADER_OFFSET_DEFAULT_CACHE = 48"
definition HEADER_OFFSET_LARGEST_ROOT :: nat where [simp]: "HEADER_OFFSET_LARGEST_ROOT = 52"
definition HEADER_OFFSET_TEXT_ENCODING :: nat where [simp]: "HEADER_OFFSET_TEXT_ENCODING = 56"
definition HEADER_OFFSET_USER_VERSION :: nat where [simp]: "HEADER_OFFSET_USER_VERSION = 60"
definition HEADER_OFFSET_INCR_VACUUM :: nat where [simp]: "HEADER_OFFSET_INCR_VACUUM = 64"
definition HEADER_OFFSET_APPLICATION_ID :: nat where [simp]: "HEADER_OFFSET_APPLICATION_ID = 68"
definition HEADER_OFFSET_VERSION_VALID :: nat where [simp]: "HEADER_OFFSET_VERSION_VALID = 92"
definition HEADER_OFFSET_SQLITE_VERSION :: nat where [simp]: "HEADER_OFFSET_SQLITE_VERSION = 96"

definition PAGE_TYPE_INTERIOR_INDEX :: u8 where [simp]: "PAGE_TYPE_INTERIOR_INDEX = 0x02"
definition PAGE_TYPE_INTERIOR_TABLE :: u8 where [simp]: "PAGE_TYPE_INTERIOR_TABLE = 0x05"
definition PAGE_TYPE_LEAF_INDEX :: u8 where [simp]: "PAGE_TYPE_LEAF_INDEX = 0x0a"
definition PAGE_TYPE_LEAF_TABLE :: u8 where [simp]: "PAGE_TYPE_LEAF_TABLE = 0x0d"

definition ROOT_PAGE :: u32 where [simp]: "ROOT_PAGE = 1"
definition SCHEMA_FORMAT :: u32 where [simp]: "SCHEMA_FORMAT = 4"
definition TEXT_ENCODING_UTF8 :: u32 where [simp]: "TEXT_ENCODING_UTF8 = 1"

definition SCHEMA_TABLE_NAME :: string where [simp]: "SCHEMA_TABLE_NAME = ''sqlite_schema''"
definition SCHEMA_TABLE_NAME_LEGACY :: string where
  [simp]: "SCHEMA_TABLE_NAME_LEGACY = ''sqlite_master''"

definition MAX_EMBEDDED_PAYLOAD :: u8 where [simp]: "MAX_EMBEDDED_PAYLOAD = 64"
definition MIN_EMBEDDED_PAYLOAD :: u8 where [simp]: "MIN_EMBEDDED_PAYLOAD = 32"
definition LEAF_PAYLOAD :: u8 where [simp]: "LEAF_PAYLOAD = 32"

definition WAL_MAGIC :: u32 where [simp]: "WAL_MAGIC = 0x377f0682"
definition WAL_MAGIC_LE :: u32 where [simp]: "WAL_MAGIC_LE = 0x377f0683"
definition WAL_HEADER_SIZE :: nat where [simp]: "WAL_HEADER_SIZE = 32"
definition WAL_FRAME_HEADER_SIZE :: nat where [simp]: "WAL_FRAME_HEADER_SIZE = 24"

lemma length_magic [simp, len_simps]: "length DATABASE_HEADER_MAGIC = 16"
  by (simp add: DATABASE_HEADER_MAGIC_def)

section \<open>Runs of big-endian fields\<close>

fun write_u32s :: "(nat \<times> u32) list \<Rightarrow> bytes \<Rightarrow> bytes res" where
  "write_u32s [] data = Inr data"
| "write_u32s ((offset, w) # fs) data = bindR (write_u32_be data offset w) (write_u32s fs)"

lemma write_u32s_in_range:
  assumes "\<forall>f \<in> set fs. fst f + 4 \<le> length data"
  shows "write_u32s fs data = Inr (foldl (\<lambda>d f. overlay d (fst f) (be_of_u32 (snd f))) data fs)"
  using assms
proof (induction fs arbitrary: data)
  case (Cons f fs)
  then show ?case by (cases f) (simp add: write_u32_be_def copy_at_def)
qed simp

definition u32s_in_order :: "(nat \<times> u32) list \<Rightarrow> bool" where
  "u32s_in_order fs = sorted_wrt (\<lambda>f g. fst f + 4 \<le> fst g) fs"

lemma write_u32s_Inr_aux:
  assumes "write_u32s fs d = Inr d'"
  shows "length d' = length d \<and> (\<forall>f \<in> set fs. fst f + 4 \<le> length d)"
  using assms
proof (induction fs arbitrary: d)
  case (Cons f fs)
  obtain a w where f: "f = (a, w)" by (cases f)
  from Cons.prems f have a: "a + 4 \<le> length d"
    and "write_u32s fs (overlay d a (be_of_u32 w)) = Inr d'"
    by (auto simp: write_u32_be_def bindR_eq_Inr)
  from Cons.IH [OF this(2)] this(1) f show ?case by simp
qed simp

lemmas write_u32s_Inr = write_u32s_Inr_aux [THEN conjunct1] write_u32s_Inr_aux [THEN conjunct2]

lemma write_u32s_ok:
  assumes "\<forall>f \<in> set fs. fst f + 4 \<le> length d"
  shows "\<exists>d'. write_u32s fs d = Inr d'"
  using write_u32s_in_range [OF assms] by blast

lemma write_u32s_other:
  assumes "write_u32s fs d = Inr d'" and "\<forall>f \<in> set fs. i + n \<le> fst f \<or> fst f + 4 \<le> i"
  shows "slice_of d' i n = slice_of d i n"
  using assms
  by (induction fs arbitrary: d) (auto simp: write_u32_be_def bindR_eq_Inr slice_of_overlay_other)

lemma u32_at_slice_eq:
  assumes "slice_of d i 4 = slice_of e i 4" and "i + 4 \<le> length d" and "i + 4 \<le> length e"
  shows "u32_at d i = u32_at e i"
  using assms by (metis u32_at_slice)

lemma write_u32s_same_field:
  assumes "write_u32s fs d = Inr d'" and "u32s_in_order fs" and "(i, w) \<in> set fs"
  shows "u32_at d' i = w"
  using assms
proof (induction fs arbitrary: d)
  case (Cons f fs)
  obtain o' v where f: "f = (o', v)" by (cases f)
  obtain e where e: "write_u32_be d o' v = Inr e" "write_u32s fs e = Inr d'"
    using Cons.prems(1) f by (auto simp: bindR_eq_Inr)
  show ?case
  proof (cases "f = (i, w)")
    case True
    have "e = overlay d i (be_of_u32 w)" and le: "i + 4 \<le> length d"
      using e(1) True f by (auto simp: write_u32_be_def)
    then have "u32_at e i = w" by simp
    moreover have "slice_of d' i 4 = slice_of e i 4"
      using Cons.prems(2) True f by (intro write_u32s_other [OF e(2)]) (auto simp: u32s_in_order_def)
    moreover have "length e = length d" and "length d' = length e"
      using e le True f write_u32s_Inr(1) [OF e(2)] by (auto simp: write_u32_be_def)
    ultimately show ?thesis using le u32_at_slice_eq [of d' i e] by simp
  next
    case False
    then show ?thesis
      using Cons.IH [OF e(2)] Cons.prems f by (auto simp: u32s_in_order_def)
  qed
qed simp

text \<open>Writing back what a buffer already holds does not change it.\<close>

lemma overlay_slice_of: "a + n \<le> length d \<Longrightarrow> overlay d a (slice_of d a n) = d"
  by (rule nth_equalityI) (auto simp: nth_overlay)

lemma be_u32_at: "a + 4 \<le> length d \<Longrightarrow> be_of_u32 (u32_at d a) = slice_of d a 4"
  by (rule sym, rule slice_of_eqI)
    (auto simp: u32_at_def be_of_u32_inverse nth_Cons numeral_eq_Suc less_Suc_eq)

lemma be_u16_at: "a + 2 \<le> length d \<Longrightarrow> be_of_u16 (u16_at d a) = slice_of d a 2"
  by (rule sym, rule slice_of_eqI)
    (auto simp: u16_at_def be_of_u16_inverse nth_Cons numeral_eq_Suc less_Suc_eq)

lemma write_u32_at_same: "a + 4 \<le> length d \<Longrightarrow> write_u32_be d a (u32_at d a) = Inr d"
  by (simp add: write_u32_be_def copy_at_def be_u32_at overlay_slice_of)

lemma write_u32s_same:
  assumes "\<forall>f \<in> set fs. fst f + 4 \<le> length d \<and> snd f = u32_at d (fst f)"
  shows "write_u32s fs d = Inr d"
  using assms by (induction fs) (auto simp: write_u32_at_same)

end
