(* ===== verification/Db_Header.thy ===== *)
theory Db_Header
  imports Constants
begin

text \<open>
  \<^verbatim>\<open>sqllite-core/src/storage/header.rs\<close>: the database header in the first hundred bytes of page 1.
\<close>

record database_header =
  page_size :: u32
  write_version :: u8
  read_version :: u8
  reserved_bytes :: u8
  max_embedded_payload :: u8
  min_embedded_payload :: u8
  leaf_payload :: u8
  change_counter :: u32
  database_size :: u32
  freelist_trunk :: u32
  freelist_count :: u32
  schema_cookie :: u32
  schema_format :: u32
  default_cache_size :: u32
  largest_root :: u32
  text_encoding :: u32
  user_version :: u32
  incr_vacuum :: u32
  application_id :: u32
  version_valid_for :: u32
  sqlite_version :: u32

definition header_new :: "u32 \<Rightarrow> database_header" where
  "header_new ps = \<lparr>page_size = ps, write_version = 1, read_version = 1, reserved_bytes = 0,
     max_embedded_payload = MAX_EMBEDDED_PAYLOAD, min_embedded_payload = MIN_EMBEDDED_PAYLOAD,
     leaf_payload = LEAF_PAYLOAD, change_counter = 1, database_size = 0, freelist_trunk = 0,
     freelist_count = 0, schema_cookie = 0, schema_format = SCHEMA_FORMAT, default_cache_size = 0,
     largest_root = 0, text_encoding = TEXT_ENCODING_UTF8, user_version = 0, incr_vacuum = 0,
     application_id = 0, version_valid_for = 1, sqlite_version = 3044001\<rparr>"

definition header_default :: database_header where
  "header_default = header_new DEFAULT_PAGE_SIZE"

definition is_power_of_two :: "u32 \<Rightarrow> bool" where
  "is_power_of_two w = (length (filter (bit w) [0..<32]) = 1)"

definition valid_page_size :: "u32 \<Rightarrow> bool" where
  "valid_page_size ps =
     (\<not> (ps < MIN_PAGE_SIZE \<or> ps > MAX_PAGE_SIZE \<or> \<not> is_power_of_two ps))"

definition header_parse :: "bytes \<Rightarrow> database_header res" where
  "header_parse data =
     (if length data < DATABASE_HEADER_SIZE then sql_err RcCorrupt ''database header too short''
      else if slice_of data 0 16 \<noteq> DATABASE_HEADER_MAGIC
        then sql_err RcNotADb ''file is not a database''
      else bindR (read_u16_be data HEADER_OFFSET_PAGE_SIZE) (\<lambda>raw.
        let raw_page_size = (ucast raw :: u32);
            ps = (if raw_page_size = 1 then 65536 else raw_page_size) in
        if \<not> valid_page_size ps then sql_err RcCorrupt ''invalid page size''
        else
          bindR (get_at data HEADER_OFFSET_WRITE_VERSION) (\<lambda>wv.
          bindR (get_at data HEADER_OFFSET_READ_VERSION) (\<lambda>rv.
          bindR (get_at data HEADER_OFFSET_RESERVED) (\<lambda>rb.
          bindR (get_at data HEADER_OFFSET_MAX_EMBED_PAYLOAD) (\<lambda>mx.
          bindR (get_at data HEADER_OFFSET_MIN_EMBED_PAYLOAD) (\<lambda>mn.
          bindR (get_at data HEADER_OFFSET_LEAF_PAYLOAD) (\<lambda>lp.
          bindR (read_u32_be data HEADER_OFFSET_CHANGE_COUNTER) (\<lambda>cc.
          bindR (read_u32_be data HEADER_OFFSET_DATABASE_SIZE) (\<lambda>ds.
          bindR (read_u32_be data HEADER_OFFSET_FREELIST_TRUNK) (\<lambda>ft.
          bindR (read_u32_be data HEADER_OFFSET_FREELIST_COUNT) (\<lambda>fc.
          bindR (read_u32_be data HEADER_OFFSET_SCHEMA_COOKIE) (\<lambda>sc.
          bindR (read_u32_be data HEADER_OFFSET_SCHEMA_FORMAT) (\<lambda>sf.
          bindR (read_u32_be data HEADER_OFFSET_DEFAULT_CACHE) (\<lambda>dc.
          bindR (read_u32_be data HEADER_OFFSET_LARGEST_ROOT) (\<lambda>lr.
          bindR (read_u32_be data HEADER_OFFSET_TEXT_ENCODING) (\<lambda>te.
          bindR (read_u32_be data HEADER_OFFSET_USER_VERSION) (\<lambda>uv.
          bindR (read_u32_be data HEADER_OFFSET_INCR_VACUUM) (\<lambda>iv.
          bindR (read_u32_be data HEADER_OFFSET_APPLICATION_ID) (\<lambda>ai.
          bindR (read_u32_be data HEADER_OFFSET_VERSION_VALID) (\<lambda>vv.
          bindR (read_u32_be data HEADER_OFFSET_SQLITE_VERSION) (\<lambda>sv.
            Inr \<lparr>page_size = ps, write_version = wv, read_version = rv, reserved_bytes = rb,
              max_embedded_payload = mx, min_embedded_payload = mn, leaf_payload = lp,
              change_counter = cc, database_size = ds, freelist_trunk = ft, freelist_count = fc,
              schema_cookie = sc, schema_format = sf, default_cache_size = dc, largest_root = lr,
              text_encoding = te, user_version = uv, incr_vacuum = iv, application_id = ai,
              version_valid_for = vv, sqlite_version = sv\<rparr>))))))))))))))))))))))"

text \<open>The writer sets its bytes one by one; \<open>write_u8s\<close> is that run of single-byte stores.\<close>

fun write_u8s :: "(nat \<times> u8) list \<Rightarrow> bytes \<Rightarrow> bytes res" where
  "write_u8s [] page = Inr page"
| "write_u8s ((i, b) # fs) page = bindR (set_at page i b) (write_u8s fs)"

definition header_u8_fields :: "database_header \<Rightarrow> (nat \<times> u8) list" where
  "header_u8_fields h =
     (let raw_page_size = (if page_size h = 65536 then 1 else (ucast (page_size h) :: u16)) in
      [(HEADER_OFFSET_PAGE_SIZE, ucast (drop_bit 8 raw_page_size)),
       (HEADER_OFFSET_PAGE_SIZE + 1, ucast raw_page_size),
       (HEADER_OFFSET_WRITE_VERSION, write_version h),
       (HEADER_OFFSET_READ_VERSION, read_version h),
       (HEADER_OFFSET_RESERVED, reserved_bytes h),
       (HEADER_OFFSET_MAX_EMBED_PAYLOAD, max_embedded_payload h),
       (HEADER_OFFSET_MIN_EMBED_PAYLOAD, min_embedded_payload h),
       (HEADER_OFFSET_LEAF_PAYLOAD, leaf_payload h)])"

definition header_u32_fields :: "database_header \<Rightarrow> (nat \<times> u32) list" where
  "header_u32_fields h =
     [(HEADER_OFFSET_CHANGE_COUNTER, change_counter h),
      (HEADER_OFFSET_DATABASE_SIZE, database_size h),
      (HEADER_OFFSET_FREELIST_TRUNK, freelist_trunk h),
      (HEADER_OFFSET_FREELIST_COUNT, freelist_count h),
      (HEADER_OFFSET_SCHEMA_COOKIE, schema_cookie h),
      (HEADER_OFFSET_SCHEMA_FORMAT, schema_format h),
      (HEADER_OFFSET_DEFAULT_CACHE, default_cache_size h),
      (HEADER_OFFSET_LARGEST_ROOT, largest_root h),
      (HEADER_OFFSET_TEXT_ENCODING, text_encoding h),
      (HEADER_OFFSET_USER_VERSION, user_version h),
      (HEADER_OFFSET_INCR_VACUUM, incr_vacuum h),
      (HEADER_OFFSET_APPLICATION_ID, application_id h),
      (HEADER_OFFSET_VERSION_VALID, version_valid_for h),
      (HEADER_OFFSET_SQLITE_VERSION, sqlite_version h)]"

definition header_write :: "database_header \<Rightarrow> bytes \<Rightarrow> bytes res" where
  "header_write h page =
     bindR (copy_at page 0 DATABASE_HEADER_MAGIC) (\<lambda>page.
     bindR (write_u8s (header_u8_fields h) page) (\<lambda>page.
       write_u32s (header_u32_fields h) page))"

definition usable_page_size :: "database_header \<Rightarrow> u32 res" where
  "usable_page_size h =
     (if page_size h < ucast (reserved_bytes h) then panic
      else Inr (page_size h - ucast (reserved_bytes h)))"

section \<open>Parsing what was written\<close>

lemma write_u8s_in_range:
  assumes "\<forall>f \<in> set fs. fst f < length page"
  shows "write_u8s fs page = Inr (foldl (\<lambda>d f. d[fst f := snd f]) page fs)"
  using assms
proof (induction fs arbitrary: page)
  case (Cons f fs)
  then show ?case by (cases f) (simp add: set_at_def)
qed simp

lemma u32_at_list_update: "j < i \<or> i + 4 \<le> j \<Longrightarrow> u32_at (d[j := x]) i = u32_at d i"
  by (auto simp: u32_at_def)

lemma u16_at_list_update: "j < i \<or> i + 2 \<le> j \<Longrightarrow> u16_at (d[j := x]) i = u16_at d i"
  by (auto simp: u16_at_def)

lemma slice_of_list_update: "j < a \<or> a + n \<le> j \<Longrightarrow> slice_of (d[j := x]) a n = slice_of d a n"
  by (rule nth_equalityI) auto

lemma u16_at_two_updates:
  "i + 2 \<le> length d \<Longrightarrow> u16_at (d[i := ucast (drop_bit 8 w), Suc i := ucast w]) i = w"
  by (simp add: u16_at_def u16_of_be_inverse)

lemma raw_page_size:
  assumes "valid_page_size ps"
  shows "(let raw = (ucast (if ps = 65536 then 1 else (ucast ps :: u16)) :: u32) in
    (if raw = 1 then 65536 else raw)) = ps"
proof (cases "ps = 65536")
  case False
  then have "unat ps < 65536" "512 \<le> unat ps"
    using assms by (auto simp: valid_page_size_def not_less word_le_nat_alt word_less_nat_alt
        word_unat_eq_iff)
  then have "ps mod 65536 = ps" and "ps \<noteq> 1"
    by (auto simp: word_unat_eq_iff unat_mod)
  then have "ucast (ucast ps :: u16) = ps" and "ps \<noteq> 1"
    by (simp_all add: word_uint_eq_iff unsigned_ucast_eq take_bit_eq_mod)
  with False show ?thesis by simp
qed simp

lemma header_written_parses:
  assumes "valid_page_size (page_size h)" and "100 \<le> length page"
  shows "\<exists>page'. header_write h page = Inr page' \<and> length page' = length page
    \<and> header_parse page' = Inr h"
proof -
  let ?p1 = "overlay page 0 DATABASE_HEADER_MAGIC"
  let ?p2 = "foldl (\<lambda>d f. d[fst f := snd f]) ?p1 (header_u8_fields h)"
  have p2: "write_u8s (header_u8_fields h) ?p1 = Inr ?p2"
    using assms(2) by (intro write_u8s_in_range) (simp add: header_u8_fields_def Let_def)
  have len2: "length ?p2 = length page"
    using assms(2) by (simp add: header_u8_fields_def Let_def)
  obtain p3 where p3: "write_u32s (header_u32_fields h) ?p2 = Inr p3"
    using write_u32s_ok [of "header_u32_fields h" ?p2] assms(2) len2
    by (auto simp: header_u32_fields_def)
  have len3: "length p3 = length page" using write_u32s_Inr(1) [OF p3] len2 by simp
  have low: "slice_of p3 i n = slice_of ?p2 i n" if "i + n \<le> 24" for i n
    using that by (intro write_u32s_other [OF p3]) (simp add: header_u32_fields_def)
  have "slice_of ?p2 0 16 = slice_of ?p1 0 16"
    by (simp add: header_u8_fields_def Let_def slice_of_list_update)
  also have "\<dots> = DATABASE_HEADER_MAGIC"
    using slice_of_overlay_same [of 0 DATABASE_HEADER_MAGIC page] assms(2) by simp
  finally have magic: "slice_of p3 0 16 = DATABASE_HEADER_MAGIC" using low [of 0 16] by simp
  have "u16_at p3 16 = u16_at ?p2 16"
    using low [of 16 2] len2 len3 assms(2) u16_at_slice [of 16 p3] u16_at_slice [of 16 ?p2]
    by simp
  also have "\<dots> = (if page_size h = 65536 then 1 else ucast (page_size h))"
    using assms(2) u16_at_two_updates [of 16 ?p1 1]
      u16_at_two_updates [of 16 ?p1 "ucast (page_size h)"]
    by (simp add: header_u8_fields_def Let_def u16_at_list_update)
  finally have ps: "u16_at p3 16 = (if page_size h = 65536 then 1 else ucast (page_size h))" .
  have nth: "p3 ! i = ?p2 ! i" if "i < 24" for i
    using low [of i 1] that len2 len3 assms(2) nth_slice_of [of 0 1 i p3] nth_slice_of [of 0 1 i ?p2]
    by simp
  have bytes: "p3 ! 18 = write_version h" "p3 ! 19 = read_version h" "p3 ! 20 = reserved_bytes h"
    "p3 ! 21 = max_embedded_payload h" "p3 ! 22 = min_embedded_payload h" "p3 ! 23 = leaf_payload h"
    using assms(2) by (simp_all add: nth) (simp_all add: header_u8_fields_def Let_def)
  have ord: "u32s_in_order (header_u32_fields h)"
    by (simp add: u32s_in_order_def header_u32_fields_def)
  note field = write_u32s_same_field [OF p3 ord]
  have words: "u32_at p3 24 = change_counter h" "u32_at p3 28 = database_size h"
    "u32_at p3 32 = freelist_trunk h" "u32_at p3 36 = freelist_count h"
    "u32_at p3 40 = schema_cookie h" "u32_at p3 44 = schema_format h"
    "u32_at p3 48 = default_cache_size h" "u32_at p3 52 = largest_root h"
    "u32_at p3 56 = text_encoding h" "u32_at p3 60 = user_version h" "u32_at p3 64 = incr_vacuum h"
    "u32_at p3 68 = application_id h" "u32_at p3 92 = version_valid_for h"
    "u32_at p3 96 = sqlite_version h"
    by (rule field; simp add: header_u32_fields_def)+
  have "header_parse p3 = Inr h"
    using assms len3 raw_page_size [OF assms(1)]
    by (simp add: header_parse_def magic ps read_u16_be_eq read_u32_be_eq get_at_def bytes words Let_def)
  moreover have "header_write h page = Inr p3"
    using assms(2) p2 p3 by (simp add: header_write_def copy_at_def)
  ultimately show ?thesis using len3 by blast
qed

text \<open>
  C21. The header written into any page buffer of at least a hundred bytes parses back to the same
  header, all twenty-one fields of it, for every legal page size (the size 65536 is stored as 1),
  and neither the writer nor the parser panics.
\<close>

theorem header_roundtrip:
  assumes "valid_page_size (page_size h)" and "100 \<le> length page"
  shows "\<exists>page'. header_write h page = Inr page' \<and> length page' = length page
    \<and> header_parse page' = Inr h"
  using assms by (rule header_written_parses)

theorem header_roundtrip_witness:
  "\<exists>page'. header_write (header_new 65536) (replicate 512 7) = Inr page'
    \<and> length page' = length (replicate 512 (7 :: u8)) \<and> header_parse page' = Inr (header_new 65536)"
  by (rule header_roundtrip)
    (simp_all add: header_new_def valid_page_size_def is_power_of_two_def upt_rec bit_numeral_rec)

lemma usable_of_valid:
  assumes "valid_page_size (page_size h)"
  shows "\<exists>u. usable_page_size h = Inr u \<and> 257 \<le> unat u"
proof -
  have ps: "512 \<le> unat (page_size h)"
    using assms by (simp add: valid_page_size_def not_less word_le_nat_alt)
  have rb: "unat (ucast (reserved_bytes h) :: u32) \<le> 255"
    using unsigned_less [of "reserved_bytes h", where 'a = nat]
    by (simp add: unsigned_ucast_eq take_bit_nat_eq_self)
  then have "\<not> page_size h < ucast (reserved_bytes h)"
    using ps by (simp add: word_less_nat_alt)
  then show ?thesis
    using ps rb by (simp add: usable_page_size_def unat_sub_if')
qed

text \<open>
  C22. Whatever a parse accepts is well formed: the page size is a power of two between 512 and
  65536, so \<^verbatim>\<open>usable_page_size\<close> does not underflow and leaves at least 257 bytes, and writing
  the parsed header back leaves the page bit for bit as it was.
\<close>

theorem parsed_header_is_faithful:
  assumes "header_parse data = Inr h"
  shows "valid_page_size (page_size h) \<and> (\<exists>u. usable_page_size h = Inr u \<and> 257 \<le> unat u)
    \<and> header_write h data = Inr data"
proof -
  have len: "100 \<le> length data" and magic: "slice_of data 0 16 = DATABASE_HEADER_MAGIC"
    using assms by (auto simp: header_parse_def split: if_splits)
  let ?ps = "if u16_at data 16 = 1 then 65536 else ucast (u16_at data 16) :: u32"
  have one: "(ucast (w :: u16) :: u32) = 1 \<longleftrightarrow> w = 1" for w
    using unsigned_less [of w, where 'a = int]
    by (auto simp: word_uint_eq_iff unsigned_ucast_eq take_bit_int_eq_self)
  have valid: "valid_page_size ?ps"
    using assms len magic
    by (auto simp: header_parse_def read_u16_be_eq one Let_def split: if_splits)
  have h: "h = \<lparr>page_size = ?ps, write_version = data ! 18, read_version = data ! 19,
    reserved_bytes = data ! 20, max_embedded_payload = data ! 21, min_embedded_payload = data ! 22,
    leaf_payload = data ! 23, change_counter = u32_at data 24, database_size = u32_at data 28,
    freelist_trunk = u32_at data 32, freelist_count = u32_at data 36,
    schema_cookie = u32_at data 40, schema_format = u32_at data 44,
    default_cache_size = u32_at data 48, largest_root = u32_at data 52,
    text_encoding = u32_at data 56, user_version = u32_at data 60, incr_vacuum = u32_at data 64,
    application_id = u32_at data 68, version_valid_for = u32_at data 92,
    sqlite_version = u32_at data 96\<rparr>"
    using assms len magic valid
    by (simp add: header_parse_def read_u16_be_eq read_u32_be_eq get_at_def one Let_def)
  have raw: "(if ?ps = 65536 then 1 else ucast ?ps) = u16_at data 16"
    using unsigned_less [of "u16_at data 16", where 'a = int]
    by (auto simp: word_uint_eq_iff unsigned_ucast_eq take_bit_int_eq_self)
  have u8: "header_u8_fields h = [(16, data ! 16), (17, data ! 17), (18, data ! 18),
    (19, data ! 19), (20, data ! 20), (21, data ! 21), (22, data ! 22), (23, data ! 23)]"
    using be_of_u16_inverse [of "data ! 16" "data ! 17"]
    unfolding header_u8_fields_def h Let_def
    by (simp only: database_header.simps raw) (simp add: u16_at_def be_of_u16_def)
  have "write_u8s (header_u8_fields h) data = Inr data"
    using len by (simp add: u8 set_at_def)
  moreover have "write_u32s (header_u32_fields h) data = Inr data"
    using len by (intro write_u32s_same) (simp add: header_u32_fields_def h)
  moreover have "overlay data 0 DATABASE_HEADER_MAGIC = data"
    using overlay_slice_of [of 0 16 data] len magic by simp
  ultimately have "header_write h data = Inr data"
    using len by (simp add: header_write_def copy_at_def)
  moreover have "page_size h = ?ps" by (simp add: h)
  ultimately show ?thesis using valid usable_of_valid [of h] by simp
qed

theorem parsed_header_is_faithful_witness:
  "\<exists>data. header_parse data = Inr (header_new 4096)
    \<and> valid_page_size (page_size (header_new 4096))
    \<and> (\<exists>u. usable_page_size (header_new 4096) = Inr u \<and> 257 \<le> unat u)
    \<and> header_write (header_new 4096) data = Inr data"
proof -
  have "valid_page_size (page_size (header_new 4096))"
    by (simp add: header_new_def valid_page_size_def is_power_of_two_def upt_rec bit_numeral_rec)
  then obtain data where data: "header_parse data = Inr (header_new 4096)"
    using header_written_parses [of "header_new 4096" "replicate 100 0"] by auto
  from parsed_header_is_faithful [OF this] data show ?thesis by blast
qed

end
