(* ===== verification/Disk.thy ===== *)
theory Disk
  imports Constants
begin

text \<open>
  \<^verbatim>\<open>sqllite-core/src/io/unix.rs\<close> and the two kinds of \<^verbatim>\<open>Box<dyn VfsFile>\<close> the engine holds. The
  files of the operating system are a map from paths to contents; opening, reading, writing,
  truncating and sizing a file are what \<^verbatim>\<open>std::fs\<close> documents for a byte file without I/O failures:
  a write past the end fills the gap with zeros, \<^verbatim>\<open>set_len\<close> cuts or extends, a handle that was
  opened for reading refuses writes. A state of a file is the handle together with the disk.
\<close>

type_synonym disk = "string \<rightharpoonup> bytes"

record open_flags =
  of_read_only :: bool
  of_create :: bool
  of_memory :: bool

datatype handle = MemoryFile memory_file | UnixFile string bool

type_synonym file_state = "handle \<times> disk"

definition enoent :: string where
  "enoent = ''No such file or directory (os error 2)''"

definition ebadf :: string where
  "ebadf = ''Bad file descriptor (os error 9)''"

definition unix_exists :: "string \<Rightarrow> disk \<Rightarrow> bool" where
  "unix_exists path d = (d path \<noteq> None)"

definition unix_open :: "string \<Rightarrow> open_flags \<Rightarrow> (disk, handle) sres" where
  "unix_open path flags d =
     (if d path \<noteq> None then (Inr (UnixFile path (\<not> of_read_only flags)), d)
      else if \<not> of_read_only flags \<and> of_create flags then (Inr (UnixFile path True), d(path \<mapsto> []))
      else (sql_err RcCantOpen (''unable to open database file: '' @ enoent), d))"

definition unix_delete :: "string \<Rightarrow> (disk, unit) sres" where
  "unix_delete path d =
     (if d path \<noteq> None then (Inr (), d(path := None)) else (Inl (Fail (Io enoent)), d))"

definition disk_bytes :: "disk \<Rightarrow> string \<Rightarrow> bytes" where
  "disk_bytes d path = (case d path of None \<Rightarrow> [] | Some bs \<Rightarrow> bs)"

fun file_content :: "file_state \<Rightarrow> bytes" where
  "file_content (MemoryFile m, d) = mf_data m"
| "file_content (UnixFile path w, d) = disk_bytes d path"

fun file_writable :: "file_state \<Rightarrow> bool" where
  "file_writable (MemoryFile m, d) = True"
| "file_writable (UnixFile path w, d) = w"

fun file_read_at :: "file_state \<Rightarrow> nat \<Rightarrow> nat \<Rightarrow> bytes res" where
  "file_read_at (MemoryFile m, d) offset n = mem_read_at m offset n"
| "file_read_at (UnixFile path w, d) offset n = Inr (slice_of (disk_bytes d path) offset n)"

fun file_write_at :: "nat \<Rightarrow> bytes \<Rightarrow> (file_state, nat) sres" where
  "file_write_at offset buf (MemoryFile m, d) =
     (case mem_write_at offset buf m of (r, m') \<Rightarrow> (r, (MemoryFile m', d)))"
| "file_write_at offset buf (UnixFile path w, d) =
     (if \<not> w then (Inl (Fail (Io ebadf)), (UnixFile path w, d))
      else (Inr (length buf), (UnixFile path w, d(path \<mapsto> put_bytes (disk_bytes d path) offset buf))))"

fun file_truncate :: "nat \<Rightarrow> (file_state, unit) sres" where
  "file_truncate n (MemoryFile m, d) = (Inr (), (MemoryFile (mem_truncate n m), d))"
| "file_truncate n (UnixFile path w, d) =
     (if \<not> w then (Inl (Fail (Io ebadf)), (UnixFile path w, d))
      else (Inr (), (UnixFile path w, d(path \<mapsto> resize (disk_bytes d path) n 0))))"

definition file_sync :: "(file_state, unit) sres" where
  "file_sync = retS ()"

fun file_size :: "file_state \<Rightarrow> nat" where
  "file_size (MemoryFile m, d) = mem_size m"
| "file_size (UnixFile path w, d) = length (disk_bytes d path)"

interpretation fs: vfs_file file_content file_read_at file_write_at file_writable
proof unfold_locales
  fix f a n bs assume "file_read_at f a n = Inr bs"
  then show "length bs \<le> n \<and> bs = slice_of (file_content f) a (length bs)"
    by (cases "(f, a, n)" rule: file_read_at.cases)
      (auto simp: slice_of_def min_def dest: mem.rd_prefix)
next
  fix a n :: nat and f assume "a < length (file_content f)" "0 < n"
  then show "\<exists>b bs. file_read_at f a n = Inr (b # bs)"
    using mem.rd_progress
    by (cases "(f, a, n)" rule: file_read_at.cases) (auto simp: slice_of_def simp flip: neq_Nil_conv)
next
  fix a n :: nat and f assume "length (file_content f) \<le> a"
  then show "file_read_at f a n = Inr []"
    by (cases "(f, a, n)" rule: file_read_at.cases) (auto simp: slice_of_def mem.rd_eof)
next
  fix f and buf :: bytes and a assume w: "file_writable f" and ne: "buf \<noteq> []"
  obtain h d where f: "f = (h, d)" by (cases f)
  show "\<exists>k f'. file_write_at a buf f = (Inr k, f') \<and> 0 < k \<and> k \<le> length buf
      \<and> file_writable f' \<and> file_content f' = put_bytes (file_content f) a (take k buf)"
  proof (cases h)
    case (MemoryFile m)
    obtain k m' where "mem_write_at a buf m = (Inr k, m')" "0 < k" "k \<le> length buf"
      "mf_data m' = put_bytes (mf_data m) a (take k buf)"
      using mem.wr_progress [OF TrueI ne, of a m] by auto
    with f MemoryFile show ?thesis
      by (intro exI [of _ k] exI [of _ "(MemoryFile m', d)"]) simp
  next
    case (UnixFile p w')
    with f w ne show ?thesis by (simp add: disk_bytes_def)
  qed
qed

lemma file_size_content: "file_size f = length (file_content f)"
  by (cases f rule: file_size.cases) (simp_all add: mem_size_def)

lemma file_sync_app [simp]: "file_sync f = (Inr (), f)"
  by (simp add: file_sync_def)

text \<open>Exact reads and writes on a handle.\<close>

definition file_read_exact :: "nat \<Rightarrow> nat \<Rightarrow> file_state \<Rightarrow> bytes res" where
  "file_read_exact offset n f = read_exact_at file_read_at f offset n"

definition file_write_exact :: "nat \<Rightarrow> bytes \<Rightarrow> (file_state, unit) sres" where
  "file_write_exact offset buf = write_exact_at file_write_at offset buf"

lemma file_read_exact_eq:
  "file_read_exact a n f =
     (if n = 0 \<or> a + n \<le> length (file_content f) then Inr (slice_of (file_content f) a n)
      else sql_err RcIoErr ''unexpected EOF'')"
  unfolding file_read_exact_def by (rule fs.read_exact_at_eq)

text \<open>A write keeps the handle and the other files.\<close>

fun same_handle :: "handle \<Rightarrow> handle \<Rightarrow> bool" where
  "same_handle (MemoryFile m) (MemoryFile m') = True"
| "same_handle (UnixFile p w) (UnixFile p' w') = (p = p' \<and> w = w')"
| "same_handle f g = False"

fun touches :: "handle \<Rightarrow> string set" where
  "touches (MemoryFile m) = {}"
| "touches (UnixFile p w) = {p}"

definition frame_of :: "file_state \<Rightarrow> file_state \<Rightarrow> bool" where
  "frame_of f f' = (same_handle (fst f) (fst f') \<and> (\<forall>p. p \<notin> touches (fst f) \<longrightarrow> snd f' p = snd f p))"

lemma same_handle_refl [simp]: "same_handle f f"
  by (cases f) simp_all

lemma same_handle_trans: "same_handle f g \<Longrightarrow> same_handle g h \<Longrightarrow> same_handle f h"
  by (cases f; cases g; cases h) auto

lemma same_handle_touches: "same_handle f g \<Longrightarrow> touches f = touches g"
  by (cases f; cases g) auto

lemma frame_of_refl [simp]: "frame_of f f"
  by (simp add: frame_of_def)

lemma frame_of_trans: "frame_of f g \<Longrightarrow> frame_of g h \<Longrightarrow> frame_of f h"
  by (auto simp: frame_of_def intro: same_handle_trans dest: same_handle_touches)

lemma file_write_at_frame: "file_write_at a buf f = (r, f') \<Longrightarrow> frame_of f f'"
  by (cases "(a, buf, f)" rule: file_write_at.cases)
    (auto simp: frame_of_def split: prod.splits if_splits)

lemma write_exact_loop_frame:
  "write_exact_loop file_write_at a buf w f = (r, f') \<Longrightarrow> frame_of f f'"
proof (induction "length buf - w" arbitrary: w f rule: less_induct)
  case less
  show ?case
  proof (cases "w < length buf")
    case True
    obtain r1 f1 where w1: "file_write_at (a + w) (drop w buf) f = (r1, f1)"
      by (cases "file_write_at (a + w) (drop w buf) f")
    note fr1 = file_write_at_frame [OF w1]
    show ?thesis
    proof (cases r1)
      case (Inl e)
      with less.prems w1 True fr1 show ?thesis by (simp add: write_exact_loop.simps [of _ a buf w])
    next
      case (Inr k)
      show ?thesis
      proof (cases "k = 0")
        case True
        with less.prems w1 \<open>w < length buf\<close> fr1 Inr show ?thesis
          by (simp add: write_exact_loop.simps [of _ a buf w])
      next
        case False
        then have "write_exact_loop file_write_at a buf (w + k) f1 = (r, f')"
          using less.prems w1 True Inr by (simp add: write_exact_loop.simps [of _ a buf w])
        then have "frame_of f1 f'" using True False by (intro less.hyps) auto
        with fr1 show ?thesis by (rule frame_of_trans)
      qed
    qed
  next
    case False
    with less.prems show ?thesis by (simp add: write_exact_loop.simps [of _ a buf w])
  qed
qed

lemma file_write_exact_frame: "file_write_exact a buf f = (r, f') \<Longrightarrow> frame_of f f'"
  unfolding file_write_exact_def write_exact_at_def by (rule write_exact_loop_frame)

lemma file_write_exact_ok:
  assumes "file_writable f"
  obtains f' where "file_write_exact a buf f = (Inr (), f')" and "file_writable f'"
    and "file_content f' = put_bytes (file_content f) a buf" and "frame_of f f'"
  using fs.write_exact_at_ok [OF assms, of a buf] file_write_exact_frame [of a buf f]
  by (auto simp: file_write_exact_def)

lemma file_truncate_frame: "file_truncate n f = (r, f') \<Longrightarrow> frame_of f f'"
  by (cases "(n, f)" rule: file_truncate.cases) (auto simp: frame_of_def split: if_splits)

lemma file_truncate_ok:
  assumes "file_writable f" and "n \<le> length (file_content f)"
  obtains f' where "file_truncate n f = (Inr (), f')" and "file_writable f'"
    and "file_content f' = take n (file_content f)" and "frame_of f f'"
  using assms file_truncate_frame [of n f]
  by (cases "(n, f)" rule: file_truncate.cases) (auto simp: mem_truncate_def resize_def disk_bytes_def)

lemma frame_of_writable: "frame_of f f' \<Longrightarrow> file_writable f' = file_writable f"
  by (cases f; cases f'; cases "fst f"; cases "fst f'") (auto simp: frame_of_def)

end
