(* ===== verification/Wal.thy ===== *)
theory Wal
  imports Disk "HOL-Library.AList"
begin

text \<open>
  \<^verbatim>\<open>sqllite-core/src/storage/wal.rs\<close>: the write-ahead log. The header and frame codecs with their
  checksums, then the log itself: creation, opening with recovery of the frame index, appending,
  reading the latest version of a page, checkpointing into the database file. The \<^verbatim>\<open>HashMap\<close> from
  page numbers to frames is an association list with distinct keys. The abstract value of a log is
  the list of the frames it holds, oldest first.
\<close>

definition WAL_FORMAT_VERSION :: u32 where [simp]: "WAL_FORMAT_VERSION = 3007000"

record wal_header =
  wh_magic :: u32
  wh_version :: u32
  wh_page_size :: u32
  wh_checkpoint_seq :: u32
  wh_salt1 :: u32
  wh_salt2 :: u32
  wh_checksum1 :: u32
  wh_checksum2 :: u32

record wal_frame_header =
  fh_pgno :: u32
  fh_db_size :: u32
  fh_salt1 :: u32
  fh_salt2 :: u32
  fh_checksum1 :: u32
  fh_checksum2 :: u32

section \<open>Checksums\<close>

fun wal_checksum_loop :: "u32 list \<Rightarrow> u32 \<times> u32 \<Rightarrow> u32 \<times> u32" where
  "wal_checksum_loop [] (s1, s2) = (s1, s2)"
| "wal_checksum_loop (w # ws) (s1, s2) = (let s1' = s1 + w in wal_checksum_loop ws (s1', s2 + s1'))"

definition wal_checksum :: "u32 \<Rightarrow> u32 list \<Rightarrow> u32 \<times> u32 \<Rightarrow> u32 \<times> u32" where
  "wal_checksum salt data checksum =
     wal_checksum_loop data
       (fst checksum + salt + of_nat (length data), snd checksum + salt + of_nat (length data) * 2)"

fun bytes_to_u32_be :: "bytes \<Rightarrow> u32 list" where
  "bytes_to_u32_be (b0 # b1 # b2 # b3 # bs) = u32_of_be b0 b1 b2 b3 # bytes_to_u32_be bs"
| "bytes_to_u32_be _ = []"

definition swap_bytes :: "u32 \<Rightarrow> u32" where
  "swap_bytes w =
     u32_of_be (ucast w) (ucast (drop_bit 8 w)) (ucast (drop_bit 16 w)) (ucast (drop_bit 24 w))"

section \<open>The header\<close>

definition header_words :: "wal_header \<Rightarrow> u32 list" where
  "header_words h = [wh_magic h, wh_version h, wh_page_size h, wh_checkpoint_seq h, wh_salt1 h,
     wh_salt2 h, 0, 0]"

definition wal_header_update_checksum :: "wal_header \<Rightarrow> wal_header" where
  "wal_header_update_checksum h =
     (let c = wal_checksum 0 (header_words h) (0, 0)
      in h\<lparr>wh_checksum1 := fst c, wh_checksum2 := snd c\<rparr>)"

definition wal_header_verify_checksum :: "wal_header \<Rightarrow> bool" where
  "wal_header_verify_checksum h =
     (let c = wal_checksum 0 (header_words h) (0, 0)
      in fst c = wh_checksum1 h \<and> snd c = wh_checksum2 h)"

definition wal_header_new :: "u32 \<Rightarrow> u32 \<Rightarrow> u32 \<Rightarrow> wal_header" where
  "wal_header_new page_size salt1 salt2 =
     wal_header_update_checksum \<lparr>wh_magic = WAL_MAGIC, wh_version = WAL_FORMAT_VERSION,
       wh_page_size = page_size, wh_checkpoint_seq = 0, wh_salt1 = salt1, wh_salt2 = salt2,
       wh_checksum1 = 0, wh_checksum2 = 0\<rparr>"

definition wal_header_encode :: "wal_header \<Rightarrow> bytes res" where
  "wal_header_encode h =
     write_u32s [(0, wh_magic h), (4, wh_version h), (8, wh_page_size h), (12, wh_checkpoint_seq h),
       (16, wh_salt1 h), (20, wh_salt2 h), (24, wh_checksum1 h), (28, wh_checksum2 h)]
       (replicate WAL_HEADER_SIZE 0)"

definition wal_header_decode :: "bytes \<Rightarrow> wal_header res" where
  "wal_header_decode data =
     (if length data < WAL_HEADER_SIZE then sql_err RcCorrupt ''WAL header too short''
      else bindR (read_u32_be data 0) (\<lambda>mg.
        bindR (read_u32_be data 4) (\<lambda>vs.
        bindR (read_u32_be data 8) (\<lambda>ps.
        bindR (read_u32_be data 12) (\<lambda>cs.
        bindR (read_u32_be data 16) (\<lambda>s1.
        bindR (read_u32_be data 20) (\<lambda>s2.
        bindR (read_u32_be data 24) (\<lambda>c1.
        bindR (read_u32_be data 28) (\<lambda>c2.
          let header = \<lparr>wh_magic = mg, wh_version = vs, wh_page_size = ps, wh_checkpoint_seq = cs,
            wh_salt1 = s1, wh_salt2 = s2, wh_checksum1 = c1, wh_checksum2 = c2\<rparr> in
          if wh_magic header \<noteq> WAL_MAGIC \<and> wh_magic header \<noteq> WAL_MAGIC_LE
            then sql_err RcCorrupt ''invalid WAL magic''
          else if wh_version header \<noteq> WAL_FORMAT_VERSION
            then sql_err RcCorrupt ''unsupported WAL version''
          else if \<not> wal_header_verify_checksum header
            then sql_err RcCorrupt ''WAL header checksum mismatch''
          else Inr header)))))))))"

section \<open>Frame headers\<close>

definition frame_header_encode :: "wal_frame_header \<Rightarrow> bytes res" where
  "frame_header_encode h =
     write_u32s [(0, fh_pgno h), (4, fh_db_size h), (8, fh_salt1 h), (12, fh_salt2 h),
       (16, fh_checksum1 h), (20, fh_checksum2 h)] (replicate WAL_FRAME_HEADER_SIZE 0)"

definition frame_header_decode :: "bytes \<Rightarrow> wal_frame_header res" where
  "frame_header_decode data =
     (if length data < WAL_FRAME_HEADER_SIZE then sql_err RcCorrupt ''WAL frame header too short''
      else bindR (read_u32_be data 0) (\<lambda>pg.
        bindR (read_u32_be data 4) (\<lambda>ds.
        bindR (read_u32_be data 8) (\<lambda>s1.
        bindR (read_u32_be data 12) (\<lambda>s2.
        bindR (read_u32_be data 16) (\<lambda>c1.
        bindR (read_u32_be data 20) (\<lambda>c2.
          Inr \<lparr>fh_pgno = pg, fh_db_size = ds, fh_salt1 = s1, fh_salt2 = s2, fh_checksum1 = c1,
            fh_checksum2 = c2\<rparr>)))))))"

definition frame_words :: "wal_frame_header \<Rightarrow> u32 list" where
  "frame_words h = [fh_pgno h, fh_db_size h, fh_salt1 h, fh_salt2 h, 0, 0]"

definition frame_compute_checksum :: "wal_frame_header \<Rightarrow> bytes \<Rightarrow> bool \<Rightarrow> u32 \<times> u32" where
  "frame_compute_checksum h page_data is_le =
     (let c = wal_checksum (fh_salt1 h) (frame_words h) (0, 0);
          c = wal_checksum (fh_salt2 h) (bytes_to_u32_be page_data) c
      in if is_le then (swap_bytes (fst c), swap_bytes (snd c)) else c)"

definition frame_verify_checksum :: "wal_frame_header \<Rightarrow> bytes \<Rightarrow> bool \<Rightarrow> bool" where
  "frame_verify_checksum h page_data is_le =
     (let c = frame_compute_checksum h page_data is_le
      in fst c = fh_checksum1 h \<and> snd c = fh_checksum2 h)"

section \<open>The log\<close>

text \<open>
  The frame counter is a \<^verbatim>\<open>u32\<close>: its increment panics at \<open>2 ^ 32\<close> and the number of frames of a
  file is truncated to it.
\<close>

record wal =
  wal_file :: handle
  wal_hdr :: wal_header
  wal_page_size :: u32
  wal_frame_count :: nat
  wal_page_index :: "(u32 \<times> nat) list"
  wal_is_le :: bool

type_synonym wal_state = "wal \<times> disk"

text \<open>Running an operation of the log's file.\<close>

definition on_wal_file :: "(file_state, 'a) sres \<Rightarrow> (wal_state, 'a) sres" where
  "on_wal_file m = (\<lambda>(w, d). case m (wal_file w, d) of (r, (f, d')) \<Rightarrow> (r, (w\<lparr>wal_file := f\<rparr>, d')))"

definition wal_frame_offset :: "wal \<Rightarrow> nat \<Rightarrow> nat" where
  "wal_frame_offset w frame_idx =
     WAL_HEADER_SIZE + frame_idx * (WAL_FRAME_HEADER_SIZE + unat (wal_page_size w))"

definition wal_create :: "string \<Rightarrow> u32 \<Rightarrow> (disk, wal) sres" where
  "wal_create path page_size =
     bindS (unix_open path \<lparr>of_read_only = False, of_create = True, of_memory = False\<rparr>) (\<lambda>file d.
       let header = wal_header_new page_size 0x12345678 0x9abcdef0 in
       case wal_header_encode header of
         Inl e \<Rightarrow> (Inl e, d)
       | Inr bs \<Rightarrow>
           (case file_write_exact 0 bs (file, d) of
              (Inl e, (f, d')) \<Rightarrow> (Inl e, d')
            | (Inr _, (f, d')) \<Rightarrow>
                (Inr \<lparr>wal_file = f, wal_hdr = header, wal_page_size = page_size, wal_frame_count = 0,
                   wal_page_index = [], wal_is_le = False\<rparr>, d')))"

text \<open>The scan of \<^verbatim>\<open>rebuild_index\<close>: \<open>k\<close> frames from frame \<open>i\<close> on, with its two breaks.\<close>

fun wal_rebuild_loop :: "nat \<Rightarrow> nat \<Rightarrow> disk \<Rightarrow> wal \<Rightarrow> wal res" where
  "wal_rebuild_loop 0 i d w = Inr w"
| "wal_rebuild_loop (Suc k) i d w =
     (let offset = wal_frame_offset w i in
      bindR (file_read_exact offset WAL_FRAME_HEADER_SIZE (wal_file w, d)) (\<lambda>hdr_buf.
      bindR (frame_header_decode hdr_buf) (\<lambda>frame_hdr.
        if fh_salt1 frame_hdr \<noteq> wh_salt1 (wal_hdr w) \<or> fh_salt2 frame_hdr \<noteq> wh_salt2 (wal_hdr w)
        then Inr w
        else bindR (file_read_exact (offset + WAL_FRAME_HEADER_SIZE) (unat (wal_page_size w))
               (wal_file w, d)) (\<lambda>page_buf.
          if \<not> frame_verify_checksum frame_hdr page_buf (wal_is_le w) then Inr w
          else wal_rebuild_loop k (i + 1) d
            (w\<lparr>wal_page_index := (if fh_pgno frame_hdr > 0
                 then AList.update (fh_pgno frame_hdr) i (wal_page_index w) else wal_page_index w),
               wal_frame_count := i + 1\<rparr>)))))"

definition wal_rebuild_index :: "disk \<Rightarrow> wal \<Rightarrow> wal res" where
  "wal_rebuild_index d w =
     (let w = w\<lparr>wal_page_index := []\<rparr>;
          size = file_size (wal_file w, d) in
      if size \<le> WAL_HEADER_SIZE then Inr (w\<lparr>wal_frame_count := 0\<rparr>)
      else (let frame_size = WAL_FRAME_HEADER_SIZE + unat (wal_page_size w);
                n_frames = (size - WAL_HEADER_SIZE) div frame_size mod 2 ^ 32
            in wal_rebuild_loop n_frames 0 d w))"

definition wal_open :: "string \<Rightarrow> u32 \<Rightarrow> (disk, wal) sres" where
  "wal_open path page_size =
     bindS (getS (unix_exists path)) (\<lambda>ex.
       if \<not> ex then wal_create path page_size
       else bindS (unix_open path \<lparr>of_read_only = False, of_create = False, of_memory = False\<rparr>) (\<lambda>file.
         bindS (getS (\<lambda>d. file_size (file, d))) (\<lambda>size.
           if size = 0 then wal_create path page_size
           else bindS (\<lambda>d. (file_read_exact 0 WAL_HEADER_SIZE (file, d), d)) (\<lambda>hdr_buf.
             bindS (liftS (wal_header_decode hdr_buf)) (\<lambda>header.
               if wh_page_size header \<noteq> page_size
               then throwS (Fail (Sql RcCorrupt ''WAL page size does not match database''))
               else (\<lambda>d. (wal_rebuild_index d
                      \<lparr>wal_file = file, wal_hdr = header, wal_page_size = page_size,
                        wal_frame_count = 0, wal_page_index = [],
                        wal_is_le = (wh_magic header = WAL_MAGIC_LE)\<rparr>, d)))))))"

definition wal_append_frame :: "u32 \<Rightarrow> bytes \<Rightarrow> u32 \<Rightarrow> (wal_state, unit) sres" where
  "wal_append_frame pgno page_data db_size =
     bindS (getS fst) (\<lambda>w.
       if length page_data \<noteq> unat (wal_page_size w)
       then throwS (Fail (Sql RcCorrupt ''WAL page size mismatch''))
       else
         (let frame_hdr = \<lparr>fh_pgno = pgno, fh_db_size = db_size, fh_salt1 = wh_salt1 (wal_hdr w),
                fh_salt2 = wh_salt2 (wal_hdr w), fh_checksum1 = 0, fh_checksum2 = 0\<rparr>;
              c = frame_compute_checksum frame_hdr page_data (wal_is_le w);
              frame_hdr = frame_hdr\<lparr>fh_checksum1 := fst c, fh_checksum2 := snd c\<rparr>;
              offset = wal_frame_offset w (wal_frame_count w) in
          bindS (liftS (frame_header_encode frame_hdr)) (\<lambda>bs.
          bindS (on_wal_file (file_write_exact offset bs)) (\<lambda>_.
          bindS (on_wal_file (file_write_exact (offset + WAL_FRAME_HEADER_SIZE) page_data)) (\<lambda>_.
          bindS (modifyS (apfst (wal_page_index_update (AList.update pgno (wal_frame_count w)))))
            (\<lambda>_.
            if 2 ^ 32 \<le> wal_frame_count w + 1 then throwS Panic
            else modifyS (apfst (wal_frame_count_update (\<lambda>n. n + 1)))))))))"

definition wal_read_page :: "u32 \<Rightarrow> wal_state \<Rightarrow> bytes option res" where
  "wal_read_page pgno s =
     (let w = fst s; d = snd s in
      case map_of (wal_page_index w) pgno of
        None \<Rightarrow> Inr None
      | Some frame_idx \<Rightarrow>
          (let offset = wal_frame_offset w frame_idx in
           bindR (file_read_exact offset WAL_FRAME_HEADER_SIZE (wal_file w, d)) (\<lambda>hdr_buf.
           bindR (frame_header_decode hdr_buf) (\<lambda>frame_hdr.
           bindR (file_read_exact (offset + WAL_FRAME_HEADER_SIZE) (unat (wal_page_size w))
             (wal_file w, d)) (\<lambda>page_buf.
             if \<not> frame_verify_checksum frame_hdr page_buf (wal_is_le w)
             then sql_err RcCorrupt ''WAL frame checksum mismatch''
             else Inr (Some page_buf))))))"

definition wal_sync :: "(wal_state, unit) sres" where
  "wal_sync = on_wal_file file_sync"

text \<open>
  A checkpoint works on the log, the database file and the disk. The frames are visited in the
  order of the index; the page offset \<open>pgno - 1\<close> panics for page 0.
\<close>

type_synonym checkpoint_state = "wal \<times> handle \<times> disk"

fun wal_copy_frames :: "(u32 \<times> nat) list \<Rightarrow> (checkpoint_state, unit) sres" where
  "wal_copy_frames [] s = (Inr (), s)"
| "wal_copy_frames ((pgno, frame_idx) # frames) (w, db_file, d) =
     (let offset = wal_frame_offset w frame_idx in
      case file_read_exact (offset + WAL_FRAME_HEADER_SIZE) (unat (wal_page_size w)) (wal_file w, d) of
        Inl e \<Rightarrow> (Inl e, (w, db_file, d))
      | Inr page_buf \<Rightarrow>
          if pgno = 0 then (panic, (w, db_file, d))
          else (let db_offset = (unat pgno - 1) * unat (wal_page_size w) in
            case file_write_exact db_offset page_buf (db_file, d) of
              (Inl e, (f, d')) \<Rightarrow> (Inl e, (w, f, d'))
            | (Inr _, (f, d')) \<Rightarrow> wal_copy_frames frames (w, f, d')))"

definition on_checkpoint_wal :: "(wal_state, 'a) sres \<Rightarrow> (checkpoint_state, 'a) sres" where
  "on_checkpoint_wal m = (\<lambda>(w, f, d). case m (w, d) of (r, (w', d')) \<Rightarrow> (r, (w', f, d')))"

definition wal_next_header :: "wal_header \<Rightarrow> wal_header" where
  "wal_next_header h = wal_header_update_checksum
     (h\<lparr>wh_checkpoint_seq := wh_checkpoint_seq h + 1, wh_salt1 := wh_salt1 h + 1,
        wh_salt2 := wh_salt2 h + 1\<rparr>)"

definition wal_checkpoint :: "(checkpoint_state, unit) sres" where
  "wal_checkpoint =
     bindS (getS (\<lambda>(w, f, d). wal_page_index w)) (\<lambda>frames.
     bindS (wal_copy_frames frames) (\<lambda>_.
     on_checkpoint_wal
      (bindS (modifyS (apfst (wal_hdr_update wal_next_header))) (\<lambda>_.
       bindS (getS (wal_hdr \<circ> fst)) (\<lambda>h.
       bindS (liftS (wal_header_encode h)) (\<lambda>bs.
       bindS (on_wal_file (file_write_exact 0 bs)) (\<lambda>_.
       bindS (on_wal_file (file_truncate WAL_HEADER_SIZE)) (\<lambda>_.
         modifyS (apfst (\<lambda>w. w\<lparr>wal_frame_count := 0, wal_page_index := []\<rparr>))))))))))"

definition wal_path :: "string \<Rightarrow> string" where
  "wal_path db_path = db_path @ ''-wal''"

end
