(* ===== verification/Paged_File.thy ===== *)
theory Paged_File
  imports Disk "HOL-Library.Multiset"
begin

text \<open>
  A file as an array of pages of one size: where a page lies, what a run of page writes leaves, and
  that the order in which the pages of a hash map are written does not matter. The pager's commit
  and the checkpoint of the write-ahead log both write their pages this way.
\<close>

definition page_offset :: "nat \<Rightarrow> u32 \<Rightarrow> nat" where
  "page_offset ps p = (unat p - 1) * ps"

definition page_at :: "nat \<Rightarrow> bytes \<Rightarrow> u32 \<Rightarrow> bytes" where
  "page_at ps c p = slice_of c (page_offset ps p) ps"

definition has_page :: "nat \<Rightarrow> bytes \<Rightarrow> u32 \<Rightarrow> bool" where
  "has_page ps c p = (p \<noteq> 0 \<and> page_offset ps p + ps \<le> length c)"

fun put_page :: "nat \<Rightarrow> u32 \<times> bytes \<Rightarrow> bytes \<Rightarrow> bytes" where
  "put_page ps (p, b) c = put_bytes c (page_offset ps p) b"

definition put_pages :: "nat \<Rightarrow> (u32 \<times> bytes) list \<Rightarrow> bytes \<Rightarrow> bytes" where
  "put_pages ps pages = fold (put_page ps) pages"

definition pages_ok :: "nat \<Rightarrow> (u32 \<times> bytes) list \<Rightarrow> bool" where
  "pages_ok ps pages = (\<forall>(p, b) \<in> set pages. p \<noteq> 0 \<and> length b = ps)"

lemma pages_disjoint:
  assumes "p \<noteq> q" and "p \<noteq> 0" and "q \<noteq> 0"
  shows "page_offset ps p + ps \<le> page_offset ps q \<or> page_offset ps q + ps \<le> page_offset ps p"
proof -
  have ne: "unat p \<noteq> unat q" using assms(1) word_unat_eq_iff [of p q] by blast
  have p: "0 < unat p" and q: "0 < unat q" using assms(2,3) by (simp_all add: unat_gt_0)
  have le: "page_offset ps a + ps \<le> page_offset ps b" if "unat a < unat b" "0 < unat a" for a b
  proof -
    have "Suc (unat a - 1) * ps \<le> (unat b - 1) * ps"
      using that by (intro mult_le_mono1) simp
    then show ?thesis by (simp add: page_offset_def)
  qed
  from ne show ?thesis
    using le [of p q] le [of q p] p q by (cases "unat p < unat q") auto
qed

lemma put_bytes_commute:
  assumes "a + length xs \<le> b \<or> b + length ys \<le> a"
  shows "put_bytes (put_bytes d a xs) b ys = put_bytes (put_bytes d b ys) a xs"
proof (cases "xs = [] \<or> ys = []")
  case False
  then have len: "length (put_bytes (put_bytes d a xs) b ys) = max (max (length d) (a + length xs)) (b + length ys)"
    "length (put_bytes (put_bytes d b ys) a xs) = max (max (length d) (b + length ys)) (a + length xs)"
    by (simp_all add: length_put_bytes)
  show ?thesis
  proof (rule nth_equalityI)
    fix i assume i: "i < length (put_bytes (put_bytes d a xs) b ys)"
    then have i': "i < length (put_bytes (put_bytes d b ys) a xs)" using len by simp
    show "put_bytes (put_bytes d a xs) b ys ! i = put_bytes (put_bytes d b ys) a xs ! i"
      using assms False i i'
      by (subst nth_put_bytes [OF i], subst nth_put_bytes [OF i'])
        (auto simp: nth_put_bytes length_put_bytes)
  qed (use len in simp)
qed (auto simp: put_bytes_def)

lemma put_page_commute:
  assumes "fst x \<noteq> fst y" and "fst x \<noteq> 0" and "fst y \<noteq> 0"
    and "length (snd x) = ps" and "length (snd y) = ps"
  shows "put_page ps x \<circ> put_page ps y = put_page ps y \<circ> put_page ps x"
proof (cases x; cases y)
  fix p b q e assume "x = (p, b)" and "y = (q, e)"
  then show ?thesis
    using assms put_bytes_commute [of "page_offset ps q" e "page_offset ps p" b]
      pages_disjoint [of q p ps]
    by (auto simp: fun_eq_iff)
qed

lemma put_pages_permute:
  assumes "distinct (map fst pages)" and "pages_ok ps pages" and "mset pages = mset pages'"
  shows "put_pages ps pages = put_pages ps pages'"
  unfolding put_pages_def
proof (rule fold_multiset_equiv [OF _ assms(3)])
  fix x y assume x: "x \<in> set pages" and y: "y \<in> set pages"
  show "put_page ps x \<circ> put_page ps y = put_page ps y \<circ> put_page ps x"
  proof (cases "fst x = fst y")
    case True
    then have "x = y" using x y assms(1) by (auto simp: distinct_map inj_on_def)
    then show ?thesis by simp
  next
    case False
    with x y assms(2) show ?thesis
      by (intro put_page_commute) (auto simp: pages_ok_def)
  qed
qed

lemma put_pages_Nil [simp]: "put_pages ps [] c = c"
  by (simp add: put_pages_def)

lemma put_pages_Cons [simp]: "put_pages ps ((p, b) # pages) c = put_pages ps pages (put_bytes c (page_offset ps p) b)"
  by (simp add: put_pages_def)

lemma put_pages_append: "put_pages ps (xs @ ys) c = put_pages ps ys (put_pages ps xs c)"
  by (simp add: put_pages_def)

lemma has_page_put:
  assumes "has_page ps c p"
  shows "has_page ps (put_bytes c a b) p"
  using assms by (auto simp: has_page_def length_put_bytes)

lemma page_at_put_same:
  assumes "p \<noteq> 0" and "length b = ps"
  shows "page_at ps (put_bytes c (page_offset ps p) b) p = b"
    and "0 < ps \<Longrightarrow> has_page ps (put_bytes c (page_offset ps p) b) p"
  using assms slice_put_bytes_same [of c "page_offset ps p" b]
  by (auto simp: page_at_def has_page_def length_put_bytes)

lemma page_at_put_other:
  assumes "p \<noteq> q" and "p \<noteq> 0" and "has_page ps c q" and "length b = ps"
  shows "page_at ps (put_bytes c (page_offset ps p) b) q = page_at ps c q"
  using assms pages_disjoint [of p q ps]
  by (auto simp: page_at_def has_page_def intro!: slice_put_bytes_other)

lemma put_pages_other:
  assumes "pages_ok ps pages" and "p \<notin> fst ` set pages" and "has_page ps c p"
  shows "has_page ps (put_pages ps pages c) p"
    and "page_at ps (put_pages ps pages c) p = page_at ps c p"
proof -
  have "has_page ps (put_pages ps pages c) p \<and> page_at ps (put_pages ps pages c) p = page_at ps c p"
    using assms
  proof (induction pages arbitrary: c)
    case (Cons x pages)
    obtain q b where x: "x = (q, b)" by (cases x)
    have "page_at ps (put_bytes c (page_offset ps q) b) p = page_at ps c p"
      using Cons.prems x by (intro page_at_put_other) (auto simp: pages_ok_def)
    with Cons.IH [of "put_bytes c (page_offset ps q) b"] Cons.prems x
    show ?case by (auto simp: pages_ok_def has_page_put)
  qed simp
  then show "has_page ps (put_pages ps pages c) p"
    and "page_at ps (put_pages ps pages c) p = page_at ps c p" by simp_all
qed

lemma put_pages_same:
  assumes "pages_ok ps pages" and "distinct (map fst pages)" and "map_of pages p = Some b"
    and "0 < ps"
  shows "has_page ps (put_pages ps pages c) p" and "page_at ps (put_pages ps pages c) p = b"
proof -
  have "has_page ps (put_pages ps pages c) p \<and> page_at ps (put_pages ps pages c) p = b"
    using assms(1-3)
  proof (induction pages arbitrary: c)
    case (Cons x pages)
    obtain q e where x: "x = (q, e)" by (cases x)
    show ?case
    proof (cases "q = p")
      case True
      let ?c = "put_bytes c (page_offset ps p) e"
      have e: "e = b" "length b = ps" "p \<noteq> 0" "pages_ok ps pages" "p \<notin> fst ` set pages"
        using True x Cons.prems by (auto simp: pages_ok_def)
      then have "has_page ps ?c p" and "page_at ps ?c p = b"
        using page_at_put_same [of p b ps c] assms(4) by auto
      with put_pages_other [of ps pages p ?c] e x True show ?thesis by simp
    next
      case False
      with Cons x show ?thesis by (auto simp: pages_ok_def)
    qed
  qed simp
  then show "has_page ps (put_pages ps pages c) p" and "page_at ps (put_pages ps pages c) p = b"
    by simp_all
qed

text \<open>The two together: after a run of page writes a page is the one written, or the old one.\<close>

lemma page_at_put_pages:
  assumes "pages_ok ps pages" and "distinct (map fst pages)" and "0 < ps"
    and "map_of pages p = None \<Longrightarrow> has_page ps c p"
  shows "has_page ps (put_pages ps pages c) p"
    and "page_at ps (put_pages ps pages c) p =
      (case map_of pages p of Some b \<Rightarrow> b | None \<Rightarrow> page_at ps c p)"
proof -
  have "has_page ps (put_pages ps pages c) p \<and> page_at ps (put_pages ps pages c) p =
      (case map_of pages p of Some b \<Rightarrow> b | None \<Rightarrow> page_at ps c p)"
  proof (cases "map_of pages p")
    case None
    then have "p \<notin> fst ` set pages" by (simp add: map_of_eq_None_iff)
    with put_pages_other [OF assms(1) this assms(4) [OF None]] None show ?thesis by simp
  next
    case (Some b)
    with put_pages_same [OF assms(1,2) Some assms(3)] show ?thesis by simp
  qed
  then show "has_page ps (put_pages ps pages c) p"
    and "page_at ps (put_pages ps pages c) p =
      (case map_of pages p of Some b \<Rightarrow> b | None \<Rightarrow> page_at ps c p)" by simp_all
qed

section \<open>Files that do not share a path\<close>

lemma file_content_frame:
  assumes "frame_of (f, d) (f', d')" and "touches g \<inter> touches f = {}"
  shows "file_content (g, d') = file_content (g, d)"
  using assms by (cases g) (auto simp: frame_of_def disk_bytes_def split: option.splits)

lemma file_writable_disk: "file_writable (g, d') = file_writable (g, d)"
  by (cases g) auto

lemma same_handle_writable: "same_handle f g \<Longrightarrow> file_writable (g, d') = file_writable (f, d)"
  by (cases f; cases g) auto

end
