(* ===== verification/Wal_Correct.thy ===== *)
theory Wal_Correct
  imports Wal Paged_File
begin

text \<open>
  What the write-ahead log promises. The abstract log is the list of its frames, oldest first;
  \<open>wal_holds\<close> ties the bytes of the file and the frame index to it. Appending adds a frame,
  reading delivers the latest version of a page, reopening a file that was cut anywhere recovers
  exactly the frames that are complete, and a checkpoint moves the latest versions into the
  database file and empties the log.
\<close>

type_synonym frame = "u32 \<times> bytes \<times> u32"

section \<open>Codecs\<close>

definition wal_header_ok :: "wal_header \<Rightarrow> bool" where
  "wal_header_ok h = ((wh_magic h = WAL_MAGIC \<or> wh_magic h = WAL_MAGIC_LE)
     \<and> wh_version h = WAL_FORMAT_VERSION \<and> wal_header_verify_checksum h)"

lemma wal_header_encode_length:
  "wal_header_encode h = Inr bs \<Longrightarrow> length bs = 32"
  unfolding wal_header_encode_def using write_u32s_Inr(1) by fastforce

lemma wal_header_encode_ok: "\<exists>bs. wal_header_encode h = Inr bs"
  unfolding wal_header_encode_def by (rule write_u32s_ok) simp

lemma wal_header_fields:
  assumes "wal_header_encode h = Inr bs"
  shows "u32_at bs 0 = wh_magic h" "u32_at bs 4 = wh_version h" "u32_at bs 8 = wh_page_size h"
    "u32_at bs 12 = wh_checkpoint_seq h" "u32_at bs 16 = wh_salt1 h" "u32_at bs 20 = wh_salt2 h"
    "u32_at bs 24 = wh_checksum1 h" "u32_at bs 28 = wh_checksum2 h"
  by (rule write_u32s_same_field [OF assms [unfolded wal_header_encode_def]];
      simp add: u32s_in_order_def)+

lemma wal_header_decode_encode:
  assumes "wal_header_encode h = Inr bs" and "wal_header_ok h"
  shows "wal_header_decode bs = Inr h"
  using assms(2) wal_header_encode_length [OF assms(1)] wal_header_fields [OF assms(1)]
  by (cases h) (auto simp: wal_header_decode_def read_u32_be_eq wal_header_ok_def Let_def)

lemma wal_header_update_ok [simp]: "wal_header_verify_checksum (wal_header_update_checksum h)"
  by (simp add: wal_header_verify_checksum_def wal_header_update_checksum_def Let_def
      header_words_def)

lemma wal_header_update_fields [simp]:
  "wh_magic (wal_header_update_checksum h) = wh_magic h"
  "wh_version (wal_header_update_checksum h) = wh_version h"
  "wh_page_size (wal_header_update_checksum h) = wh_page_size h"
  "wh_salt1 (wal_header_update_checksum h) = wh_salt1 h"
  "wh_salt2 (wal_header_update_checksum h) = wh_salt2 h"
  by (simp_all add: wal_header_update_checksum_def Let_def)

lemma wal_header_new_ok [simp]: "wal_header_ok (wal_header_new ps s1 s2)"
  by (simp add: wal_header_ok_def wal_header_new_def)

lemma wal_next_header_ok: "wal_header_ok h \<Longrightarrow> wal_header_ok (wal_next_header h)"
  by (simp add: wal_header_ok_def wal_next_header_def)

lemma frame_header_encode_length:
  "frame_header_encode h = Inr bs \<Longrightarrow> length bs = 24"
  unfolding frame_header_encode_def using write_u32s_Inr(1) by fastforce

lemma frame_header_encode_ok: "\<exists>bs. frame_header_encode h = Inr bs"
  unfolding frame_header_encode_def by (rule write_u32s_ok) simp

lemma frame_header_fields:
  assumes "frame_header_encode h = Inr bs"
  shows "u32_at bs 0 = fh_pgno h" "u32_at bs 4 = fh_db_size h" "u32_at bs 8 = fh_salt1 h"
    "u32_at bs 12 = fh_salt2 h" "u32_at bs 16 = fh_checksum1 h" "u32_at bs 20 = fh_checksum2 h"
  by (rule write_u32s_same_field [OF assms [unfolded frame_header_encode_def]];
      simp add: u32s_in_order_def)+

lemma frame_header_decode_encode:
  assumes "frame_header_encode h = Inr bs"
  shows "frame_header_decode bs = Inr h"
  using frame_header_encode_length [OF assms] frame_header_fields [OF assms]
  by (simp add: frame_header_decode_def read_u32_be_eq)

section \<open>The bytes of a frame\<close>

definition frame_header_of :: "wal_header \<Rightarrow> bool \<Rightarrow> frame \<Rightarrow> wal_frame_header" where
  "frame_header_of h le = (\<lambda>(pgno, page, db_size).
     let f = \<lparr>fh_pgno = pgno, fh_db_size = db_size, fh_salt1 = wh_salt1 h, fh_salt2 = wh_salt2 h,
           fh_checksum1 = 0, fh_checksum2 = 0\<rparr>;
         c = frame_compute_checksum f page le
     in f\<lparr>fh_checksum1 := fst c, fh_checksum2 := snd c\<rparr>)"

definition frame_header_bytes :: "wal_frame_header \<Rightarrow> bytes" where
  "frame_header_bytes h = (case frame_header_encode h of Inr bs \<Rightarrow> bs | Inl e \<Rightarrow> [])"

definition frame_bytes :: "wal_header \<Rightarrow> bool \<Rightarrow> frame \<Rightarrow> bytes" where
  "frame_bytes h le f = frame_header_bytes (frame_header_of h le f) @ fst (snd f)"

lemma frame_header_encode_eq: "frame_header_encode h = Inr (frame_header_bytes h)"
  using frame_header_encode_ok [of h] by (auto simp: frame_header_bytes_def)

lemma length_frame_header_bytes [simp, len_simps]: "length (frame_header_bytes h) = 24"
  using frame_header_encode_length [OF frame_header_encode_eq] .

lemma frame_header_decode_bytes [simp]: "frame_header_decode (frame_header_bytes h) = Inr h"
  by (rule frame_header_decode_encode [OF frame_header_encode_eq])

lemma frame_header_of_fields [simp]:
  "fh_pgno (frame_header_of h le f) = fst f"
  "fh_salt1 (frame_header_of h le f) = wh_salt1 h"
  "fh_salt2 (frame_header_of h le f) = wh_salt2 h"
  by (cases f; simp add: frame_header_of_def Let_def)+

lemma frame_header_of_verifies [simp]:
  "frame_verify_checksum (frame_header_of h le f) (fst (snd f)) le"
  by (cases f)
    (simp add: frame_header_of_def frame_verify_checksum_def frame_compute_checksum_def Let_def
      frame_words_def)

lemma length_frame_bytes: "length (frame_bytes h le f) = 24 + length (fst (snd f))"
  by (simp add: frame_bytes_def)

section \<open>Runs of blocks of one length\<close>

lemma length_concat_blocks:
  assumes "\<forall>b \<in> set bs. length b = n"
  shows "length (concat bs) = length bs * n"
  using assms by (induction bs) auto

lemma drop_concat_blocks:
  assumes "\<forall>b \<in> set bs. length b = n" and "i \<le> length bs"
  shows "drop (i * n) (concat bs @ r) = concat (drop i bs) @ r"
  using assms
proof (induction bs arbitrary: i)
  case (Cons b bs)
  then show ?case by (cases i) auto
qed simp

lemma take_concat_blocks:
  assumes "\<forall>b \<in> set bs. length b = n" and "i \<le> length bs"
  shows "take (i * n) (concat bs) = concat (take i bs)"
  using assms
proof (induction bs arbitrary: i)
  case (Cons b bs)
  then show ?case by (cases i) auto
qed simp

lemma slice_concat_blocks:
  assumes "\<forall>b \<in> set bs. length b = n" and "i < length bs"
  shows "slice_of (concat bs @ r) (i * n) n = bs ! i"
proof -
  have "drop (i * n) (concat bs @ r) = concat (drop i bs) @ r"
    using assms by (intro drop_concat_blocks) auto
  moreover have "drop i bs = bs ! i # drop (Suc i) bs"
    using assms(2) by (simp add: Cons_nth_drop_Suc)
  moreover have "length (bs ! i) = n" using assms by simp
  ultimately show ?thesis by (simp add: slice_of_def)
qed

section \<open>The abstract log\<close>

definition last_frame_index :: "frame list \<Rightarrow> u32 \<Rightarrow> nat option" where
  "last_frame_index frames p = find (\<lambda>i. fst (frames ! i) = p) (rev [0..<length frames])"

definition latest_page :: "frame list \<Rightarrow> u32 \<Rightarrow> bytes option" where
  "latest_page frames p = map_option (\<lambda>i. fst (snd (frames ! i))) (last_frame_index frames p)"

lemma find_cong_set: "(\<And>x. x \<in> set xs \<Longrightarrow> P x = Q x) \<Longrightarrow> find P xs = find Q xs"
  by (induction xs) auto

lemma last_frame_index_Nil [simp]: "last_frame_index [] p = None"
  by (simp add: last_frame_index_def)

lemma last_frame_index_snoc:
  "last_frame_index (frames @ [f]) p =
     (if fst f = p then Some (length frames) else last_frame_index frames p)"
proof -
  have "find (\<lambda>i. fst ((frames @ [f]) ! i) = p) (rev [0..<length frames])
      = find (\<lambda>i. fst (frames ! i) = p) (rev [0..<length frames])"
    by (rule find_cong_set) (auto simp: nth_append)
  then show ?thesis by (simp add: last_frame_index_def)
qed

lemma last_frame_index_Some:
  assumes "last_frame_index frames p = Some i"
  shows "i < length frames" and "fst (frames ! i) = p"
  using assms by (auto simp: last_frame_index_def find_Some_iff) (metis length_rev nth_mem set_rev set_upt
      atLeastLessThan_iff length_upt minus_nat.diff_0)

lemma latest_page_snoc:
  "latest_page (frames @ [f]) = (latest_page frames)(fst f \<mapsto> fst (snd f))"
proof
  fix p
  show "latest_page (frames @ [f]) p = ((latest_page frames)(fst f \<mapsto> fst (snd f))) p"
  proof (cases "last_frame_index frames p")
    case (Some i)
    then have "i < length frames" by (rule last_frame_index_Some)
    with Some show ?thesis by (simp add: latest_page_def last_frame_index_snoc nth_append)
  qed (simp add: latest_page_def last_frame_index_snoc)
qed

lemma latest_page_Nil [simp]: "latest_page [] = Map.empty"
  by (simp add: latest_page_def fun_eq_iff)

definition wal_header_bytes :: "wal_header \<Rightarrow> bytes" where
  "wal_header_bytes h = (case wal_header_encode h of Inr bs \<Rightarrow> bs | Inl e \<Rightarrow> [])"

lemma wal_header_encode_eq: "wal_header_encode h = Inr (wal_header_bytes h)"
  using wal_header_encode_ok [of h] by (auto simp: wal_header_bytes_def)

lemma length_wal_header_bytes [simp, len_simps]: "length (wal_header_bytes h) = 32"
  using wal_header_encode_length [OF wal_header_encode_eq] .

lemma wal_header_decode_bytes: "wal_header_ok h \<Longrightarrow> wal_header_decode (wal_header_bytes h) = Inr h"
  by (rule wal_header_decode_encode [OF wal_header_encode_eq])

definition log_bytes :: "wal_header \<Rightarrow> bool \<Rightarrow> frame list \<Rightarrow> bytes" where
  "log_bytes h le frames = wal_header_bytes h @ concat (map (frame_bytes h le) frames)"

definition frames_ok :: "u32 \<Rightarrow> frame list \<Rightarrow> bool" where
  "frames_ok ps frames = (\<forall>f \<in> set frames. length (fst (snd f)) = unat ps \<and> fst f \<noteq> 0)"

definition wal_shape :: "wal \<Rightarrow> bool" where
  "wal_shape w = (wal_header_ok (wal_hdr w) \<and> wh_page_size (wal_hdr w) = wal_page_size w
     \<and> wal_is_le w = (wh_magic (wal_hdr w) = WAL_MAGIC_LE))"

definition index_ok :: "(u32 \<times> nat) list \<Rightarrow> frame list \<Rightarrow> bool" where
  "index_ok ix frames = (distinct (map fst ix) \<and> (\<forall>p. map_of ix p = last_frame_index frames p))"

definition wal_holds :: "wal_state \<Rightarrow> frame list \<Rightarrow> bytes \<Rightarrow> bool" where
  "wal_holds s frames rest = (case s of (w, d) \<Rightarrow>
     wal_shape w \<and> file_writable (wal_file w, d) \<and> frames_ok (wal_page_size w) frames
     \<and> file_content (wal_file w, d) = log_bytes (wal_hdr w) (wal_is_le w) frames @ rest
     \<and> wal_frame_count w = length frames \<and> index_ok (wal_page_index w) frames)"

section \<open>Reading frames\<close>

lemma frames_ok_blocks:
  "frames_ok ps frames \<Longrightarrow> \<forall>b \<in> set (map (frame_bytes h le) frames). length b = 24 + unat ps"
  by (auto simp: frames_ok_def length_frame_bytes)

lemma length_log_bytes:
  "frames_ok ps frames \<Longrightarrow> length (log_bytes h le frames) = 32 + length frames * (24 + unat ps)"
  using length_concat_blocks [OF frames_ok_blocks, of ps frames h le] by (simp add: log_bytes_def)

lemma slice_of_drop: "a \<le> b \<Longrightarrow> slice_of xs b n = slice_of (drop a xs) (b - a) n"
  by (simp add: slice_of_def)

lemma slice_of_split:
  "slice_of xs a (m + n) = ys @ zs \<Longrightarrow> length ys = m \<Longrightarrow> length zs = n
   \<Longrightarrow> slice_of xs a m = ys \<and> slice_of xs (a + m) n = zs"
proof -
  assume *: "slice_of xs a (m + n) = ys @ zs" "length ys = m" "length zs = n"
  have "slice_of xs a m = take m (slice_of xs a (m + n))"
    and "slice_of xs (a + m) n = drop m (slice_of xs a (m + n))"
    by (simp_all add: slice_of_def min_def drop_take add.commute)
  then show ?thesis by (simp add: *)
qed

lemma log_frame:
  assumes "frames_ok ps frames" and "i < length frames"
  shows "slice_of (log_bytes h le frames @ rest) (32 + i * (24 + unat ps)) (24 + unat ps)
    = frame_bytes h le (frames ! i)"
proof -
  have "slice_of (log_bytes h le frames @ rest) (32 + i * (24 + unat ps)) (24 + unat ps)
      = slice_of (concat (map (frame_bytes h le) frames) @ rest) (i * (24 + unat ps)) (24 + unat ps)"
    by (subst slice_of_drop [of 32]) (simp_all add: log_bytes_def)
  also have "\<dots> = map (frame_bytes h le) frames ! i"
    using assms by (intro slice_concat_blocks frames_ok_blocks) simp_all
  finally show ?thesis using assms(2) by simp
qed

lemma log_frame_end:
  assumes "frames_ok ps frames" and "i < length frames"
  shows "32 + i * (24 + unat ps) + (24 + unat ps) \<le> length (log_bytes h le frames)"
proof -
  have "Suc i * (24 + unat ps) \<le> length frames * (24 + unat ps)"
    using assms(2) by (intro mult_le_mono1) simp
  then show ?thesis using length_log_bytes [OF assms(1), of h le] by simp
qed

lemma read_frame:
  assumes "file_content f = log_bytes h le frames @ rest" and "frames_ok ps frames"
    and "i < length frames"
  shows "file_read_exact (32 + i * (24 + unat ps)) 24 f
      = Inr (frame_header_bytes (frame_header_of h le (frames ! i)))" (is ?hdr)
    and "file_read_exact (32 + i * (24 + unat ps) + 24) (unat ps) f
      = Inr (fst (snd (frames ! i)))" (is ?page)
proof -
  let ?o = "32 + i * (24 + unat ps)"
  have e: "?o + (24 + unat ps) \<le> length (file_content f)"
    using log_frame_end [OF assms(2,3), of h le] assms(1) by simp
  have len: "length (fst (snd (frames ! i))) = unat ps"
    using assms(2,3) by (auto simp: frames_ok_def)
  have "slice_of (file_content f) ?o (24 + unat ps)
      = frame_header_bytes (frame_header_of h le (frames ! i)) @ fst (snd (frames ! i))"
    unfolding assms(1) log_frame [OF assms(2,3)] by (simp add: frame_bytes_def)
  from slice_of_split [OF this length_frame_header_bytes len] e
  show ?hdr ?page by (auto simp: file_read_exact_eq)
qed

lemma wal_frame_offset_eq: "wal_frame_offset w i = 32 + i * (24 + unat (wal_page_size w))"
  by (simp add: wal_frame_offset_def)

lemma wal_read_page_ok:
  assumes "wal_holds s frames rest"
  shows "wal_read_page p s = Inr (latest_page frames p)"
proof -
  obtain w d where s: "s = (w, d)" by (cases s)
  have c: "file_content (wal_file w, d) = log_bytes (wal_hdr w) (wal_is_le w) frames @ rest"
    and ok: "frames_ok (wal_page_size w) frames"
    and ix: "map_of (wal_page_index w) p = last_frame_index frames p"
    using assms by (simp_all add: wal_holds_def s index_ok_def)
  show ?thesis
  proof (cases "last_frame_index frames p")
    case None
    with ix show ?thesis by (simp add: wal_read_page_def s latest_page_def)
  next
    case (Some i)
    then have i: "i < length frames" by (rule last_frame_index_Some)
    show ?thesis
      using read_frame [OF c ok i] Some ix
      by (simp add: wal_read_page_def s latest_page_def wal_frame_offset_eq)
  qed
qed

section \<open>Appending\<close>

lemma on_wal_file_app:
  "m (wal_file w, d) = (r, (f, d')) \<Longrightarrow> on_wal_file m (w, d) = (r, (w\<lparr>wal_file := f\<rparr>, d'))"
  by (simp add: on_wal_file_def)

lemma put_bytes_at_end: "put_bytes (x @ r) (length x) ys = x @ ys @ drop (length ys) r"
  by (simp add: put_bytes_def overlay_def)

lemma put_bytes_two:
  "put_bytes (put_bytes d a xs) (a + length xs) ys = put_bytes d a (xs @ ys)"
  using put_bytes_parts [of "length xs" "xs @ ys" d a] by simp

lemma log_bytes_snoc: "log_bytes h le (frames @ [f]) = log_bytes h le frames @ frame_bytes h le f"
  by (simp add: log_bytes_def)

lemma index_ok_update:
  assumes "index_ok ix frames"
  shows "index_ok (AList.update (fst f) (length frames) ix) (frames @ [f])"
  using assms
  by (auto simp: index_ok_def distinct_update last_frame_index_snoc update_conv')

lemma wal_append_ok:
  assumes "wal_holds s frames rest" and "length page = unat (wal_page_size (fst s))"
    and "pgno \<noteq> 0" and "length frames + 1 < 2 ^ 32"
  obtains s' where "wal_append_frame pgno page ds s = (Inr (), s')"
    and "wal_holds s' (frames @ [(pgno, page, ds)]) (drop (24 + length page) rest)"
    and "wal_page_size (fst s') = wal_page_size (fst s)"
    and "frame_of (wal_file (fst s), snd s) (wal_file (fst s'), snd s')"
    and "wal_hdr (fst s') = wal_hdr (fst s)" and "wal_is_le (fst s') = wal_is_le (fst s)"
proof -
  obtain w d where s: "s = (w, d)" by (cases s)
  let ?f = "(pgno, page, ds)" and ?h = "wal_hdr w" and ?le = "wal_is_le w"
  let ?fh = "frame_header_of ?h ?le ?f"
  let ?off = "wal_frame_offset w (length frames)"
  have c: "file_content (wal_file w, d) = log_bytes ?h ?le frames @ rest"
    and ok: "frames_ok (wal_page_size w) frames" and wr: "file_writable (wal_file w, d)"
    and n: "wal_frame_count w = length frames" and ix: "index_ok (wal_page_index w) frames"
    and sh: "wal_shape w"
    using assms(1) by (simp_all add: wal_holds_def s)
  have off: "?off = length (log_bytes ?h ?le frames)"
    using length_log_bytes [OF ok] by (simp add: wal_frame_offset_eq)
  obtain f1 d1 where w1: "file_write_exact ?off (frame_header_bytes ?fh) (wal_file w, d)
      = (Inr (), (f1, d1))" "file_writable (f1, d1)"
      "file_content (f1, d1) = put_bytes (file_content (wal_file w, d)) ?off (frame_header_bytes ?fh)"
      "frame_of (wal_file w, d) (f1, d1)"
    using file_write_exact_ok [OF wr] by (metis surj_pair)
  obtain f2 d2 where w2: "file_write_exact (?off + 24) page (f1, d1) = (Inr (), (f2, d2))"
      "file_writable (f2, d2)"
      "file_content (f2, d2) = put_bytes (file_content (f1, d1)) (?off + 24) page"
      "frame_of (f1, d1) (f2, d2)"
    using file_write_exact_ok [OF w1(2)] by (metis surj_pair)
  let ?s' = "(w\<lparr>wal_file := f2, wal_page_index := AList.update pgno (length frames) (wal_page_index w),
    wal_frame_count := length frames + 1\<rparr>, d2)"
  have "file_content (f2, d2) = put_bytes (log_bytes ?h ?le frames @ rest) ?off (frame_bytes ?h ?le ?f)"
    using put_bytes_two [of _ ?off "frame_header_bytes ?fh" page]
    by (simp add: w2(3) w1(3) c frame_bytes_def)
  then have c2: "file_content (f2, d2)
      = log_bytes ?h ?le (frames @ [?f]) @ drop (24 + length page) rest"
    by (simp add: off put_bytes_at_end log_bytes_snoc length_frame_bytes)
  have fh: "?fh = (let f0 = \<lparr>fh_pgno = pgno, fh_db_size = ds, fh_salt1 = wh_salt1 ?h,
      fh_salt2 = wh_salt2 ?h, fh_checksum1 = 0, fh_checksum2 = 0\<rparr>;
      c = frame_compute_checksum f0 page ?le in f0\<lparr>fh_checksum1 := fst c, fh_checksum2 := snd c\<rparr>)"
    by (simp add: frame_header_of_def)
  have "wal_append_frame pgno page ds s = (Inr (), ?s')"
    using assms(2,4) w1(1) w2(1) frame_header_encode_eq [of ?fh]
    by (simp add: wal_append_frame_def s n bindS_app fh Let_def on_wal_file_def apfst_def map_prod_def)
  moreover have "wal_holds ?s' (frames @ [?f]) (drop (24 + length page) rest)"
    using sh w2(2) ok assms(2,3) c2 n index_ok_update [OF ix, of ?f]
    by (simp add: wal_holds_def wal_shape_def frames_ok_def s)
  moreover have "frame_of (wal_file w, d) (f2, d2)"
    using w1(4) w2(4) by (rule frame_of_trans)
  ultimately show ?thesis using that [of ?s'] by (simp add: s)
qed

section \<open>Recovery\<close>

text \<open>
  What stops the recovery scan: fewer bytes than a frame, another log's salts, or a checksum that
  does not match.
\<close>

definition torn :: "wal_header \<Rightarrow> bool \<Rightarrow> nat \<Rightarrow> bytes \<Rightarrow> bool" where
  "torn h le ps rest =
     (length rest < 24 + ps \<or>
      (case frame_header_decode (take 24 rest) of
         Inl e \<Rightarrow> False
       | Inr fh \<Rightarrow> fh_salt1 fh \<noteq> wh_salt1 h \<or> fh_salt2 fh \<noteq> wh_salt2 h
           \<or> \<not> frame_verify_checksum fh (slice_of rest 24 ps) le))"

lemma frame_header_decode_24:
  "length bs = 24 \<Longrightarrow> \<exists>fh. frame_header_decode bs = Inr fh"
  by (simp add: frame_header_decode_def read_u32_be_eq)

lemma rebuild_stops:
  assumes "file_content (wal_file w, d) = log_bytes (wal_hdr w) (wal_is_le w) frames @ rest"
    and ok: "frames_ok (wal_page_size w) frames"
    and torn: "torn (wal_hdr w) (wal_is_le w) (unat (wal_page_size w)) rest"
    and long: "24 + unat (wal_page_size w) \<le> length rest"
  shows "wal_rebuild_loop (Suc k) (length frames) d w = Inr w"
proof -
  let ?o = "wal_frame_offset w (length frames)" and ?ps = "unat (wal_page_size w)"
  have o: "?o = length (log_bytes (wal_hdr w) (wal_is_le w) frames)"
    using length_log_bytes [OF ok] by (simp add: wal_frame_offset_eq)
  have r1: "file_read_exact ?o 24 (wal_file w, d) = Inr (take 24 rest)"
    using long by (simp add: file_read_exact_eq assms(1) o slice_of_def)
  have r2: "file_read_exact (?o + 24) ?ps (wal_file w, d) = Inr (slice_of rest 24 ?ps)"
    using long by (simp add: file_read_exact_eq assms(1) o slice_of_def)
  obtain fh where fh: "frame_header_decode (take 24 rest) = Inr fh"
    using frame_header_decode_24 [of "take 24 rest"] long by auto
  show ?thesis
    using r1 r2 fh torn long by (simp add: Let_def torn_def)
qed

lemma take_index_snoc:
  assumes "index_ok ix (take i frames)" and "i < length frames"
  shows "index_ok (AList.update (fst (frames ! i)) i ix) (take (Suc i) frames)"
  using index_ok_update [OF assms(1), of "frames ! i"] assms(2)
  by (simp add: take_Suc_conv_app_nth min_def)

lemma rebuild_loop_ok:
  assumes "file_content (wal_file w, d) = log_bytes (wal_hdr w) (wal_is_le w) frames @ rest"
    and ok: "frames_ok (wal_page_size w) frames"
    and torn: "torn (wal_hdr w) (wal_is_le w) (unat (wal_page_size w)) rest"
    and i: "i \<le> length frames" "wal_frame_count w = i" "index_ok (wal_page_index w) (take i frames)"
    and k: "length frames \<le> i + k"
      "length frames < i + k \<Longrightarrow> 24 + unat (wal_page_size w) \<le> length rest"
  shows "\<exists>ix. wal_rebuild_loop k i d w
      = Inr (w\<lparr>wal_page_index := ix, wal_frame_count := length frames\<rparr>) \<and> index_ok ix frames"
  using assms
proof (induction k arbitrary: i w)
  case 0
  then show ?case
    by (intro exI [of _ "wal_page_index w"]) simp
next
  case (Suc k)
  show ?case
  proof (cases "i = length frames")
    case True
    then show ?thesis
      using rebuild_stops [OF Suc.prems(1-3)] Suc.prems(5,6,8)
      by (intro exI [of _ "wal_page_index w"]) simp
  next
    case False
    then have i: "i < length frames" using Suc.prems(4) by simp
    let ?w = "w\<lparr>wal_page_index := AList.update (fst (frames ! i)) i (wal_page_index w),
      wal_frame_count := Suc i\<rparr>"
    have pg: "fst (frames ! i) > 0"
      using Suc.prems(2) i by (auto simp: frames_ok_def word_neq_0_conv)
    have step: "wal_rebuild_loop (Suc k) i d w = wal_rebuild_loop k (Suc i) d ?w"
      using read_frame [OF Suc.prems(1,2) i] pg
      by (simp add: wal_frame_offset_eq Let_def)
    have "\<exists>ix. wal_rebuild_loop k (Suc i) d ?w
        = Inr (?w\<lparr>wal_page_index := ix, wal_frame_count := length frames\<rparr>) \<and> index_ok ix frames"
      using Suc.prems i take_index_snoc [OF Suc.prems(6) i] by (intro Suc.IH) simp_all
    then show ?thesis by (simp only: step) simp
  qed
qed

lemma rebuild_index_ok:
  assumes c: "file_content (wal_file w, d) = log_bytes (wal_hdr w) (wal_is_le w) frames @ rest"
    and ok: "frames_ok (wal_page_size w) frames"
    and torn: "torn (wal_hdr w) (wal_is_le w) (unat (wal_page_size w)) rest"
    and small: "length frames + length rest < 2 ^ 32" and w: "wal_frame_count w = 0"
  shows "\<exists>ix. wal_rebuild_index d w
      = Inr (w\<lparr>wal_page_index := ix, wal_frame_count := length frames\<rparr>) \<and> index_ok ix frames"
proof (cases "length frames = 0 \<and> rest = []")
  case True
  then show ?thesis
    using c by (intro exI [of _ "[]"])
      (simp add: wal_rebuild_index_def file_size_content log_bytes_def index_ok_def)
next
  case False
  let ?fs = "24 + unat (wal_page_size w)"
  have size: "file_size (wal_file w, d) = 32 + length frames * ?fs + length rest"
    using length_log_bytes [OF ok] by (simp add: file_size_content c)
  have "(length frames * ?fs + length rest) div ?fs = length frames + length rest div ?fs"
    using div_mult_self1 [of ?fs "length rest" "length frames"] by (simp add: add.commute)
  moreover have "length rest div ?fs \<le> length rest" by (rule div_le_dividend)
  moreover from this small have "length frames + length rest div ?fs < 2 ^ 32" by linarith
  ultimately have n: "(file_size (wal_file w, d) - 32) div ?fs mod 2 ^ 32
      = length frames + length rest div ?fs"
    by (simp only: size) simp
  have pos: "32 < file_size (wal_file w, d)" using False size by auto
  have "\<exists>ix. wal_rebuild_loop (length frames + length rest div ?fs) 0 d (w\<lparr>wal_page_index := []\<rparr>)
      = Inr (w\<lparr>wal_page_index := []\<rparr>\<lparr>wal_page_index := ix, wal_frame_count := length frames\<rparr>)
        \<and> index_ok ix frames"
    using c ok torn w
    by (intro rebuild_loop_ok) (auto simp: index_ok_def div_greater_zero_iff)
  then show ?thesis
    using pos n by (simp add: wal_rebuild_index_def Let_def)
qed

lemma unix_handle_content: "d path = Some bs \<Longrightarrow> file_content (UnixFile path w, d) = bs"
  by (simp add: disk_bytes_def)

lemma wal_open_existing:
  assumes d: "d path = Some (log_bytes h (wh_magic h = WAL_MAGIC_LE) frames @ rest)"
    and h: "wal_header_ok h" and ok: "frames_ok (wh_page_size h) frames"
    and torn: "torn h (wh_magic h = WAL_MAGIC_LE) (unat (wh_page_size h)) rest"
    and small: "length frames + length rest < 2 ^ 32"
  shows "\<exists>w. wal_open path (wh_page_size h) d = (Inr w, d) \<and> wal_holds (w, d) frames rest
    \<and> wal_hdr w = h \<and> wal_file w = UnixFile path True"
proof -
  let ?le = "wh_magic h = WAL_MAGIC_LE"
  let ?w0 = "\<lparr>wal_file = UnixFile path True, wal_hdr = h, wal_page_size = wh_page_size h,
    wal_frame_count = 0, wal_page_index = [], wal_is_le = ?le\<rparr>"
  have c: "file_content (UnixFile path True, d) = log_bytes h ?le frames @ rest"
    using d by (rule unix_handle_content)
  have hdr: "file_read_exact 0 32 (UnixFile path True, d) = Inr (wal_header_bytes h)"
    unfolding file_read_exact_eq c by (simp add: log_bytes_def slice_of_def)
  have size: "file_size (UnixFile path True, d) \<noteq> 0"
    by (simp only: file_size_content c) (simp add: log_bytes_def)
  obtain ix where ix: "wal_rebuild_index d ?w0
      = Inr (?w0\<lparr>wal_page_index := ix, wal_frame_count := length frames\<rparr>)" "index_ok ix frames"
    using rebuild_index_ok [of ?w0 d frames rest] c ok torn small by auto
  let ?w = "?w0\<lparr>wal_page_index := ix, wal_frame_count := length frames\<rparr>"
  have "wal_open path (wh_page_size h) d = (Inr ?w, d)"
    using d hdr size wal_header_decode_bytes [OF h] ix(1)
    by (simp add: wal_open_def bindS_app unix_exists_def unix_open_def)
  moreover have "wal_holds (?w, d) frames rest"
    using h ok c ix(2) by (simp add: wal_holds_def wal_shape_def)
  ultimately show ?thesis by (intro exI [of _ ?w]) simp
qed

lemma take_log_bytes:
  assumes ok: "frames_ok ps frames" and k: "32 \<le> k"
  shows "\<exists>rest. take k (log_bytes h le frames)
      = log_bytes h le (take ((k - 32) div (24 + unat ps)) frames) @ rest
      \<and> length rest < 24 + unat ps"
proof -
  let ?fs = "24 + unat ps" and ?bs = "map (frame_bytes h le) frames"
  let ?n = "(k - 32) div ?fs" and ?r = "(k - 32) mod ?fs"
  note blocks = frames_ok_blocks [OF ok, of h le]
  have tk: "take k (log_bytes h le frames) = wal_header_bytes h @ take (k - 32) (concat ?bs)"
    using k by (simp add: log_bytes_def)
  show ?thesis
  proof (cases "?n \<le> length frames")
    case True
    have "k - 32 = ?n * ?fs + ?r" by (rule div_mult_mod_eq [symmetric])
    then have "take (k - 32) (concat ?bs)
        = take (?n * ?fs) (concat ?bs) @ take ?r (drop (?n * ?fs) (concat ?bs))"
      by (metis take_add)
    also have "take (?n * ?fs) (concat ?bs) = concat (take ?n ?bs)"
      using blocks True by (intro take_concat_blocks) simp_all
    finally show ?thesis
      using tk
      by (intro exI [of _ "take ?r (drop (?n * ?fs) (concat ?bs))"])
        (simp add: log_bytes_def take_map min_less_iff_disj)
  next
    case False
    have "length (concat ?bs) = length frames * ?fs"
      using length_concat_blocks [OF blocks] by simp
    also have "\<dots> \<le> ?n * ?fs" using False by (intro mult_le_mono1) simp
    also have "\<dots> \<le> k - 32" by (rule div_times_less_eq_dividend)
    finally show ?thesis
      using False tk by (intro exI [of _ "[]"]) (simp add: log_bytes_def)
  qed
qed

lemma wal_crash_recovery_aux:
  assumes "wal_holds (w, d) frames []" and "wal_file w = UnixFile path True"
    and "length frames < 2 ^ 31" and "unat (wal_page_size w) < 2 ^ 30"
    and "32 \<le> k" and "d' path = Some (take k (file_content (wal_file w, d)))"
  shows "\<exists>w'. wal_open path (wal_page_size w) d' = (Inr w', d')
    \<and> (\<forall>p. wal_read_page p (w', d')
        = Inr (latest_page (take ((k - 32) div (24 + unat (wal_page_size w))) frames) p))"
proof -
  let ?h = "wal_hdr w" and ?le = "wal_is_le w"
  let ?n = "(k - 32) div (24 + unat (wal_page_size w))"
  have sh: "wal_header_ok ?h" "wh_page_size ?h = wal_page_size w" "?le = (wh_magic ?h = WAL_MAGIC_LE)"
    and ok: "frames_ok (wal_page_size w) frames"
    and c: "file_content (wal_file w, d) = log_bytes ?h ?le frames"
    using assms(1) by (simp_all add: wal_holds_def wal_shape_def)
  obtain rest where rest: "take k (log_bytes ?h ?le frames) = log_bytes ?h ?le (take ?n frames) @ rest"
    "length rest < 24 + unat (wal_page_size w)"
    using take_log_bytes [OF ok assms(5)] by blast
  have d': "d' path = Some (log_bytes ?h (wh_magic ?h = WAL_MAGIC_LE) (take ?n frames) @ rest)"
    unfolding sh(3) [symmetric] using assms(6) rest(1) c by simp
  have ok': "frames_ok (wh_page_size ?h) (take ?n frames)"
    using ok sh(2) by (auto simp: frames_ok_def dest: in_set_takeD)
  have tr: "torn ?h (wh_magic ?h = WAL_MAGIC_LE) (unat (wh_page_size ?h)) rest"
    using rest(2) sh(2) by (simp add: torn_def)
  have "length (take ?n frames) \<le> length frames" by simp
  then have "length (take ?n frames) + length rest < 2 ^ 32"
    using assms(3,4) rest(2) by simp
  from wal_open_existing [where d = d' and path = path, OF d' sh(1) ok' tr this] sh(2)
  show ?thesis using wal_read_page_ok by (metis (no_types))
qed

text \<open>
  C2. Crash recovery. If a log holding \<open>frames\<close> (fewer than \<open>2 ^ 31\<close>) is cut at any byte after its
  header, as a crash in the middle of an append leaves it, then reopening it succeeds, does not
  touch the file, and every page reads as its latest version among the frames that are complete.
\<close>

theorem wal_crash_recovery:
  assumes "wal_holds (w, d) frames []" and "wal_file w = UnixFile path True"
    and "length frames < 2 ^ 31" and "unat (wal_page_size w) < 2 ^ 30"
    and "32 \<le> k" and "d' path = Some (take k (file_content (wal_file w, d)))"
  shows "\<exists>w'. wal_open path (wal_page_size w) d' = (Inr w', d')
    \<and> (\<forall>p. wal_read_page p (w', d')
        = Inr (latest_page (take ((k - 32) div (24 + unat (wal_page_size w))) frames) p))"
  using assms by (rule wal_crash_recovery_aux)

fun wal_append_all :: "frame list \<Rightarrow> (wal_state, unit) sres" where
  "wal_append_all [] s = (Inr (), s)"
| "wal_append_all ((pgno, page, db_size) # fs) s =
     bindS (wal_append_frame pgno page db_size) (\<lambda>_. wal_append_all fs) s"

lemma wal_append_all_ok:
  assumes "wal_holds s fs0 []" and "frames_ok (wal_page_size (fst s)) fs"
    and "length fs0 + length fs < 2 ^ 32"
  shows "\<exists>s'. wal_append_all fs s = (Inr (), s') \<and> wal_holds s' (fs0 @ fs) []
    \<and> wal_page_size (fst s') = wal_page_size (fst s)
    \<and> frame_of (wal_file (fst s), snd s) (wal_file (fst s'), snd s')"
  using assms
proof (induction fs arbitrary: s fs0)
  case (Cons f fs)
  obtain p b ds where f: "f = (p, b, ds)" by (cases f)
  have "length b = unat (wal_page_size (fst s))" and "p \<noteq> 0" and "length fs0 + 1 < 2 ^ 32"
    using Cons.prems f by (auto simp: frames_ok_def)
  note app = wal_append_ok [OF Cons.prems(1) this, of ds]
  obtain s1 where s1: "wal_append_frame p b ds s = (Inr (), s1)" "wal_holds s1 (fs0 @ [f]) []"
    "wal_page_size (fst s1) = wal_page_size (fst s)"
    "frame_of (wal_file (fst s), snd s) (wal_file (fst s1), snd s1)"
    using app unfolding f by (metis drop_Nil)
  have "\<exists>s'. wal_append_all fs s1 = (Inr (), s') \<and> wal_holds s' ((fs0 @ [f]) @ fs) []
    \<and> wal_page_size (fst s') = wal_page_size (fst s1)
    \<and> frame_of (wal_file (fst s1), snd s1) (wal_file (fst s'), snd s')"
    using Cons.prems s1(3) by (intro Cons.IH [OF s1(2)]) (auto simp: frames_ok_def)
  with s1 show ?case by (auto simp: f bindS_app intro: frame_of_trans)
qed auto

lemma wal_create_ok:
  assumes "d path = None"
  shows "\<exists>w d'. wal_create path ps d = (Inr w, d') \<and> wal_holds (w, d') [] []
    \<and> wal_file w = UnixFile path True \<and> wal_page_size w = ps
    \<and> wal_hdr w = wal_header_new ps 0x12345678 0x9abcdef0"
proof -
  let ?h = "wal_header_new ps 0x12345678 0x9abcdef0"
  let ?f = "UnixFile path True" and ?d = "d(path \<mapsto> [])"
  obtain f' d' where w: "file_write_exact 0 (wal_header_bytes ?h) (?f, ?d) = (Inr (), (f', d'))"
    "file_writable (f', d')" "file_content (f', d') = put_bytes [] 0 (wal_header_bytes ?h)"
    "frame_of (?f, ?d) (f', d')"
    using file_write_exact_ok [of "(?f, ?d)" 0 "wal_header_bytes ?h"]
    by (auto simp: disk_bytes_def)
  have f': "f' = ?f" using w(4) by (cases f') (auto simp: frame_of_def)
  have c: "file_content (f', d') = wal_header_bytes ?h"
    using w(3) put_bytes_append [of "[]"] by simp
  have magic: "wh_magic ?h \<noteq> WAL_MAGIC_LE" and hps: "wh_page_size ?h = ps"
    by (simp_all add: wal_header_new_def)
  show ?thesis
    using w(1,2) c magic hps assms
    by (simp add: wal_create_def bindS_app unix_open_def wal_header_encode_eq f' wal_holds_def
        wal_shape_def frames_ok_def index_ok_def log_bytes_def)
qed

lemma example_log:
  "\<exists>w d. wal_holds (w, d) [(1, [7, 8], 1), (2, [9, 9], 2)] []
    \<and> wal_file w = UnixFile ''a-wal'' True \<and> wal_page_size w = 2"
proof -
  obtain w d where w: "wal_create ''a-wal'' 2 Map.empty = (Inr w, d)" "wal_holds (w, d) [] []"
    "wal_file w = UnixFile ''a-wal'' True" "wal_page_size w = 2"
    using wal_create_ok [of Map.empty "''a-wal''" 2] by auto
  obtain w' d' where a: "wal_holds (w', d') [(1, [7, 8], 1), (2, [9, 9], 2)] []"
    "wal_page_size w' = 2" "frame_of (wal_file w, d) (wal_file w', d')"
    using wal_append_all_ok [OF w(2), of "[(1, [7, 8], 1), (2, [9, 9], 2)]"] w(4)
    by (auto simp: frames_ok_def)
  moreover have "wal_file w' = UnixFile ''a-wal'' True"
    using a(3) w(3) by (cases "wal_file w'") (auto simp: frame_of_def)
  ultimately show ?thesis by blast
qed

theorem wal_crash_recovery_witness:
  "\<exists>w d w'. wal_holds (w, d) [(1, [7, 8], 1), (2, [9, 9], 2)] []
    \<and> wal_open ''a-wal'' (wal_page_size w) [''a-wal'' \<mapsto> take 60 (file_content (wal_file w, d))]
      = (Inr w', [''a-wal'' \<mapsto> take 60 (file_content (wal_file w, d))])
    \<and> wal_read_page 1 (w', [''a-wal'' \<mapsto> take 60 (file_content (wal_file w, d))]) = Inr (Some [7, 8])
    \<and> wal_read_page 2 (w', [''a-wal'' \<mapsto> take 60 (file_content (wal_file w, d))]) = Inr None"
proof -
  obtain w d where w: "wal_holds (w, d) [(1, [7, 8], 1), (2, [9, 9], 2)] []"
    "wal_file w = UnixFile ''a-wal'' True" "wal_page_size w = 2"
    using example_log by blast
  let ?d = "[''a-wal'' \<mapsto> take 60 (file_content (wal_file w, d))]"
  have "latest_page (take ((60 - 32) div (24 + unat (wal_page_size w)))
      [(1, [7, 8], 1), (2, [9, 9], 2)]) = [1 \<mapsto> [7, 8]]"
    using latest_page_snoc [of "[]" "(1, [7, 8], 1)"] by (simp add: w(3))
  then have "\<exists>w'. wal_open ''a-wal'' (wal_page_size w) ?d = (Inr w', ?d)
      \<and> wal_read_page 1 (w', ?d) = Inr (Some [7, 8]) \<and> wal_read_page 2 (w', ?d) = Inr None"
    using wal_crash_recovery [OF w(1,2), of 60 ?d] by (auto simp: w(3))
  with w(1) show ?thesis by blast
qed

text \<open>
  C17. What a log does, in one statement: starting from a file that does not exist, create it,
  append any frames in any order, and every page reads as the last version appended to it (or is
  absent); closing and reopening the log gives the same readings.
\<close>

theorem wal_read_your_appends:
  assumes "d path = None" and "frames_ok ps frames" and "length frames < 2 ^ 31"
    and "unat ps < 2 ^ 30"
  shows "\<exists>w d1 w' d' w''. wal_open path ps d = (Inr w, d1)
    \<and> wal_append_all frames (w, d1) = (Inr (), (w', d'))
    \<and> (\<forall>p. wal_read_page p (w', d') = Inr (latest_page frames p))
    \<and> wal_open path ps d' = (Inr w'', d')
    \<and> (\<forall>p. wal_read_page p (w'', d') = Inr (latest_page frames p))"
proof -
  obtain w d1 where w: "wal_create path ps d = (Inr w, d1)" "wal_holds (w, d1) [] []"
    "wal_file w = UnixFile path True" "wal_page_size w = ps"
    using wal_create_ok [of d path ps, OF assms(1)] by blast
  have o: "wal_open path ps d = (Inr w, d1)"
    using w(1) assms(1) by (simp add: wal_open_def bindS_app unix_exists_def)
  obtain w' d' where a: "wal_append_all frames (w, d1) = (Inr (), (w', d'))"
    "wal_holds (w', d') frames []" "wal_page_size w' = ps"
    "frame_of (wal_file w, d1) (wal_file w', d')"
    using wal_append_all_ok [OF w(2), of frames] assms(2,3) w(4) by auto
  have f': "wal_file w' = UnixFile path True"
    using a(4) w(3) by (cases "wal_file w'") (auto simp: frame_of_def)
  have len: "length (file_content (wal_file w', d')) = 32 + length frames * (24 + unat ps)"
    using a(2) length_log_bytes [OF assms(2)] by (auto simp: wal_holds_def)
  then have some: "d' path = Some (take (length (file_content (wal_file w', d')))
      (file_content (wal_file w', d')))"
    using f' by (cases "d' path") (auto simp: disk_bytes_def)
  have "32 \<le> length (file_content (wal_file w', d'))" using len by simp
  from wal_crash_recovery_aux [where d' = d' and path = path, OF a(2) f' assms(3) _ this some] a(3) assms(4) len
  obtain w'' where "wal_open path ps d' = (Inr w'', d')"
    "\<forall>p. wal_read_page p (w'', d') = Inr (latest_page frames p)"
    by auto
  with o a(1) wal_read_page_ok [OF a(2)] show ?thesis by blast
qed

theorem wal_read_your_appends_witness:
  "\<exists>w d1 w' d' w''. wal_open ''a-wal'' 2 Map.empty = (Inr w, d1)
    \<and> wal_append_all [(1, [7, 8], 1), (1, [9, 9], 1)] (w, d1) = (Inr (), (w', d'))
    \<and> (\<forall>p. wal_read_page p (w', d') = Inr (latest_page [(1, [7, 8], 1), (1, [9, 9], 1)] p))
    \<and> wal_open ''a-wal'' 2 d' = (Inr w'', d')
    \<and> (\<forall>p. wal_read_page p (w'', d') = Inr (latest_page [(1, [7, 8], 1), (1, [9, 9], 1)] p))"
  by (rule wal_read_your_appends) (simp_all add: frames_ok_def)

text \<open>
  C34. The frames carry no running checksum, so a recovery that stopped at a damaged frame does not
  end the life of the frames behind it: when \<open>rest\<close> is a damaged frame followed by an intact old
  frame \<open>g\<close>, the log reads without \<open>g\<close>, but after one append (which overwrites the damaged
  frame) and a restart the old frame \<open>g\<close> is the newest of the log, ahead of the appended one.
\<close>

theorem wal_stale_frame_returns:
  assumes "wal_holds (w, d) frames (bad @ frame_bytes (wal_hdr w) (wal_is_le w) g)"
    and "wal_file w = UnixFile path True" and "length bad = 24 + unat (wal_page_size w)"
    and "frames_ok (wal_page_size w) [(pgno, page, ds), g]"
    and "length frames < 2 ^ 30"
  shows "wal_read_page (fst g) (w, d) = Inr (latest_page frames (fst g))
    \<and> (\<exists>w' d' w''. wal_append_frame pgno page ds (w, d) = (Inr (), (w', d'))
      \<and> wal_read_page (fst g) (w', d') = Inr (latest_page (frames @ [(pgno, page, ds)]) (fst g))
      \<and> wal_open path (wal_page_size w) d' = (Inr w'', d')
      \<and> wal_read_page (fst g) (w'', d') = Inr (Some (fst (snd g))))"
proof -
  let ?f = "(pgno, page, ds)" and ?gb = "frame_bytes (wal_hdr w) (wal_is_le w) g"
  have pg: "length page = unat (wal_page_size (fst (w, d)))" "pgno \<noteq> 0" "length frames + 1 < 2 ^ 32"
    using assms(4,5) by (simp_all add: frames_ok_def)
  obtain s' where s': "wal_append_frame pgno page ds (w, d) = (Inr (), s')"
    "wal_holds s' (frames @ [?f]) (drop (24 + length page) (bad @ ?gb))"
    "wal_page_size (fst s') = wal_page_size w" "frame_of (wal_file w, d) (wal_file (fst s'), snd s')"
    "wal_hdr (fst s') = wal_hdr w" "wal_is_le (fst s') = wal_is_le w"
    using wal_append_ok [OF assms(1) pg, of ds] by (metis fst_conv snd_conv)
  obtain w' d' where wd: "s' = (w', d')" by (cases s')
  have rest: "drop (24 + length page) (bad @ ?gb) = ?gb" using assms(3) pg(1) by simp
  have h': "wal_holds (w', d') (frames @ [?f]) ?gb" using s'(2) unfolding wd rest .
  have f': "wal_file w' = UnixFile path True"
    using s'(4) assms(2) by (cases "wal_file w'") (auto simp: frame_of_def wd)
  have sh: "wal_header_ok (wal_hdr w)" "wh_page_size (wal_hdr w) = wal_page_size w"
    "wal_is_le w = (wh_magic (wal_hdr w) = WAL_MAGIC_LE)"
    using assms(1) by (simp_all add: wal_holds_def wal_shape_def)
  have ok: "frames_ok (wh_page_size (wal_hdr w)) (frames @ [?f, g])"
    using assms(1,4) sh(2) by (auto simp: wal_holds_def frames_ok_def)
  have "file_content (wal_file w', d') = log_bytes (wal_hdr w) (wal_is_le w) (frames @ [?f, g]) @ []"
    using h' s'(5,6) by (simp add: wal_holds_def wd log_bytes_def)
  moreover have "32 \<le> length (log_bytes (wal_hdr w) (wal_is_le w) (frames @ [?f, g]))"
    by (simp add: log_bytes_def)
  ultimately have "d' path = Some (log_bytes (wal_hdr w) (wh_magic (wal_hdr w) = WAL_MAGIC_LE)
      (frames @ [?f, g]) @ [])"
    unfolding sh(3) [symmetric] using f' by (cases "d' path") (auto simp: disk_bytes_def)
  moreover have "torn (wal_hdr w) (wh_magic (wal_hdr w) = WAL_MAGIC_LE)
      (unat (wh_page_size (wal_hdr w))) []" by (simp add: torn_def)
  moreover have "length (frames @ [?f, g]) + length ([] :: bytes) < 2 ^ 32" using assms(5) by simp
  ultimately obtain w'' where "wal_open path (wal_page_size w) d' = (Inr w'', d')"
    "wal_holds (w'', d') (frames @ [?f, g]) []"
    using wal_open_existing [where d = d' and path = path] sh ok by metis
  moreover from wal_read_page_ok [OF this(2), of "fst g"]
  have "wal_read_page (fst g) (w'', d') = Inr (Some (fst (snd g)))"
    using latest_page_snoc [of "frames @ [?f]" g] by simp
  ultimately show ?thesis
    using s'(1) wd wal_read_page_ok [OF assms(1)] wal_read_page_ok [OF h'] by blast
qed

section \<open>Checkpoints\<close>

text \<open>The page versions an index points to.\<close>

definition indexed_pages :: "frame list \<Rightarrow> (u32 \<times> nat) list \<Rightarrow> (u32 \<times> bytes) list" where
  "indexed_pages frames ix = map (\<lambda>(p, i). (p, fst (snd (frames ! i)))) ix"

lemma indexed_pages_keys: "map fst (indexed_pages frames ix) = map fst ix"
  by (simp add: indexed_pages_def split_def comp_def)

lemma indexed_pages_Cons:
  "indexed_pages frames ((p, i) # ix) = (p, fst (snd (frames ! i))) # indexed_pages frames ix"
  by (simp add: indexed_pages_def)

lemma map_of_indexed_pages:
  "map_of (indexed_pages frames ix) p = map_option (\<lambda>i. fst (snd (frames ! i))) (map_of ix p)"
  by (induction ix) (auto simp: indexed_pages_def)

lemma copy_frames_ok:
  assumes "file_content (wal_file w, d) = log_bytes (wal_hdr w) (wal_is_le w) frames @ rest"
    and "frames_ok (wal_page_size w) frames" and "file_writable (f, d)"
    and "touches (wal_file w) \<inter> touches f = {}"
    and "\<forall>(p, i) \<in> set ix. p \<noteq> 0 \<and> i < length frames"
  shows "\<exists>f' d'. wal_copy_frames ix (w, f, d) = (Inr (), (w, f', d'))
    \<and> file_content (f', d')
        = put_pages (unat (wal_page_size w)) (indexed_pages frames ix) (file_content (f, d))
    \<and> frame_of (f, d) (f', d')"
  using assms
proof (induction ix arbitrary: f d)
  case Nil
  then show ?case by (simp add: indexed_pages_def)
next
  case (Cons x ix)
  obtain p i where x: "x = (p, i)" by (cases x)
  let ?ps = "unat (wal_page_size w)" and ?b = "fst (snd (frames ! i))"
  have i: "i < length frames" and p: "p \<noteq> 0" using Cons.prems(5) x by auto
  obtain f1 d1 where w1: "file_write_exact (page_offset ?ps p) ?b (f, d) = (Inr (), (f1, d1))"
    "file_writable (f1, d1)" "frame_of (f, d) (f1, d1)"
    "file_content (f1, d1) = put_bytes (file_content (f, d)) (page_offset ?ps p) ?b"
    using file_write_exact_ok [OF Cons.prems(3), of "page_offset ?ps p" ?b] by (metis surj_pair)
  have c1: "file_content (wal_file w, d1) = log_bytes (wal_hdr w) (wal_is_le w) frames @ rest"
    using file_content_frame [OF w1(3) Cons.prems(4)] Cons.prems(1) by simp
  have "touches f1 = touches f"
    using w1(3) by (auto simp: frame_of_def dest: same_handle_touches)
  with Cons.IH [OF c1 Cons.prems(2) w1(2)] Cons.prems(4,5)
  obtain f' d' where "wal_copy_frames ix (w, f1, d1) = (Inr (), (w, f', d'))"
    "file_content (f', d') = put_pages ?ps (indexed_pages frames ix) (file_content (f1, d1))"
    "frame_of (f1, d1) (f', d')"
    by auto
  moreover have "wal_copy_frames (x # ix) (w, f, d) = wal_copy_frames ix (w, f1, d1)"
    using read_frame(2) [OF Cons.prems(1,2) i] w1(1) p
    by (simp add: x Let_def wal_frame_offset_eq page_offset_def)
  ultimately show ?case
    using w1(3,4) by (auto simp: x indexed_pages_Cons intro: frame_of_trans)
qed

lemma index_ok_entries:
  assumes "index_ok ix frames" and "frames_ok ps frames"
  shows "\<forall>(p, i) \<in> set ix. p \<noteq> 0 \<and> i < length frames"
proof (clarify)
  fix p i assume pi: "(p, i) \<in> set ix"
  then have "last_frame_index frames p = Some i"
    using assms(1) by (auto simp: index_ok_def simp flip: map_of_eq_Some_iff)
  from last_frame_index_Some [OF this] assms(2)
  show "p \<noteq> 0 \<and> i < length frames" by (auto simp: frames_ok_def)
qed

lemma indexed_pages_ok:
  assumes "index_ok ix frames" and "frames_ok ps frames"
  shows "pages_ok (unat ps) (indexed_pages frames ix)"
  using index_ok_entries [OF assms] assms(2)
  by (auto simp: pages_ok_def indexed_pages_def frames_ok_def split: prod.splits)

lemma wal_checkpoint_ok:
  assumes h: "wal_holds (w, d) frames rest" and dbw: "file_writable (f, d)"
    and dis: "touches (wal_file w) \<inter> touches f = {}"
  shows "\<exists>w' f' d'. wal_checkpoint (w, f, d) = (Inr (), (w', f', d'))
    \<and> file_content (f', d')
        = put_pages (unat (wal_page_size w)) (indexed_pages frames (wal_page_index w))
            (file_content (f, d))
    \<and> wal_holds (w', d') [] [] \<and> wal_page_size w' = wal_page_size w
    \<and> wal_hdr w' = wal_next_header (wal_hdr w)"
proof -
  let ?ix = "wal_page_index w" and ?h' = "wal_next_header (wal_hdr w)"
  have c: "file_content (wal_file w, d) = log_bytes (wal_hdr w) (wal_is_le w) frames @ rest"
    and ok: "frames_ok (wal_page_size w) frames" and ix: "index_ok ?ix frames"
    and ww: "file_writable (wal_file w, d)" and sh: "wal_shape w"
    using h by (simp_all add: wal_holds_def)
  obtain f' d1 where cp: "wal_copy_frames ?ix (w, f, d) = (Inr (), (w, f', d1))"
    "file_content (f', d1)
      = put_pages (unat (wal_page_size w)) (indexed_pages frames ?ix) (file_content (f, d))"
    "frame_of (f, d) (f', d1)"
    using copy_frames_ok [OF c ok dbw dis index_ok_entries [OF ix ok]] by blast
  have ww1: "file_writable (wal_file w, d1)" using ww file_writable_disk by metis
  obtain g1 d2 where w1: "file_write_exact 0 (wal_header_bytes ?h') (wal_file w, d1)
      = (Inr (), (g1, d2))" "file_writable (g1, d2)" "frame_of (wal_file w, d1) (g1, d2)"
    "file_content (g1, d2) = put_bytes (file_content (wal_file w, d1)) 0 (wal_header_bytes ?h')"
    using file_write_exact_ok [OF ww1, of 0 "wal_header_bytes ?h'"] by (metis surj_pair)
  have c1: "take 32 (file_content (g1, d2)) = wal_header_bytes ?h'"
    and l1: "32 \<le> length (file_content (g1, d2))"
    using w1(4) slice_put_bytes_same [of "file_content (wal_file w, d1)" 0 "wal_header_bytes ?h'"]
      length_put_bytes [of "file_content (wal_file w, d1)" 0 "wal_header_bytes ?h'"]
      length_wal_header_bytes [of ?h']
    by (auto simp: slice_of_def split: if_splits simp del: length_wal_header_bytes)
  obtain g2 d3 where w2: "file_truncate 32 (g1, d2) = (Inr (), (g2, d3))" "file_writable (g2, d3)"
    "frame_of (g1, d2) (g2, d3)" "file_content (g2, d3) = take 32 (file_content (g1, d2))"
    using file_truncate_ok [OF w1(2) l1] by (metis surj_pair)
  let ?w' = "w\<lparr>wal_file := g2, wal_hdr := ?h', wal_frame_count := 0, wal_page_index := []\<rparr>"
  have fr: "frame_of (wal_file w, d1) (g2, d3)" using w1(3) w2(3) by (rule frame_of_trans)
  have "touches f' = touches f" using cp(3) by (auto simp: frame_of_def dest: same_handle_touches)
  then have db: "file_content (f', d3) = file_content (f', d1)"
    using file_content_frame [OF fr, of f'] dis by (simp add: Int_commute)
  have "wal_checkpoint (w, f, d) = (Inr (), (?w', f', d3))"
    using cp(1) w1(1) w2(1) wal_header_encode_eq [of ?h']
    by (simp add: wal_checkpoint_def bindS_app on_checkpoint_wal_def on_wal_file_def)
  moreover have "wal_holds (?w', d3) [] []"
    using sh w2(2,4) c1 wal_next_header_ok [of "wal_hdr w"]
    by (simp add: wal_holds_def wal_shape_def frames_ok_def log_bytes_def index_ok_def
        wal_next_header_def)
  ultimately show ?thesis using cp(2) db by (intro exI [of _ ?w'] exI [of _ f'] exI [of _ d3]) simp
qed

text \<open>
  C18. A checkpoint moves the log into the database: every page of the database file is afterwards
  the latest version in the log, or what it was if the log has none; the log is empty, and the
  order in which the hash map hands out the frames does not matter.
\<close>

theorem wal_checkpoint_moves_latest:
  assumes "wal_holds (w, d) frames rest" and "file_writable (f, d)"
    and "touches (wal_file w) \<inter> touches f = {}" and "0 < unat (wal_page_size w)"
  shows "\<exists>w' f' d'. wal_checkpoint (w, f, d) = (Inr (), (w', f', d'))
    \<and> (\<forall>p. latest_page frames p \<noteq> None \<or> has_page (unat (wal_page_size w)) (file_content (f, d)) p \<longrightarrow>
         page_at (unat (wal_page_size w)) (file_content (f', d')) p =
           (case latest_page frames p of Some page \<Rightarrow> page
            | None \<Rightarrow> page_at (unat (wal_page_size w)) (file_content (f, d)) p))
    \<and> (\<forall>p. wal_read_page p (w', d') = Inr None)
    \<and> (\<forall>ix. mset ix = mset (wal_page_index w) \<longrightarrow>
         put_pages (unat (wal_page_size w)) (indexed_pages frames ix) (file_content (f, d))
         = file_content (f', d'))"
proof -
  let ?ps = "unat (wal_page_size w)" and ?pages = "indexed_pages frames (wal_page_index w)"
  obtain w' f' d' where cp: "wal_checkpoint (w, f, d) = (Inr (), (w', f', d'))"
    "file_content (f', d') = put_pages ?ps ?pages (file_content (f, d))" "wal_holds (w', d') [] []"
    using wal_checkpoint_ok [OF assms(1-3)] by blast
  have ix: "index_ok (wal_page_index w) frames" and ok: "frames_ok (wal_page_size w) frames"
    using assms(1) by (simp_all add: wal_holds_def)
  have pok: "pages_ok ?ps ?pages" by (rule indexed_pages_ok [OF ix ok])
  have dist: "distinct (map fst ?pages)" using ix by (simp add: indexed_pages_keys index_ok_def)
  have lp: "map_of ?pages p = latest_page frames p" for p
    using ix by (simp add: map_of_indexed_pages latest_page_def index_ok_def)
  have "put_pages ?ps (indexed_pages frames ix) = put_pages ?ps ?pages"
    if "mset ix = mset (wal_page_index w)" for ix
    using that by (intro put_pages_permute [OF dist pok, symmetric])
      (simp add: indexed_pages_def)
  moreover have "page_at ?ps (file_content (f', d')) p =
      (case latest_page frames p of Some page \<Rightarrow> page | None \<Rightarrow> page_at ?ps (file_content (f, d)) p)"
    if "latest_page frames p \<noteq> None \<or> has_page ?ps (file_content (f, d)) p" for p
    using page_at_put_pages(2) [OF pok dist assms(4), of p "file_content (f, d)"] that
    by (auto simp: cp(2) lp)
  moreover have "wal_read_page p (w', d') = Inr None" for p
    using wal_read_page_ok [OF cp(3)] by simp
  ultimately show ?thesis using cp(1,2) by metis
qed

theorem wal_checkpoint_moves_latest_witness:
  "\<exists>w d w' f' d'. wal_holds (w, d) [(1, [7, 8], 1), (2, [9, 9], 2)] []
    \<and> wal_checkpoint (w, MemoryFile memory_file_new, d) = (Inr (), (w', f', d'))
    \<and> page_at 2 (file_content (f', d')) 2 = [9, 9] \<and> wal_read_page 2 (w', d') = Inr None"
proof -
  obtain w d where w: "wal_holds (w, d) [(1, [7, 8], 1), (2, [9, 9], 2)] []"
    "wal_file w = UnixFile ''a-wal'' True" "wal_page_size w = 2"
    using example_log by blast
  have lp: "latest_page [(1, [7, 8], 1), (2, [9, 9], 2)] 2 = Some [9, 9]"
    using latest_page_snoc [of "[(1, [7, 8], 1)]" "(2, [9, 9], 2)"] by simp
  have "\<exists>w' f' d'. wal_checkpoint (w, MemoryFile memory_file_new, d) = (Inr (), (w', f', d'))
    \<and> page_at 2 (file_content (f', d')) 2 = [9, 9] \<and> wal_read_page 2 (w', d') = Inr None"
    using wal_checkpoint_moves_latest [OF w(1), of "MemoryFile memory_file_new"] lp
    by (fastforce simp: w(3))
  with w(1) show ?thesis by blast
qed

theorem wal_stale_frame_returns_witness:
  "\<exists>w d w' d' w''. wal_read_page 2 (w, d) = Inr None
    \<and> wal_append_frame 1 [5, 5] 1 (w, d) = (Inr (), (w', d'))
    \<and> wal_open ''a-wal'' (wal_page_size w) d' = (Inr w'', d')
    \<and> wal_read_page 2 (w'', d') = Inr (Some [9, 9])"
proof -
  let ?h = "wal_header_new 2 1 2" and ?g = "(2, [9, 9], 2) :: frame"
  let ?bad = "replicate 26 0 :: bytes"
  have le: "(wh_magic ?h = WAL_MAGIC_LE) = False" and ps: "wh_page_size ?h = 2"
    by (simp_all add: wal_header_new_def)
  let ?d = "[''a-wal'' \<mapsto> log_bytes ?h (wh_magic ?h = WAL_MAGIC_LE) [] @ ?bad @ frame_bytes ?h False ?g]"
  have "torn ?h (wh_magic ?h = WAL_MAGIC_LE) (unat (wh_page_size ?h)) (?bad @ frame_bytes ?h False ?g)"
    by (simp add: torn_def frame_header_decode_def read_u32_be_eq ps split: sum.splits)
      (simp add: u32_at_def u32_of_be_def wal_header_new_def)
  moreover have "length (frame_bytes ?h False ?g) = 26" by (simp add: length_frame_bytes)
  ultimately obtain w where "wal_open ''a-wal'' 2 ?d = (Inr w, ?d)"
    and w: "wal_holds (w, ?d) [] (?bad @ frame_bytes ?h False ?g)" "wal_hdr w = ?h"
    "wal_file w = UnixFile ''a-wal'' True"
    using wal_open_existing [where d = ?d and path = "''a-wal''" and h = ?h and frames = "[]"
        and rest = "?bad @ frame_bytes ?h False ?g"] ps
    by (auto simp: frames_ok_def)
  moreover have "wal_page_size w = 2" and "wal_is_le w = False"
    using w ps le by (auto simp: wal_holds_def wal_shape_def)
  ultimately have "wal_read_page 2 (w, ?d) = Inr None \<and> (\<exists>w' d' w''.
      wal_append_frame 1 [5, 5] 1 (w, ?d) = (Inr (), (w', d'))
      \<and> wal_open ''a-wal'' (wal_page_size w) d' = (Inr w'', d')
      \<and> wal_read_page 2 (w'', d') = Inr (Some [9, 9]))"
    using wal_stale_frame_returns [of w ?d "[]" ?bad ?g "''a-wal''" 1 "[5, 5]" 1]
    by (auto simp: frames_ok_def)
  then show ?thesis by blast
qed

end
