(* ===== verification/Pager.thy ===== *)
theory Pager
  imports Wal Db_Header
begin

text \<open>
  \<^verbatim>\<open>sqllite-core/src/storage/pager.rs\<close>: the page cache and its transactions. A pager is a record of
  the fields of the struct (the mutexes, which one thread always finds free, and the rollback
  journal, which stays \<^verbatim>\<open>None\<close>, are left out) together with the disk its files live on. The cache
  is an association list with distinct keys. Every operation is in the state and error monad: what
  it wrote before failing stays written.
\<close>

datatype journal_mode = JDelete | JPersist | JOff | JTruncate | JMemory | JWal

record pager_flags =
  pf_omit_journal :: bool
  pf_memory :: bool
  pf_read_only :: bool

record page =
  pg_no :: u32
  pg_data :: bytes
  pg_dirty :: bool

record pager =
  pgr_file :: handle
  pgr_wal :: "wal option"
  pgr_page_size :: u32
  pgr_header :: database_header
  pgr_cache :: "(u32 \<times> page) list"
  pgr_journal_mode :: journal_mode
  pgr_in_transaction :: bool
  pgr_read_only :: bool
  pgr_db_path :: "string option"
  pgr_page_count :: u32
  pgr_memory :: bool
  pgr_disk :: disk

type_synonym 'a pgm = "(pager, 'a) sres"

section \<open>Running operations of the files\<close>

definition on_db_file :: "(file_state, 'a) sres \<Rightarrow> 'a pgm" where
  "on_db_file m p =
     (case m (pgr_file p, pgr_disk p) of (r, (f, d)) \<Rightarrow> (r, p\<lparr>pgr_file := f, pgr_disk := d\<rparr>))"

definition on_pager_wal :: "(wal_state, 'a) sres \<Rightarrow> wal \<Rightarrow> 'a pgm" where
  "on_pager_wal m w p =
     (case m (w, pgr_disk p) of (r, (w', d)) \<Rightarrow> (r, p\<lparr>pgr_wal := Some w', pgr_disk := d\<rparr>))"

definition db_read_exact :: "nat \<Rightarrow> nat \<Rightarrow> bytes pgm" where
  "db_read_exact offset n = (\<lambda>p. (file_read_exact offset n (pgr_file p, pgr_disk p), p))"

definition cache_insert :: "page \<Rightarrow> pager \<Rightarrow> pager" where
  "cache_insert pg = pgr_cache_update (AList.update (pg_no pg) pg)"

section \<open>Opening\<close>

definition write_page_direct :: "u32 \<Rightarrow> bytes \<Rightarrow> unit pgm" where
  "write_page_direct pgno data =
     (if pgno = 0 then throwS Panic
      else bindS (getS (\<lambda>p. (unat pgno - 1) * unat (pgr_page_size p))) (\<lambda>offset.
        on_db_file (file_write_exact offset data)))"

definition initialize_new_database :: "unit pgm" where
  "initialize_new_database =
     bindS (getS pgr_page_size) (\<lambda>ps.
     bindS (modifyS (pgr_header_update (database_size_update (\<lambda>_. 1)))) (\<lambda>_.
     bindS (getS pgr_header) (\<lambda>h.
     bindS (liftS (header_write h (replicate (unat ps) 0))) (\<lambda>page.
     let content_start = (ucast ps :: u16) in
     bindS (liftS (write_u8s [(100, PAGE_TYPE_LEAF_TABLE), (101, 0), (102, 0), (103, 0), (104, 0),
         (105, ucast (drop_bit 8 content_start)), (106, ucast content_start), (107, 0)] page)) (\<lambda>page.
     bindS (write_page_direct ROOT_PAGE page) (\<lambda>_.
       modifyS (pgr_page_count_update (\<lambda>_. 1))))))))"

definition pager_open :: "string option \<Rightarrow> pager_flags \<Rightarrow> disk \<Rightarrow> pager res \<times> disk" where
  "pager_open path flags d =
     (let opened =
        (if pf_memory flags \<or> path = None then (Inr (MemoryFile memory_file_new, None, True), d)
         else bindS (getS (unix_exists (the path))) (\<lambda>ex.
              bindS (unix_open (the path) \<lparr>of_read_only = pf_read_only flags, of_create = \<not> ex,
                of_memory = False\<rparr>) (\<lambda>f.
                retS (f, Some (the path), \<not> ex))) d)
      in case opened of
        (Inl e, d) \<Rightarrow> (Inl e, d)
      | (Inr (file, db_path, is_new), d) \<Rightarrow>
          (let size = file_size (file, d);
               is_new = (size = 0 \<or> is_new);
               hdr = (if is_new then Inr (DEFAULT_PAGE_SIZE, header_new DEFAULT_PAGE_SIZE)
                      else bindR (file_read_exact 0 DATABASE_HEADER_SIZE (file, d)) (\<lambda>hdr_buf.
                           bindR (header_parse hdr_buf) (\<lambda>h. Inr (page_size h, h))))
           in case hdr of
             Inl e \<Rightarrow> (Inl e, d)
           | Inr (ps, header) \<Rightarrow>
               (let count = (if is_new then 0
                      else if database_size header > 0 then database_size header
                      else of_nat ((size + unat ps - 1) div unat ps));
                    pager = \<lparr>pgr_file = file, pgr_wal = None, pgr_page_size = ps,
                      pgr_header = header, pgr_cache = [], pgr_journal_mode = JDelete,
                      pgr_in_transaction = False, pgr_read_only = pf_read_only flags,
                      pgr_db_path = db_path, pgr_page_count = count,
                      pgr_memory = (pf_memory flags \<or> path = None), pgr_disk = d\<rparr>
                in if is_new
                   then (case initialize_new_database pager of
                      (Inl e, p) \<Rightarrow> (Inl e, pgr_disk p)
                    | (Inr _, p) \<Rightarrow> (Inr p, pgr_disk p))
                   else (Inr pager, d))))"

section \<open>The journal mode and the page size\<close>

definition open_pager_wal :: "string \<Rightarrow> unit pgm" where
  "open_pager_wal db_path p =
     (case wal_open (wal_path db_path) (pgr_page_size p) (pgr_disk p) of
        (Inl e, d) \<Rightarrow> (Inl e, p\<lparr>pgr_disk := d\<rparr>)
      | (Inr w, d) \<Rightarrow> (Inr (), p\<lparr>pgr_wal := Some w, pgr_disk := d\<rparr>))"

definition set_journal_mode :: "journal_mode \<Rightarrow> journal_mode pgm" where
  "set_journal_mode mode =
     bindS (getS (\<lambda>p. p)) (\<lambda>p.
       if pgr_read_only p \<and> mode = JWal
       then throwS (Fail (Sql RcReadOnly ''cannot change journal mode on readonly database''))
       else bindS
        (if mode = JWal \<and> \<not> pgr_memory p
         then (case pgr_db_path p of None \<Rightarrow> retS () | Some path \<Rightarrow> open_pager_wal path)
         else if pgr_journal_mode p = JWal \<and> mode \<noteq> JWal then modifyS (pgr_wal_update (\<lambda>_. None))
         else retS ()) (\<lambda>_.
        bindS (modifyS (pgr_journal_mode_update (\<lambda>_. mode))) (\<lambda>_. retS mode)))"

definition set_page_size :: "u32 \<Rightarrow> u32 pgm" where
  "set_page_size sz =
     bindS (getS pgr_page_count) (\<lambda>n.
       if n > 1
       then throwS (Fail (Sql RcError ''page_size cannot be changed after data has been written''))
       else bindS (modifyS (pgr_page_size_update (\<lambda>_. sz))) (\<lambda>_.
            bindS (modifyS (pgr_header_update (page_size_update (\<lambda>_. sz)))) (\<lambda>_. retS sz)))"

definition ensure_wal :: "unit pgm" where
  "ensure_wal =
     bindS (getS (\<lambda>p. p)) (\<lambda>p.
       if pgr_journal_mode p \<noteq> JWal \<or> pgr_memory p then retS ()
       else if pgr_wal p \<noteq> None then retS ()
       else (case pgr_db_path p of None \<Rightarrow> retS () | Some path \<Rightarrow> open_pager_wal path))"

section \<open>Reading and writing pages\<close>

definition read_page_from_file :: "u32 \<Rightarrow> page pgm" where
  "read_page_from_file pgno =
     bindS (getS (\<lambda>p. unat (pgr_page_size p))) (\<lambda>ps.
     bindS (db_read_exact ((unat pgno - 1) * ps) ps) (\<lambda>data.
     let page = \<lparr>pg_no = pgno, pg_data = data, pg_dirty = False\<rparr> in
     bindS (modifyS (cache_insert page)) (\<lambda>_. retS page)))"

definition get_page :: "u32 \<Rightarrow> page pgm" where
  "get_page pgno =
     bindS (getS (\<lambda>p. p)) (\<lambda>p.
       case map_of (pgr_cache p) pgno of
         Some page \<Rightarrow> retS page
       | None \<Rightarrow>
           if pgno = 0 \<or> pgno > pgr_page_count p
           then throwS (Fail (Sql RcCorrupt ''invalid page number''))
           else if pgr_journal_mode p = JWal
           then bindS ensure_wal (\<lambda>_.
                bindS (getS pgr_wal) (\<lambda>w.
                  case w of
                    None \<Rightarrow> read_page_from_file pgno
                  | Some w \<Rightarrow>
                      bindS (\<lambda>p. (wal_read_page pgno (w, pgr_disk p), p)) (\<lambda>wal_data.
                        case wal_data of
                          None \<Rightarrow> read_page_from_file pgno
                        | Some data \<Rightarrow>
                            (let page = \<lparr>pg_no = pgno, pg_data = data, pg_dirty = False\<rparr>
                             in bindS (modifyS (cache_insert page)) (\<lambda>_. retS page)))))
           else read_page_from_file pgno)"

definition write_page :: "page \<Rightarrow> unit pgm" where
  "write_page page =
     bindS (getS pgr_read_only) (\<lambda>ro.
       if ro then throwS (Fail (Sql RcReadOnly ''attempt to write a readonly database''))
       else modifyS (cache_insert (page\<lparr>pg_dirty := True\<rparr>)))"

definition allocate_page :: "u32 pgm" where
  "allocate_page =
     bindS (getS pgr_page_count) (\<lambda>n.
       if n = - 1 then throwS Panic
       else bindS (modifyS (pgr_page_count_update (\<lambda>_. n + 1))) (\<lambda>_.
            bindS (getS pgr_page_size) (\<lambda>ps.
            bindS (modifyS (cache_insert \<lparr>pg_no = n + 1, pg_data = replicate (unat ps) 0,
                pg_dirty = True\<rparr>)) (\<lambda>_.
              retS (n + 1)))))"

section \<open>Transactions\<close>

definition pager_begin :: "unit pgm" where
  "pager_begin = modifyS (pgr_in_transaction_update (\<lambda>_. True))"

definition dirty_pages :: "pager \<Rightarrow> page list" where
  "dirty_pages p = filter pg_dirty (map snd (pgr_cache p))"

fun write_pages_direct :: "page list \<Rightarrow> unit pgm" where
  "write_pages_direct [] = retS ()"
| "write_pages_direct (pg # pgs) =
     bindS (write_page_direct (pg_no pg) (pg_data pg)) (\<lambda>_. write_pages_direct pgs)"

text \<open>Appending to the log, where there is one.\<close>

definition pager_append_frame :: "u32 \<Rightarrow> bytes \<Rightarrow> u32 \<Rightarrow> unit pgm" where
  "pager_append_frame pgno data db_size =
     bindS (getS pgr_wal) (\<lambda>w.
       case w of None \<Rightarrow> retS ()
       | Some w \<Rightarrow> on_pager_wal (wal_append_frame pgno data db_size) w)"

fun append_frames :: "page list \<Rightarrow> u32 \<Rightarrow> unit pgm" where
  "append_frames [] db_size = retS ()"
| "append_frames (pg # pgs) db_size =
     bindS (pager_append_frame (pg_no pg) (pg_data pg) db_size) (\<lambda>_. append_frames pgs db_size)"

definition pager_wal_sync :: "unit pgm" where
  "pager_wal_sync =
     bindS (getS pgr_wal) (\<lambda>w. case w of None \<Rightarrow> retS () | Some w \<Rightarrow> on_pager_wal wal_sync w)"

definition pager_commit :: "unit pgm" where
  "pager_commit =
     bindS (getS (\<lambda>p. p)) (\<lambda>p.
       if \<not> pgr_in_transaction p then retS ()
       else
         (let dirty = dirty_pages p; db_size = pgr_page_count p;
              use_wal = (pgr_journal_mode p = JWal \<and> \<not> pgr_memory p) in
          bindS (if use_wal then bindS ensure_wal (\<lambda>_. append_frames dirty db_size)
                 else write_pages_direct dirty) (\<lambda>_.
          bindS (modifyS (pgr_header_update (database_size_update (\<lambda>_. db_size)))) (\<lambda>_.
          bindS (getS (change_counter \<circ> pgr_header)) (\<lambda>cc.
            if cc = - 1 then throwS Panic
            else
          bindS (modifyS (pgr_header_update (change_counter_update (\<lambda>_. cc + 1)))) (\<lambda>_.
          bindS (getS (\<lambda>p. map_of (pgr_cache p) ROOT_PAGE)) (\<lambda>cached.
          bindS (case cached of Some page1 \<Rightarrow> retS (pg_data page1)
                 | None \<Rightarrow> bindS (getS pgr_page_size) (\<lambda>ps. db_read_exact 0 (unat ps))) (\<lambda>data.
          bindS (getS pgr_header) (\<lambda>h.
          bindS (liftS (header_write h data)) (\<lambda>header_page.
          bindS (if use_wal
                 then bindS (pager_append_frame ROOT_PAGE header_page db_size) (\<lambda>_. pager_wal_sync)
                 else write_page_direct ROOT_PAGE header_page) (\<lambda>_.
          bindS (modifyS (cache_insert \<lparr>pg_no = ROOT_PAGE, pg_data = header_page, pg_dirty = False\<rparr>))
            (\<lambda>_.
          bindS (modifyS (pgr_cache_update (map (apsnd (pg_dirty_update (\<lambda>_. False)))))) (\<lambda>_.
          bindS (on_db_file file_sync) (\<lambda>_.
            modifyS (pgr_in_transaction_update (\<lambda>_. False))))))))))))))))"

definition pager_rollback :: "unit pgm" where
  "pager_rollback = modifyS (\<lambda>p. p\<lparr>pgr_cache := [], pgr_in_transaction := False\<rparr>)"

definition pager_sync :: "unit pgm" where
  "pager_sync = bindS (getS dirty_pages) (\<lambda>dirty.
     bindS (write_pages_direct dirty) (\<lambda>_. on_db_file file_sync))"

definition pager_wal_checkpoint :: "unit pgm" where
  "pager_wal_checkpoint p =
     (if pgr_journal_mode p \<noteq> JWal then (Inr (), p)
      else (case pgr_wal p of
         None \<Rightarrow> (Inr (), p)
       | Some w \<Rightarrow>
           (case wal_checkpoint (w, pgr_file p, pgr_disk p) of
              (r, (w', f, d)) \<Rightarrow> (r, p\<lparr>pgr_wal := Some w', pgr_file := f, pgr_disk := d\<rparr>))))"

end
