(* ===== verification/Page_Store.thy ===== *)
theory Page_Store
  imports Prelude
begin

text \<open>
  The interface between the page cache and its clients: a store of pages that can be read and
  written by number. The laws say what a read delivers, that it changes nothing a reader can see,
  and that a write changes exactly one page. The lemmas are about runs of writes; the pager is the
  provider.
\<close>

fun put_all :: "(u32 \<Rightarrow> bytes \<Rightarrow> ('s, unit) sres) \<Rightarrow> (u32 \<times> bytes) list \<Rightarrow> ('s, unit) sres" where
  "put_all put [] = retS ()"
| "put_all put ((n, b) # ws) = bindS (put n b) (\<lambda>_. put_all put ws)"

locale page_store =
  fixes view :: "'s \<Rightarrow> u32 \<Rightarrow> bytes option"
    and get :: "u32 \<Rightarrow> ('s, bytes) sres"
    and put :: "u32 \<Rightarrow> bytes \<Rightarrow> ('s, unit) sres"
    and can_put :: "'s \<Rightarrow> u32 \<Rightarrow> bytes \<Rightarrow> bool"
  assumes get_view: "get n s = (Inr b, s') \<Longrightarrow> view s n = Some b \<and> view s' = view s"
    and view_get: "view s n = Some b \<Longrightarrow> \<exists>s'. get n s = (Inr b, s')"
    and put_view: "can_put s n b \<Longrightarrow> \<exists>s'. put n b s = (Inr (), s') \<and> view s' = (view s)(n \<mapsto> b)"
    and put_can_put: "can_put s n b \<Longrightarrow> put n b s = (Inr (), s') \<Longrightarrow> can_put s m c \<Longrightarrow> can_put s' m c"
begin

lemma get_after_put:
  assumes "can_put s n b"
  shows "\<exists>s' s''. put n b s = (Inr (), s') \<and> get n s' = (Inr b, s'') \<and> view s'' = (view s)(n \<mapsto> b)"
proof -
  obtain s' where s': "put n b s = (Inr (), s')" "view s' = (view s)(n \<mapsto> b)"
    using put_view [OF assms] by blast
  then obtain s'' where "get n s' = (Inr b, s'')" using view_get [of s' n b] by auto
  with s' get_view [OF this] show ?thesis by auto
qed

lemma put_all_view:
  assumes "\<forall>(n, b) \<in> set ws. can_put s n b"
  shows "\<exists>s'. put_all put ws s = (Inr (), s') \<and> view s' = view s ++ map_of (rev ws)"
  using assms
proof (induction ws arbitrary: s)
  case (Cons w ws)
  obtain n b where w: "w = (n, b)" by (cases w)
  obtain s1 where s1: "put n b s = (Inr (), s1)" "view s1 = (view s)(n \<mapsto> b)"
    using put_view [of s n b] Cons.prems w by auto
  have "\<forall>(m, c) \<in> set ws. can_put s1 m c"
    using Cons.prems put_can_put [OF _ s1(1)] w by auto
  from Cons.IH [OF this] obtain s' where
    "put_all put ws s1 = (Inr (), s')" "view s' = view s1 ++ map_of (rev ws)" by blast
  with s1 show ?case by (simp add: w)
qed simp

text \<open>Reading a whole run of pages delivers the view and keeps it.\<close>

lemma get_get:
  assumes "get n s = (Inr b, s')" and "get m s' = (Inr c, s'')"
  shows "\<exists>t. get m s = (Inr c, t)" and "view s'' = view s"
  using get_view [OF assms(1)] get_view [OF assms(2)] view_get [of s m c] by auto

end

end
