(* ===== verification/Pager_Correct.thy ===== *)
theory Pager_Correct
  imports Pager Page_Store Wal_Correct
begin

text \<open>
  What the pager promises: a page store (reads deliver what was last written, whatever the journal
  mode), commits that reach the file and survive a reopening, rollbacks that restore the committed
  pages.
\<close>

section \<open>The view of a pager\<close>

text \<open>What a reader gets for each page number.\<close>

definition pager_view :: "pager \<Rightarrow> u32 \<Rightarrow> bytes option" where
  "pager_view p n = (case fst (get_page n p) of Inr pg \<Rightarrow> Some (pg_data pg) | Inl e \<Rightarrow> None)"

definition get_bytes :: "u32 \<Rightarrow> bytes pgm" where
  "get_bytes n = bindS (get_page n) (\<lambda>pg. retS (pg_data pg))"

definition put_bytes_at :: "u32 \<Rightarrow> bytes \<Rightarrow> unit pgm" where
  "put_bytes_at n b = write_page \<lparr>pg_no = n, pg_data = b, pg_dirty = False\<rparr>"

text \<open>The part of \<^verbatim>\<open>get_page\<close> after the cache lookup.\<close>

definition fetch_page :: "u32 \<Rightarrow> page pgm" where
  "fetch_page pgno = (\<lambda>p.
     if pgr_journal_mode p = JWal
     then bindS ensure_wal (\<lambda>_.
          bindS (getS pgr_wal) (\<lambda>w.
            case w of
              None \<Rightarrow> read_page_from_file pgno
            | Some w \<Rightarrow>
                bindS (\<lambda>p. (wal_read_page pgno (w, pgr_disk p), p)) (\<lambda>wal_data.
                  case wal_data of
                    None \<Rightarrow> read_page_from_file pgno
                  | Some data \<Rightarrow>
                      (let page = \<lparr>pg_no = pgno, pg_data = data, pg_dirty = False\<rparr>
                       in bindS (modifyS (cache_insert page)) (\<lambda>_. retS page))))) p
     else read_page_from_file pgno p)"

lemma get_page_eq:
  "get_page n p = (case map_of (pgr_cache p) n of
     Some pg \<Rightarrow> (Inr pg, p)
   | None \<Rightarrow> if n = 0 \<or> n > pgr_page_count p
       then (sql_err RcCorrupt ''invalid page number'', p) else fetch_page n p)"
  by (auto simp: get_page_def bindS_app fetch_page_def split: option.splits)

text \<open>Fetching depends on the cache in no way but the page it inserts.\<close>

definition set_cache :: "(u32 \<times> page) list \<Rightarrow> pager \<Rightarrow> pager" where
  "set_cache c = pgr_cache_update (\<lambda>_. c)"

lemma ensure_wal_cache:
  "ensure_wal (set_cache c p) = apsnd (set_cache c) (ensure_wal p)"
  by (auto simp: ensure_wal_def bindS_app set_cache_def open_pager_wal_def split: option.splits
      sum.splits prod.splits)

lemma ensure_wal_keeps:
  assumes "ensure_wal p = (Inr (), p')"
  shows "pgr_cache p' = pgr_cache p" "pgr_page_count p' = pgr_page_count p"
    "pgr_journal_mode p' = pgr_journal_mode p" "pgr_memory p' = pgr_memory p"
    "pgr_db_path p' = pgr_db_path p" "pgr_page_size p' = pgr_page_size p"
    "pgr_read_only p' = pgr_read_only p"
    "ensure_wal p' = (Inr (), p')"
  using assms
  by (auto simp: ensure_wal_def bindS_app open_pager_wal_def split: if_splits option.splits
      sum.splits prod.splits)

lemma read_page_from_file_app:
  "read_page_from_file n p =
     (case file_read_exact ((unat n - 1) * unat (pgr_page_size p)) (unat (pgr_page_size p))
        (pgr_file p, pgr_disk p) of
        Inl e \<Rightarrow> (Inl e, p)
      | Inr data \<Rightarrow> (let page = \<lparr>pg_no = n, pg_data = data, pg_dirty = False\<rparr>
          in (Inr page, cache_insert page p)))"
  by (simp add: read_page_from_file_def bindS_app db_read_exact_def Let_def split: sum.splits)

text \<open>The page a fetch finds once the log is open.\<close>

definition fetch_found :: "u32 \<Rightarrow> pager \<Rightarrow> page res" where
  "fetch_found n p =
     bindR (if pgr_journal_mode p = JWal
            then (case pgr_wal p of None \<Rightarrow> Inr None | Some w \<Rightarrow> wal_read_page n (w, pgr_disk p))
            else Inr None) (\<lambda>in_wal.
     bindR (case in_wal of Some data \<Rightarrow> Inr data
            | None \<Rightarrow> file_read_exact ((unat n - 1) * unat (pgr_page_size p)) (unat (pgr_page_size p))
                (pgr_file p, pgr_disk p)) (\<lambda>data.
       Inr \<lparr>pg_no = n, pg_data = data, pg_dirty = False\<rparr>))"

definition open_for_fetch :: "unit pgm" where
  "open_for_fetch p = (if pgr_journal_mode p = JWal then ensure_wal p else (Inr (), p))"

lemma fetch_page_eq:
  "fetch_page n p = (case open_for_fetch p of
     (Inl e, p1) \<Rightarrow> (Inl e, p1)
   | (Inr _, p1) \<Rightarrow> (case fetch_found n p1 of Inl e \<Rightarrow> (Inl e, p1)
       | Inr pg \<Rightarrow> (Inr pg, cache_insert pg p1)))"
proof (cases "pgr_journal_mode p = JWal")
  case True
  then show ?thesis
  proof (cases "ensure_wal p")
    case (Pair r p1)
    show ?thesis
    proof (cases r)
      case (Inr u)
      with Pair have "pgr_journal_mode p1 = JWal" using ensure_wal_keeps(3) [of p p1] True by simp
      with True Pair Inr show ?thesis
        by (cases "pgr_wal p1")
          (auto simp: fetch_page_def open_for_fetch_def bindS_app fetch_found_def
            read_page_from_file_app Let_def split: sum.splits option.splits)
    qed (use True Pair in \<open>simp add: fetch_page_def open_for_fetch_def bindS_app\<close>)
  qed
next
  case False
  then show ?thesis
    by (simp add: fetch_page_def open_for_fetch_def fetch_found_def read_page_from_file_app Let_def
        split: sum.splits)
qed

lemma fetch_found_no: "fetch_found n p = Inr pg \<Longrightarrow> pg_no pg = n \<and> \<not> pg_dirty pg"
  by (auto simp: fetch_found_def bindR_eq_Inr)

lemma fetch_found_cache: "fetch_found n (set_cache c p) = fetch_found n p"
  by (simp add: fetch_found_def set_cache_def cong: option.case_cong)

lemma open_for_fetch_cache: "open_for_fetch (set_cache c p) = apsnd (set_cache c) (open_for_fetch p)"
  by (simp add: open_for_fetch_def ensure_wal_cache) (simp add: set_cache_def)

lemma open_for_fetch_keeps:
  assumes "open_for_fetch p = (Inr (), p')"
  shows "pgr_cache p' = pgr_cache p" "pgr_page_count p' = pgr_page_count p"
    "pgr_page_size p' = pgr_page_size p" "pgr_read_only p' = pgr_read_only p"
    "open_for_fetch p' = (Inr (), p')"
  using assms ensure_wal_keeps [of p p'] by (auto simp: open_for_fetch_def split: if_splits)

lemma fetch_result_cache: "fst (fetch_page n (set_cache c p)) = fst (fetch_page n p)"
  by (cases "open_for_fetch p")
    (auto simp: fetch_page_eq open_for_fetch_cache fetch_found_cache split: sum.splits)

lemma cache_insert_set: "cache_insert pg p = set_cache (AList.update (pg_no pg) pg (pgr_cache p)) p"
  by (simp add: cache_insert_def set_cache_def)

lemma cache_insert_fields [simp]:
  "pgr_page_count (cache_insert pg p) = pgr_page_count p"
  "pgr_read_only (cache_insert pg p) = pgr_read_only p"
  "pgr_page_size (cache_insert pg p) = pgr_page_size p"
  "pgr_file (cache_insert pg p) = pgr_file p"
  "pgr_disk (cache_insert pg p) = pgr_disk p"
  "pgr_header (cache_insert pg p) = pgr_header p"
  "pgr_journal_mode (cache_insert pg p) = pgr_journal_mode p"
  "pgr_in_transaction (cache_insert pg p) = pgr_in_transaction p"
  "map_of (pgr_cache (cache_insert pg p)) = (map_of (pgr_cache p))(pg_no pg \<mapsto> pg)"
  by (simp_all add: cache_insert_def update_conv')

lemma pager_view_eq:
  "pager_view p n = (case map_of (pgr_cache p) n of
     Some pg \<Rightarrow> Some (pg_data pg)
   | None \<Rightarrow> if n = 0 \<or> n > pgr_page_count p then None
       else (case fst (fetch_page n p) of Inr pg \<Rightarrow> Some (pg_data pg) | Inl e \<Rightarrow> None))"
  by (simp add: pager_view_def get_page_eq split: option.splits)

lemma pager_view_insert:
  "pager_view (cache_insert pg p) = (pager_view p)(pg_no pg \<mapsto> pg_data pg)"
proof
  fix m
  have "fst (fetch_page m (cache_insert pg p)) = fst (fetch_page m p)"
    unfolding cache_insert_set by (rule fetch_result_cache)
  then show "pager_view (cache_insert pg p) m = ((pager_view p)(pg_no pg \<mapsto> pg_data pg)) m"
    by (simp add: pager_view_eq split: option.split)
qed

lemma pager_view_opened:
  assumes "open_for_fetch p = (Inr (), p1)"
  shows "pager_view p1 = pager_view p"
proof
  fix m
  have "fst (fetch_page m p1) = fst (fetch_page m p)"
    using assms open_for_fetch_keeps(5) [OF assms] by (simp add: fetch_page_eq split: sum.splits)
  then show "pager_view p1 m = pager_view p m"
    using open_for_fetch_keeps [OF assms] by (simp add: pager_view_eq split: option.split)
qed

lemma get_page_view:
  assumes "get_page n p = (Inr pg, p')"
  shows "pager_view p n = Some (pg_data pg)" and "pager_view p' = pager_view p"
proof -
  show v: "pager_view p n = Some (pg_data pg)" by (simp add: pager_view_def assms)
  show "pager_view p' = pager_view p"
  proof (cases "map_of (pgr_cache p) n")
    case None
    then have f: "fetch_page n p = (Inr pg, p')"
      using assms by (auto simp: get_page_eq split: if_splits)
    then obtain p1 where o: "open_for_fetch p = (Inr (), p1)" and ff: "fetch_found n p1 = Inr pg"
      and p': "p' = cache_insert pg p1"
      by (cases "open_for_fetch p") (auto simp: fetch_page_eq split: sum.splits)
    have "pager_view p' = (pager_view p)(pg_no pg \<mapsto> pg_data pg)"
      using pager_view_insert [of pg p1] pager_view_opened [OF o] p' by simp
    with v fetch_found_no [OF ff] show ?thesis by (auto simp: fun_eq_iff)
  qed (use assms in \<open>auto simp: get_page_eq\<close>)
qed

definition can_put :: "pager \<Rightarrow> u32 \<Rightarrow> bytes \<Rightarrow> bool" where
  "can_put p n b = (\<not> pgr_read_only p)"

interpretation ps: page_store pager_view get_bytes put_bytes_at can_put
proof unfold_locales
  fix n s b s' assume "get_bytes n s = (Inr b, s')"
  then show "pager_view s n = Some b \<and> pager_view s' = pager_view s"
    by (auto simp: get_bytes_def bindS_eq_Inr get_page_view)
next
  fix s n b assume "pager_view s n = Some b"
  then show "\<exists>s'. get_bytes n s = (Inr b, s')"
    by (cases "get_page n s") (auto simp: pager_view_def get_bytes_def bindS_app split: sum.splits)
next
  fix s n b assume "can_put s n b"
  then show "\<exists>s'. put_bytes_at n b s = (Inr (), s') \<and> pager_view s' = (pager_view s)(n \<mapsto> b)"
    by (simp add: put_bytes_at_def write_page_def bindS_app can_put_def pager_view_insert)
next
  fix s n b s' m c assume "can_put s n b" "put_bytes_at n b s = (Inr (), s')" "can_put s m c"
  then show "can_put s' m c"
    by (auto simp: put_bytes_at_def write_page_def bindS_app can_put_def)
qed

text \<open>
  C15. The pager is a page store in every journal mode, and whatever is cached: a page that can be
  read stays readable and unchanged through any reads of other pages (reads that open the log
  included), and after any run of page writes on a writable pager every page reads as the last
  version written, or as before if none was.
\<close>

theorem pager_read_your_writes:
  assumes "\<not> pgr_read_only p"
  shows "\<exists>p'. put_all put_bytes_at ws p = (Inr (), p')
    \<and> pager_view p' = pager_view p ++ map_of (rev ws)
    \<and> (\<forall>n pg p1. get_page n p' = (Inr pg, p1) \<longrightarrow> pager_view p1 = pager_view p'
         \<and> pager_view p' n = Some (pg_data pg))"
  using ps.put_all_view [of ws p] assms get_page_view by (fastforce simp: can_put_def)

definition example_pager :: pager where
  "example_pager = \<lparr>pgr_file = MemoryFile memory_file_new, pgr_wal = None, pgr_page_size = 512,
     pgr_header = header_new 512, pgr_cache = [], pgr_journal_mode = JDelete,
     pgr_in_transaction = True, pgr_read_only = False, pgr_db_path = None, pgr_page_count = 0,
     pgr_memory = True, pgr_disk = Map.empty\<rparr>"

theorem pager_read_your_writes_witness:
  "\<exists>p'. put_all put_bytes_at [(1, [5]), (2, [6]), (1, [7])] example_pager = (Inr (), p')
    \<and> pager_view p' 1 = Some [7] \<and> pager_view p' 2 = Some [6]"
  using pager_read_your_writes [of example_pager "[(1, [5]), (2, [6]), (1, [7])]"]
  by (auto simp: example_pager_def map_add_def)

section \<open>Commits\<close>

definition pager_content :: "pager \<Rightarrow> bytes" where
  "pager_content p = file_content (pgr_file p, pgr_disk p)"

definition pager_psize :: "pager \<Rightarrow> nat" where
  "pager_psize p = unat (pgr_page_size p)"

text \<open>
  A pager outside the log mode whose cache agrees with its file: cached pages are numbered as their
  keys say, lie in the database and have the page size; clean ones hold what the file holds; every
  page that is not cached is in the file.
\<close>

definition cache_ok :: "pager \<Rightarrow> bool" where
  "cache_ok p = (distinct (map fst (pgr_cache p)) \<and>
     (\<forall>(k, pg) \<in> set (pgr_cache p). pg_no pg = k \<and> k \<noteq> 0 \<and> k \<le> pgr_page_count p
        \<and> length (pg_data pg) = pager_psize p))"

definition clean_ok :: "pager \<Rightarrow> bool" where
  "clean_ok p = (\<forall>k. k \<noteq> 0 \<and> k \<le> pgr_page_count p \<longrightarrow>
     (case map_of (pgr_cache p) k of
        None \<Rightarrow> has_page (pager_psize p) (pager_content p) k
      | Some pg \<Rightarrow> pg_dirty pg \<or> has_page (pager_psize p) (pager_content p) k
          \<and> page_at (pager_psize p) (pager_content p) k = pg_data pg))"

definition pager_ok :: "pager \<Rightarrow> bool" where
  "pager_ok p = (pgr_journal_mode p \<noteq> JWal \<and> valid_page_size (pgr_page_size p)
     \<and> page_size (pgr_header p) = pgr_page_size p \<and> pgr_page_count p \<noteq> 0
     \<and> file_writable (pgr_file p, pgr_disk p) \<and> cache_ok p \<and> clean_ok p)"

lemma psize_bounds:
  assumes "valid_page_size (pgr_page_size p)"
  shows "512 \<le> pager_psize p"
  using assms by (simp add: valid_page_size_def pager_psize_def not_less word_le_nat_alt)

text \<open>Outside the log mode the view is the cache over the file.\<close>

lemma pager_view_file:
  assumes "pgr_journal_mode p \<noteq> JWal"
  shows "pager_view p n = (case map_of (pgr_cache p) n of
     Some pg \<Rightarrow> Some (pg_data pg)
   | None \<Rightarrow> if n = 0 \<or> n > pgr_page_count p then None
       else if pager_psize p = 0 \<or> has_page (pager_psize p) (pager_content p) n
       then Some (page_at (pager_psize p) (pager_content p) n) else None)"
  using assms
  by (auto simp: pager_view_eq fetch_page_def read_page_from_file_app file_read_exact_eq Let_def
      pager_psize_def pager_content_def has_page_def page_at_def page_offset_def split: option.split)

lemma pager_view_ok:
  assumes "pager_ok p"
  shows "pager_view p n \<noteq> None \<longleftrightarrow> n \<noteq> 0 \<and> n \<le> pgr_page_count p"
    and "pager_view p n = Some b \<Longrightarrow> length b = pager_psize p"
proof -
  have nw: "pgr_journal_mode p \<noteq> JWal" and c: "cache_ok p" and cl: "clean_ok p"
    using assms by (simp_all add: pager_ok_def)
  show "pager_view p n \<noteq> None \<longleftrightarrow> n \<noteq> 0 \<and> n \<le> pgr_page_count p"
    using c cl by (auto simp: pager_view_file [OF nw] cache_ok_def clean_ok_def not_less
        split: option.splits dest!: map_of_SomeD)
  show "pager_view p n = Some b \<Longrightarrow> length b = pager_psize p"
    using c cl by (auto simp: pager_view_file [OF nw] cache_ok_def clean_ok_def has_page_def page_at_def
        split: option.splits if_splits dest!: map_of_SomeD)
qed

lemma write_pages_direct_ok:
  assumes "\<forall>pg \<in> set pgs. pg_no pg \<noteq> 0" and "file_writable (pgr_file p, pgr_disk p)"
  shows "\<exists>f d. write_pages_direct pgs p = (Inr (), p\<lparr>pgr_file := f, pgr_disk := d\<rparr>)
    \<and> file_writable (f, d) \<and> frame_of (pgr_file p, pgr_disk p) (f, d)
    \<and> file_content (f, d)
        = put_pages (pager_psize p) (map (\<lambda>pg. (pg_no pg, pg_data pg)) pgs) (pager_content p)"
  using assms
proof (induction pgs arbitrary: p)
  case (Cons pg pgs)
  obtain f1 d1 where w: "file_write_exact (page_offset (pager_psize p) (pg_no pg)) (pg_data pg)
      (pgr_file p, pgr_disk p) = (Inr (), (f1, d1))" "file_writable (f1, d1)"
    "file_content (f1, d1)
      = put_bytes (pager_content p) (page_offset (pager_psize p) (pg_no pg)) (pg_data pg)"
    "frame_of (pgr_file p, pgr_disk p) (f1, d1)"
    using file_write_exact_ok [OF Cons.prems(2)] by (metis pager_content_def surj_pair)
  let ?p = "p\<lparr>pgr_file := f1, pgr_disk := d1\<rparr>"
  have one: "write_page_direct (pg_no pg) (pg_data pg) p = (Inr (), ?p)"
    using w(1) Cons.prems(1)
    by (simp add: write_page_direct_def bindS_app on_db_file_def page_offset_def pager_psize_def)
  from Cons.IH [of ?p] Cons.prems w(2) obtain f d where
    "write_pages_direct pgs ?p = (Inr (), ?p\<lparr>pgr_file := f, pgr_disk := d\<rparr>)"
    "file_writable (f, d)" "frame_of (f1, d1) (f, d)"
    "file_content (f, d)
      = put_pages (pager_psize p) (map (\<lambda>pg. (pg_no pg, pg_data pg)) pgs) (file_content (f1, d1))"
    by (auto simp: pager_psize_def pager_content_def)
  with one w(3,4) show ?case by (auto simp: bindS_app intro: frame_of_trans)
next
  case Nil
  then show ?case
    by (intro exI [of _ "pgr_file p"] exI [of _ "pgr_disk p"]) (simp add: pager_content_def)
qed

lemma map_of_dirty:
  assumes "distinct (map fst c)" and "\<forall>(k, pg) \<in> set c. pg_no pg = k"
  shows "map_of (map (\<lambda>pg. (pg_no pg, pg_data pg)) (filter pg_dirty (map snd c))) k =
    (case map_of c k of Some pg \<Rightarrow> if pg_dirty pg then Some (pg_data pg) else None | None \<Rightarrow> None)"
  using assms
proof (induction c)
  case (Cons x c)
  obtain j pg where x: "x = (j, pg)" by (cases x)
  show ?case
  proof (cases "j = k")
    case True
    with Cons.prems x have "map_of c k = None" by (auto simp: map_of_eq_None_iff)
    with Cons x True show ?thesis by auto
  qed (use Cons x in auto)
qed simp

lemma distinct_dirty:
  assumes "distinct (map fst c)" and "\<forall>(k, pg) \<in> set c. pg_no pg = k"
  shows "distinct (map fst (map (\<lambda>pg. (pg_no pg, pg_data pg)) (filter pg_dirty (map snd c))))"
  using assms by (induction c) (force simp: comp_def)+

definition dirty_writes :: "pager \<Rightarrow> (u32 \<times> bytes) list" where
  "dirty_writes p = map (\<lambda>pg. (pg_no pg, pg_data pg)) (dirty_pages p)"

lemma dirty_writes_ok:
  assumes "pager_ok p"
  shows "pages_ok (pager_psize p) (dirty_writes p)" and "distinct (map fst (dirty_writes p))"
    and "\<forall>pg \<in> set (dirty_pages p). pg_no pg \<noteq> 0"
    and "map_of (dirty_writes p) k = (case map_of (pgr_cache p) k of
      Some pg \<Rightarrow> if pg_dirty pg then Some (pg_data pg) else None | None \<Rightarrow> None)"
proof -
  have c: "cache_ok p" using assms by (simp add: pager_ok_def)
  show "pages_ok (pager_psize p) (dirty_writes p)"
    using c by (auto simp: pages_ok_def dirty_writes_def dirty_pages_def cache_ok_def)
  show "\<forall>pg \<in> set (dirty_pages p). pg_no pg \<noteq> 0"
    using c by (auto simp: dirty_pages_def cache_ok_def)
  have "distinct (map fst (pgr_cache p))" and "\<forall>(k, pg) \<in> set (pgr_cache p). pg_no pg = k"
    using c by (auto simp: cache_ok_def)
  then show "distinct (map fst (dirty_writes p))"
    and "map_of (dirty_writes p) k = (case map_of (pgr_cache p) k of
      Some pg \<Rightarrow> if pg_dirty pg then Some (pg_data pg) else None | None \<Rightarrow> None)"
    unfolding dirty_writes_def dirty_pages_def by (rule distinct_dirty, rule map_of_dirty)
qed

text \<open>After the dirty pages are written the file holds what readers saw.\<close>

lemma dirty_written:
  assumes ok: "pager_ok p" and k: "k \<noteq> 0" "k \<le> pgr_page_count p"
  shows "has_page (pager_psize p) (put_pages (pager_psize p) (dirty_writes p) (pager_content p)) k"
    and "pager_view p k
      = Some (page_at (pager_psize p) (put_pages (pager_psize p) (dirty_writes p) (pager_content p)) k)"
proof -
  have ps: "0 < pager_psize p" using ok psize_bounds [of p] by (simp add: pager_ok_def)
  have nw: "pgr_journal_mode p \<noteq> JWal" and cl: "clean_ok p" using ok by (simp_all add: pager_ok_def)
  note m = dirty_writes_ok(4) [OF ok, of k]
  have clk: "case map_of (pgr_cache p) k of
      None \<Rightarrow> has_page (pager_psize p) (pager_content p) k
    | Some pg \<Rightarrow> pg_dirty pg \<or> has_page (pager_psize p) (pager_content p) k
        \<and> page_at (pager_psize p) (pager_content p) k = pg_data pg"
    using cl k by (simp add: clean_ok_def)
  have none: "has_page (pager_psize p) (pager_content p) k" if "map_of (dirty_writes p) k = None"
    using that cl k by (auto simp: m clean_ok_def split: option.splits if_splits)
  let ?c = "put_pages (pager_psize p) (dirty_writes p) (pager_content p)"
  show "has_page (pager_psize p) ?c k"
    by (rule page_at_put_pages(1) [OF dirty_writes_ok(1,2) [OF ok] ps]) (rule none)
  have put: "page_at (pager_psize p) ?c k = (case map_of (dirty_writes p) k of
      Some b \<Rightarrow> b | None \<Rightarrow> page_at (pager_psize p) (pager_content p) k)"
    by (rule page_at_put_pages(2) [OF dirty_writes_ok(1,2) [OF ok] ps]) (rule none)
  show "pager_view p k
      = Some (page_at (pager_psize p) (put_pages (pager_psize p) (dirty_writes p) (pager_content p)) k)"
  proof (cases "map_of (pgr_cache p) k")
    case None
    with clk k ps show ?thesis by (simp add: put m pager_view_file [OF nw] not_less)
  next
    case (Some pg)
    with clk show ?thesis unfolding put m by (auto simp: pager_view_file [OF nw])
  qed
qed

definition committed_header :: "pager \<Rightarrow> database_header" where
  "committed_header p = (pgr_header p)\<lparr>database_size := pgr_page_count p,
     change_counter := change_counter (pgr_header p) + 1\<rparr>"

definition clean_cache :: "(u32 \<times> page) list \<Rightarrow> (u32 \<times> page) list" where
  "clean_cache c = map (apsnd (pg_dirty_update (\<lambda>_. False))) c"

lemma map_of_clean_cache: "map_of (clean_cache c) k = map_option (pg_dirty_update (\<lambda>_. False)) (map_of c k)"
  by (simp add: clean_cache_def apsnd_def map_prod_def map_of_map)

lemma commit_ok:
  assumes ok: "pager_ok p" and tx: "pgr_in_transaction p"
    and cc: "change_counter (pgr_header p) \<noteq> - 1"
  shows "\<exists>hp f d. pager_commit p = (Inr (), p\<lparr>pgr_file := f, pgr_disk := d,
        pgr_header := committed_header p, pgr_in_transaction := False,
        pgr_cache := clean_cache (AList.update 1 \<lparr>pg_no = 1, pg_data = hp, pg_dirty = False\<rparr>
          (pgr_cache p))\<rparr>)
    \<and> header_write (committed_header p) (the (pager_view p 1)) = Inr hp
    \<and> header_parse hp = Inr (committed_header p) \<and> length hp = pager_psize p
    \<and> frame_of (pgr_file p, pgr_disk p) (f, d)
    \<and> file_content (f, d) = put_pages (pager_psize p) (dirty_writes p @ [(1, hp)]) (pager_content p)"
proof -
  have nw: "pgr_journal_mode p \<noteq> JWal" and vp: "valid_page_size (pgr_page_size p)"
    and hps: "page_size (pgr_header p) = pgr_page_size p" and n0: "pgr_page_count p \<noteq> 0"
    and fw: "file_writable (pgr_file p, pgr_disk p)"
    using ok by (simp_all add: pager_ok_def)
  have one: "(1 :: u32) \<noteq> 0" "1 \<le> pgr_page_count p"
    using n0 by (simp_all add: word_le_nat_alt Suc_le_eq unat_gt_0)
  obtain f1 d1 where w1: "write_pages_direct (dirty_pages p) p
      = (Inr (), p\<lparr>pgr_file := f1, pgr_disk := d1\<rparr>)" "file_writable (f1, d1)"
    "frame_of (pgr_file p, pgr_disk p) (f1, d1)"
    "file_content (f1, d1) = put_pages (pager_psize p) (dirty_writes p) (pager_content p)"
    using write_pages_direct_ok [OF dirty_writes_ok(3) [OF ok] fw] by (auto simp: dirty_writes_def)
  note v1 = dirty_written [OF ok one, folded w1(4)]
  define data where "data = page_at (pager_psize p) (file_content (f1, d1)) 1"
  have ldata: "length data = pager_psize p"
    using pager_view_ok(2) [OF ok v1(2)] by (simp add: data_def)
  have cached: "pg_data pg = data" if "map_of (pgr_cache p) 1 = Some pg" for pg
    using v1(2) that by (simp add: pager_view_file [OF nw] data_def)
  have rd: "db_read_exact 0 (pager_psize p) q = (Inr data, q)"
    if "pgr_file q = f1" "pgr_disk q = d1" for q
    using v1(1) that by (simp add: db_read_exact_def file_read_exact_eq has_page_def data_def
        page_at_def page_offset_def)
  obtain hp where hp: "header_write (committed_header p) data = Inr hp" "length hp = pager_psize p"
    "header_parse hp = Inr (committed_header p)"
    using header_written_parses [of "committed_header p" data] vp hps ldata psize_bounds [OF vp]
    by (auto simp: committed_header_def)
  obtain f2 d2 where w2: "file_write_exact 0 hp (f1, d1) = (Inr (), (f2, d2))"
    "file_writable (f2, d2)" "file_content (f2, d2) = put_bytes (file_content (f1, d1)) 0 hp"
    "frame_of (f1, d1) (f2, d2)"
    using file_write_exact_ok [OF w1(2), of 0 hp] by (metis surj_pair)
  let ?c = "AList.update 1 \<lparr>pg_no = 1, pg_data = hp, pg_dirty = False\<rparr> (pgr_cache p)"
  let ?q = "p\<lparr>pgr_file := f2, pgr_disk := d2, pgr_header := committed_header p,
    pgr_in_transaction := False, pgr_cache := clean_cache ?c\<rparr>"
  have h: "(pgr_header p)\<lparr>database_size := pgr_page_count p,
      change_counter := change_counter (pgr_header p) + 1\<rparr> = committed_header p"
    by (simp add: committed_header_def)
  have "pager_commit p = (Inr (), ?q)"
  proof (cases "map_of (pgr_cache p) 1")
    case None
    then show ?thesis
      using tx nw w1(1) cc rd w2(1) hp(1)
      by (simp add: pager_commit_def bindS_app Let_def write_page_direct_def on_db_file_def h
          cache_insert_def clean_cache_def pager_psize_def)
  next
    case (Some pg)
    then show ?thesis
      using tx nw w1(1) cc cached [OF Some] w2(1) hp(1)
      by (simp add: pager_commit_def bindS_app Let_def write_page_direct_def on_db_file_def h
          cache_insert_def clean_cache_def)
  qed
  moreover have "frame_of (pgr_file p, pgr_disk p) (f2, d2)"
    using w1(3) w2(4) by (rule frame_of_trans)
  moreover have "file_content (f2, d2)
      = put_pages (pager_psize p) (dirty_writes p @ [(1, hp)]) (pager_content p)"
    by (simp add: put_pages_append w2(3) w1(4) page_offset_def)
  moreover have "the (pager_view p 1) = data" using v1(2) by (simp add: data_def)
  ultimately show ?thesis using hp by blast
qed

lemma set_alist_update: "set (AList.update k v al) \<subseteq> insert (k, v) (set al)"
  by (induction al) auto

lemma committed_file:
  assumes ok: "pager_ok p" and len: "length hp = pager_psize p"
    and c: "file_content (f, d) = put_pages (pager_psize p) (dirty_writes p @ [(1, hp)]) (pager_content p)"
    and k: "k \<noteq> 0" "k \<le> pgr_page_count p"
  shows "has_page (pager_psize p) (file_content (f, d)) k"
    and "((pager_view p)(1 \<mapsto> hp)) k = Some (page_at (pager_psize p) (file_content (f, d)) k)"
proof -
  have ps: "0 < pager_psize p" using ok psize_bounds [of p] by (simp add: pager_ok_def)
  let ?c = "put_pages (pager_psize p) (dirty_writes p) (pager_content p)"
  have c': "file_content (f, d) = put_bytes ?c (page_offset (pager_psize p) 1) hp"
    by (simp add: c put_pages_append)
  note w = dirty_written [OF ok k]
  show "has_page (pager_psize p) (file_content (f, d)) k"
    unfolding c' by (rule has_page_put [OF w(1)])
  show "((pager_view p)(1 \<mapsto> hp)) k = Some (page_at (pager_psize p) (file_content (f, d)) k)"
  proof (cases "k = 1")
    case True
    with len show ?thesis by (simp add: c' page_at_put_same)
  next
    case False
    with w(1) len have "page_at (pager_psize p) (file_content (f, d)) k = page_at (pager_psize p) ?c k"
      unfolding c' by (intro page_at_put_other) auto
    with False w(2) show ?thesis by simp
  qed
qed

lemma commit_state:
  assumes ok: "pager_ok p" and len: "length hp = pager_psize p" and fr: "frame_of (pgr_file p, pgr_disk p) (f, d)"
    and c: "file_content (f, d) = put_pages (pager_psize p) (dirty_writes p @ [(1, hp)]) (pager_content p)"
    and q: "q = p\<lparr>pgr_file := f, pgr_disk := d, pgr_header := committed_header p,
        pgr_in_transaction := False,
        pgr_cache := clean_cache (AList.update 1 \<lparr>pg_no = 1, pg_data = hp, pg_dirty = False\<rparr>
          (pgr_cache p))\<rparr>"
  shows "pager_ok q" and "dirty_pages q = []" and "pager_view q = (pager_view p)(1 \<mapsto> hp)"
proof -
  have nw: "pgr_journal_mode p \<noteq> JWal" and n0: "pgr_page_count p \<noteq> 0" and co: "cache_ok p"
    and vp: "valid_page_size (pgr_page_size p)"
    using ok by (simp_all add: pager_ok_def)
  have nw': "pgr_journal_mode q \<noteq> JWal" using nw by (simp add: q)
  have ps: "pager_psize q = pager_psize p" "pager_psize p \<noteq> 0" and ct: "pager_content q = file_content (f, d)"
    using psize_bounds [OF vp] by (simp_all add: q pager_psize_def pager_content_def)
  have nq: "pgr_page_count q = pgr_page_count p" by (simp add: q)
  have one: "(1 :: u32) \<noteq> 0" "1 \<le> pgr_page_count p"
    using n0 by (simp_all add: word_le_nat_alt Suc_le_eq unat_gt_0)
  have m: "map_of (pgr_cache q) k = map_option (pg_dirty_update (\<lambda>_. False))
      (((map_of (pgr_cache p))(1 \<mapsto> \<lparr>pg_no = 1, pg_data = hp, pg_dirty = False\<rparr>)) k)" for k
    by (simp add: q map_of_clean_cache update_conv')
  show v: "pager_view q = (pager_view p)(1 \<mapsto> hp)"
  proof
    fix k
    show "pager_view q k = ((pager_view p)(1 \<mapsto> hp)) k"
    proof (cases "k = 0 \<or> k > pgr_page_count p")
      case True
      then have "pager_view p k = None" and "k \<noteq> 1" using pager_view_ok(1) [OF ok, of k] one by auto
      with True show ?thesis
        by (auto simp: pager_view_file [OF nw'] pager_view_file [OF nw] m split: option.splits)
          (auto simp: q)
    next
      case False
      then have k: "k \<noteq> 0" "k \<le> pgr_page_count p" by auto
      note cf = committed_file [OF ok len c k]
      show ?thesis
      proof (cases "map_of (pgr_cache q) k")
        case None
        with k cf ps ct nq show ?thesis by (auto simp: pager_view_file [OF nw'])
      next
        case (Some pg)
        then have vq: "pager_view q k = Some (pg_data pg)"
          by (simp add: pager_view_file [OF nw'])
        with vq Some show ?thesis
          by (cases "map_of (pgr_cache p) k"; cases "k = 1")
            (auto simp: m pager_view_file [OF nw, of k])
      qed
    qed
  qed
  have "cache_ok q"
    using co one len by (auto simp: cache_ok_def q clean_cache_def pager_psize_def distinct_update
        comp_def dest!: set_alist_update [THEN subsetD])
  moreover have "clean_ok q"
    unfolding clean_ok_def
  proof (intro allI impI)
    fix k assume k: "k \<noteq> 0 \<and> k \<le> pgr_page_count q"
    then have k': "k \<noteq> 0" "k \<le> pgr_page_count p" by (auto simp: q)
    note cf = committed_file [OF ok len c k']
    from cf v show "case map_of (pgr_cache q) k of
        None \<Rightarrow> has_page (pager_psize q) (pager_content q) k
      | Some pg \<Rightarrow> pg_dirty pg \<or> has_page (pager_psize q) (pager_content q) k
          \<and> page_at (pager_psize q) (pager_content q) k = pg_data pg"
      using pager_view_file [OF nw', of k] by (auto simp: ps ct split: option.splits)
  qed
  moreover have "file_writable (f, d)" using ok frame_of_writable [OF fr] by (simp add: pager_ok_def)
  ultimately show "pager_ok q" using ok by (simp add: pager_ok_def q committed_header_def)
  show "dirty_pages q = []"
    by (simp add: dirty_pages_def q clean_cache_def filter_empty_conv)
qed

section \<open>Reopening\<close>

lemma header_parse_take:
  assumes "100 \<le> length d"
  shows "header_parse (take 100 d) = header_parse d"
proof -
  have "get_at (take 100 d) i = get_at d i" if "i < 100" for i
    using assms that by (simp add: get_at_def)
  moreover have "read_u32_be (take 100 d) i = read_u32_be d i" if "i + 4 \<le> 100" for i
    using assms that by (simp add: read_u32_be_eq u32_at_def)
  moreover have "read_u16_be (take 100 d) i = read_u16_be d i" if "i + 2 \<le> 100" for i
    using assms that by (simp add: read_u16_be_eq u16_at_def)
  moreover have "slice_of (take 100 d) 0 16 = slice_of d 0 16" by (simp add: slice_of_def)
  ultimately show ?thesis using assms by (simp add: header_parse_def min_def Let_def cong: if_cong)
qed

text \<open>What opening a database file gives when its header is sound and names a page count.\<close>

lemma pager_open_existing:
  assumes d: "d path = Some c" and len: "100 \<le> length c" and h: "header_parse c = Inr h"
    and n: "database_size h \<noteq> 0" and fl: "\<not> pf_memory flags"
  shows "\<exists>q. pager_open (Some path) flags d = (Inr q, d) \<and> pgr_page_count q = database_size h
    \<and> pgr_header q = h \<and> pgr_cache q = [] \<and> pgr_journal_mode q = JDelete
    \<and> pgr_page_size q = page_size h \<and> pgr_disk q = d
    \<and> pgr_file q = UnixFile path (\<not> pf_read_only flags)"
proof -
  have "file_read_exact 0 100 (UnixFile path (\<not> pf_read_only flags), d) = Inr (take 100 c)"
    using d len by (simp add: file_read_exact_eq disk_bytes_def slice_of_def)
  moreover have "c \<noteq> []" and "0 < database_size h" using len n by (auto simp: word_gt_0)
  ultimately show ?thesis
    using d h fl header_parse_take [OF len]
    by (simp add: pager_open_def bindS_app unix_exists_def unix_open_def disk_bytes_def Let_def)
qed

text \<open>What another process that opens the committed file sees.\<close>

lemma reopened_view:
  assumes ok: "pager_ok p" and hp: "length hp = pager_psize p"
    and fc: "file_content (f, d) = put_pages (pager_psize p) (dirty_writes p @ [(1, hp)]) (pager_content p)"
    and q: "pgr_page_count q = pgr_page_count p" "pgr_cache q = []" "pgr_journal_mode q \<noteq> JWal"
      "pager_content q = file_content (f, d)" "pager_psize q = pager_psize p"
  shows "pager_view q = (pager_view p)(1 \<mapsto> hp)"
proof
  have one: "(1 :: u32) \<le> pgr_page_count p"
    using ok by (simp add: pager_ok_def word_le_nat_alt Suc_le_eq unat_gt_0)
  fix k
  show "pager_view q k = ((pager_view p)(1 \<mapsto> hp)) k"
  proof (cases "k = 0 \<or> k > pgr_page_count p")
    case True
    then have "pager_view p k = None" and "k \<noteq> 1"
      using pager_view_ok(1) [OF ok, of k] one by auto
    with True q show ?thesis by (auto simp: pager_view_file [OF q(3)])
  next
    case False
    then have "k \<noteq> 0" "k \<le> pgr_page_count p" by auto
    from committed_file [OF ok hp fc this] False q
    show ?thesis by (auto simp: pager_view_file [OF q(3)])
  qed
qed

text \<open>
  C3. Durability. Outside the log mode a commit of a consistent pager succeeds; it changes what a
  reader sees in nothing but the header fields of page 1; no page is dirty and the pager is
  consistent afterwards; and any process that opens the file sees the same number of pages and on
  every page exactly what the committing connection sees.
\<close>

theorem commit_durable:
  assumes "pager_ok p" and "pgr_in_transaction p" and "change_counter (pgr_header p) \<noteq> - 1"
    and "pgr_file p = UnixFile path True" and "\<not> pf_memory flags"
  shows "\<exists>p' hp q. pager_commit p = (Inr (), p') \<and> pager_ok p' \<and> dirty_pages p' = []
    \<and> \<not> pgr_in_transaction p'
    \<and> pager_view p' = (pager_view p)(1 \<mapsto> hp)
    \<and> header_write (pgr_header p') (the (pager_view p 1)) = Inr hp
    \<and> pager_open (Some path) flags (pgr_disk p') = (Inr q, pgr_disk p')
    \<and> pgr_page_count q = pgr_page_count p \<and> pgr_header q = pgr_header p'
    \<and> pager_view q = pager_view p'"
proof -
  obtain hp f d where c: "pager_commit p = (Inr (), p\<lparr>pgr_file := f, pgr_disk := d,
        pgr_header := committed_header p, pgr_in_transaction := False,
        pgr_cache := clean_cache (AList.update 1 \<lparr>pg_no = 1, pg_data = hp, pg_dirty = False\<rparr>
          (pgr_cache p))\<rparr>)" (is "_ = (_, ?p')")
    "header_write (committed_header p) (the (pager_view p 1)) = Inr hp"
    "header_parse hp = Inr (committed_header p)" "length hp = pager_psize p"
    "frame_of (pgr_file p, pgr_disk p) (f, d)"
    "file_content (f, d) = put_pages (pager_psize p) (dirty_writes p @ [(1, hp)]) (pager_content p)"
    using commit_ok [OF assms(1-3)] by blast
  note st = commit_state [OF assms(1) c(4,5,6) refl]
  have n0: "pgr_page_count p \<noteq> 0" and vp: "valid_page_size (pgr_page_size p)"
    and hps: "page_size (pgr_header p) = pgr_page_size p"
    using assms(1) by (simp_all add: pager_ok_def)
  have one: "(1 :: u32) \<noteq> 0" "1 \<le> pgr_page_count p"
    using n0 by (simp_all add: word_le_nat_alt Suc_le_eq unat_gt_0)
  note ps = psize_bounds [OF vp]
  have f: "f = UnixFile path True" using c(5) assms(4) by (cases f) (auto simp: frame_of_def)
  note p1 = committed_file [OF assms(1) c(4,6) one]
  let ?c = "file_content (f, d)"
  have "pager_psize p \<le> length ?c" and hp: "take (pager_psize p) ?c = hp"
    using p1 by (simp_all add: has_page_def page_at_def page_offset_def slice_of_def)
  then have len: "100 \<le> length ?c" and dp: "d path = Some ?c"
    using ps f by (cases "d path"; simp add: disk_bytes_def)+
  have "take 100 hp = take 100 ?c" using ps by (simp flip: hp add: min_def)
  then have hpc: "header_parse ?c = Inr (committed_header p)"
    using header_parse_take [OF len] header_parse_take [of hp] c(3,4) ps by simp
  have n1: "database_size (committed_header p) \<noteq> 0" using n0 by (simp add: committed_header_def)
  from pager_open_existing [where d = d and path = path, OF dp len hpc n1 assms(5)]
  obtain q where q: "pager_open (Some path) flags d = (Inr q, d)"
    "pgr_page_count q = pgr_page_count p" "pgr_header q = committed_header p" "pgr_cache q = []"
    "pgr_journal_mode q \<noteq> JWal" "pgr_page_size q = pgr_page_size p" "pgr_disk q = d"
    "pgr_file q = UnixFile path (\<not> pf_read_only flags)"
    by (auto simp: committed_header_def hps)
  have ct: "pager_content q = ?c" and psq: "pager_psize q = pager_psize p"
    using q f by (simp_all add: pager_content_def pager_psize_def)
  have "pager_view q = (pager_view p)(1 \<mapsto> hp)"
    by (rule reopened_view [OF assms(1) c(4,6) q(2,4,5) ct psq])
  with c(1,2) st q show ?thesis by (intro exI [of _ ?p'] exI [of _ hp] exI [of _ q]) simp
qed

section \<open>Rollbacks and allocation\<close>

lemma put_all_cache_only:
  assumes "\<not> pgr_read_only p" and "put_all put_bytes_at ws p = (r, p')"
  shows "r = Inr () \<and> (\<exists>c. p' = set_cache c p)"
  using assms
proof (induction ws arbitrary: p)
  case Nil
  then show ?case by (intro conjI exI [of _ "pgr_cache p"]) (auto simp: set_cache_def)
next
  case (Cons w ws)
  obtain n b where w: "w = (n, b)" by (cases w)
  let ?p1 = "cache_insert \<lparr>pg_no = n, pg_data = b, pg_dirty = True\<rparr> p"
  have "put_bytes_at n b p = (Inr (), ?p1)"
    using Cons.prems(1) by (simp add: put_bytes_at_def write_page_def bindS_app)
  then have "put_all put_bytes_at ws ?p1 = (r, p')" using Cons.prems(2) w by (simp add: bindS_app)
  from Cons.IH [OF _ this] Cons.prems(1) show ?case
    by (auto simp: cache_insert_def set_cache_def)
qed

text \<open>
  C16. Rollback. Whatever pages a transaction writes into a consistent pager without dirty pages,
  rolling it back leaves every reader with the pages as they were, nothing dirty, and the file
  untouched.
\<close>

theorem rollback_restores:
  assumes "pager_ok p" and "dirty_pages p = []" and "\<not> pgr_read_only p"
  shows "\<exists>p' p''. put_all put_bytes_at ws (snd (pager_begin p)) = (Inr (), p')
    \<and> pager_rollback p' = (Inr (), p'') \<and> pager_view p'' = pager_view p \<and> dirty_pages p'' = []
    \<and> pager_content p'' = pager_content p \<and> \<not> pgr_in_transaction p''"
proof -
  let ?b = "p\<lparr>pgr_in_transaction := True\<rparr>"
  obtain r p' where p': "put_all put_bytes_at ws ?b = (r, p')" by fastforce
  from put_all_cache_only [OF _ this] assms(3)
  obtain c where r: "r = Inr ()" and c: "p' = set_cache c ?b" by auto
  let ?q = "p\<lparr>pgr_cache := [], pgr_in_transaction := False\<rparr>"
  have rb: "pager_rollback p' = (Inr (), ?q)" by (simp add: pager_rollback_def c set_cache_def)
  have nw: "pgr_journal_mode p \<noteq> JWal" and cl: "clean_ok p" and co: "cache_ok p"
    using assms(1) by (simp_all add: pager_ok_def)
  have same: "pager_psize ?q = pager_psize p" "pager_content ?q = pager_content p"
    by (simp_all add: pager_psize_def pager_content_def)
  have "pager_view ?q n = pager_view p n" for n
  proof (cases "map_of (pgr_cache p) n")
    case None
    then show ?thesis using nw same by (simp add: pager_view_file)
  next
    case (Some pg)
    then have "(n, pg) \<in> set (pgr_cache p)" by (rule map_of_SomeD)
    then have "n \<noteq> 0" "n \<le> pgr_page_count p" and "\<not> pg_dirty pg"
      using co assms(2) by (auto simp: cache_ok_def dirty_pages_def filter_empty_conv)
    with cl Some have "has_page (pager_psize p) (pager_content p) n"
      and "page_at (pager_psize p) (pager_content p) n = pg_data pg"
      by (auto simp: clean_ok_def split: option.splits)
    with Some nw same \<open>n \<noteq> 0\<close> \<open>n \<le> pgr_page_count p\<close> show ?thesis
      by (simp add: pager_view_file not_less)
  qed
  with p' rb r same show ?thesis
    by (auto simp: pager_begin_def dirty_pages_def fun_eq_iff)
qed

text \<open>
  C35. A rollback does not take back an allocation: the page count keeps the allocated page, which
  is then neither in the cache nor in the file, so every later read of it fails with a short read
  instead of being rejected as out of range.
\<close>

theorem rollback_keeps_allocation:
  assumes "pager_ok p" and "pgr_page_count p \<noteq> - 1"
    and "length (pager_content p) = unat (pgr_page_count p) * pager_psize p"
  shows "\<exists>p1 p2. allocate_page p = (Inr (pgr_page_count p + 1), p1)
    \<and> pager_rollback p1 = (Inr (), p2) \<and> pgr_page_count p2 = pgr_page_count p + 1
    \<and> fst (get_page (pgr_page_count p + 1) p2) = sql_err RcIoErr ''unexpected EOF''"
proof -
  let ?n = "pgr_page_count p + 1"
  let ?p2 = "p\<lparr>pgr_page_count := ?n, pgr_cache := [], pgr_in_transaction := False\<rparr>"
  have nw: "pgr_journal_mode p \<noteq> JWal" and vp: "valid_page_size (pgr_page_size p)"
    using assms(1) by (simp_all add: pager_ok_def)
  have n: "unat ?n = unat (pgr_page_count p) + 1"
    using assms(2) unatSuc [of "pgr_page_count p"] by (auto simp: add.commute add_eq_0_iff)
  then have n0: "?n \<noteq> 0" by (metis add_is_0 one_neq_zero unat_0)
  have "fst (get_page ?n ?p2) = sql_err RcIoErr ''unexpected EOF''"
    using nw n0 n assms(3) psize_bounds [OF vp]
    by (simp add: get_page_eq fetch_page_def read_page_from_file_app file_read_exact_eq
        pager_content_def pager_psize_def)
  then show ?thesis
    using assms(2)
    by (simp add: allocate_page_def bindS_app pager_rollback_def cache_insert_def)
qed

section \<open>New databases\<close>

text \<open>The first page of a new database: a header and an empty table leaf.\<close>

definition first_page :: bytes where
  "first_page = (case bindR (header_write ((header_new 4096)\<lparr>database_size := 1\<rparr>) (replicate 4096 0))
       (write_u8s [(100, 0x0d), (101, 0), (102, 0), (103, 0), (104, 0), (105, 16), (106, 0), (107, 0)])
     of Inr page \<Rightarrow> page | Inl e \<Rightarrow> [])"

lemma valid_4096: "valid_page_size 4096"
  by (simp add: valid_page_size_def is_power_of_two_def upt_rec bit_numeral_rec)

lemma first_page_ok:
  obtains page where
    "header_write ((header_new 4096)\<lparr>database_size := 1\<rparr>) (replicate 4096 0) = Inr page"
    "write_u8s [(100, 0x0d), (101, 0), (102, 0), (103, 0), (104, 0), (105, 16), (106, 0), (107, 0)] page
      = Inr first_page"
    "length first_page = 4096"
    "first_page = page[100 := 0x0d, 101 := 0, 102 := 0, 103 := 0, 104 := 0, 105 := 16, 106 := 0, 107 := 0]"
    "length page = 4096"
    "header_parse page = Inr ((header_new 4096)\<lparr>database_size := 1\<rparr>)"
proof -
  obtain page where page: "header_write ((header_new 4096)\<lparr>database_size := 1\<rparr>) (replicate 4096 0)
      = Inr page" "length page = 4096"
      "header_parse page = Inr ((header_new 4096)\<lparr>database_size := 1\<rparr>)"
    using header_written_parses [of "(header_new 4096)\<lparr>database_size := 1\<rparr>" "replicate 4096 0"]
      valid_4096 by (auto simp: header_new_def)
  have "write_u8s [(100, 0x0d), (101, 0), (102, 0), (103, 0), (104, 0), (105, 16), (106, 0), (107, 0)] page
      = Inr (foldl (\<lambda>d f. d[fst f := snd f]) page
        [(100, 0x0d), (101, 0), (102, 0), (103, 0), (104, 0), (105, 16), (106, 0), (107, 0)])"
    using page(2) by (intro write_u8s_in_range) simp
  with page that show thesis by (simp add: first_page_def)
qed

lemma zero_byte: "(4096 :: u8) = 0"
  by simp

lemma initialize_ok:
  assumes "pgr_page_size p = 4096" and "pgr_header p = header_new 4096" and "pgr_cache p = []"
    and "pager_content p = []" and "file_writable (pgr_file p, pgr_disk p)"
    and "pgr_journal_mode p = JDelete"
  shows "\<exists>f d p'. initialize_new_database p = (Inr (), p') \<and> p' = p\<lparr>pgr_file := f, pgr_disk := d,
      pgr_header := (header_new 4096)\<lparr>database_size := 1\<rparr>, pgr_page_count := 1\<rparr>
    \<and> pager_ok p' \<and> pager_content p' = first_page \<and> frame_of (pgr_file p, pgr_disk p) (f, d)"
proof -
  obtain page where page: "header_write ((header_new 4096)\<lparr>database_size := 1\<rparr>) (replicate 4096 0)
      = Inr page"
    "write_u8s [(100, 0x0d), (101, 0), (102, 0), (103, 0), (104, 0), (105, 16), (106, 0), (107, 0)] page
      = Inr first_page" "length first_page = 4096"
    by (rule first_page_ok)
  obtain f d where w: "file_write_exact 0 first_page (pgr_file p, pgr_disk p) = (Inr (), (f, d))"
    "file_writable (f, d)" "file_content (f, d) = put_bytes [] 0 first_page"
    "frame_of (pgr_file p, pgr_disk p) (f, d)"
    using file_write_exact_ok [OF assms(5), of 0 first_page] assms(4)
    by (metis pager_content_def surj_pair)
  let ?p = "p\<lparr>pgr_file := f, pgr_disk := d, pgr_header := (header_new 4096)\<lparr>database_size := 1\<rparr>,
    pgr_page_count := 1\<rparr>"
  have c: "pager_content ?p = first_page"
    using w(3) put_bytes_append [of "[]"] by (simp add: pager_content_def)
  have one: "k \<noteq> 0 \<and> k \<le> 1 \<longleftrightarrow> k = 1" for k :: u32
    by (auto simp: word_le_nat_alt le_Suc_eq word_unat_eq_iff)
  have "has_page 4096 first_page 1"
    using page(3) by (simp add: has_page_def page_offset_def)
  then have "pager_ok ?p"
    using assms w(2) valid_4096 c
    by (simp add: pager_ok_def cache_ok_def clean_ok_def pager_psize_def one header_new_def)
  moreover have "initialize_new_database p = (Inr (), ?p)"
    using assms page w(1)
    by (cases p) (simp add: initialize_new_database_def bindS_app Let_def write_page_direct_def
        on_db_file_def zero_byte del: write_u8s.simps)
  ultimately show ?thesis using c w(4) by blast
qed

lemma pager_open_new:
  assumes "d path = None" and "\<not> pf_memory flags" and "\<not> pf_read_only flags"
  shows "\<exists>p d'. pager_open (Some path) flags d = (Inr p, d') \<and> pager_ok p \<and> pgr_page_count p = 1
    \<and> pager_view p = [1 \<mapsto> first_page] \<and> d' = d(path \<mapsto> first_page) \<and> pgr_disk p = d'
    \<and> pgr_file p = UnixFile path True \<and> pgr_cache p = [] \<and> pgr_journal_mode p = JDelete
    \<and> pgr_header p = (header_new 4096)\<lparr>database_size := 1\<rparr> \<and> \<not> pgr_read_only p
    \<and> \<not> pgr_in_transaction p"
proof -
  let ?d = "d(path \<mapsto> [])"
  let ?p0 = "\<lparr>pgr_file = UnixFile path True, pgr_wal = None, pgr_page_size = DEFAULT_PAGE_SIZE,
    pgr_header = header_new DEFAULT_PAGE_SIZE, pgr_cache = [], pgr_journal_mode = JDelete,
    pgr_in_transaction = False, pgr_read_only = pf_read_only flags, pgr_db_path = Some path,
    pgr_page_count = 0, pgr_memory = False, pgr_disk = ?d\<rparr>"
  obtain f d' p where i: "initialize_new_database ?p0 = (Inr (), p)"
    "p = ?p0\<lparr>pgr_file := f, pgr_disk := d', pgr_header := (header_new 4096)\<lparr>database_size := 1\<rparr>,
      pgr_page_count := 1\<rparr>" "pager_ok p" "pager_content p = first_page"
    "frame_of (UnixFile path True, ?d) (f, d')"
    using initialize_ok [of ?p0] by (auto simp: pager_content_def disk_bytes_def)
  have f: "f = UnixFile path True" using i(5) by (cases f) (auto simp: frame_of_def)
  have len: "length first_page = 4096" by (rule first_page_ok)
  have c: "disk_bytes d' path = first_page" using i(2,4) f by (simp add: pager_content_def)
  then have "d' path = Some first_page" using len by (cases "d' path") (auto simp: disk_bytes_def dest: sym)
  then have d': "d' = d(path \<mapsto> first_page)" using i(5) by (auto simp: frame_of_def fun_eq_iff)
  have one: "k = 0 \<or> 1 < k \<longleftrightarrow> k \<noteq> 1" for k :: u32
    by (auto simp: word_less_nat_alt word_unat_eq_iff)
  have nw: "pgr_journal_mode p \<noteq> JWal" by (simp add: i(2))
  have "has_page 4096 first_page 1" "page_at 4096 first_page 1 = first_page"
    using len by (simp_all add: has_page_def page_offset_def page_at_def slice_of_def)
  moreover have "pager_psize p = 4096" "pgr_page_count p = 1" "pgr_cache p = []"
    by (simp_all add: i(2) pager_psize_def)
  ultimately have "pager_view p k = [1 \<mapsto> first_page] k" for k
    using i(4) one [of k] by (auto simp: pager_view_file [OF nw])
  then have "pager_view p = [1 \<mapsto> first_page]" by auto
  moreover have "pager_open (Some path) flags d = (Inr p, d')"
    using assms i(1,2)
    by (simp add: pager_open_def bindS_app unix_exists_def unix_open_def disk_bytes_def Let_def)
  ultimately show ?thesis using i f d' assms(3) by auto
qed

text \<open>
  C36. Opening a path at which there is no file creates a database: the pager is consistent, has one
  page, which reads as the header and an empty table leaf, and the disk has just one file more.
\<close>

theorem opening_creates_database:
  assumes "d path = None" and "\<not> pf_memory flags" and "\<not> pf_read_only flags"
  shows "\<exists>p. pager_open (Some path) flags d = (Inr p, d(path \<mapsto> first_page)) \<and> pager_ok p
    \<and> pgr_page_count p = 1 \<and> pager_view p = [1 \<mapsto> first_page]
    \<and> first_page ! 100 = PAGE_TYPE_LEAF_TABLE \<and> u16_at first_page 103 = 0
    \<and> header_parse first_page = Inr (pgr_header p)"
proof -
  obtain p where p: "pager_open (Some path) flags d = (Inr p, d(path \<mapsto> first_page))" "pager_ok p"
    "pgr_page_count p = 1" "pager_view p = [1 \<mapsto> first_page]"
    "pgr_header p = (header_new 4096)\<lparr>database_size := 1\<rparr>"
    using pager_open_new [of d path flags] assms by blast
  obtain page where page: "length page = 4096"
    "first_page = page[100 := 0x0d, 101 := 0, 102 := 0, 103 := 0, 104 := 0, 105 := 16, 106 := 0, 107 := 0]"
    "header_parse page = Inr ((header_new 4096)\<lparr>database_size := 1\<rparr>)"
    by (rule first_page_ok)
  have "take 100 first_page = take 100 page" by (simp add: page(2))
  moreover have "length first_page = 4096" by (rule first_page_ok)
  ultimately have "header_parse first_page = header_parse page"
    using header_parse_take [of first_page] header_parse_take [of page] page(1) by simp
  moreover have "first_page ! 100 = 0x0d" and "u16_at first_page 103 = 0"
    using page(1) by (simp_all add: page(2) u16_at_def u16_of_be_def)
  ultimately show ?thesis using p page(3) by auto
qed

section \<open>Witnesses\<close>

definition default_flags :: pager_flags where
  "default_flags = \<lparr>pf_omit_journal = False, pf_memory = False, pf_read_only = False\<rparr>"

lemma example_database:
  obtains p d where "pager_open (Some ''a.db'') default_flags Map.empty = (Inr p, d)" and "pager_ok p"
    and "pgr_page_count p = 1" and "pager_view p = [1 \<mapsto> first_page]"
    and "pgr_file p = UnixFile ''a.db'' True" and "pgr_cache p = []"
    and "pgr_header p = (header_new 4096)\<lparr>database_size := 1\<rparr>" and "\<not> pgr_read_only p"
    and "pager_content p = first_page"
proof -
  obtain p where "pager_open (Some ''a.db'') default_flags Map.empty = (Inr p, [''a.db'' \<mapsto> first_page])"
    "pager_ok p" "pgr_page_count p = 1" "pager_view p = [1 \<mapsto> first_page]"
    "pgr_disk p = [''a.db'' \<mapsto> first_page]" "pgr_file p = UnixFile ''a.db'' True" "pgr_cache p = []"
    "pgr_header p = (header_new 4096)\<lparr>database_size := 1\<rparr>" "\<not> pgr_read_only p"
    using pager_open_new [of Map.empty "''a.db''" default_flags] by (auto simp: default_flags_def)
  with that show thesis by (simp add: pager_content_def disk_bytes_def)
qed

lemma pager_ok_begin: "pager_ok p \<Longrightarrow> pager_ok (p\<lparr>pgr_in_transaction := True\<rparr>)"
proof -
  have "pager_psize (p\<lparr>pgr_in_transaction := True\<rparr>) = pager_psize p"
    and "pager_content (p\<lparr>pgr_in_transaction := True\<rparr>) = pager_content p"
    by (simp_all add: pager_psize_def pager_content_def)
  then show "pager_ok p \<Longrightarrow> pager_ok (p\<lparr>pgr_in_transaction := True\<rparr>)"
    by (simp add: pager_ok_def cache_ok_def clean_ok_def cong: option.case_cong)
qed

theorem commit_durable_witness:
  "\<exists>p p' q. pager_ok p \<and> pgr_in_transaction p \<and> pager_commit p = (Inr (), p')
    \<and> pager_open (Some ''a.db'') default_flags (pgr_disk p') = (Inr q, pgr_disk p')
    \<and> pager_view q = pager_view p'"
proof -
  obtain p d where p: "pager_ok p" "pgr_file p = UnixFile ''a.db'' True"
    "pgr_header p = (header_new 4096)\<lparr>database_size := 1\<rparr>"
    by (rule example_database)
  let ?p = "p\<lparr>pgr_in_transaction := True\<rparr>"
  have "change_counter (pgr_header ?p) \<noteq> - 1" by (simp add: p(3) header_new_def)
  with commit_durable [of ?p "''a.db''" default_flags] pager_ok_begin [OF p(1)] p(2)
  show ?thesis by (fastforce simp: default_flags_def)
qed

theorem rollback_restores_witness:
  "\<exists>p p' p''. put_all put_bytes_at [(1, [1, 2, 3]), (1, [4])] (snd (pager_begin p)) = (Inr (), p')
    \<and> pager_rollback p' = (Inr (), p'') \<and> pager_view p'' 1 = Some first_page"
proof -
  obtain p d where p: "pager_ok p" "pgr_cache p = []" "\<not> pgr_read_only p"
    "pager_view p = [1 \<mapsto> first_page]"
    by (rule example_database)
  with rollback_restores [of p "[(1, [1, 2, 3]), (1, [4])]"]
  show ?thesis by (fastforce simp: dirty_pages_def)
qed

theorem rollback_keeps_allocation_witness:
  "\<exists>p p1 p2. pgr_page_count p = 1 \<and> allocate_page p = (Inr 2, p1) \<and> pager_rollback p1 = (Inr (), p2)
    \<and> fst (get_page 2 p2) = sql_err RcIoErr ''unexpected EOF''"
proof -
  obtain p d where p: "pager_ok p" "pgr_page_count p = 1" "pager_content p = first_page"
    "pgr_header p = (header_new 4096)\<lparr>database_size := 1\<rparr>"
    by (rule example_database)
  have "length first_page = 4096" by (rule first_page_ok)
  moreover have "pager_psize p = 4096"
    using p(1,4) by (simp add: pager_ok_def pager_psize_def header_new_def flip: p(4))
  ultimately show ?thesis
    using rollback_keeps_allocation [OF p(1)] p(2,3) by fastforce
qed

theorem opening_creates_database_witness:
  "\<exists>p. pager_open (Some ''a.db'') default_flags Map.empty = (Inr p, [''a.db'' \<mapsto> first_page]) \<and> pager_ok p
    \<and> pgr_page_count p = 1 \<and> pager_view p = [1 \<mapsto> first_page]
    \<and> first_page ! 100 = PAGE_TYPE_LEAF_TABLE \<and> u16_at first_page 103 = 0
    \<and> header_parse first_page = Inr (pgr_header p)"
  by (rule opening_creates_database) (simp_all add: default_flags_def)

end
