(* ===== verification/Ast.thy ===== *)
theory Ast
  imports Values
begin

text \<open>
  The syntax tree of \<^verbatim>\<open>sqllite-parser/src/ast.rs\<close>, and the text its derived \<^verbatim>\<open>Debug\<close> instances
  produce, which the parser uses for parenthesised queries. Debug text escapes quotes,
  backslashes and ASCII control characters; other characters are copied, also those that Rust
  escapes because they do not print.
\<close>

section \<open>Expressions\<close>

datatype column_type = ColNull | ColInteger | ColReal | ColText | ColBlob | ColNumeric

datatype unary_op = UNot | UMinus | UPlus | UBitNot

datatype binary_op =
    BOr | BAnd | BEq | BNotEq | BLt | BLe | BGt | BGe | BAdd | BSub | BMul | BDiv | BMod
  | BConcat | BLike | BNotLike | BBitAnd | BBitOr | BShl | BShr | BIs | BIsNot

datatype expr =
    ENull
  | EInteger i64
  | EReal f64
  | EString string
  | EBlob bytes
  | EIdent string
  | EQualifiedIdent string string
  | EStar
  | EQualifiedStar string
  | EUnaryOp unary_op expr
  | EBinaryOp binary_op expr expr
  | EFunction string bool "expr list"
  | EIsNull expr
  | EIsNotNull expr
  | EBetween expr expr expr
  | EInList expr "expr list"
  | ECase "expr option" "(expr \<times> expr) list" "expr option"
  | ECast expr column_type
  | ECollate expr string
  | EBind nat

section \<open>Statements\<close>

datatype column_constraint = CPrimaryKey bool | CNotNull | CUnique | CDefault expr

record column_def =
  cd_name :: string
  cd_type :: column_type
  cd_constraints :: "column_constraint list"

record order_term =
  ot_expr :: expr
  ot_desc :: bool

record result_column =
  rc_expr :: expr
  rc_alias :: "string option"

datatype join_type = JCross | JInner | JLeft

datatype table_ref =
    TTable string "string option"
  | TSubquery select string
  | TJoin table_ref table_ref join_type "expr option"
and select =
    Select (s_distinct: bool) (s_columns: "result_column list") (s_from: "table_ref option")
      (s_where: "expr option") (s_group_by: "expr list") (s_having: "expr option")
      (s_order_by: "order_term list") (s_limit: "expr option") (s_offset: "expr option")

datatype conflict_action = ConfRollback | ConfAbort | ConfFail | ConfIgnore | ConfReplace

record insert_stmt =
  in_or_conflict :: "conflict_action option"
  in_table :: string
  in_columns :: "string list"
  in_values :: "expr list list"
  in_select :: "select option"

record update_stmt =
  up_table :: string
  up_assignments :: "(string \<times> expr) list"
  up_where :: "expr option"

record delete_stmt =
  de_table :: string
  de_where :: "expr option"

record create_table_stmt =
  ct_if_not_exists :: bool
  ct_name :: string
  ct_columns :: "column_def list"
  ct_temp :: bool

record drop_table_stmt =
  dt_if_exists :: bool
  dt_name :: string

record create_index_stmt =
  ci_if_not_exists :: bool
  ci_unique :: bool
  ci_name :: string
  ci_table :: string
  ci_columns :: "string list"

record pragma_stmt =
  pr_name :: string
  pr_value :: "expr option"

datatype statement =
    StSelect select
  | StInsert insert_stmt
  | StUpdate update_stmt
  | StDelete delete_stmt
  | StCreateTable create_table_stmt
  | StCreateIndex create_index_stmt
  | StDropTable drop_table_stmt
  | StPragma pragma_stmt
  | StBegin
  | StCommit
  | StRollback

section \<open>Debug text\<close>

fun join_with :: "string \<Rightarrow> string list \<Rightarrow> string" where
  "join_with sep [] = []"
| "join_with sep [x] = x"
| "join_with sep (x # y # ys) = x @ sep @ join_with sep (y # ys)"

definition hex_digit :: "nat \<Rightarrow> char" where
  "hex_digit n = char_of (if n < 10 then 48 + n else 87 + n)"

definition hex_text :: "nat \<Rightarrow> string" where
  "hex_text n = (if n < 16 then [hex_digit n] else [hex_digit (n div 16), hex_digit (n mod 16)])"

definition debug_char :: "char \<Rightarrow> string" where
  "debug_char c =
     (let n = of_char c :: nat in
      if n = 34 then [char_of (92::nat), c]
      else if n = 92 then [c, c]
      else if n = 0 then [char_of (92::nat), CHR ''0'']
      else if n = 9 then [char_of (92::nat), CHR ''t'']
      else if n = 10 then [char_of (92::nat), CHR ''n'']
      else if n = 13 then [char_of (92::nat), CHR ''r'']
      else if n < 32 \<or> n = 127 then [char_of (92::nat)] @ ''u{'' @ hex_text n @ ''}''
      else [c])"

definition debug_string :: "string \<Rightarrow> string" where
  "debug_string s = [char_of (34::nat)] @ concat (map debug_char s) @ [char_of (34::nat)]"

definition debug_bool :: "bool \<Rightarrow> string" where
  "debug_bool b = (if b then ''true'' else ''false'')"

definition debug_option :: "('a \<Rightarrow> string) \<Rightarrow> 'a option \<Rightarrow> string" where
  "debug_option f x = (case x of None \<Rightarrow> ''None'' | Some y \<Rightarrow> ''Some('' @ f y @ '')'')"

definition debug_list :: "('a \<Rightarrow> string) \<Rightarrow> 'a list \<Rightarrow> string" where
  "debug_list f xs = ''['' @ join_with '', '' (map f xs) @ '']''"

lemma debug_option_cong [fundef_cong]:
  "x = y \<Longrightarrow> (\<And>z. y = Some z \<Longrightarrow> f z = g z) \<Longrightarrow> debug_option f x = debug_option g y"
  by (auto simp: debug_option_def split: option.split)

lemma debug_list_cong [fundef_cong]:
  "xs = ys \<Longrightarrow> (\<And>z. z \<in> set ys \<Longrightarrow> f z = g z) \<Longrightarrow> debug_list f xs = debug_list g ys"
  by (simp add: debug_list_def cong: map_cong)

definition debug_blob :: "bytes \<Rightarrow> string" where
  "debug_blob = debug_list (\<lambda>b. nat_to_string (unat b))"

fun debug_column_type :: "column_type \<Rightarrow> string" where
  "debug_column_type ColNull = ''Null''"
| "debug_column_type ColInteger = ''Integer''"
| "debug_column_type ColReal = ''Real''"
| "debug_column_type ColText = ''Text''"
| "debug_column_type ColBlob = ''Blob''"
| "debug_column_type ColNumeric = ''Numeric''"

fun debug_unary_op :: "unary_op \<Rightarrow> string" where
  "debug_unary_op UNot = ''Not''"
| "debug_unary_op UMinus = ''Minus''"
| "debug_unary_op UPlus = ''Plus''"
| "debug_unary_op UBitNot = ''BitNot''"

fun debug_binary_op :: "binary_op \<Rightarrow> string" where
  "debug_binary_op BOr = ''Or''"
| "debug_binary_op BAnd = ''And''"
| "debug_binary_op BEq = ''Eq''"
| "debug_binary_op BNotEq = ''NotEq''"
| "debug_binary_op BLt = ''Lt''"
| "debug_binary_op BLe = ''Le''"
| "debug_binary_op BGt = ''Gt''"
| "debug_binary_op BGe = ''Ge''"
| "debug_binary_op BAdd = ''Add''"
| "debug_binary_op BSub = ''Sub''"
| "debug_binary_op BMul = ''Mul''"
| "debug_binary_op BDiv = ''Div''"
| "debug_binary_op BMod = ''Mod''"
| "debug_binary_op BConcat = ''Concat''"
| "debug_binary_op BLike = ''Like''"
| "debug_binary_op BNotLike = ''NotLike''"
| "debug_binary_op BBitAnd = ''BitAnd''"
| "debug_binary_op BBitOr = ''BitOr''"
| "debug_binary_op BShl = ''Shl''"
| "debug_binary_op BShr = ''Shr''"
| "debug_binary_op BIs = ''Is''"
| "debug_binary_op BIsNot = ''IsNot''"

fun debug_expr :: "expr \<Rightarrow> string" where
  "debug_expr ENull = ''Null''"
| "debug_expr (EInteger i) = ''Integer('' @ i64_to_string i @ '')''"
| "debug_expr (EReal r) = ''Real('' @ f64_debug r @ '')''"
| "debug_expr (EString s) = ''String('' @ debug_string s @ '')''"
| "debug_expr (EBlob b) = ''Blob('' @ debug_blob b @ '')''"
| "debug_expr (EIdent s) = ''Ident('' @ debug_string s @ '')''"
| "debug_expr (EQualifiedIdent t c) =
     ''QualifiedIdent { table: '' @ debug_string t @ '', column: '' @ debug_string c @ '' }''"
| "debug_expr EStar = ''Star''"
| "debug_expr (EQualifiedStar s) = ''QualifiedStar('' @ debug_string s @ '')''"
| "debug_expr (EUnaryOp op e) =
     ''UnaryOp { op: '' @ debug_unary_op op @ '', expr: '' @ debug_expr e @ '' }''"
| "debug_expr (EBinaryOp op l r) =
     ''BinaryOp { op: '' @ debug_binary_op op @ '', left: '' @ debug_expr l
     @ '', right: '' @ debug_expr r @ '' }''"
| "debug_expr (EFunction n d args) =
     ''Function { name: '' @ debug_string n @ '', distinct: '' @ debug_bool d
     @ '', args: '' @ debug_list debug_expr args @ '' }''"
| "debug_expr (EIsNull e) = ''IsNull('' @ debug_expr e @ '')''"
| "debug_expr (EIsNotNull e) = ''IsNotNull('' @ debug_expr e @ '')''"
| "debug_expr (EBetween e l h) =
     ''Between { expr: '' @ debug_expr e @ '', low: '' @ debug_expr l
     @ '', high: '' @ debug_expr h @ '' }''"
| "debug_expr (EInList e vs) =
     ''InList { expr: '' @ debug_expr e @ '', values: '' @ debug_list debug_expr vs @ '' }''"
| "debug_expr (ECase b wts e) =
     ''Case { base: '' @ debug_option debug_expr b
     @ '', when_then: '' @ debug_list (\<lambda>(w, t). ''('' @ debug_expr w @ '', '' @ debug_expr t @ '')'') wts
     @ '', else_expr: '' @ debug_option debug_expr e @ '' }''"
| "debug_expr (ECast e t) =
     ''Cast { expr: '' @ debug_expr e @ '', to_type: '' @ debug_column_type t @ '' }''"
| "debug_expr (ECollate e c) =
     ''Collate { expr: '' @ debug_expr e @ '', collation: '' @ debug_string c @ '' }''"
| "debug_expr (EBind n) = ''Bind('' @ nat_to_string n @ '')''"

definition debug_result_column :: "result_column \<Rightarrow> string" where
  "debug_result_column c =
     ''ResultColumn { expr: '' @ debug_expr (rc_expr c)
     @ '', alias: '' @ debug_option debug_string (rc_alias c) @ '' }''"

definition debug_order_term :: "order_term \<Rightarrow> string" where
  "debug_order_term t =
     ''OrderTerm { expr: '' @ debug_expr (ot_expr t) @ '', desc: '' @ debug_bool (ot_desc t) @ '' }''"

fun debug_join_type :: "join_type \<Rightarrow> string" where
  "debug_join_type JCross = ''Cross''"
| "debug_join_type JInner = ''Inner''"
| "debug_join_type JLeft = ''Left''"

fun debug_table_ref :: "table_ref \<Rightarrow> string" and debug_select :: "select \<Rightarrow> string" where
  "debug_table_ref (TTable n a) =
     ''Table { name: '' @ debug_string n @ '', alias: '' @ debug_option debug_string a @ '' }''"
| "debug_table_ref (TSubquery s a) =
     ''Subquery { select: '' @ debug_select s @ '', alias: '' @ debug_string a @ '' }''"
| "debug_table_ref (TJoin l r j c) =
     ''Join { left: '' @ debug_table_ref l @ '', right: '' @ debug_table_ref r
     @ '', join_type: '' @ debug_join_type j @ '', on: '' @ debug_option debug_expr c @ '' }''"
| "debug_select (Select d cs f w g h ob l ofs) =
     ''Select { distinct: '' @ debug_bool d
     @ '', columns: '' @ debug_list debug_result_column cs
     @ '', from: '' @ debug_option debug_table_ref f
     @ '', where_clause: '' @ debug_option debug_expr w
     @ '', group_by: '' @ debug_list debug_expr g
     @ '', having: '' @ debug_option debug_expr h
     @ '', order_by: '' @ debug_list debug_order_term ob
     @ '', limit: '' @ debug_option debug_expr l
     @ '', offset: '' @ debug_option debug_expr ofs @ '' }''"

end
