(* ===== verification/Lexer.thy ===== *)
theory Lexer
  imports Ast
begin

text \<open>
  \<^verbatim>\<open>sqllite-parser/src/lexer.rs\<close>. The token type has one variant per keyword, symbol and kind
  of literal; here the variants without a value are grouped into the keywords the parser looks at,
  the words that are only reserved, and the symbols. The regular expressions of the attributes are
  written down as the table \<open>lex_rules\<close> with the callback of each. The scanner that the
  \<^verbatim>\<open>logos\<close> package generates from them is not part of this code: it is the parameter \<open>lx\<close>, and
  \<open>follows_rules\<close> states what its documentation promises: the longest match wins, and where no rule matches it reports an error and
  moves on.
\<close>

section \<open>Tokens\<close>

datatype keyword =
    KwSelect | KwFrom | KwWhere | KwInsert | KwInto | KwValues | KwUpdate | KwSet | KwDelete
  | KwCreate | KwTable | KwIndex | KwDrop | KwIf | KwNot | KwExists | KwPrimary | KwKey
  | KwAutoincrement | KwNull | KwInteger | KwReal | KwText | KwBlob | KwAnd | KwOr | KwOrder
  | KwBy | KwAsc | KwDesc | KwLimit | KwBegin | KwCommit | KwRollback | KwPragma | KwUnique
  | KwDefault | KwAs | KwOn | KwJoin | KwLeft | KwInner | KwCross | KwGroup | KwHaving
  | KwDistinct | KwCount | KwLike | KwIs | KwReplace | KwIgnore | KwFail | KwAbortKw | KwOffset

datatype reserved =
    ResTransaction | ResIn | ResBetween | ResCase | ResWhen | ResThen | ResElse | ResEnd
  | ResCollate | ResConstraint | ResForeign | ResReferences | ResCheck | ResView | ResTrigger
  | ResTemp | ResTemporary | ResWithout | ResRowid | ResWith | ResUnion | ResAll | ResExcept
  | ResIntersect

datatype symbol =
    SymConcat | SymEqEq | SymNotEq | SymLe | SymGe | SymShl | SymShr | SymEq | SymLt | SymGt
  | SymPlus | SymMinus | SymStar | SymSlash | SymPercent | SymAmp | SymPipe | SymTilde | SymLParen
  | SymRParen | SymComma | SymSemi | SymDot | SymBindParam

datatype token =
    TKw keyword
  | TRes reserved
  | TSym symbol
  | TkIntegerLit i64
  | TkRealLit f64
  | TkStringLit string
  | TkQuotedIdent string
  | TkBacktickIdent string
  | TkBlobLit bytes
  | TkIdent string
  | TkNamedParam string
  | TkAtParam string
  | TkDollarParam string

record spanned_token =
  st_token :: token
  st_start :: nat
  st_end :: nat

text \<open>\<open>mem::discriminant\<close> forgets the value a variant carries.\<close>

fun discriminant :: "token \<Rightarrow> token" where
  "discriminant (TkIntegerLit x) = TkIntegerLit 0"
| "discriminant (TkRealLit x) = TkRealLit 0"
| "discriminant (TkStringLit x) = TkStringLit []"
| "discriminant (TkQuotedIdent x) = TkQuotedIdent []"
| "discriminant (TkBacktickIdent x) = TkBacktickIdent []"
| "discriminant (TkBlobLit x) = TkBlobLit []"
| "discriminant (TkIdent x) = TkIdent []"
| "discriminant (TkNamedParam x) = TkNamedParam []"
| "discriminant (TkAtParam x) = TkAtParam []"
| "discriminant (TkDollarParam x) = TkDollarParam []"
| "discriminant t = t"

section \<open>Regular expressions\<close>

datatype regex =
    RNone
  | REmpty
  | RChar "char \<Rightarrow> bool"
  | RSeq regex regex
  | RAlt regex regex
  | RStar regex

fun nullable :: "regex \<Rightarrow> bool" where
  "nullable RNone = False"
| "nullable REmpty = True"
| "nullable (RChar p) = False"
| "nullable (RSeq a b) = (nullable a \<and> nullable b)"
| "nullable (RAlt a b) = (nullable a \<or> nullable b)"
| "nullable (RStar a) = True"

definition seq_re :: "regex \<Rightarrow> regex \<Rightarrow> regex" where
  "seq_re a b = (case a of RNone \<Rightarrow> RNone | REmpty \<Rightarrow> b | _ \<Rightarrow> RSeq a b)"

definition alt_re :: "regex \<Rightarrow> regex \<Rightarrow> regex" where
  "alt_re a b = (case a of RNone \<Rightarrow> b | _ \<Rightarrow> (case b of RNone \<Rightarrow> a | _ \<Rightarrow> RAlt a b))"

fun deriv :: "char \<Rightarrow> regex \<Rightarrow> regex" where
  "deriv c RNone = RNone"
| "deriv c REmpty = RNone"
| "deriv c (RChar p) = (if p c then REmpty else RNone)"
| "deriv c (RSeq a b) =
     (if nullable a then alt_re (seq_re (deriv c a) b) (deriv c b) else seq_re (deriv c a) b)"
| "deriv c (RAlt a b) = alt_re (deriv c a) (deriv c b)"
| "deriv c (RStar a) = seq_re (deriv c a) (RStar a)"

text \<open>The length of the longest prefix that matches, if one does.\<close>

fun longest_from :: "regex \<Rightarrow> nat \<Rightarrow> nat option \<Rightarrow> string \<Rightarrow> nat option" where
  "longest_from r k best s =
     (let best' = (if nullable r then Some k else best) in
      case s of [] \<Rightarrow> best'
      | c # cs \<Rightarrow> (case r of RNone \<Rightarrow> best' | _ \<Rightarrow> longest_from (deriv c r) (Suc k) best' cs))"

declare longest_from.simps [simp del]

definition longest :: "regex \<Rightarrow> string \<Rightarrow> nat option" where
  "longest r s = longest_from r 0 None s"

definition char_in :: "nat \<Rightarrow> nat \<Rightarrow> char \<Rightarrow> bool" where
  "char_in a b c = (a \<le> of_char c \<and> of_char c \<le> b)"

definition is_letter :: "char \<Rightarrow> bool" where
  "is_letter c = (char_in 65 90 c \<or> char_in 97 122 c \<or> c = CHR ''_'')"

definition is_word :: "char \<Rightarrow> bool" where
  "is_word c = (is_letter c \<or> is_digit c)"

definition is_hex :: "char \<Rightarrow> bool" where
  "is_hex c = (is_digit c \<or> char_in 65 70 c \<or> char_in 97 102 c)"

fun re_seq :: "regex list \<Rightarrow> regex" where
  "re_seq [] = REmpty"
| "re_seq [r] = r"
| "re_seq (r # q # rs) = RSeq r (re_seq (q # rs))"

definition re_lit :: "string \<Rightarrow> regex" where
  "re_lit s = re_seq (map (\<lambda>c. RChar (\<lambda>d. d = c)) s)"

definition re_nocase :: "string \<Rightarrow> regex" where
  "re_nocase s = re_seq (map (\<lambda>c. RChar (\<lambda>d. ascii_lower d = ascii_lower c)) s)"

definition re_plus :: "regex \<Rightarrow> regex" where
  "re_plus r = RSeq r (RStar r)"

definition re_opt :: "regex \<Rightarrow> regex" where
  "re_opt r = RAlt REmpty r"

abbreviation backslash :: char where
  "backslash \<equiv> CHR 0x5C"

definition re_dot :: regex where
  "re_dot = RChar (\<lambda>c. c \<noteq> CHR 0x0A)"

definition re_word :: regex where
  "re_word = RSeq (RChar is_letter) (RStar (RChar is_word))"

definition re_integer :: regex where
  "re_integer = RSeq (re_opt (re_lit ''-'')) (re_plus (RChar is_digit))"

definition re_real :: regex where
  "re_real =
     re_seq [re_integer, re_lit ''.'', re_plus (RChar is_digit),
       re_opt (re_seq [RChar (\<lambda>c. c = CHR ''e'' \<or> c = CHR ''E''),
         re_opt (RChar (\<lambda>c. c = CHR ''+'' \<or> c = CHR ''-'')), re_plus (RChar is_digit)])]"

text \<open>A quoted run: plain characters, backslash pairs and doubled quotes.\<close>

definition re_quoted :: "char \<Rightarrow> regex" where
  "re_quoted q =
     re_seq [re_lit [q],
       RStar (RAlt (RChar (\<lambda>c. c \<noteq> q \<and> c \<noteq> backslash))
               (RAlt (RSeq (re_lit [backslash]) re_dot) (re_lit [q, q]))),
       re_lit [q]]"

definition re_blob :: regex where
  "re_blob =
     re_seq [RChar (\<lambda>c. c = CHR ''x'' \<or> c = CHR ''X''), re_lit [CHR 0x27], RStar (RChar is_hex),
       re_lit [CHR 0x27]]"

definition re_space :: regex where
  "re_space = re_plus (RChar (\<lambda>c. c \<in> {CHR '' '', CHR 0x09, CHR 0x0D, CHR 0x0A, CHR 0x0C}))"

definition re_line_comment :: regex where
  "re_line_comment = RSeq (re_lit ''--'') (RStar (RChar (\<lambda>c. c \<noteq> CHR 0x0A)))"

definition re_block_comment :: regex where
  "re_block_comment =
     re_seq [re_lit ''/*'',
       RStar (RAlt (RChar (\<lambda>c. c \<noteq> CHR ''*''))
               (RSeq (re_lit ''*'') (RChar (\<lambda>c. c \<noteq> CHR ''/'')))),
       re_lit ''*/'']"

section \<open>Literals\<close>

text \<open>The text inside the quotes; a slice that does not exist panics.\<close>

definition inner_text :: "nat \<Rightarrow> string \<Rightarrow> string res" where
  "inner_text k s = (if length s = 0 then panic else slice s k (length s - 1))"

fun unescape_sql_string :: "string \<Rightarrow> string" where
  "unescape_sql_string [] = []"
| "unescape_sql_string (c # cs) =
     (if c = CHR 0x27 then
        (case cs of [] \<Rightarrow> CHR 0x27 # unescape_sql_string cs
         | d # ds \<Rightarrow> (if d = CHR 0x27 then CHR 0x27 # unescape_sql_string ds
                     else CHR 0x27 # unescape_sql_string cs))
      else if c = backslash then
        (case cs of [] \<Rightarrow> [] | d # ds \<Rightarrow> d # unescape_sql_string ds)
      else c # unescape_sql_string cs)"

text \<open>\<open>inner.replace(qq, q)\<close> for a quote character.\<close>

fun halve_quotes :: "char \<Rightarrow> string \<Rightarrow> string" where
  "halve_quotes q [] = []"
| "halve_quotes q [c] = [c]"
| "halve_quotes q (c # d # cs) =
     (if c = q \<and> d = q then q # halve_quotes q cs else c # halve_quotes q (d # cs))"

definition parse_string :: "string \<Rightarrow> string option res" where
  "parse_string s = bindR (inner_text 1 s) (\<lambda>inner. Inr (Some (unescape_sql_string inner)))"

definition parse_ident_string :: "string \<Rightarrow> string option res" where
  "parse_ident_string s = bindR (inner_text 1 s) (\<lambda>inner. Inr (Some (halve_quotes (CHR 0x22) inner)))"

definition parse_backtick_ident :: "string \<Rightarrow> string option res" where
  "parse_backtick_ident s = bindR (inner_text 1 s) (\<lambda>inner. Inr (Some (halve_quotes (CHR 0x60) inner)))"

definition parse_float :: "string \<Rightarrow> f64 option" where
  "parse_float s = parse_f64 s"

definition hex_value :: "char \<Rightarrow> nat option" where
  "hex_value c =
     (let n = of_char c :: nat in
      if is_digit c then Some (n - 48)
      else if char_in 97 102 c then Some (n - 87)
      else if char_in 65 70 c then Some (n - 55)
      else None)"

text \<open>\<open>u8::from_str_radix(s, 16)\<close> on two characters, of which the first may be a plus sign.\<close>

definition hex_byte :: "char \<Rightarrow> char \<Rightarrow> u8 option" where
  "hex_byte a b =
     (case (if a = CHR ''+'' then Some 0 else hex_value a, hex_value b) of
        (Some x, Some y) \<Rightarrow> Some (of_nat (16 * x + y))
      | _ \<Rightarrow> None)"

fun hex_bytes :: "string \<Rightarrow> bytes option" where
  "hex_bytes [] = Some []"
| "hex_bytes [c] = None"
| "hex_bytes (a # b # cs) =
     (case hex_byte a b of None \<Rightarrow> None
      | Some x \<Rightarrow> (case hex_bytes cs of None \<Rightarrow> None | Some xs \<Rightarrow> Some (x # xs)))"

definition parse_blob :: "string \<Rightarrow> bytes option res" where
  "parse_blob s =
     bindR (inner_text 2 s) (\<lambda>hex.
       if odd (length hex) then Inr None else Inr (hex_bytes hex))"

section \<open>The rules\<close>

datatype lex_action = Skip | Emit token | Callback "string \<Rightarrow> token option res"

definition callback :: "('a \<Rightarrow> token) \<Rightarrow> (string \<Rightarrow> 'a option res) \<Rightarrow> lex_action" where
  "callback mk f = Callback (\<lambda>s. bindR (f s) (\<lambda>x. Inr (map_option mk x)))"

definition keyword_rules :: "(string \<times> token) list" where
  "keyword_rules =
    [(''SELECT'', TKw KwSelect), (''FROM'', TKw KwFrom), (''WHERE'', TKw KwWhere),
     (''INSERT'', TKw KwInsert), (''INTO'', TKw KwInto), (''VALUES'', TKw KwValues),
     (''UPDATE'', TKw KwUpdate), (''SET'', TKw KwSet), (''DELETE'', TKw KwDelete),
     (''CREATE'', TKw KwCreate), (''TABLE'', TKw KwTable), (''INDEX'', TKw KwIndex),
     (''DROP'', TKw KwDrop), (''IF'', TKw KwIf), (''NOT'', TKw KwNot),
     (''EXISTS'', TKw KwExists), (''PRIMARY'', TKw KwPrimary), (''KEY'', TKw KwKey),
     (''AUTOINCREMENT'', TKw KwAutoincrement), (''NULL'', TKw KwNull),
     (''INTEGER'', TKw KwInteger), (''REAL'', TKw KwReal), (''TEXT'', TKw KwText),
     (''BLOB'', TKw KwBlob), (''AND'', TKw KwAnd), (''OR'', TKw KwOr),
     (''ORDER'', TKw KwOrder), (''BY'', TKw KwBy), (''ASC'', TKw KwAsc),
     (''DESC'', TKw KwDesc), (''LIMIT'', TKw KwLimit), (''BEGIN'', TKw KwBegin),
     (''COMMIT'', TKw KwCommit), (''ROLLBACK'', TKw KwRollback),
     (''TRANSACTION'', TRes ResTransaction), (''PRAGMA'', TKw KwPragma),
     (''UNIQUE'', TKw KwUnique), (''DEFAULT'', TKw KwDefault), (''AS'', TKw KwAs),
     (''ON'', TKw KwOn), (''JOIN'', TKw KwJoin), (''LEFT'', TKw KwLeft),
     (''INNER'', TKw KwInner), (''CROSS'', TKw KwCross), (''GROUP'', TKw KwGroup),
     (''HAVING'', TKw KwHaving), (''DISTINCT'', TKw KwDistinct), (''COUNT'', TKw KwCount),
     (''LIKE'', TKw KwLike), (''IS'', TKw KwIs), (''IN'', TRes ResIn),
     (''BETWEEN'', TRes ResBetween), (''CASE'', TRes ResCase), (''WHEN'', TRes ResWhen),
     (''THEN'', TRes ResThen), (''ELSE'', TRes ResElse), (''END'', TRes ResEnd),
     (''COLLATE'', TRes ResCollate), (''CONSTRAINT'', TRes ResConstraint),
     (''FOREIGN'', TRes ResForeign), (''REFERENCES'', TRes ResReferences),
     (''CHECK'', TRes ResCheck), (''VIEW'', TRes ResView), (''TRIGGER'', TRes ResTrigger),
     (''TEMP'', TRes ResTemp), (''TEMPORARY'', TRes ResTemporary),
     (''WITHOUT'', TRes ResWithout), (''ROWID'', TRes ResRowid), (''REPLACE'', TKw KwReplace),
     (''IGNORE'', TKw KwIgnore), (''FAIL'', TKw KwFail), (''ABORT'', TKw KwAbortKw),
     (''WITH'', TRes ResWith), (''UNION'', TRes ResUnion), (''ALL'', TRes ResAll),
     (''EXCEPT'', TRes ResExcept), (''INTERSECT'', TRes ResIntersect),
     (''OFFSET'', TKw KwOffset)]"

definition symbol_rules :: "(string \<times> token) list" where
  "symbol_rules =
    [(''||'', TSym SymConcat), (''=='', TSym SymEqEq), (''!='', TSym SymNotEq),
     (''<>'', TSym SymNotEq), (''<='', TSym SymLe), (''>='', TSym SymGe),
     (''<<'', TSym SymShl), (''>>'', TSym SymShr), (''='', TSym SymEq), (''<'', TSym SymLt),
     (''>'', TSym SymGt), (''+'', TSym SymPlus), (''-'', TSym SymMinus), (''*'', TSym SymStar),
     (''/'', TSym SymSlash), (''%'', TSym SymPercent), (''&'', TSym SymAmp),
     (''|'', TSym SymPipe), (''~'', TSym SymTilde), (''('', TSym SymLParen),
     ('')'', TSym SymRParen), ('','', TSym SymComma), ('';'', TSym SymSemi),
     (''.'', TSym SymDot)]"

definition lex_rules :: "(regex \<times> lex_action) list" where
  "lex_rules =
     [(re_space, Skip), (re_line_comment, Skip), (re_block_comment, Skip)]
     @ map (\<lambda>(w, t). (re_nocase w, Emit t)) keyword_rules
     @ map (\<lambda>(w, t). (re_lit w, Emit t)) symbol_rules
     @ [(re_integer, callback TkIntegerLit (\<lambda>s. Inr (parse_i64 s))),
        (re_real, callback TkRealLit (\<lambda>s. Inr (parse_float s))),
        (re_quoted (CHR 0x27), callback TkStringLit parse_string),
        (re_quoted (CHR 0x22), callback TkQuotedIdent parse_ident_string),
        (re_quoted (CHR 0x60), callback TkBacktickIdent parse_backtick_ident),
        (re_blob, callback TkBlobLit parse_blob),
        (re_word, callback TkIdent (\<lambda>s. Inr (Some s))),
        (re_lit ''?'', Emit (TSym SymBindParam)),
        (RSeq (re_lit '':'') re_word, callback TkNamedParam (\<lambda>s. bindR (slice s 1 (length s)) (\<lambda>x. Inr (Some x)))),
        (RSeq (re_lit ''@'') re_word, callback TkAtParam (\<lambda>s. bindR (slice s 1 (length s)) (\<lambda>x. Inr (Some x)))),
        (RSeq (re_lit ''$'') re_word, callback TkDollarParam (\<lambda>s. bindR (slice s 1 (length s)) (\<lambda>x. Inr (Some x))))]"

section \<open>The scanner\<close>

text \<open>What the generated scanner reports at the start of a rest of the input: the rule that matched
  and the length of the match, or an error and the length it skips.\<close>

datatype lex_step = Matched nat nat | LexError nat

type_synonym logos = "string \<Rightarrow> lex_step"

text \<open>The rule with the longest match; of two equal ones the first, which is the more specific.\<close>

fun best_rule :: "nat \<Rightarrow> (regex \<times> lex_action) list \<Rightarrow> string \<Rightarrow> (nat \<times> nat) option" where
  "best_rule i [] s = None"
| "best_rule i ((r, a) # rs) s =
     (case longest r s of
        None \<Rightarrow> best_rule (Suc i) rs s
      | Some n \<Rightarrow>
          (case best_rule (Suc i) rs s of
             None \<Rightarrow> if 0 < n then Some (i, n) else None
           | Some (j, m) \<Rightarrow> if m \<le> n then Some (i, n) else Some (j, m)))"

definition follows_rules :: "logos \<Rightarrow> bool" where
  "follows_rules lx =
     (\<forall>s. s \<noteq> [] \<longrightarrow>
        (case best_rule 0 lex_rules s of
           Some (i, n) \<Rightarrow> lx s = Matched i n
         | None \<Rightarrow> (\<exists>n. lx s = LexError n \<and> 0 < n \<and> n \<le> length s)))"

text \<open>A scanner that does what the rules say and skips one byte otherwise.\<close>

definition rule_scanner :: logos where
  "rule_scanner s =
     (case best_rule 0 lex_rules s of Some (i, n) \<Rightarrow> Matched i n | None \<Rightarrow> LexError 1)"

lemma rule_scanner_follows: "follows_rules rule_scanner"
  by (auto simp: follows_rules_def rule_scanner_def Suc_le_eq split: option.split)

fun tokenize_loop :: "logos \<Rightarrow> nat \<Rightarrow> string \<Rightarrow> nat \<Rightarrow> spanned_token list res" where
  "tokenize_loop lx 0 s at = Inl Diverge"
| "tokenize_loop lx (Suc fuel) s at =
     (if s = [] then Inr []
      else (case lx s of
        LexError n \<Rightarrow> tokenize_loop lx fuel (drop n s) (at + n)
      | Matched i n \<Rightarrow>
          (case snd (lex_rules ! i) of
             Skip \<Rightarrow> tokenize_loop lx fuel (drop n s) (at + n)
           | Emit t \<Rightarrow>
               bindR (tokenize_loop lx fuel (drop n s) (at + n)) (\<lambda>ts.
                 Inr (\<lparr>st_token = t, st_start = at, st_end = at + n\<rparr> # ts))
           | Callback f \<Rightarrow>
               bindR (f (take n s)) (\<lambda>r.
               bindR (tokenize_loop lx fuel (drop n s) (at + n)) (\<lambda>ts.
                 case r of None \<Rightarrow> Inr ts
                 | Some t \<Rightarrow> Inr (\<lparr>st_token = t, st_start = at, st_end = at + n\<rparr> # ts))))))"

definition tokenize :: "logos \<Rightarrow> string \<Rightarrow> spanned_token list res" where
  "tokenize lx sql = tokenize_loop lx (length sql + 1) sql 0"

section \<open>Debug text of tokens\<close>

text \<open>The variants in the order of their declaration, with their names.\<close>

definition token_variants :: "(token \<times> string) list" where
  "token_variants =
    [(TKw KwSelect, ''Select''), (TKw KwFrom, ''From''), (TKw KwWhere, ''Where''),
     (TKw KwInsert, ''Insert''), (TKw KwInto, ''Into''), (TKw KwValues, ''Values''),
     (TKw KwUpdate, ''Update''), (TKw KwSet, ''Set''), (TKw KwDelete, ''Delete''),
     (TKw KwCreate, ''Create''), (TKw KwTable, ''Table''), (TKw KwIndex, ''Index''),
     (TKw KwDrop, ''Drop''), (TKw KwIf, ''If''), (TKw KwNot, ''Not''),
     (TKw KwExists, ''Exists''), (TKw KwPrimary, ''Primary''), (TKw KwKey, ''Key''),
     (TKw KwAutoincrement, ''Autoincrement''), (TKw KwNull, ''Null''),
     (TKw KwInteger, ''Integer''), (TKw KwReal, ''Real''), (TKw KwText, ''Text''),
     (TKw KwBlob, ''Blob''), (TKw KwAnd, ''And''), (TKw KwOr, ''Or''),
     (TKw KwOrder, ''Order''), (TKw KwBy, ''By''), (TKw KwAsc, ''Asc''),
     (TKw KwDesc, ''Desc''), (TKw KwLimit, ''Limit''), (TKw KwBegin, ''Begin''),
     (TKw KwCommit, ''Commit''), (TKw KwRollback, ''Rollback''),
     (TRes ResTransaction, ''Transaction''), (TKw KwPragma, ''Pragma''),
     (TKw KwUnique, ''Unique''), (TKw KwDefault, ''Default''), (TKw KwAs, ''As''),
     (TKw KwOn, ''On''), (TKw KwJoin, ''Join''), (TKw KwLeft, ''Left''),
     (TKw KwInner, ''Inner''), (TKw KwCross, ''Cross''), (TKw KwGroup, ''Group''),
     (TKw KwHaving, ''Having''), (TKw KwDistinct, ''Distinct''), (TKw KwCount, ''Count''),
     (TKw KwLike, ''Like''), (TKw KwIs, ''Is''), (TRes ResIn, ''In''),
     (TRes ResBetween, ''Between''), (TRes ResCase, ''Case''), (TRes ResWhen, ''When''),
     (TRes ResThen, ''Then''), (TRes ResElse, ''Else''), (TRes ResEnd, ''End''),
     (TRes ResCollate, ''Collate''), (TRes ResConstraint, ''Constraint''),
     (TRes ResForeign, ''Foreign''), (TRes ResReferences, ''References''),
     (TRes ResCheck, ''Check''), (TRes ResView, ''View''), (TRes ResTrigger, ''Trigger''),
     (TRes ResTemp, ''Temp''), (TRes ResTemporary, ''Temporary''),
     (TRes ResWithout, ''Without''), (TRes ResRowid, ''Rowid''), (TKw KwReplace, ''Replace''),
     (TKw KwIgnore, ''Ignore''), (TKw KwFail, ''Fail''), (TKw KwAbortKw, ''AbortKw''),
     (TRes ResWith, ''With''), (TRes ResUnion, ''Union''), (TRes ResAll, ''All''),
     (TRes ResExcept, ''Except''), (TRes ResIntersect, ''Intersect''),
     (TKw KwOffset, ''Offset''), (TSym SymConcat, ''Concat''), (TSym SymEqEq, ''EqEq''),
     (TSym SymNotEq, ''NotEq''), (TSym SymLe, ''Le''), (TSym SymGe, ''Ge''),
     (TSym SymShl, ''Shl''), (TSym SymShr, ''Shr''), (TSym SymEq, ''Eq''),
     (TSym SymLt, ''Lt''), (TSym SymGt, ''Gt''), (TSym SymPlus, ''Plus''),
     (TSym SymMinus, ''Minus''), (TSym SymStar, ''Star''), (TSym SymSlash, ''Slash''),
     (TSym SymPercent, ''Percent''), (TSym SymAmp, ''Amp''), (TSym SymPipe, ''Pipe''),
     (TSym SymTilde, ''Tilde''), (TSym SymLParen, ''LParen''), (TSym SymRParen, ''RParen''),
     (TSym SymComma, ''Comma''), (TSym SymSemi, ''Semi''), (TSym SymDot, ''Dot''),
     (TkIntegerLit 0, ''IntegerLit''), (TkRealLit 0, ''RealLit''),
     (TkStringLit [], ''StringLit''), (TkQuotedIdent [], ''QuotedIdent''),
     (TkBacktickIdent [], ''BacktickIdent''), (TkBlobLit [], ''BlobLit''),
     (TkIdent [], ''Ident''), (TSym SymBindParam, ''BindParam''),
     (TkNamedParam [], ''NamedParam''), (TkAtParam [], ''AtParam''),
     (TkDollarParam [], ''DollarParam'')]"

definition variant_name :: "token \<Rightarrow> string" where
  "variant_name t = (case map_of token_variants (discriminant t) of Some n \<Rightarrow> n | None \<Rightarrow> [])"

definition variant_index :: "token \<Rightarrow> nat" where
  "variant_index t =
     length (takeWhile (\<lambda>(v, n). v \<noteq> discriminant t) token_variants)"

fun token_value :: "token \<Rightarrow> string option" where
  "token_value (TkIntegerLit i) = Some (i64_to_string i)"
| "token_value (TkRealLit r) = Some (f64_debug r)"
| "token_value (TkStringLit s) = Some (debug_string s)"
| "token_value (TkQuotedIdent s) = Some (debug_string s)"
| "token_value (TkBacktickIdent s) = Some (debug_string s)"
| "token_value (TkBlobLit b) = Some (debug_blob b)"
| "token_value (TkIdent s) = Some (debug_string s)"
| "token_value (TkNamedParam s) = Some (debug_string s)"
| "token_value (TkAtParam s) = Some (debug_string s)"
| "token_value (TkDollarParam s) = Some (debug_string s)"
| "token_value t = None"

definition debug_token :: "token \<Rightarrow> string" where
  "debug_token t =
     variant_name t @ (case token_value t of None \<Rightarrow> [] | Some v \<Rightarrow> ''('' @ v @ '')'')"

definition debug_discriminant :: "token \<Rightarrow> string" where
  "debug_discriminant t = ''Discriminant('' @ nat_to_string (variant_index t) @ '')''"

end
