(* ===== verification/Parser.thy ===== *)
theory Parser
  imports Lexer
begin

text \<open>
  The recursive-descent parser of \<^verbatim>\<open>sqllite-parser/src/parser/parser_impl.rs\<close> and its entry points
  in \<^verbatim>\<open>parser/mod.rs\<close>. A \<^verbatim>\<open>&mut self\<close> method is a computation on the parser state. The methods
  between \<open>parse_expr\<close> and \<open>parse_primary_expr\<close> take the two recursive calls they can reach,
  \<open>pe\<close> for \<^verbatim>\<open>parse_expr\<close> and \<open>psel\<close> for \<^verbatim>\<open>parse_select\<close>, as arguments; \<open>parse_expr\<close> and
  \<open>parse_select\<close> tie the knot. Loops and recursion take fuel; \<open>parse_one\<close> and \<open>parse_all\<close> start
  with more of it than there are tokens, which \<^verbatim>\<open>Parser_Total\<close> shows to be enough.
\<close>

section \<open>State and token helpers\<close>

record parser =
  p_tokens :: "spanned_token list"
  p_pos :: nat

type_synonym 'a pm = "(parser, 'a) sres"

datatype parse_error = Syntax string string | Eof

fun parse_error_text :: "parse_error \<Rightarrow> string" where
  "parse_error_text (Syntax found message) =
     ''parse error near '' @ [CHR 0x22] @ found @ [CHR 0x22] @ '': '' @ message"
| "parse_error_text Eof = ''unexpected end of input''"

definition parser_new :: "spanned_token list \<Rightarrow> parser" where
  "parser_new ts = \<lparr>p_tokens = ts, p_pos = 0\<rparr>"

definition is_at_end :: "parser \<Rightarrow> bool" where
  "is_at_end ps = (length (p_tokens ps) \<le> p_pos ps)"

definition current_token :: "parser \<Rightarrow> token option" where
  "current_token ps =
     (if p_pos ps < length (p_tokens ps) then Some (st_token (p_tokens ps ! p_pos ps)) else None)"

definition advance :: "token option pm" where
  "advance =
     bindS (getS is_at_end) (\<lambda>e.
     bindS (if e then retS () else modifyS (p_pos_update Suc)) (\<lambda>_.
     bindS (getS p_pos) (\<lambda>p.
       if p = 0 then throwS Panic
       else getS (\<lambda>ps. current_token (ps\<lparr>p_pos := p - 1\<rparr>)))))"

definition check :: "token \<Rightarrow> parser \<Rightarrow> bool" where
  "check t ps =
     (case current_token ps of None \<Rightarrow> False | Some u \<Rightarrow> discriminant u = discriminant t)"

definition match_token :: "token \<Rightarrow> bool pm" where
  "match_token t =
     bindS (getS (check t)) (\<lambda>c.
       if c then bindS advance (\<lambda>_. retS True) else retS False)"

definition parser_error :: "string \<Rightarrow> 'a pm" where
  "parser_error message =
     bindS (getS current_token) (\<lambda>t.
       throwS (Fail (Parse (parse_error_text (Syntax
         (case t of None \<Rightarrow> ''end of input'' | Some u \<Rightarrow> debug_token u) message)))))"

definition expect :: "token \<Rightarrow> unit pm" where
  "expect t =
     bindS (match_token t) (\<lambda>b.
       if b then retS () else parser_error (''expected '' @ debug_discriminant t))"

fun ident_text :: "token \<Rightarrow> string option" where
  "ident_text (TkIdent s) = Some s"
| "ident_text (TkQuotedIdent s) = Some s"
| "ident_text (TkBacktickIdent s) = Some s"
| "ident_text t = None"

definition check_ident :: "parser \<Rightarrow> bool" where
  "check_ident ps =
     (case current_token ps of None \<Rightarrow> False | Some t \<Rightarrow> ident_text t \<noteq> None)"

definition at_join :: "parser \<Rightarrow> bool" where
  "at_join ps = (current_token ps \<in> {Some (TKw KwJoin), Some (TKw KwInner), Some (TKw KwLeft), Some (TKw KwCross)})"

definition is_join_keyword :: "parser \<Rightarrow> bool" where
  "is_join_keyword ps =
     (current_token ps \<in> {Some (TKw KwJoin), Some (TKw KwOn), Some (TKw KwWhere), Some (TKw KwOrder),
        Some (TKw KwGroup), Some (TKw KwLimit), Some (TSym SymComma)})"

text \<open>A chain of \<open>if self.match_token(..)\<close>, the optional clause behind a keyword and the loop
  over items separated by commas.\<close>

fun match_first :: "(token \<times> 'a) list \<Rightarrow> 'a option pm" where
  "match_first [] = retS None"
| "match_first ((t, x) # ts) =
     bindS (match_token t) (\<lambda>b. if b then retS (Some x) else match_first ts)"

definition opt_after :: "token \<Rightarrow> 'a pm \<Rightarrow> 'a option pm" where
  "opt_after t m =
     bindS (match_token t) (\<lambda>b.
       if b then bindS m (\<lambda>x. retS (Some x)) else retS None)"

fun comma_list :: "nat \<Rightarrow> 'a pm \<Rightarrow> 'a list pm" where
  "comma_list 0 item = throwS Diverge"
| "comma_list (Suc n) item =
     bindS item (\<lambda>x.
     bindS (match_token (TSym SymComma)) (\<lambda>c.
       if c then bindS (comma_list n item) (\<lambda>xs. retS (x # xs)) else retS [x]))"

definition parse_ident :: "string pm" where
  "parse_ident =
     bindS (getS current_token) (\<lambda>t.
       case (case t of None \<Rightarrow> None | Some u \<Rightarrow> ident_text u) of
         Some s \<Rightarrow> bindS advance (\<lambda>_. retS s)
       | None \<Rightarrow> parser_error ''expected identifier'')"

section \<open>Expressions\<close>

fun binary_loop :: "nat \<Rightarrow> binary_op option pm \<Rightarrow> expr pm \<Rightarrow> expr \<Rightarrow> expr pm" where
  "binary_loop 0 next_op operand left = throwS Diverge"
| "binary_loop (Suc n) next_op operand left =
     bindS next_op (\<lambda>r.
       case r of None \<Rightarrow> retS left
       | Some op \<Rightarrow>
           bindS operand (\<lambda>right. binary_loop n next_op operand (EBinaryOp op left right)))"

definition or_op :: "binary_op option pm" where
  "or_op = match_first [(TKw KwOr, BOr)]"

definition and_op :: "binary_op option pm" where
  "and_op = match_first [(TKw KwAnd, BAnd)]"

definition comparison_op :: "binary_op option pm" where
  "comparison_op =
     bindS (match_first
       [(TSym SymEq, BEq), (TSym SymEqEq, BEq), (TSym SymNotEq, BNotEq), (TSym SymLt, BLt),
        (TSym SymLe, BLe), (TSym SymGt, BGt), (TSym SymGe, BGe), (TKw KwLike, BLike),
        (TKw KwIs, BIs)]) (\<lambda>r.
       if r = Some BIs
       then bindS (match_token (TKw KwNot)) (\<lambda>n. retS (Some (if n then BIsNot else BIs)))
       else retS r)"

definition additive_op :: "binary_op option pm" where
  "additive_op =
     match_first [(TSym SymPlus, BAdd), (TSym SymMinus, BSub), (TSym SymConcat, BConcat)]"

definition multiplicative_op :: "binary_op option pm" where
  "multiplicative_op =
     match_first [(TSym SymStar, BMul), (TSym SymSlash, BDiv), (TSym SymPercent, BMod)]"

definition parse_count :: "nat \<Rightarrow> expr pm \<Rightarrow> expr pm" where
  "parse_count n pe =
     bindS advance (\<lambda>_.
     bindS (expect (TSym SymLParen)) (\<lambda>_.
     bindS (match_token (TKw KwDistinct)) (\<lambda>distinct.
     bindS (match_token (TSym SymStar)) (\<lambda>star.
     bindS (if star then retS [EStar] else comma_list n pe) (\<lambda>args.
     bindS (expect (TSym SymRParen)) (\<lambda>_.
       retS (EFunction ''count'' distinct args)))))))"

definition parse_named :: "nat \<Rightarrow> expr pm \<Rightarrow> string \<Rightarrow> expr pm" where
  "parse_named n pe name =
     bindS advance (\<lambda>_.
     bindS (match_token (TSym SymLParen)) (\<lambda>call.
       if call
       then bindS (getS (check (TSym SymRParen))) (\<lambda>empty.
            bindS (if empty then retS [] else comma_list n pe) (\<lambda>args.
            bindS (expect (TSym SymRParen)) (\<lambda>_. retS (EFunction name False args))))
       else bindS (match_token (TSym SymDot)) (\<lambda>dot.
              if dot then bindS parse_ident (\<lambda>col. retS (EQualifiedIdent name col))
              else retS (EIdent name))))"

definition parse_parens :: "expr pm \<Rightarrow> select pm \<Rightarrow> expr pm" where
  "parse_parens pe psel =
     bindS advance (\<lambda>_.
     bindS (match_token (TKw KwSelect)) (\<lambda>sub.
       if sub
       then bindS psel (\<lambda>select.
            bindS (expect (TSym SymRParen)) (\<lambda>_.
              retS (EIdent (''('' @ debug_select select @ '')''))))
       else bindS pe (\<lambda>e. bindS (expect (TSym SymRParen)) (\<lambda>_. retS e))))"

fun literal_expr :: "token \<Rightarrow> expr option" where
  "literal_expr (TkIntegerLit n) = Some (EInteger n)"
| "literal_expr (TkRealLit r) = Some (EReal r)"
| "literal_expr (TkStringLit s) = Some (EString s)"
| "literal_expr (TkBlobLit b) = Some (EBlob b)"
| "literal_expr (TSym s) = (if s = SymStar then Some EStar else None)"
| "literal_expr t = None"

definition parse_primary_expr :: "nat \<Rightarrow> expr pm \<Rightarrow> select pm \<Rightarrow> expr pm" where
  "parse_primary_expr n pe psel =
     bindS (match_token (TKw KwNull)) (\<lambda>null.
       if null then retS ENull
       else bindS (getS current_token) (\<lambda>current.
         case current of
           None \<Rightarrow> parser_error ''expected expression''
         | Some t \<Rightarrow>
             (case literal_expr t of
                Some e \<Rightarrow> bindS advance (\<lambda>_. retS e)
              | None \<Rightarrow>
                  if t = TSym SymLParen then parse_parens pe psel
                  else if t = TKw KwCount then parse_count n pe
                  else (case ident_text t of
                      Some name \<Rightarrow> parse_named n pe name
                    | None \<Rightarrow> parser_error ''expected expression''))))"

fun parse_unary_expr :: "nat \<Rightarrow> nat \<Rightarrow> expr pm \<Rightarrow> select pm \<Rightarrow> expr pm" where
  "parse_unary_expr 0 n pe psel = throwS Diverge"
| "parse_unary_expr (Suc k) n pe psel =
     bindS (match_token (TSym SymMinus)) (\<lambda>minus.
       if minus then bindS (parse_unary_expr k n pe psel) (\<lambda>e. retS (EUnaryOp UMinus e))
       else bindS (match_token (TSym SymPlus)) (\<lambda>plus.
         if plus then parse_unary_expr k n pe psel
         else parse_primary_expr n pe psel))"

definition parse_multiplicative_expr :: "nat \<Rightarrow> expr pm \<Rightarrow> select pm \<Rightarrow> expr pm" where
  "parse_multiplicative_expr n pe psel =
     bindS (parse_unary_expr n n pe psel)
       (binary_loop n multiplicative_op (parse_unary_expr n n pe psel))"

definition parse_additive_expr :: "nat \<Rightarrow> expr pm \<Rightarrow> select pm \<Rightarrow> expr pm" where
  "parse_additive_expr n pe psel =
     bindS (parse_multiplicative_expr n pe psel)
       (binary_loop n additive_op (parse_multiplicative_expr n pe psel))"

definition parse_comparison_expr :: "nat \<Rightarrow> expr pm \<Rightarrow> select pm \<Rightarrow> expr pm" where
  "parse_comparison_expr n pe psel =
     bindS (parse_additive_expr n pe psel)
       (binary_loop n comparison_op (parse_additive_expr n pe psel))"

fun parse_not_expr :: "nat \<Rightarrow> nat \<Rightarrow> expr pm \<Rightarrow> select pm \<Rightarrow> expr pm" where
  "parse_not_expr 0 n pe psel = throwS Diverge"
| "parse_not_expr (Suc k) n pe psel =
     bindS (match_token (TKw KwNot)) (\<lambda>b.
       if b then bindS (parse_not_expr k n pe psel) (\<lambda>e. retS (EUnaryOp UNot e))
       else parse_comparison_expr n pe psel)"

definition parse_and_expr :: "nat \<Rightarrow> expr pm \<Rightarrow> select pm \<Rightarrow> expr pm" where
  "parse_and_expr n pe psel =
     bindS (parse_not_expr n n pe psel) (binary_loop n and_op (parse_not_expr n n pe psel))"

definition parse_or_expr :: "nat \<Rightarrow> expr pm \<Rightarrow> select pm \<Rightarrow> expr pm" where
  "parse_or_expr n pe psel =
     bindS (parse_and_expr n pe psel) (binary_loop n or_op (parse_and_expr n pe psel))"

section \<open>Queries\<close>

definition parse_result_column :: "expr pm \<Rightarrow> result_column pm" where
  "parse_result_column pe =
     bindS pe (\<lambda>e.
     bindS (opt_after (TKw KwAs) parse_ident) (\<lambda>a.
       retS \<lparr>rc_expr = e, rc_alias = a\<rparr>))"

definition parse_result_columns :: "nat \<Rightarrow> expr pm \<Rightarrow> result_column list pm" where
  "parse_result_columns n pe =
     bindS (match_token (TSym SymStar)) (\<lambda>star.
       if star then retS [\<lparr>rc_expr = EStar, rc_alias = None\<rparr>]
       else comma_list n (parse_result_column pe))"

definition parse_table_alias :: "string option pm" where
  "parse_table_alias =
     bindS (getS (\<lambda>ps. check_ident ps \<and> \<not> is_join_keyword ps)) (\<lambda>b.
       if b then bindS parse_ident (\<lambda>a. retS (Some a)) else retS None)"

definition parse_join_type :: "join_type pm" where
  "parse_join_type =
     bindS (match_first [(TKw KwCross, JCross), (TKw KwLeft, JLeft), (TKw KwInner, JInner)]) (\<lambda>j.
       retS (case j of None \<Rightarrow> JInner | Some t \<Rightarrow> t))"

fun parse_joins :: "nat \<Rightarrow> expr pm \<Rightarrow> table_ref \<Rightarrow> table_ref pm" where
  "parse_joins 0 pe left = throwS Diverge"
| "parse_joins (Suc n) pe left =
     bindS (getS at_join) (\<lambda>j.
       if \<not> j then retS left
       else bindS parse_join_type (\<lambda>join_type.
         bindS (expect (TKw KwJoin)) (\<lambda>_.
         bindS parse_ident (\<lambda>right_name.
         bindS parse_table_alias (\<lambda>right_alias.
         bindS (opt_after (TKw KwOn) pe) (\<lambda>on.
           parse_joins n pe (TJoin left (TTable right_name right_alias) join_type on)))))))"

definition parse_table_ref :: "nat \<Rightarrow> expr pm \<Rightarrow> table_ref pm" where
  "parse_table_ref n pe =
     bindS parse_ident (\<lambda>name.
     bindS parse_table_alias (\<lambda>alias.
       parse_joins n pe (TTable name alias)))"

definition parse_order_term :: "expr pm \<Rightarrow> order_term pm" where
  "parse_order_term pe =
     bindS pe (\<lambda>e.
     bindS (match_token (TKw KwDesc)) (\<lambda>desc.
     bindS (if desc then retS False else match_token (TKw KwAsc)) (\<lambda>_.
       retS \<lparr>ot_expr = e, ot_desc = desc\<rparr>)))"

definition parse_by_list :: "token \<Rightarrow> nat \<Rightarrow> 'a pm \<Rightarrow> 'a list pm" where
  "parse_by_list kw n item =
     bindS (match_token kw) (\<lambda>b.
       if b then bindS (expect (TKw KwBy)) (\<lambda>_. comma_list n item) else retS [])"

definition parse_offset :: "expr pm \<Rightarrow> expr option pm" where
  "parse_offset pe =
     bindS (match_token (TSym SymComma)) (\<lambda>comma.
     bindS (if comma then retS True else match_token (TKw KwOffset)) (\<lambda>b.
       if b then bindS (match_token (TKw KwOffset)) (\<lambda>_. bindS pe (\<lambda>e. retS (Some e)))
       else retS None))"

definition parse_select_body :: "nat \<Rightarrow> expr pm \<Rightarrow> select pm" where
  "parse_select_body n pe =
     bindS (match_token (TKw KwDistinct)) (\<lambda>distinct.
     bindS (parse_result_columns n pe) (\<lambda>columns.
     bindS (opt_after (TKw KwFrom) (parse_table_ref n pe)) (\<lambda>from_clause.
     bindS (opt_after (TKw KwWhere) pe) (\<lambda>where_clause.
     bindS (parse_by_list (TKw KwGroup) n pe) (\<lambda>group_by.
     bindS (opt_after (TKw KwHaving) pe) (\<lambda>having.
     bindS (parse_by_list (TKw KwOrder) n (parse_order_term pe)) (\<lambda>order_by.
     bindS (opt_after (TKw KwLimit) pe) (\<lambda>limit.
     bindS (parse_offset pe) (\<lambda>ofs.
       retS (Select distinct columns from_clause where_clause group_by having order_by limit ofs))))))))))"

fun parse_expr :: "nat \<Rightarrow> expr pm" and parse_select :: "nat \<Rightarrow> select pm" where
  "parse_expr 0 = throwS Diverge"
| "parse_expr (Suc n) = parse_or_expr n (parse_expr n) (parse_select n)"
| "parse_select 0 = throwS Diverge"
| "parse_select (Suc n) = parse_select_body n (parse_expr n)"

section \<open>Statements that change data\<close>

definition parse_or_conflict :: "conflict_action option pm" where
  "parse_or_conflict =
     bindS (match_token (TKw KwOr)) (\<lambda>b.
       if \<not> b then retS None
       else match_first [(TKw KwRollback, ConfRollback), (TKw KwAbortKw, ConfAbort),
              (TKw KwFail, ConfFail), (TKw KwIgnore, ConfIgnore), (TKw KwReplace, ConfReplace)])"

definition parse_paren_list :: "nat \<Rightarrow> 'a pm \<Rightarrow> 'a list pm" where
  "parse_paren_list n item =
     bindS (comma_list n item) (\<lambda>xs.
     bindS (expect (TSym SymRParen)) (\<lambda>_. retS xs))"

definition parse_row :: "nat \<Rightarrow> expr list pm" where
  "parse_row n =
     bindS (expect (TSym SymLParen)) (\<lambda>_. parse_paren_list n (parse_expr n))"

definition parse_insert :: "nat \<Rightarrow> insert_stmt pm" where
  "parse_insert n =
     bindS parse_or_conflict (\<lambda>or_conflict.
     bindS (expect (TKw KwInto)) (\<lambda>_.
     bindS parse_ident (\<lambda>table.
     bindS (match_token (TSym SymLParen)) (\<lambda>cols.
     bindS (if cols then parse_paren_list n parse_ident else retS []) (\<lambda>columns.
     bindS (expect (TKw KwValues)) (\<lambda>_.
     bindS (comma_list n (parse_row n)) (\<lambda>values.
       retS \<lparr>in_or_conflict = or_conflict, in_table = table, in_columns = columns,
              in_values = values, in_select = None\<rparr>)))))))"

definition parse_assignment :: "nat \<Rightarrow> (string \<times> expr) pm" where
  "parse_assignment n =
     bindS parse_ident (\<lambda>col.
     bindS (expect (TSym SymEq)) (\<lambda>_.
     bindS (parse_expr n) (\<lambda>val. retS (col, val))))"

definition parse_update :: "nat \<Rightarrow> update_stmt pm" where
  "parse_update n =
     bindS parse_ident (\<lambda>table.
     bindS (expect (TKw KwSet)) (\<lambda>_.
     bindS (comma_list n (parse_assignment n)) (\<lambda>assignments.
     bindS (opt_after (TKw KwWhere) (parse_expr n)) (\<lambda>where_clause.
       retS \<lparr>up_table = table, up_assignments = assignments, up_where = where_clause\<rparr>))))"

definition parse_delete :: "nat \<Rightarrow> delete_stmt pm" where
  "parse_delete n =
     bindS (expect (TKw KwFrom)) (\<lambda>_.
     bindS parse_ident (\<lambda>table.
     bindS (opt_after (TKw KwWhere) (parse_expr n)) (\<lambda>where_clause.
       retS \<lparr>de_table = table, de_where = where_clause\<rparr>)))"

section \<open>Statements that change the schema\<close>

definition parse_if_not_exists :: "bool pm" where
  "parse_if_not_exists =
     bindS (match_token (TKw KwIf)) (\<lambda>b.
       if b then bindS (expect (TKw KwNot)) (\<lambda>_. bindS (expect (TKw KwExists)) (\<lambda>_. retS True))
       else retS False)"

definition parse_create_index :: "nat \<Rightarrow> bool \<Rightarrow> create_index_stmt pm" where
  "parse_create_index n unique =
     bindS parse_if_not_exists (\<lambda>if_not_exists.
     bindS parse_ident (\<lambda>name.
     bindS (expect (TKw KwOn)) (\<lambda>_.
     bindS parse_ident (\<lambda>table.
     bindS (expect (TSym SymLParen)) (\<lambda>_.
     bindS (parse_paren_list n parse_ident) (\<lambda>columns.
       retS \<lparr>ci_if_not_exists = if_not_exists, ci_unique = unique, ci_name = name,
              ci_table = table, ci_columns = columns\<rparr>))))))"

definition type_of_name :: "string \<Rightarrow> column_type" where
  "type_of_name s =
     (let name = map ascii_lower s in
      if name \<in> {''int'', ''integer''} then ColInteger
      else if name \<in> {''float'', ''double'', ''real''} then ColReal
      else if name \<in> {''varchar'', ''char'', ''character'', ''text'', ''clob''} then ColText
      else if name = ''blob'' then ColBlob
      else if name \<in> {''boolean'', ''bool''} then ColInteger
      else ColNumeric)"

definition parse_column_type :: "column_type pm" where
  "parse_column_type =
     bindS (match_first [(TKw KwInteger, ColInteger), (TKw KwReal, ColReal), (TKw KwText, ColText),
        (TKw KwBlob, ColBlob), (TKw KwNull, ColNull)]) (\<lambda>r.
       case r of Some t \<Rightarrow> retS t
       | None \<Rightarrow> bindS (getS current_token) (\<lambda>c.
           case c of Some (TkIdent name) \<Rightarrow> bindS advance (\<lambda>_. retS (type_of_name name))
           | _ \<Rightarrow> retS ColNumeric))"

fun parse_primary_keys :: "nat \<Rightarrow> column_constraint list pm" where
  "parse_primary_keys 0 = throwS Diverge"
| "parse_primary_keys (Suc n) =
     bindS (match_token (TKw KwPrimary)) (\<lambda>b.
       if \<not> b then retS []
       else bindS (expect (TKw KwKey)) (\<lambda>_.
         bindS (match_token (TKw KwAutoincrement)) (\<lambda>autoincrement.
         bindS (parse_primary_keys n) (\<lambda>cs. retS (CPrimaryKey autoincrement # cs)))))"

definition parse_column_def :: "nat \<Rightarrow> column_def pm" where
  "parse_column_def n =
     bindS parse_ident (\<lambda>name.
     bindS parse_column_type (\<lambda>col_type.
     bindS (parse_primary_keys n) (\<lambda>keys.
     bindS (match_token (TKw KwNot)) (\<lambda>not_kw.
     bindS (if not_kw then bindS (expect (TKw KwNull)) (\<lambda>_. retS [CNotNull]) else retS []) (\<lambda>not_null.
     bindS (match_token (TKw KwUnique)) (\<lambda>unique.
     bindS (match_token (TKw KwDefault)) (\<lambda>default_kw.
     bindS (if default_kw then bindS (parse_expr n) (\<lambda>e. retS [CDefault e]) else retS []) (\<lambda>defaults.
       retS \<lparr>cd_name = name, cd_type = col_type,
              cd_constraints = keys @ not_null @ (if unique then [CUnique] else []) @ defaults\<rparr>))))))))"

definition parse_create_table :: "nat \<Rightarrow> create_table_stmt pm" where
  "parse_create_table n =
     bindS parse_if_not_exists (\<lambda>if_not_exists.
     bindS parse_ident (\<lambda>name.
     bindS (expect (TSym SymLParen)) (\<lambda>_.
     bindS (parse_paren_list n (parse_column_def n)) (\<lambda>columns.
       retS \<lparr>ct_if_not_exists = if_not_exists, ct_name = name, ct_columns = columns,
              ct_temp = False\<rparr>))))"

definition parse_drop_table :: "drop_table_stmt pm" where
  "parse_drop_table =
     bindS (match_token (TKw KwIf)) (\<lambda>b.
     bindS (if b then bindS (expect (TKw KwExists)) (\<lambda>_. retS True) else retS False) (\<lambda>if_exists.
     bindS parse_ident (\<lambda>name.
       retS \<lparr>dt_if_exists = if_exists, dt_name = name\<rparr>)))"

definition parse_pragma :: "nat \<Rightarrow> pragma_stmt pm" where
  "parse_pragma n =
     bindS parse_ident (\<lambda>name.
     bindS (match_token (TSym SymEq)) (\<lambda>eq.
     bindS (if eq then bindS (parse_expr n) (\<lambda>e. retS (Some e))
            else bindS (match_token (TSym SymLParen)) (\<lambda>paren.
              if paren
              then bindS (parse_expr n) (\<lambda>arg.
                   bindS (expect (TSym SymRParen)) (\<lambda>_. retS (Some arg)))
              else retS None)) (\<lambda>value.
       retS \<lparr>pr_name = name, pr_value = value\<rparr>)))"

section \<open>Statements\<close>

definition parse_create :: "nat \<Rightarrow> statement pm" where
  "parse_create n =
     bindS (match_token (TKw KwUnique)) (\<lambda>unique.
     bindS (match_token (TKw KwIndex)) (\<lambda>index.
       if index then bindS (parse_create_index n unique) (\<lambda>s. retS (StCreateIndex s))
       else bindS (expect (TKw KwTable)) (\<lambda>_.
         bindS (parse_create_table n) (\<lambda>s. retS (StCreateTable s)))))"

definition parse_drop :: "statement pm" where
  "parse_drop =
     bindS (expect (TKw KwTable)) (\<lambda>_. bindS parse_drop_table (\<lambda>s. retS (StDropTable s)))"

definition statement_parsers :: "nat \<Rightarrow> (token \<times> statement pm) list" where
  "statement_parsers n =
     [(TKw KwSelect, bindS (parse_select n) (\<lambda>s. retS (StSelect s))),
      (TKw KwInsert, bindS (parse_insert n) (\<lambda>s. retS (StInsert s))),
      (TKw KwUpdate, bindS (parse_update n) (\<lambda>s. retS (StUpdate s))),
      (TKw KwDelete, bindS (parse_delete n) (\<lambda>s. retS (StDelete s))),
      (TKw KwCreate, parse_create n),
      (TKw KwDrop, parse_drop),
      (TKw KwPragma, bindS (parse_pragma n) (\<lambda>s. retS (StPragma s))),
      (TKw KwBegin, retS StBegin),
      (TKw KwCommit, retS StCommit),
      (TKw KwRollback, retS StRollback)]"

definition parse_statement :: "nat \<Rightarrow> statement pm" where
  "parse_statement n =
     bindS (match_first (statement_parsers n)) (\<lambda>r.
       case r of Some m \<Rightarrow> m | None \<Rightarrow> parser_error ''syntax error'')"

fun skip_semicolons :: "nat \<Rightarrow> unit pm" where
  "skip_semicolons 0 = throwS Diverge"
| "skip_semicolons (Suc n) =
     bindS (getS (check (TSym SymSemi))) (\<lambda>b.
       if b then bindS advance (\<lambda>_. skip_semicolons n) else retS ())"

fun parse_statements :: "nat \<Rightarrow> statement list pm" where
  "parse_statements 0 = throwS Diverge"
| "parse_statements (Suc n) =
     bindS (getS is_at_end) (\<lambda>e.
       if e then retS []
       else bindS (parse_statement n) (\<lambda>s.
         bindS (skip_semicolons n) (\<lambda>_.
         bindS (parse_statements n) (\<lambda>ss. retS (s # ss)))))"

section \<open>Entry points\<close>

definition parse_fuel :: "spanned_token list \<Rightarrow> nat" where
  "parse_fuel ts = length ts + 5"

definition parse_all :: "logos \<Rightarrow> string \<Rightarrow> statement list res" where
  "parse_all lx sql =
     bindR (tokenize lx sql) (\<lambda>ts. fst (parse_statements (parse_fuel ts) (parser_new ts)))"

definition parse_one :: "logos \<Rightarrow> string \<Rightarrow> statement res" where
  "parse_one lx sql =
     bindR (tokenize lx sql) (\<lambda>ts. fst (parse_statement (parse_fuel ts) (parser_new ts)))"

end
