(* ===== verification/Parser_Total.thy ===== *)
theory Parser_Total
  imports Parser
begin

text \<open>
  The parser always answers. \<open>ok_parser d k m\<close> says that \<open>m\<close>, started with at most \<open>k\<close> tokens left,
  neither panics nor runs out of fuel, never moves backwards, and has consumed at least \<open>d\<close> tokens
  when it succeeds; the rules for the parser's building blocks carry every method.
\<close>

section \<open>The contract of a parsing method\<close>

definition at_token :: "parser \<Rightarrow> bool" where
  "at_token ps = (p_pos ps \<le> length (p_tokens ps))"

definition remaining :: "parser \<Rightarrow> nat" where
  "remaining ps = length (p_tokens ps) - p_pos ps"

definition parse_ends :: "nat \<Rightarrow> parser \<Rightarrow> 'a res \<times> parser \<Rightarrow> bool" where
  "parse_ends d ps out =
     (p_tokens (snd out) = p_tokens ps \<and> at_token (snd out) \<and> p_pos ps \<le> p_pos (snd out)
      \<and> (case fst out of Inl e \<Rightarrow> (\<exists>text. e = Fail (Parse text))
         | Inr x \<Rightarrow> p_pos ps + d \<le> p_pos (snd out)))"

definition ok_parser :: "nat \<Rightarrow> nat \<Rightarrow> 'a pm \<Rightarrow> bool" where
  "ok_parser d k m = (\<forall>ps. at_token ps \<longrightarrow> remaining ps \<le> k \<longrightarrow> parse_ends d ps (m ps))"

text \<open>The same for a method that is only called when there is a current token.\<close>

definition ok_current :: "nat \<Rightarrow> nat \<Rightarrow> 'a pm \<Rightarrow> bool" where
  "ok_current d k m =
     (\<forall>ps. at_token ps \<longrightarrow> remaining ps \<le> k \<longrightarrow> \<not> is_at_end ps \<longrightarrow> parse_ends d ps (m ps))"

named_theorems parses \<open>methods that meet their contract\<close>

lemma ok_parserD: "ok_parser d k m \<Longrightarrow> at_token ps \<Longrightarrow> remaining ps \<le> k \<Longrightarrow> parse_ends d ps (m ps)"
  by (simp add: ok_parser_def)

lemma ok_parser_mono: "ok_parser d k m \<Longrightarrow> d' \<le> d \<Longrightarrow> k' \<le> k \<Longrightarrow> ok_parser d' k' m"
  unfolding ok_parser_def parse_ends_def by (fastforce split: sum.splits)

lemma ok_parser_current: "ok_parser d k m \<Longrightarrow> ok_current d k m"
  by (simp add: ok_parser_def ok_current_def)

lemma parse_ends_bind:
  assumes "parse_ends d ps (m ps)" and "at_token ps"
    and "\<And>x ps'. m ps = (Inr x, ps') \<Longrightarrow> p_tokens ps' = p_tokens ps \<Longrightarrow> at_token ps'
           \<Longrightarrow> p_pos ps + d \<le> p_pos ps' \<Longrightarrow> parse_ends e ps' (f x ps')"
    and "c \<le> d + e"
  shows "parse_ends c ps (bindS m f ps)"
proof (cases "m ps")
  case (Pair r ps')
  show ?thesis
  proof (cases r)
    case (Inr x)
    with assms(1) Pair have "p_tokens ps' = p_tokens ps" "at_token ps'" "p_pos ps + d \<le> p_pos ps'"
      by (simp_all add: parse_ends_def)
    with assms(3) [of x ps'] Pair Inr assms(4) show ?thesis
      by (auto simp: parse_ends_def bindS_app split: sum.splits)
  qed (use Pair assms(1) in \<open>simp add: parse_ends_def bindS_app\<close>)
qed

lemma remaining_after:
  "p_tokens ps' = p_tokens ps \<Longrightarrow> at_token ps' \<Longrightarrow> p_pos ps + d \<le> p_pos ps' \<Longrightarrow> remaining ps \<le> k
   \<Longrightarrow> remaining ps' \<le> k - d"
  by (simp add: remaining_def at_token_def)

lemma bindS_retS: "bindS m retS = m"
  by (auto simp: bindS_app fun_eq_iff split: prod.splits sum.splits)

lemma error_bindS: "bindS (parser_error msg) f = parser_error msg"
  by (simp add: parser_error_def fun_eq_iff)

lemma ok_bind:
  assumes "ok_parser d k m" and "\<And>x. d \<le> k \<Longrightarrow> ok_parser (c - d) (k - d) (f x)"
  shows "ok_parser c k (bindS m f)"
  unfolding ok_parser_def
proof (intro allI impI)
  fix ps assume at: "at_token ps" and rem: "remaining ps \<le> k"
  show "parse_ends c ps (bindS m f ps)"
  proof (rule parse_ends_bind [where d = d and e = "c - d"])
    show "parse_ends d ps (m ps)" by (rule ok_parserD [OF assms(1) at rem])
    fix x ps' assume "p_tokens ps' = p_tokens ps" "at_token ps'" "p_pos ps + d \<le> p_pos ps'"
    moreover from this rem have "d \<le> k" by (simp add: remaining_def at_token_def)
    ultimately show "parse_ends (c - d) ps' (f x ps')"
      using ok_parserD [OF assms(2)] remaining_after rem by blast
  qed (simp_all add: at)
qed

lemma ok_bind0: "ok_parser 0 k m \<Longrightarrow> (\<And>x. ok_parser c k (f x)) \<Longrightarrow> ok_parser c k (bindS m f)"
  using ok_bind [of 0 k m c f] by simp

lemma ok_ret [parses]: "ok_parser 0 k (retS x)"
  by (simp add: ok_parser_def parse_ends_def)

lemma ok_get: "(\<And>x. ok_parser d k (f x)) \<Longrightarrow> ok_parser d k (bindS (getS g) f)"
  by (simp add: ok_parser_def)

lemma ok_error [parses]: "ok_parser d k (parser_error msg)"
  by (simp add: ok_parser_def parse_ends_def parser_error_def)

section \<open>Building blocks\<close>

lemma advance_app: "\<not> is_at_end ps \<Longrightarrow> advance ps = (Inr (current_token ps), ps\<lparr>p_pos := Suc (p_pos ps)\<rparr>)"
  by (simp add: advance_def current_token_def is_at_end_def)

lemma ok_advance:
  assumes "\<And>x. 0 < k \<Longrightarrow> ok_parser (c - 1) (k - 1) (f x)"
  shows "ok_current c k (bindS advance f)"
  unfolding ok_current_def
proof (intro allI impI)
  fix ps assume at: "at_token ps" and rem: "remaining ps \<le> k" and ne: "\<not> is_at_end ps"
  show "parse_ends c ps (bindS advance f ps)"
  proof (rule parse_ends_bind [where d = 1 and e = "c - 1"])
    show "parse_ends 1 ps (advance ps)"
      using ne by (simp add: advance_app parse_ends_def at_token_def is_at_end_def)
    fix x ps' assume "p_tokens ps' = p_tokens ps" "at_token ps'" "p_pos ps + 1 \<le> p_pos ps'"
    moreover from this rem have "0 < k" by (simp add: remaining_def at_token_def)
    ultimately show "parse_ends (c - 1) ps' (f x ps')"
      using ok_parserD [OF assms] remaining_after rem by blast
  qed (simp_all add: at)
qed

lemma at_end_current: "current_token ps = Some t \<Longrightarrow> \<not> is_at_end ps"
  by (simp add: current_token_def is_at_end_def split: if_splits)

lemma ok_current_token:
  assumes "ok_parser d k (f None)" and "\<And>t. ok_current d k (f (Some t))"
  shows "ok_parser d k (bindS (getS current_token) f)"
  unfolding ok_parser_def
proof (intro allI impI)
  fix ps assume "at_token ps" and "remaining ps \<le> k"
  with assms show "parse_ends d ps (bindS (getS current_token) f ps)"
    by (cases "current_token ps") (auto simp: ok_parser_def ok_current_def dest: at_end_current)
qed

lemma check_current: "check t ps \<Longrightarrow> \<not> is_at_end ps"
  by (auto simp: check_def dest: at_end_current split: option.splits)

lemma ok_check:
  assumes "ok_parser d k (f False)" and "ok_current d k (f True)"
  shows "ok_parser d k (bindS (getS (check t)) f)"
  unfolding ok_parser_def
proof (intro allI impI)
  fix ps assume "at_token ps" and "remaining ps \<le> k"
  with assms check_current [of t ps] show "parse_ends d ps (bindS (getS (check t)) f ps)"
    by (cases "check t ps") (simp_all add: ok_parser_def ok_current_def)
qed

lemma bindS_assoc: "bindS (bindS m f) g = bindS m (\<lambda>x. bindS (f x) g)"
  by (auto simp: bindS_app fun_eq_iff split: prod.splits sum.splits)

lemma bindS_if: "bindS (if b then m else m') f = (if b then bindS m f else bindS m' f)"
  by simp

lemma ret_bindS: "bindS (retS x) f = f x"
  by (simp add: fun_eq_iff)

lemma match_token_bind:
  "bindS (match_token t) f = bindS (getS (check t)) (\<lambda>c. if c then bindS advance (\<lambda>_. f True) else f False)"
  unfolding match_token_def bindS_assoc bindS_if ret_bindS ..

lemma ok_match:
  assumes "0 < k \<Longrightarrow> ok_parser (d - 1) (k - 1) (f True)" and "ok_parser d k (f False)"
  shows "ok_parser d k (bindS (match_token t) f)"
  unfolding match_token_bind
  by (rule ok_check) (use assms in \<open>auto intro: ok_advance\<close>)

lemma ok_match0 [parses]: "ok_parser 0 k (match_token t)"
  using ok_match [of k 0 retS t] by (simp add: ok_ret bindS_retS)

lemma ok_match_first:
  assumes "\<And>t x. (t, x) \<in> set l \<Longrightarrow> 0 < k \<Longrightarrow> ok_parser (d - 1) (k - 1) (f (Some x))"
    and "ok_parser d k (f None)"
  shows "ok_parser d k (bindS (match_first l) f)"
  using assms
proof (induction l)
  case (Cons p l)
  obtain t x where p: "p = (t, x)" by force
  have "ok_parser d k (bindS (match_first l) f)" by (rule Cons.IH) (use Cons.prems p in auto)
  with Cons.prems(1) [of t x] show ?case
    by (simp add: p bindS_assoc) (rule ok_match, simp_all add: ret_bindS)
qed (simp add: ret_bindS)

lemma ok_match_first0 [parses]: "ok_parser 0 k (match_first l)"
  using ok_match_first [of l k 0 retS] by (simp add: ok_ret bindS_retS)

lemma ok_opt_after:
  assumes "0 < k \<Longrightarrow> ok_parser 0 (k - 1) m"
  shows "ok_parser 0 k (opt_after t m)"
  unfolding opt_after_def
  by (rule ok_match) (use assms in \<open>auto intro: ok_bind0 ok_ret\<close>)

lemma ok_expect_bind:
  assumes "0 < k \<Longrightarrow> ok_parser (d - 1) (k - 1) (f ())"
  shows "ok_parser d k (bindS (expect t) f)"
  unfolding expect_def bindS_assoc bindS_if
  by (rule ok_match) (use assms in \<open>auto simp: ret_bindS error_bindS intro: ok_error\<close>)

text \<open>Where nothing has to be consumed any more, the rules need no arithmetic.\<close>

lemma ok_match_0:
  "(0 < k \<Longrightarrow> ok_parser 0 (k - 1) (f True)) \<Longrightarrow> ok_parser 0 k (f False)
   \<Longrightarrow> ok_parser 0 k (bindS (match_token t) f)"
  by (rule ok_match) auto

lemma ok_expect_0: "(0 < k \<Longrightarrow> ok_parser 0 (k - 1) (f ())) \<Longrightarrow> ok_parser 0 k (bindS (expect t) f)"
  by (rule ok_expect_bind) auto

lemma ok_bind1: "ok_parser (Suc 0) k m \<Longrightarrow> (\<And>x. 0 < k \<Longrightarrow> ok_parser 0 (k - 1) (f x)) \<Longrightarrow> ok_parser (Suc 0) k (bindS m f)"
  by (rule ok_bind [where d = "Suc 0"]) auto

lemma ok_bind10: "ok_parser (Suc 0) k m \<Longrightarrow> (\<And>x. 0 < k \<Longrightarrow> ok_parser 0 (k - 1) (f x)) \<Longrightarrow> ok_parser 0 k (bindS m f)"
  by (rule ok_bind [where d = "Suc 0"]) auto

lemma ok_0: "ok_parser d k m \<Longrightarrow> ok_parser 0 k m"
  by (rule ok_parser_mono) auto

lemma ok_if: "(b \<Longrightarrow> ok_parser d k m) \<Longrightarrow> (\<not> b \<Longrightarrow> ok_parser d k m') \<Longrightarrow> ok_parser d k (if b then m else m')"
  by simp

lemmas ok_steps = ok_ret ok_error ok_match_0 ok_expect_0 ok_if ok_match0 ok_match_first0

lemma ok_comma_list:
  assumes "\<And>j. j \<le> k \<Longrightarrow> ok_parser (Suc 0) j item" and "k < n"
  shows "ok_parser (Suc 0) k (comma_list n item)"
  using assms
proof (induction n arbitrary: k)
  case (Suc n)
  have IH: "ok_parser 0 j (comma_list n item)" if "j < k" for j
    using Suc.prems that by (intro ok_0 [OF Suc.IH]) auto
  show ?case
    unfolding comma_list.simps
    by (rule ok_bind1) (auto intro!: Suc.prems ok_steps ok_bind0 [OF IH])
qed simp

lemma ok_ident: "ok_parser (Suc 0) k parse_ident"
  unfolding parse_ident_def
proof (rule ok_current_token)
  show "ok_current (Suc 0) k
    (case (case Some t of None \<Rightarrow> None | Some u \<Rightarrow> ident_text u) of
       None \<Rightarrow> parser_error ''expected identifier'' | Some s \<Rightarrow> bindS advance (\<lambda>_. retS s))" for t
    by (cases "ident_text t") (auto intro!: ok_advance ok_ret intro: ok_parser_current ok_error)
qed (simp add: ok_error)

section \<open>Expressions\<close>

text \<open>What a method below \<^verbatim>\<open>parse_expr\<close> may assume of its fuel and of the two methods it calls back.\<close>

definition callees_ok :: "nat \<Rightarrow> nat \<Rightarrow> expr pm \<Rightarrow> select pm \<Rightarrow> bool" where
  "callees_ok k n pe psel =
     (k < n \<and> (\<forall>j < k. ok_parser (Suc 0) j pe) \<and> (\<forall>j. j + 2 \<le> k \<longrightarrow> ok_parser 0 j psel))"

lemma callees_mono: "callees_ok k n pe psel \<Longrightarrow> j \<le> k \<Longrightarrow> callees_ok j n pe psel"
  by (auto simp: callees_ok_def)

lemma callees_pe: "callees_ok k n pe psel \<Longrightarrow> j < k \<Longrightarrow> ok_parser (Suc 0) j pe"
  by (simp add: callees_ok_def)

lemma callees_psel: "callees_ok k n pe psel \<Longrightarrow> j + 2 \<le> k \<Longrightarrow> ok_parser 0 j psel"
  by (simp add: callees_ok_def)

lemma callees_list: "callees_ok k n pe psel \<Longrightarrow> j < k \<Longrightarrow> ok_parser 0 j (comma_list n pe)"
  by (rule ok_0 [OF ok_comma_list]) (auto simp: callees_ok_def)

lemma ok_advance1: "(0 < k \<Longrightarrow> ok_parser 0 (k - 1) (f x)) \<Longrightarrow> ok_current (Suc 0) k (bindS advance (\<lambda>_. f x))"
  by (rule ok_advance) simp

lemma ok_parens:
  assumes "callees_ok k n pe psel"
  shows "ok_current (Suc 0) k (parse_parens pe psel)"
  unfolding parse_parens_def
  by (rule ok_advance)
    (auto intro!: ok_steps ok_bind0 [OF callees_psel [OF assms]] ok_bind0 [OF ok_0 [OF callees_pe [OF assms]]])

lemma ok_count:
  assumes "callees_ok k n pe psel"
  shows "ok_current (Suc 0) k (parse_count n pe)"
  unfolding parse_count_def
  by (rule ok_advance)
    (auto simp: bindS_if ret_bindS intro!: ok_steps ok_bind0 [OF callees_list [OF assms]])

lemma ok_named:
  assumes "callees_ok k n pe psel"
  shows "ok_current (Suc 0) k (parse_named n pe name)"
  unfolding parse_named_def
  by (rule ok_advance)
    (auto simp: bindS_if ret_bindS intro!: ok_steps ok_get ok_bind0 [OF callees_list [OF assms]]
       ok_bind0 [OF ok_0 [OF ok_ident]])

lemma ok_current_error: "ok_current d k (parser_error msg)"
  by (rule ok_parser_current [OF ok_error])

lemma ok_primary:
  assumes "callees_ok k n pe psel"
  shows "ok_parser (Suc 0) k (parse_primary_expr n pe psel)"
proof -
  have lit: "ok_current (Suc 0) k (bindS advance (\<lambda>_. retS e))" for e
    by (rule ok_advance) (simp add: ok_ret)
  have "ok_current (Suc 0) k
     (case literal_expr t of
        Some e \<Rightarrow> bindS advance (\<lambda>_. retS e)
      | None \<Rightarrow>
          if t = TSym SymLParen then parse_parens pe psel
          else if t = TKw KwCount then parse_count n pe
          else (case ident_text t of
              Some name \<Rightarrow> parse_named n pe name
            | None \<Rightarrow> parser_error ''expected expression''))" for t
    by (auto split: option.split
        intro: lit ok_parens [OF assms] ok_count [OF assms] ok_named [OF assms] ok_current_error)
  then show ?thesis
    unfolding parse_primary_expr_def
    by (intro ok_match) (auto intro!: ok_ret ok_current_token ok_error)
qed

lemma ok_unary:
  assumes "callees_ok k n pe psel" and "k < i"
  shows "ok_parser (Suc 0) k (parse_unary_expr i n pe psel)"
  using assms
proof (induction i arbitrary: k)
  case (Suc i)
  have IH: "ok_parser (Suc 0) j (parse_unary_expr i n pe psel)" if "j < k" for j
    using Suc.prems that by (intro Suc.IH callees_mono [OF Suc.prems(1)]) auto
  show ?case
    unfolding parse_unary_expr.simps
    by (rule ok_match)
      (auto intro!: ok_match ok_primary [OF Suc.prems(1)] ok_ret ok_bind0 [OF ok_0 [OF IH]] ok_0 [OF IH])
qed simp

text \<open>A method that looks for an operator has consumed a token when it finds one.\<close>

definition op_parser :: "binary_op option pm \<Rightarrow> bool" where
  "op_parser next_op =
     (\<forall>k (f :: binary_op option \<Rightarrow> expr pm).
        (\<forall>op. 0 < k \<longrightarrow> ok_parser 0 (k - 1) (f (Some op))) \<longrightarrow> ok_parser 0 k (f None)
        \<longrightarrow> ok_parser 0 k (bindS next_op f))"

lemma op_parser_first: "op_parser (match_first l)"
  by (auto simp: op_parser_def intro!: ok_match_first)

lemma op_parsers: "op_parser or_op" "op_parser and_op" "op_parser additive_op" "op_parser multiplicative_op"
  unfolding or_op_def and_op_def additive_op_def multiplicative_op_def by (rule op_parser_first)+

lemma op_parser_comparison: "op_parser comparison_op"
  unfolding op_parser_def comparison_op_def bindS_assoc bindS_if ret_bindS
  by (auto simp del: match_first.simps intro!: ok_match_first ok_bind0 [OF ok_match0])

lemma ok_binary_loop:
  assumes "op_parser next_op" and "\<And>j. j < k \<Longrightarrow> ok_parser 0 j operand" and "k < n"
  shows "ok_parser 0 k (binary_loop n next_op operand left)"
  using assms(2,3)
proof (induction n arbitrary: k left)
  case (Suc n)
  have IH: "ok_parser 0 j (binary_loop n next_op operand l)" if "j < k" for j l
    using Suc.prems that by (intro Suc.IH) auto
  from assms(1) show ?case
    unfolding binary_loop.simps op_parser_def
    by (elim allE impE) (auto intro!: ok_ret ok_bind0 Suc.prems(1) IH)
qed simp

lemma ok_level:
  assumes "op_parser next_op" and "\<And>j. j \<le> k \<Longrightarrow> ok_parser (Suc 0) j operand" and "k < n"
  shows "ok_parser (Suc 0) k (bindS operand (binary_loop n next_op operand))"
  by (rule ok_bind1) (auto intro!: ok_binary_loop assms ok_0 [OF assms(2)] less_imp_diff_less)

lemma callees_fuel: "callees_ok k n pe psel \<Longrightarrow> k < n"
  by (simp add: callees_ok_def)

lemma ok_multiplicative: "callees_ok k n pe psel \<Longrightarrow> ok_parser (Suc 0) k (parse_multiplicative_expr n pe psel)"
  unfolding parse_multiplicative_expr_def
  by (rule ok_level) (auto intro!: op_parsers ok_unary intro: callees_mono dest: callees_fuel)

lemma ok_additive: "callees_ok k n pe psel \<Longrightarrow> ok_parser (Suc 0) k (parse_additive_expr n pe psel)"
  unfolding parse_additive_expr_def
  by (rule ok_level) (auto intro!: op_parsers ok_multiplicative intro: callees_mono dest: callees_fuel)

lemma ok_comparison: "callees_ok k n pe psel \<Longrightarrow> ok_parser (Suc 0) k (parse_comparison_expr n pe psel)"
  unfolding parse_comparison_expr_def
  by (rule ok_level) (auto intro!: op_parser_comparison ok_additive intro: callees_mono dest: callees_fuel)

lemma ok_not:
  assumes "callees_ok k n pe psel" and "k < i"
  shows "ok_parser (Suc 0) k (parse_not_expr i n pe psel)"
  using assms
proof (induction i arbitrary: k)
  case (Suc i)
  have IH: "ok_parser (Suc 0) j (parse_not_expr i n pe psel)" if "j < k" for j
    using Suc.prems that by (intro Suc.IH callees_mono [OF Suc.prems(1)]) auto
  show ?case
    unfolding parse_not_expr.simps
    by (rule ok_match)
      (auto intro!: ok_comparison [OF Suc.prems(1)] ok_ret ok_bind0 [OF ok_0 [OF IH]])
qed simp

lemma ok_and: "callees_ok k n pe psel \<Longrightarrow> ok_parser (Suc 0) k (parse_and_expr n pe psel)"
  unfolding parse_and_expr_def
  by (rule ok_level) (auto intro!: op_parsers ok_not intro: callees_mono dest: callees_fuel)

lemma ok_or: "callees_ok k n pe psel \<Longrightarrow> ok_parser (Suc 0) k (parse_or_expr n pe psel)"
  unfolding parse_or_expr_def
  by (rule ok_level) (auto intro!: op_parsers ok_and intro: callees_mono dest: callees_fuel)

section \<open>Queries\<close>

text \<open>A query calls back \<^verbatim>\<open>parse_expr\<close> before it has consumed anything.\<close>

definition expr_ok :: "nat \<Rightarrow> nat \<Rightarrow> expr pm \<Rightarrow> bool" where
  "expr_ok k n pe = (k < n \<and> (\<forall>j \<le> k. ok_parser (Suc 0) j pe))"

lemma expr_ok_mono: "expr_ok k n pe \<Longrightarrow> j \<le> k \<Longrightarrow> expr_ok j n pe"
  by (simp add: expr_ok_def)

lemma expr_okD: "expr_ok k n pe \<Longrightarrow> j \<le> k \<Longrightarrow> ok_parser (Suc 0) j pe"
  by (simp add: expr_ok_def)

lemma expr_ok0: "expr_ok k n pe \<Longrightarrow> ok_parser 0 k pe"
  by (rule ok_0 [OF expr_okD]) auto

lemma ok_alias: "ok_parser 0 k parse_table_alias"
  unfolding parse_table_alias_def by (auto intro!: ok_get ok_ret ok_bind0 [OF ok_0 [OF ok_ident]])

lemma ok_result_column: "expr_ok k n pe \<Longrightarrow> ok_parser (Suc 0) k (parse_result_column pe)"
  unfolding parse_result_column_def
  by (rule ok_bind1) (auto intro!: ok_ret ok_bind0 ok_opt_after ok_0 [OF ok_ident] intro: expr_okD)

lemma ok_order_term: "expr_ok k n pe \<Longrightarrow> ok_parser (Suc 0) k (parse_order_term pe)"
  unfolding parse_order_term_def bindS_if ret_bindS
  by (rule ok_bind1) (auto intro!: ok_steps intro: expr_okD)

lemma ok_list:
  assumes "expr_ok k n pe" and "\<And>j. j \<le> k \<Longrightarrow> ok_parser (Suc 0) j item" and "j \<le> k"
  shows "ok_parser 0 j (comma_list n item)"
  by (rule ok_0 [OF ok_comma_list]) (use assms in \<open>auto simp: expr_ok_def\<close>)

lemma ok_result_columns: "expr_ok k n pe \<Longrightarrow> ok_parser 0 k (parse_result_columns n pe)"
  unfolding parse_result_columns_def
  by (auto intro!: ok_steps ok_list ok_result_column intro: expr_ok_mono)

lemma ok_by_list:
  assumes "expr_ok k n pe" and "\<And>j. j \<le> k \<Longrightarrow> ok_parser (Suc 0) j item"
  shows "ok_parser 0 k (parse_by_list kw n item)"
  unfolding parse_by_list_def
  by (auto intro!: ok_steps ok_list [OF assms])

lemma ok_offset: "expr_ok k n pe \<Longrightarrow> ok_parser 0 k (parse_offset pe)"
  unfolding parse_offset_def bindS_if ret_bindS
  by (auto intro!: ok_steps ok_bind0 [OF expr_ok0] intro: expr_ok_mono)

lemma ok_join_type: "ok_parser 0 k parse_join_type"
  unfolding parse_join_type_def
  by (intro ok_bind0 ok_match_first0 ok_ret)

lemma ok_joins:
  assumes "expr_ok k n pe" and "k < i"
  shows "ok_parser 0 k (parse_joins i pe left)"
  using assms
proof (induction i arbitrary: k left)
  case (Suc i)
  have IH: "ok_parser 0 j (parse_joins i pe l)" if "j < k" for j l
    using Suc.prems that by (intro Suc.IH expr_ok_mono [OF Suc.prems(1)]) auto
  have on: "ok_parser 0 j (opt_after (TKw KwOn) pe)" if "j \<le> k" for j
    using that by (auto intro!: ok_opt_after ok_0 [OF expr_okD [OF Suc.prems(1)]])
  show ?case
    unfolding parse_joins.simps
    by (rule ok_get, rule ok_if)
      (auto intro!: ok_ret ok_bind0 [OF ok_join_type] ok_expect_0 ok_bind0 [OF ok_0 [OF ok_ident]]
        ok_bind0 [OF ok_alias] ok_bind0 [OF on] IH)
qed simp

lemma ok_table_ref: "expr_ok k n pe \<Longrightarrow> ok_parser 0 k (parse_table_ref n pe)"
  unfolding parse_table_ref_def
  by (auto intro!: ok_bind0 [OF ok_0 [OF ok_ident]] ok_bind0 [OF ok_alias] ok_joins simp: expr_ok_def)

lemma ok_select_body:
  assumes "expr_ok k n pe"
  shows "ok_parser 0 k (parse_select_body n pe)"
proof -
  have pe: "expr_ok j n pe" if "j \<le> k" for j using assms that by (rule expr_ok_mono)
  have opt: "ok_parser 0 j (opt_after t pe)" if "j \<le> k" for j t
    using that by (auto intro!: ok_opt_after expr_ok0 [OF pe])
  have tref: "ok_parser 0 j (opt_after t (parse_table_ref n pe))" if "j \<le> k" for j t
    using that by (auto intro!: ok_opt_after ok_table_ref [OF pe])
  have cols: "ok_parser 0 j (parse_result_columns n pe)" if "j \<le> k" for j
    using that by (rule ok_result_columns [OF pe])
  have by1: "ok_parser 0 j (parse_by_list t n pe)" if "j \<le> k" for j t
    using that by (intro ok_by_list [OF pe] expr_okD [OF pe]) auto
  have by2: "ok_parser 0 j (parse_by_list t n (parse_order_term pe))" if "j \<le> k" for j t
    using that by (intro ok_by_list [OF pe] ok_order_term [OF pe]) auto
  have ofs: "ok_parser 0 j (parse_offset pe)" if "j \<le> k" for j
    using that by (rule ok_offset [OF pe])
  have rest: "ok_parser 0 j (bindS (parse_result_columns n pe) (\<lambda>columns.
     bindS (opt_after (TKw KwFrom) (parse_table_ref n pe)) (\<lambda>from_clause.
     bindS (opt_after (TKw KwWhere) pe) (\<lambda>where_clause.
     bindS (parse_by_list (TKw KwGroup) n pe) (\<lambda>group_by.
     bindS (opt_after (TKw KwHaving) pe) (\<lambda>having.
     bindS (parse_by_list (TKw KwOrder) n (parse_order_term pe)) (\<lambda>order_by.
     bindS (opt_after (TKw KwLimit) pe) (\<lambda>limit.
     bindS (parse_offset pe) (\<lambda>ofs.
       retS (Select d columns from_clause where_clause group_by having order_by limit ofs))))))))))"
    if "j \<le> k" for j d
    by (intro ok_bind0 ok_ret cols opt tref by1 by2 ofs that)
  show ?thesis
    unfolding parse_select_body_def by (rule ok_match_0) (auto intro: rest)
qed

text \<open>The knot: one unit of fuel per nested expression or query is enough.\<close>

lemma ok_expr_select:
  "k + 2 \<le> n \<Longrightarrow> ok_parser (Suc 0) k (parse_expr n)"
  "k + 3 \<le> n \<Longrightarrow> ok_parser 0 k (parse_select n)"
proof (induction n arbitrary: k)
  case (Suc n)
  {
    case 1
    then show ?case using Suc.IH by (auto intro!: ok_or simp: callees_ok_def)
  next
    case 2
    then show ?case using Suc.IH by (auto intro!: ok_select_body simp: expr_ok_def)
  }
qed simp_all

section \<open>Statements\<close>

lemma ok_expr0: "k + 2 \<le> n \<Longrightarrow> ok_parser 0 k (parse_expr n)"
  by (rule ok_0 [OF ok_expr_select(1)])

lemmas ok_ident0 = ok_0 [OF ok_ident]

lemma ok_where: "k + 2 \<le> n \<Longrightarrow> ok_parser 0 k (opt_after t (parse_expr n))"
  by (rule ok_opt_after) (auto intro: ok_expr0)

lemma ok_paren_list:
  assumes "\<And>j. j \<le> k \<Longrightarrow> ok_parser (Suc 0) j item" and "k < n"
  shows "ok_parser (Suc 0) k (parse_paren_list n item)"
  unfolding parse_paren_list_def
  by (rule ok_bind1 [OF ok_comma_list]) (use assms in \<open>auto intro!: ok_steps\<close>)

lemma ok_row: "k + 2 \<le> n \<Longrightarrow> ok_parser (Suc 0) k (parse_row n)"
  unfolding parse_row_def
  by (rule ok_expect_bind) (auto intro!: ok_0 [OF ok_paren_list] ok_expr_select)

lemma ok_assignment: "k + 2 \<le> n \<Longrightarrow> ok_parser (Suc 0) k (parse_assignment n)"
  unfolding parse_assignment_def
  by (rule ok_bind1 [OF ok_ident]) (auto intro!: ok_steps ok_bind0 [OF ok_expr0])

lemma ok_conflict: "ok_parser 0 k parse_or_conflict"
  unfolding parse_or_conflict_def by (rule ok_match_0) (auto intro!: ok_ret ok_match_first0 simp del: match_first.simps)

lemma ok_insert:
  assumes "k + 2 \<le> n"
  shows "ok_parser 0 k (parse_insert n)"
proof -
  have cols: "ok_parser 0 j (if b then parse_paren_list n parse_ident else retS [])" if "j \<le> k" for j b
    using assms that by (auto intro!: ok_ret ok_0 [OF ok_paren_list] ok_ident)
  have rows: "ok_parser 0 j (comma_list n (parse_row n))" if "j \<le> k" for j
    using assms that by (intro ok_0 [OF ok_comma_list] ok_row) auto
  have body: "ok_parser 0 j (bindS (if b then parse_paren_list n parse_ident else retS []) (\<lambda>columns.
     bindS (expect (TKw KwValues)) (\<lambda>_.
     bindS (comma_list n (parse_row n)) (\<lambda>values.
       retS \<lparr>in_or_conflict = oc, in_table = t, in_columns = columns, in_values = values, in_select = None\<rparr>))))"
    if "j \<le> k" for j b oc t
    using that by (intro ok_bind0 ok_expect_0 ok_ret cols rows) auto
  show ?thesis
    unfolding parse_insert_def
    by (intro ok_bind0 [OF ok_conflict] ok_expect_0 ok_bind0 [OF ok_ident0] ok_match_0 body) auto
qed

lemma ok_update: "k + 2 \<le> n \<Longrightarrow> ok_parser 0 k (parse_update n)"
  unfolding parse_update_def
  by (intro ok_bind0 [OF ok_ident0] ok_expect_0 ok_bind0 ok_where ok_ret ok_0 [OF ok_comma_list] ok_assignment) auto

lemma ok_delete: "k + 2 \<le> n \<Longrightarrow> ok_parser 0 k (parse_delete n)"
  unfolding parse_delete_def
  by (intro ok_bind0 [OF ok_ident0] ok_expect_0 ok_bind0 ok_where ok_ret) auto

lemma ok_if_not_exists: "ok_parser 0 k parse_if_not_exists"
  unfolding parse_if_not_exists_def by (intro ok_match_0) (auto intro!: ok_steps)

lemma ok_create_index: "k + 2 \<le> n \<Longrightarrow> ok_parser 0 k (parse_create_index n u)"
  unfolding parse_create_index_def
  by (intro ok_bind0 [OF ok_if_not_exists] ok_bind0 [OF ok_ident0] ok_expect_0
      ok_bind0 [OF ok_0 [OF ok_paren_list]] ok_ident ok_ret) auto

lemma ok_column_type: "ok_parser 0 k parse_column_type"
  unfolding parse_column_type_def
proof (rule ok_bind0 [OF ok_match_first0])
  have "ok_current 0 k (case Some c of Some (TkIdent name) \<Rightarrow> bindS advance (\<lambda>_. retS (type_of_name name))
      | _ \<Rightarrow> retS ColNumeric)" for c
    by (cases c) (auto intro!: ok_advance ok_ret intro: ok_parser_current)
  then show "ok_parser 0 k (case r of Some t \<Rightarrow> retS t
       | None \<Rightarrow> bindS (getS current_token) (\<lambda>c.
           case c of Some (TkIdent name) \<Rightarrow> bindS advance (\<lambda>_. retS (type_of_name name))
           | _ \<Rightarrow> retS ColNumeric))" for r
    by (cases r) (auto intro!: ok_ret ok_current_token)
qed

lemma ok_primary_keys: "k < n \<Longrightarrow> ok_parser 0 k (parse_primary_keys n)"
proof (induction n arbitrary: k)
  case (Suc n)
  have IH: "ok_parser 0 j (parse_primary_keys n)" if "j < k" for j
    using Suc.prems that by (intro Suc.IH) auto
  show ?case
    unfolding parse_primary_keys.simps
    by (rule ok_match_0) (auto intro!: ok_steps ok_bind0 [OF IH])
qed simp

lemma ok_column_def:
  assumes "k + 2 \<le> n"
  shows "ok_parser (Suc 0) k (parse_column_def n)"
proof -
  have nn: "ok_parser 0 j (if b then bindS (expect (TKw KwNull)) (\<lambda>_. retS [CNotNull]) else retS [])" for j b
    by (auto intro!: ok_steps)
  have df: "ok_parser 0 j (if b then bindS (parse_expr n) (\<lambda>e. retS [CDefault e]) else retS [])"
    if "j \<le> k" for j b
    using assms that by (auto intro!: ok_steps ok_bind0 [OF ok_expr0])
  show ?thesis
    unfolding parse_column_def_def
    by (rule ok_bind1 [OF ok_ident], intro ok_bind0 [OF ok_column_type] ok_bind0 [OF ok_primary_keys]
        ok_bind0 [OF ok_match0] ok_bind0 [OF nn] ok_bind0 [OF df] ok_ret) (use assms in auto)
qed

lemma ok_create_table: "k + 2 \<le> n \<Longrightarrow> ok_parser 0 k (parse_create_table n)"
  unfolding parse_create_table_def
  by (intro ok_bind0 [OF ok_if_not_exists] ok_bind0 [OF ok_ident0] ok_expect_0
      ok_bind0 [OF ok_0 [OF ok_paren_list]] ok_column_def ok_ret) auto

lemma ok_drop: "ok_parser 0 k parse_drop"
  unfolding parse_drop_def parse_drop_table_def bindS_if bindS_assoc ret_bindS
  by (intro ok_expect_0 ok_match_0 ok_if ok_bind0 [OF ok_ident0] ok_ret)

lemma ok_pragma:
  assumes "k + 2 \<le> n"
  shows "ok_parser 0 k (parse_pragma n)"
proof -
  have e: "ok_parser 0 j (parse_expr n)" if "j \<le> k" for j using assms that by (intro ok_expr0) auto
  have val: "ok_parser 0 j (if eq then bindS (parse_expr n) (\<lambda>e. retS (Some e))
            else bindS (match_token (TSym SymLParen)) (\<lambda>paren.
              if paren
              then bindS (parse_expr n) (\<lambda>arg. bindS (expect (TSym SymRParen)) (\<lambda>_. retS (Some arg)))
              else retS None))" if "j \<le> k" for j eq
    using that by (auto intro!: ok_steps ok_bind0 [OF e])
  show ?thesis
    unfolding parse_pragma_def
    by (intro ok_bind0 [OF ok_ident0] ok_match_0 ok_bind0 [OF val] ok_ret) auto
qed

lemma ok_create: "k + 2 \<le> n \<Longrightarrow> ok_parser 0 k (parse_create n)"
  unfolding parse_create_def
  by (rule ok_bind0 [OF ok_match0], rule ok_match_0)
    (auto intro!: ok_steps ok_bind0 [OF ok_create_index] ok_bind0 [OF ok_create_table])

lemma ok_statement:
  assumes "k + 2 \<le> n"
  shows "ok_parser (Suc 0) k (parse_statement n)"
  unfolding parse_statement_def
proof (rule ok_match_first)
  fix t m assume "(t, m) \<in> set (statement_parsers n)" and "0 < k"
  then have "ok_parser 0 (k - 1) m"
    using assms
    by (auto simp: statement_parsers_def intro!: ok_ret ok_create ok_drop ok_bind0 [OF ok_pragma]
        ok_bind0 [OF ok_expr_select(2)] ok_bind0 [OF ok_insert] ok_bind0 [OF ok_update] ok_bind0 [OF ok_delete])
  then show "ok_parser (Suc 0 - 1) (k - 1) (case Some m of Some m \<Rightarrow> m | None \<Rightarrow> parser_error ''syntax error'')"
    by simp
qed (simp add: ok_error)

lemma ok_semicolons: "k < n \<Longrightarrow> ok_parser 0 k (skip_semicolons n)"
proof (induction n arbitrary: k)
  case (Suc n)
  have IH: "ok_parser 0 j (skip_semicolons n)" if "j < k" for j
    using Suc.prems that by (intro Suc.IH) auto
  show ?case
    unfolding skip_semicolons.simps
    by (rule ok_check) (auto intro!: ok_ret ok_advance IH)
qed simp

lemma ok_statements: "k + 3 \<le> n \<Longrightarrow> ok_parser 0 k (parse_statements n)"
proof (induction n arbitrary: k)
  case (Suc n)
  have IH: "ok_parser 0 j (parse_statements n)" if "j < k" for j
    using Suc.prems that by (intro Suc.IH) auto
  have st: "ok_parser (Suc 0) k (parse_statement n)" using Suc.prems by (intro ok_statement) simp
  have sm: "ok_parser 0 j (skip_semicolons n)" if "j < k" for j
    using Suc.prems that by (intro ok_semicolons) simp
  show ?case
    unfolding parse_statements.simps
    by (rule ok_get, rule ok_if [OF ok_ret], rule ok_bind10 [OF st], intro ok_bind0 [OF sm] ok_bind0 [OF IH] ok_ret) auto
qed simp

section \<open>The parser always answers\<close>

text \<open>C9. For every token sequence \<^verbatim>\<open>parse_statement\<close> and the loop of \<^verbatim>\<open>parse\<close> come back: with a
  result, or with the parse error the code returns. They neither panic (the index computed in
  \<^verbatim>\<open>advance\<close> never underflows) nor run out of the fuel the entry points give them, and a
  statement that was parsed has consumed at least one token.\<close>

theorem parser_always_answers:
  "(case parse_statement (parse_fuel ts) (parser_new ts) of
      (Inl e, ps) \<Rightarrow> \<exists>text. e = Fail (Parse text)
    | (Inr s, ps) \<Rightarrow> 0 < p_pos ps \<and> p_pos ps \<le> length ts \<and> p_tokens ps = ts)
   \<and> (case fst (parse_statements (parse_fuel ts) (parser_new ts)) of
      Inl e \<Rightarrow> \<exists>text. e = Fail (Parse text)
    | Inr ss \<Rightarrow> True)"
proof -
  have at: "at_token (parser_new ts)" "remaining (parser_new ts) \<le> length ts"
    by (simp_all add: at_token_def remaining_def parser_new_def)
  have "ok_parser (Suc 0) (length ts) (parse_statement (parse_fuel ts))"
    and "ok_parser 0 (length ts) (parse_statements (parse_fuel ts))"
    by (simp_all add: parse_fuel_def ok_statement ok_statements)
  from this [THEN ok_parserD [OF _ at]] show ?thesis
    by (auto simp: parse_ends_def at_token_def parser_new_def split: prod.splits sum.splits)
qed

end
