(* ===== verification/Parser_Print.thy ===== *)
theory Parser_Print
  imports Parser_Total
begin

text \<open>
  Expressions read back. A printer writes an expression as tokens with as few parentheses as the
  precedences allow; the parser reads the result back as the same tree. This fixes precedence
  and left associativity of every binary operator, the two prefix operators and function calls.
\<close>

section \<open>Printing\<close>

fun binary_level :: "binary_op \<Rightarrow> nat" where
  "binary_level BOr = 0"
| "binary_level BAnd = 1"
| "binary_level BAdd = 4"
| "binary_level BSub = 4"
| "binary_level BConcat = 4"
| "binary_level BMul = 5"
| "binary_level BDiv = 5"
| "binary_level BMod = 5"
| "binary_level op = 3"

fun binary_tokens :: "binary_op \<Rightarrow> token list" where
  "binary_tokens BOr = [TKw KwOr]"
| "binary_tokens BAnd = [TKw KwAnd]"
| "binary_tokens BEq = [TSym SymEq]"
| "binary_tokens BNotEq = [TSym SymNotEq]"
| "binary_tokens BLt = [TSym SymLt]"
| "binary_tokens BLe = [TSym SymLe]"
| "binary_tokens BGt = [TSym SymGt]"
| "binary_tokens BGe = [TSym SymGe]"
| "binary_tokens BLike = [TKw KwLike]"
| "binary_tokens BIs = [TKw KwIs]"
| "binary_tokens BIsNot = [TKw KwIs, TKw KwNot]"
| "binary_tokens BAdd = [TSym SymPlus]"
| "binary_tokens BSub = [TSym SymMinus]"
| "binary_tokens BConcat = [TSym SymConcat]"
| "binary_tokens BMul = [TSym SymStar]"
| "binary_tokens BDiv = [TSym SymSlash]"
| "binary_tokens BMod = [TSym SymPercent]"
| "binary_tokens op = []"

fun expr_level :: "expr \<Rightarrow> nat" where
  "expr_level (EBinaryOp op l r) = binary_level op"
| "expr_level (EUnaryOp op e) = (if op = UNot then 2 else 6)"
| "expr_level e = 7"

definition wrap :: "nat \<Rightarrow> expr \<Rightarrow> token list \<Rightarrow> token list" where
  "wrap p e ts = (if expr_level e < p then TSym SymLParen # ts @ [TSym SymRParen] else ts)"

fun comma_tokens :: "token list list \<Rightarrow> token list" where
  "comma_tokens [] = []"
| "comma_tokens [ts] = ts"
| "comma_tokens (ts # us # uss) = ts @ TSym SymComma # comma_tokens (us # uss)"

fun native_tokens :: "expr \<Rightarrow> token list" where
  "native_tokens ENull = [TKw KwNull]"
| "native_tokens (EInteger i) = [TkIntegerLit i]"
| "native_tokens (EReal r) = [TkRealLit r]"
| "native_tokens (EString s) = [TkStringLit s]"
| "native_tokens (EBlob b) = [TkBlobLit b]"
| "native_tokens (EIdent s) = [TkIdent s]"
| "native_tokens (EQualifiedIdent t c) = [TkIdent t, TSym SymDot, TkIdent c]"
| "native_tokens EStar = [TSym SymStar]"
| "native_tokens (EUnaryOp op e) =
     (if op = UNot then TKw KwNot # wrap 2 e (native_tokens e)
      else TSym SymMinus # wrap 6 e (native_tokens e))"
| "native_tokens (EBinaryOp op l r) =
     wrap (binary_level op) l (native_tokens l) @ binary_tokens op
     @ wrap (Suc (binary_level op)) r (native_tokens r)"
| "native_tokens (EFunction n d args) =
     (if n = ''count'' then [TKw KwCount, TSym SymLParen] @ (if d then [TKw KwDistinct] else [])
      else [TkIdent n, TSym SymLParen])
     @ comma_tokens (map native_tokens args) @ [TSym SymRParen]"
| "native_tokens e = []"

definition expr_tokens :: "nat \<Rightarrow> expr \<Rightarrow> token list" where
  "expr_tokens p e = wrap p e (native_tokens e)"

text \<open>The expressions the grammar can produce. \<open>count\<close> needs an argument, and one that starts
  with a star only as \<open>count(*)\<close>.\<close>

fun printable :: "expr \<Rightarrow> bool" where
  "printable (EUnaryOp op e) = (op \<in> {UNot, UMinus} \<and> printable e)"
| "printable (EBinaryOp op l r) = (binary_tokens op \<noteq> [] \<and> printable l \<and> printable r)"
| "printable (EFunction n d args) =
     (list_all printable args \<and>
      (if n = ''count''
       then args = [EStar] \<or> (args \<noteq> [] \<and> hd (native_tokens (hd args)) \<noteq> TSym SymStar)
       else \<not> d))"
| "printable (EQualifiedStar s) = False"
| "printable (EIsNull e) = False"
| "printable (EIsNotNull e) = False"
| "printable (EBetween e l h) = False"
| "printable (EInList e vs) = False"
| "printable (ECase b wts e) = False"
| "printable (ECast e t) = False"
| "printable (ECollate e c) = False"
| "printable (EBind n) = False"
| "printable e = True"

section \<open>Reading tokens ahead\<close>

definition ahead :: "parser \<Rightarrow> token list" where
  "ahead ps = map st_token (drop (p_pos ps) (p_tokens ps))"

definition after :: "nat \<Rightarrow> parser \<Rightarrow> parser" where
  "after j ps = ps\<lparr>p_pos := p_pos ps + j\<rparr>"

lemma ahead_after [simp]: "ahead (after j ps) = drop j (ahead ps)"
  by (simp add: ahead_def after_def drop_map add.commute)

lemma after_after [simp]: "after i (after j ps) = after (j + i) ps"
  by (simp add: after_def add.assoc)

lemma after_0 [simp]: "after 0 ps = ps"
  by (simp add: after_def)

lemma current_ahead: "current_token ps = (case ahead ps of [] \<Rightarrow> None | t # ts \<Rightarrow> Some t)"
proof (cases "p_pos ps < length (p_tokens ps)")
  case True
  then have "drop (p_pos ps) (p_tokens ps) = p_tokens ps ! p_pos ps # drop (Suc (p_pos ps)) (p_tokens ps)"
    by (rule Cons_nth_drop_Suc [symmetric])
  with True show ?thesis by (simp add: ahead_def current_token_def)
qed (simp add: ahead_def current_token_def)

lemma discriminant_simple [simp]:
  "discriminant u = TKw k \<longleftrightarrow> u = TKw k" "discriminant u = TSym s \<longleftrightarrow> u = TSym s"
  by (cases u; simp)+

lemma check_kw [simp]: "check (TKw k) ps = (current_token ps = Some (TKw k))"
  by (cases "current_token ps") (auto simp: check_def)

lemma check_sym [simp]: "check (TSym s) ps = (current_token ps = Some (TSym s))"
  by (cases "current_token ps") (auto simp: check_def)

lemma advance_current: "current_token ps = Some t \<Longrightarrow> advance ps = (Inr (Some t), after 1 ps)"
  by (simp add: advance_app at_end_current after_def)

lemma advance_ahead: "ahead ps = t # ts \<Longrightarrow> advance ps = (Inr (Some t), after 1 ps)"
  by (rule advance_current) (simp add: current_ahead)

lemma match_kw:
  "match_token (TKw k) ps = (if current_token ps = Some (TKw k) then (Inr True, after 1 ps) else (Inr False, ps))"
  by (simp add: match_token_def advance_current)

lemma match_sym:
  "match_token (TSym s) ps = (if current_token ps = Some (TSym s) then (Inr True, after 1 ps) else (Inr False, ps))"
  by (simp add: match_token_def advance_current)

lemma expect_sym: "current_token ps = Some (TSym s) \<Longrightarrow> expect (TSym s) ps = (Inr (), after 1 ps)"
  by (simp add: expect_def match_sym)

lemma bind_match:
  "bindS (match_token (TKw k)) f ps
   = (if current_token ps = Some (TKw k) then f True (after 1 ps) else f False ps)"
  "bindS (match_token (TSym s)) f ps
   = (if current_token ps = Some (TSym s) then f True (after 1 ps) else f False ps)"
  by (simp_all add: match_kw match_sym)

lemma bind_expect:
  "current_token ps = Some (TSym s) \<Longrightarrow> bindS (expect (TSym s)) f ps = f () (after 1 ps)"
  by (simp add: expect_sym)

lemma bind_advance: "current_token ps = Some t \<Longrightarrow> bindS advance f ps = f (Some t) (after 1 ps)"
  by (simp add: advance_current)

lemma bind_getS: "bindS (getS g) f ps = f (g ps) ps"
  by simp

lemmas reads = bind_match bind_expect bind_getS bindS_assoc bindS_if ret_bindS current_ahead

section \<open>Levels\<close>

text \<open>The method that parses each level; the fuel \<open>k\<close> is only used by the two prefix operators.\<close>

definition level_parser :: "nat \<Rightarrow> nat \<Rightarrow> nat \<Rightarrow> expr pm" where
  "level_parser p k n =
     (let pe = parse_expr n; psel = parse_select n in
      if p = 0 then parse_or_expr n pe psel
      else if p = 1 then parse_and_expr n pe psel
      else if p = 2 then parse_not_expr k n pe psel
      else if p = 3 then parse_comparison_expr n pe psel
      else if p = 4 then parse_additive_expr n pe psel
      else if p = 5 then parse_multiplicative_expr n pe psel
      else if p = 6 then parse_unary_expr k n pe psel
      else parse_primary_expr n pe psel)"

definition level_op :: "nat \<Rightarrow> binary_op option pm" where
  "level_op p =
     (if p = 0 then or_op else if p = 1 then and_op else if p = 3 then comparison_op
      else if p = 4 then additive_op else multiplicative_op)"

definition loop_levels :: "nat set" where
  "loop_levels = {0, 1, 3, 4, 5}"

lemma level_loop:
  "L \<in> loop_levels \<Longrightarrow>
   level_parser L k n =
     bindS (level_parser (Suc L) n n) (binary_loop n (level_op L) (level_parser (Suc L) n n))"
  by (auto simp: loop_levels_def level_parser_def level_op_def Let_def parse_or_expr_def
      parse_and_expr_def parse_comparison_expr_def parse_additive_expr_def
      parse_multiplicative_expr_def)

lemma level_prefix:
  "level_parser 2 (Suc k) n =
     bindS (match_token (TKw KwNot)) (\<lambda>b.
       if b then bindS (level_parser 2 k n) (\<lambda>e. retS (EUnaryOp UNot e)) else level_parser 3 k n)"
  "level_parser 6 (Suc k) n =
     bindS (match_token (TSym SymMinus)) (\<lambda>minus.
       if minus then bindS (level_parser 6 k n) (\<lambda>e. retS (EUnaryOp UMinus e))
       else bindS (match_token (TSym SymPlus)) (\<lambda>plus.
         if plus then level_parser 6 k n else level_parser 7 k n))"
  by (simp_all add: level_parser_def Let_def cong: if_cong)

lemma level_expr: "parse_expr (Suc n) = level_parser 0 k n"
  by (simp add: level_parser_def Let_def)

text \<open>The tokens that continue an expression of a level, and those that may follow it.\<close>

fun token_level :: "token \<Rightarrow> nat" where
  "token_level (TKw k) =
     (if k = KwOr then 1 else if k = KwAnd then 2 else if k \<in> {KwLike, KwIs} then 4 else 0)"
| "token_level (TSym s) =
     (if s \<in> {SymEq, SymEqEq, SymNotEq, SymLt, SymLe, SymGt, SymGe} then 4
      else if s \<in> {SymPlus, SymMinus, SymConcat} then 5
      else if s \<in> {SymStar, SymSlash, SymPercent} then 6
      else if s \<in> {SymLParen, SymDot} then 9 else 0)"
| "token_level t = 0"

definition stops :: "nat \<Rightarrow> token list \<Rightarrow> bool" where
  "stops p ts = (case ts of [] \<Rightarrow> True | t # us \<Rightarrow> token_level t \<le> p)"

lemma stops_mono: "stops p ts \<Longrightarrow> p \<le> q \<Longrightarrow> stops q ts"
  by (auto simp: stops_def split: list.splits)

lemma stops_simple [simp]: "stops p (TSym SymComma # ts)" "stops p (TSym SymRParen # ts)" "stops p []"
  by (simp_all add: stops_def)

lemma level_op_none:
  assumes "stops L (ahead ps)" and "L \<in> loop_levels"
  shows "level_op L ps = (Inr None, ps)"
proof (cases "ahead ps")
  case Nil
  then show ?thesis
    using assms(2)
    by (auto simp: level_op_def loop_levels_def or_op_def and_op_def comparison_op_def additive_op_def
        multiplicative_op_def reads)
next
  case (Cons t ts)
  have "token_level t \<le> L" using assms(1) Cons by (simp add: stops_def)
  then show ?thesis
    using assms(2) Cons
    by (auto simp: level_op_def loop_levels_def or_op_def and_op_def comparison_op_def additive_op_def
        multiplicative_op_def reads)
qed

lemma level_op_some:
  assumes "ahead ps = binary_tokens op @ rest" and "binary_tokens op \<noteq> []"
    and "rest \<noteq> []" and "hd rest \<noteq> TKw KwNot \<or> binary_level op < 3"
  shows "level_op (binary_level op) ps = (Inr (Some op), after (length (binary_tokens op)) ps)"
  using assms
  by (cases op; cases rest)
    (auto simp: level_op_def or_op_def and_op_def comparison_op_def additive_op_def
      multiplicative_op_def reads numeral_2_eq_2)

lemma binary_level_loop: "binary_level op \<in> loop_levels"
  by (cases op) (simp_all add: loop_levels_def)

lemma stops_operator: "binary_tokens op \<noteq> [] \<Longrightarrow> stops (Suc (binary_level op)) (binary_tokens op @ rest)"
  by (cases op) (simp_all add: stops_def)

section \<open>Reading back\<close>

definition reads_as :: "nat \<Rightarrow> token list \<Rightarrow> expr \<Rightarrow> bool" where
  "reads_as p ts e =
     (\<forall>k n ps rest. ahead ps = ts @ rest \<longrightarrow> stops p rest \<longrightarrow> length ts < k \<longrightarrow> length ts + 1 < n
        \<longrightarrow> level_parser p k n ps = (Inr e, after (length ts) ps))"

lemma reads_asD:
  "reads_as p ts e \<Longrightarrow> ahead ps = ts @ rest \<Longrightarrow> stops p rest \<Longrightarrow> length ts < k \<Longrightarrow> length ts + 1 < n
   \<Longrightarrow> level_parser p k n ps = (Inr e, after (length ts) ps)"
  by (simp add: reads_as_def)

text \<open>A chain of left operands: what has been read so far is the accumulator of the loop.\<close>

definition chains_as :: "nat \<Rightarrow> token list \<Rightarrow> expr \<Rightarrow> bool" where
  "chains_as L ts e =
     (\<forall>n ps rest. ahead ps = ts @ rest \<longrightarrow> stops (Suc L) rest \<longrightarrow> length ts + 1 < n
        \<longrightarrow> (\<exists>k. n \<le> k + length ts \<and>
              level_parser L n n ps
              = binary_loop k (level_op L) (level_parser (Suc L) n n) e (after (length ts) ps)))"

lemma chain_start:
  assumes "L \<in> loop_levels" and "reads_as (Suc L) ts e"
  shows "chains_as L ts e"
  unfolding chains_as_def
proof (intro allI impI)
  fix n ps rest
  assume "ahead ps = ts @ rest" and "stops (Suc L) rest" and "length ts + 1 < n"
  then have "level_parser (Suc L) n n ps = (Inr e, after (length ts) ps)"
    by (intro reads_asD [OF assms(2)]) auto
  then show "\<exists>k. n \<le> k + length ts \<and> level_parser L n n ps
      = binary_loop k (level_op L) (level_parser (Suc L) n n) e (after (length ts) ps)"
    by (intro exI [of _ n]) (simp add: level_loop [OF assms(1)])
qed

lemma chain_step:
  assumes chain: "chains_as (binary_level op) ts l"
    and right: "reads_as (Suc (binary_level op)) us r"
    and op: "binary_tokens op \<noteq> []" and us: "us \<noteq> []" "hd us \<noteq> TKw KwNot \<or> binary_level op < 3"
  shows "chains_as (binary_level op) (ts @ binary_tokens op @ us) (EBinaryOp op l r)"
  unfolding chains_as_def
proof (intro allI impI)
  let ?L = "binary_level op" and ?o = "binary_tokens op"
  fix n ps rest
  assume here: "ahead ps = (ts @ ?o @ us) @ rest" and rest: "stops (Suc ?L) rest"
    and n: "length (ts @ ?o @ us) + 1 < n"
  obtain k where k: "n \<le> k + length ts"
    and run: "level_parser ?L n n ps
      = binary_loop k (level_op ?L) (level_parser (Suc ?L) n n) l (after (length ts) ps)"
    using chain [unfolded chains_as_def, rule_format, of ps "?o @ us @ rest" n] here n
      stops_operator [OF op, of "us @ rest"] by auto
  obtain k' where k': "k = Suc k'" using k n by (cases k) auto
  have "level_op ?L (after (length ts) ps) = (Inr (Some op), after (length (ts @ ?o)) ps)"
    using level_op_some [of "after (length ts) ps" op "us @ rest"] here op us by simp
  moreover have "level_parser (Suc ?L) n n (after (length (ts @ ?o)) ps)
      = (Inr r, after (length (ts @ ?o @ us)) ps)"
    using reads_asD [OF right, of "after (length (ts @ ?o)) ps" rest n n] here rest n
    by (simp add: add.assoc)
  ultimately show "\<exists>k. n \<le> k + length (ts @ ?o @ us) \<and> level_parser ?L n n ps
      = binary_loop k (level_op ?L) (level_parser (Suc ?L) n n) (EBinaryOp op l r)
          (after (length (ts @ ?o @ us)) ps)"
    using k k' op by (intro exI [of _ k']) (auto simp: run Suc_le_eq neq_Nil_conv)
qed

lemma chain_reads:
  assumes "L \<in> loop_levels" and "chains_as L ts e"
  shows "reads_as L ts e"
  unfolding reads_as_def
proof (intro allI impI)
  fix k n ps rest
  assume here: "ahead ps = ts @ rest" and rest: "stops L rest" and n: "length ts + 1 < n"
  obtain i where i: "n \<le> i + length ts"
    and run: "level_parser L n n ps
      = binary_loop i (level_op L) (level_parser (Suc L) n n) e (after (length ts) ps)"
    using assms(2) [unfolded chains_as_def, rule_format, OF here stops_mono [OF rest] n] by auto
  obtain i' where "i = Suc i'" using i n by (cases i) auto
  moreover have "level_op L (after (length ts) ps) = (Inr None, after (length ts) ps)"
    by (rule level_op_none) (simp_all add: here rest assms(1))
  ultimately have "level_parser L n n ps = (Inr e, after (length ts) ps)" by (simp add: run)
  then show "level_parser L k n ps = (Inr e, after (length ts) ps)"
    using level_loop [OF assms(1)] by simp
qed

text \<open>What reads as an expression of a level reads as one of every lower level, unless it starts with
  a prefix operator of a level in between.\<close>

definition head_ok :: "nat \<Rightarrow> token list \<Rightarrow> bool" where
  "head_ok q ts =
     (ts \<noteq> [] \<and> hd ts \<noteq> TKw KwSelect \<and> hd ts \<noteq> TKw KwDistinct \<and> hd ts \<noteq> TSym SymRParen
      \<and> (3 \<le> q \<longrightarrow> hd ts \<noteq> TKw KwNot)
      \<and> (7 \<le> q \<longrightarrow> hd ts \<noteq> TSym SymMinus \<and> hd ts \<noteq> TSym SymPlus))"

lemma head_ok_mono: "head_ok q ts \<Longrightarrow> p \<le> q \<Longrightarrow> head_ok p ts"
  by (auto simp: head_ok_def)

lemma level_parser_k: "p \<noteq> 2 \<Longrightarrow> p \<noteq> 6 \<Longrightarrow> level_parser p k n = level_parser p k' n"
  by (simp add: level_parser_def Let_def)

lemma climb_step:
  assumes "reads_as (Suc p) ts e" and "head_ok (Suc p) ts" and "p \<le> 6"
  shows "reads_as p ts e"
proof (cases "p \<in> loop_levels")
  case True
  show ?thesis by (rule chain_reads [OF True chain_start [OF True assms(1)]])
next
  case False
  with assms(3) have p: "p = 2 \<or> p = 6" by (auto simp: loop_levels_def)
  show ?thesis
    unfolding reads_as_def
  proof (intro allI impI)
    fix k n ps rest
    assume here: "ahead ps = ts @ rest" and rest: "stops p rest" and k: "length ts < k"
      and n: "length ts + 1 < n"
    have up: "level_parser (Suc p) j n ps = (Inr e, after (length ts) ps)" for j
      using reads_asD [OF assms(1) here stops_mono [OF rest], of n n] n p
        level_parser_k [of "Suc p" j n n] by auto
    obtain k' where "k = Suc k'" using k by (cases k) auto
    with p up [of k'] here assms(2) show "level_parser p k n ps = (Inr e, after (length ts) ps)"
      by (auto simp: level_prefix reads head_ok_def neq_Nil_conv)
  qed
qed

lemma climb:
  assumes "reads_as q ts e" and "head_ok q ts" and "q \<le> 7" and "p \<le> q"
  shows "reads_as p ts e"
  using assms(4)
proof (induction p rule: inc_induct)
  case (step p)
  then show ?case
    using climb_step [of p ts e] head_ok_mono [OF assms(2), of "Suc p"] assms(3) by simp
qed (rule assms(1))

lemma parens_read:
  assumes "reads_as 0 ts e" and "head_ok 0 ts"
  shows "reads_as 7 (TSym SymLParen # ts @ [TSym SymRParen]) e"
  unfolding reads_as_def
proof (intro allI impI)
  fix k n ps rest
  assume here: "ahead ps = (TSym SymLParen # ts @ [TSym SymRParen]) @ rest"
    and n: "length (TSym SymLParen # ts @ [TSym SymRParen]) + 1 < n"
  obtain m where m: "n = Suc m" using n by (cases n) auto
  have inner: "parse_expr n (after 1 ps) = (Inr e, after (Suc (length ts)) ps)"
    using reads_asD [OF assms(1), of "after 1 ps" "TSym SymRParen # rest" n m] here n m
    by (simp only: m level_expr [of m n]) simp
  have "bindS (parse_expr n) (\<lambda>e. bindS (expect (TSym SymRParen)) (\<lambda>_. retS e)) (after 1 ps)
      = (Inr e, after (Suc (Suc (length ts))) ps)"
    by (subst bindS_Inr, rule inner) (simp add: reads here)
  moreover have "current_token ps = Some (TSym SymLParen)" using here by (simp add: current_ahead)
  moreover have "current_token (after 1 ps) \<noteq> Some (TKw KwSelect)"
    using here assms(2) by (cases ts) (auto simp: current_ahead head_ok_def)
  ultimately have "parse_parens (parse_expr n) (parse_select n) ps
      = (Inr e, after (Suc (Suc (length ts))) ps)"
    unfolding parse_parens_def by (simp only: bind_advance bind_match if_False)
  with \<open>current_token ps = Some (TSym SymLParen)\<close>
  show "level_parser 7 k n ps = (Inr e, after (length (TSym SymLParen # ts @ [TSym SymRParen])) ps)"
    by (simp add: level_parser_def Let_def parse_primary_expr_def bind_match bind_getS)
qed

lemma wrap_reads:
  assumes "reads_as (expr_level e) (native_tokens e) e" and "head_ok (expr_level e) (native_tokens e)"
    and "expr_level e \<le> 7" and "p \<le> 7"
  shows "reads_as p (expr_tokens p e) e"
proof (cases "expr_level e < p")
  case True
  have "reads_as 7 (TSym SymLParen # native_tokens e @ [TSym SymRParen]) e"
    using assms(1-3) by (intro parens_read climb [OF assms(1,2)] head_ok_mono [OF assms(2)]) auto
  then have "reads_as p (TSym SymLParen # native_tokens e @ [TSym SymRParen]) e"
    by (rule climb) (use assms(4) in \<open>auto simp: head_ok_def\<close>)
  with True show ?thesis by (simp add: expr_tokens_def wrap_def)
qed (use climb [OF assms(1,2,3)] in \<open>simp add: expr_tokens_def wrap_def\<close>)

lemma binary_level_le: "binary_level op \<le> 5"
  by (cases op) simp_all

lemma expr_level_le: "expr_level e \<le> 7"
proof (cases e)
  case (EBinaryOp op l r)
  then show ?thesis using binary_level_le [of op] by simp
qed simp_all

lemma native_head: "printable e \<Longrightarrow> head_ok (expr_level e) (native_tokens e)"
proof (induction e)
  case (EBinaryOp op l r)
  then have "head_ok (expr_level l) (native_tokens l)" by simp
  with binary_level_le [of op] show ?case
    by (auto simp: wrap_def head_ok_def)
qed (auto simp: head_ok_def)

lemma tokens_head: "printable e \<Longrightarrow> p \<le> 7 \<Longrightarrow> head_ok p (expr_tokens p e)"
  using head_ok_mono [OF native_head, of e p]
  by (auto simp: expr_tokens_def wrap_def head_ok_def)

section \<open>Primary expressions\<close>

lemma level_7: "level_parser 7 k n = parse_primary_expr n (parse_expr n) (parse_select n)"
  by (simp add: level_parser_def Let_def)

lemma null_reads: "reads_as 7 [TKw KwNull] ENull"
  by (simp add: reads_as_def level_7 parse_primary_expr_def bind_match current_ahead)

lemma literal_reads: "literal_expr t = Some e \<Longrightarrow> reads_as 7 [t] e"
  by (cases t) (auto simp: reads_as_def level_7 parse_primary_expr_def bind_match bind_getS
      bind_advance current_ahead split: if_splits)

lemma name_reads:
  assumes "stops 7 rest" and "ahead ps = TkIdent s # rest"
  shows "parse_named n pe s ps = (Inr (EIdent s), after 1 ps)"
  using assms
  by (cases rest) (auto simp: parse_named_def bind_match bind_advance current_ahead stops_def)

lemma ident_primary:
  "ahead ps = TkIdent s # rest \<Longrightarrow> parse_primary_expr n pe psel ps = parse_named n pe s ps"
  by (simp add: parse_primary_expr_def bind_match bind_getS current_ahead)

lemma ident_reads: "reads_as 7 [TkIdent s] (EIdent s)"
  by (auto simp: reads_as_def level_7 ident_primary name_reads)

lemma qualified_reads: "reads_as 7 [TkIdent t, TSym SymDot, TkIdent c] (EQualifiedIdent t c)"
  by (simp add: reads_as_def level_7 ident_primary parse_named_def bind_advance bind_match
      parse_ident_def bind_getS bindS_assoc current_ahead ret_bindS numeral_3_eq_3)

lemma comma_tokens_length:
  "(\<And>a. a \<in> set args \<Longrightarrow> f a \<noteq> []) \<Longrightarrow> length args \<le> length (comma_tokens (map f args))"
proof (induction args rule: induct_list012)
  case (2 x)
  then have "f x \<noteq> []" by simp
  then show ?case by (cases "f x") auto
next
  case (3 x y zs)
  then show ?case by simp
qed simp

lemma comma_list_reads:
  assumes "args \<noteq> []" and "\<And>a. a \<in> set args \<Longrightarrow> reads_as 0 (f a) a"
    and "ahead ps = comma_tokens (map f args) @ TSym SymRParen # rest"
    and "length (comma_tokens (map f args)) + 2 < n" and "length args \<le> i"
  shows "comma_list i (parse_expr n) ps = (Inr args, after (length (comma_tokens (map f args))) ps)"
  using assms
proof (induction args arbitrary: i ps rule: induct_list012)
  case (2 x)
  obtain m i' where m: "n = Suc m" "i = Suc i'" using 2 by (cases n; cases i) auto
  have "parse_expr n ps = (Inr x, after (length (f x)) ps)"
    using reads_asD [OF "2.prems"(2) [of x], of ps "TSym SymRParen # rest" n m] "2.prems" m
    by (simp only: m(1) level_expr [of m n]) simp
  then show ?case using "2.prems" by (simp only: m(2) comma_list.simps) (simp add: bind_match current_ahead)
next
  case (3 x y zs)
  let ?us = "comma_tokens (map f (y # zs))"
  obtain m i' where m: "n = Suc m" "i = Suc i'" using 3 by (cases n; cases i) auto
  have head: "parse_expr n ps = (Inr x, after (length (f x)) ps)"
    using reads_asD [OF "3.prems"(2) [of x], of ps "TSym SymComma # ?us @ TSym SymRParen # rest" n m] "3.prems" m
    by (simp only: m(1) level_expr [of m n]) simp
  have tail: "comma_list i' (parse_expr n) (after (Suc (length (f x))) ps)
      = (Inr (y # zs), after (length (f x @ TSym SymComma # ?us)) ps)"
    using "3.IH"(2) [of "after (Suc (length (f x))) ps" i'] "3.prems" m by (simp add: add.assoc)
  show ?case
    using "3.prems" tail
    by (simp only: m(2) comma_list.simps) (simp add: head bind_match current_ahead)
qed simp

lemma comma_tokens_head:
  "args \<noteq> [] \<Longrightarrow> f (hd args) \<noteq> [] \<Longrightarrow>
   comma_tokens (map f args) \<noteq> [] \<and> hd (comma_tokens (map f args)) = hd (f (hd args))"
  by (cases args; cases "tl args") (auto simp: neq_Nil_conv)

lemma args_read:
  assumes "\<And>a. a \<in> set args \<Longrightarrow> printable a \<and> reads_as 0 (native_tokens a) a" and "args \<noteq> []"
    and "ahead ps = comma_tokens (map native_tokens args) @ TSym SymRParen # rest"
    and "length (comma_tokens (map native_tokens args)) + 2 < n"
  shows "comma_list n (parse_expr n) ps
    = (Inr args, after (length (comma_tokens (map native_tokens args))) ps)"
    and "\<exists>t. current_token ps = Some t \<and> t = hd (native_tokens (hd args))
      \<and> t \<noteq> TKw KwDistinct \<and> t \<noteq> TSym SymRParen"
proof -
  have head: "head_ok (expr_level a) (native_tokens a)" if "a \<in> set args" for a
    using assms(1) that by (intro native_head) simp
  then have "length args \<le> length (comma_tokens (map native_tokens args))"
    by (intro comma_tokens_length) (simp add: head_ok_def)
  then show "comma_list n (parse_expr n) ps
    = (Inr args, after (length (comma_tokens (map native_tokens args))) ps)"
    using assms by (intro comma_list_reads) auto
  have "head_ok (expr_level (hd args)) (native_tokens (hd args))" using head assms(2) by simp
  then show "\<exists>t. current_token ps = Some t \<and> t = hd (native_tokens (hd args))
      \<and> t \<noteq> TKw KwDistinct \<and> t \<noteq> TSym SymRParen"
    using comma_tokens_head [of args native_tokens] assms(2,3)
    by (auto simp: current_ahead head_ok_def neq_Nil_conv)
qed

lemma call_reads:
  assumes args: "\<And>a. a \<in> set args \<Longrightarrow> printable a \<and> reads_as 0 (native_tokens a) a"
    and name: "name \<noteq> ''count''"
  shows "reads_as 7 (native_tokens (EFunction name False args)) (EFunction name False args)"
  unfolding reads_as_def
proof (intro allI impI)
  let ?ts = "comma_tokens (map native_tokens args)"
  fix k n ps rest
  assume "ahead ps = native_tokens (EFunction name False args) @ rest"
    and n: "length (native_tokens (EFunction name False args)) + 1 < n"
  then have here: "ahead ps = TkIdent name # TSym SymLParen # ?ts @ TSym SymRParen # rest"
    using name by simp
  have "parse_named n (parse_expr n) name ps = (Inr (EFunction name False args), after (length ?ts + 3) ps)"
  proof (cases "args = []")
    case True
    then show ?thesis
      using here by (simp add: parse_named_def bind_advance bind_match bind_getS bind_expect ret_bindS
          current_ahead numeral_3_eq_3)
  next
    case False
    have list: "comma_list n (parse_expr n) (after (Suc (Suc 0)) ps) = (Inr args, after (length ?ts + 2) ps)"
      using args_read(1) [OF args False, of "after 2 ps" rest n] here n name by (simp add: numeral_2_eq_2)
    obtain t where "current_token (after (Suc (Suc 0)) ps) = Some t" "t \<noteq> TSym SymRParen"
      using args_read(2) [OF args False, of "after 2 ps" rest n] here n name by (auto simp: numeral_2_eq_2)
    moreover have "current_token (after (length ?ts + 2) ps) = Some (TSym SymRParen)"
      using here by (simp add: current_ahead)
    moreover have "current_token ps = Some (TkIdent name)" "current_token (after (Suc 0) ps) = Some (TSym SymLParen)"
      using here by (simp_all add: current_ahead)
    ultimately show ?thesis
      by (simp add: parse_named_def bind_advance bind_match bind_getS bind_expect list numeral_3_eq_3)
  qed
  then show "level_parser 7 k n ps = (Inr (EFunction name False args),
      after (length (native_tokens (EFunction name False args))) ps)"
    using here name by (simp add: level_7 ident_primary numeral_3_eq_3)
qed

lemma count_reads:
  assumes args: "\<And>a. a \<in> set args \<Longrightarrow> printable a \<and> reads_as 0 (native_tokens a) a"
    and star: "args = [EStar] \<or> (args \<noteq> [] \<and> hd (native_tokens (hd args)) \<noteq> TSym SymStar)"
  shows "reads_as 7 (native_tokens (EFunction ''count'' d args)) (EFunction ''count'' d args)"
  unfolding reads_as_def
proof (intro allI impI)
  let ?ts = "comma_tokens (map native_tokens args)" and ?j = "if d then 3 else 2 :: nat"
  let ?pe = "parse_expr"
  fix k n ps rest
  assume "ahead ps = native_tokens (EFunction ''count'' d args) @ rest"
    and n: "length (native_tokens (EFunction ''count'' d args)) + 1 < n"
  then have here: "ahead ps = TKw KwCount # TSym SymLParen # (if d then [TKw KwDistinct] else []) @ ?ts @ TSym SymRParen # rest"
    by simp
  have ne: "args \<noteq> []" using star by auto
  have at: "ahead (after ?j ps) = ?ts @ TSym SymRParen # rest" using here by simp
  have len: "length ?ts + 2 < n" using n by simp
  note list = args_read [OF args ne at len]
  have cur: "current_token ps = Some (TKw KwCount)" "current_token (after (Suc 0) ps) = Some (TSym SymLParen)"
    "current_token (after (length ?ts + ?j) ps) = Some (TSym SymRParen)"
    using here by (simp_all add: current_ahead numeral_2_eq_2 numeral_3_eq_3)
  obtain t where t: "current_token (after ?j ps) = Some t" "t = hd (native_tokens (hd args))" "t \<noteq> TKw KwDistinct"
    using list(2) by auto
  have distinct: "match_token (TKw KwDistinct) (after (Suc (Suc 0)) ps) = (Inr d, after ?j ps)"
  proof (cases d)
    case True
    then have "current_token (after (Suc (Suc 0)) ps) = Some (TKw KwDistinct)" using here by (simp add: current_ahead)
    with True show ?thesis by (simp add: match_kw numeral_3_eq_3)
  qed (use t in \<open>simp add: match_kw numeral_2_eq_2\<close>)
  have rest: "bindS (match_token (TSym SymStar)) (\<lambda>star.
     bindS (if star then retS [EStar] else comma_list n (?pe n)) (\<lambda>args.
     bindS (expect (TSym SymRParen)) (\<lambda>_. retS (EFunction ''count'' d args)))) (after ?j ps)
     = (Inr (EFunction ''count'' d args), after (length ?ts + ?j + 1) ps)"
  proof (cases "args = [EStar]")
    case True
    then show ?thesis using t cur(3) by (simp add: bind_match bind_expect ret_bindS)
  next
    case False
    then have "t \<noteq> TSym SymStar" using star t(2) by simp
    then show ?thesis using t(1) cur(3) list(1) by (simp add: bind_match bind_expect add.commute)
  qed
  have "parse_count n (?pe n) ps = (Inr (EFunction ''count'' d args), after (length ?ts + ?j + 1) ps)"
    unfolding parse_count_def using cur(1,2) distinct rest by (simp add: bind_advance bind_expect)
  then show "level_parser 7 k n ps = (Inr (EFunction ''count'' d args),
      after (length (native_tokens (EFunction ''count'' d args))) ps)"
    using cur(1) by (simp add: level_7 parse_primary_expr_def bind_match bind_getS; simp add: eval_nat_numeral)
qed

section \<open>Every printed expression reads back\<close>

lemma chain_other:
  assumes "\<And>p. p \<le> 7 \<Longrightarrow> reads_as p (expr_tokens p e) e" and "L \<in> loop_levels" and "expr_level e \<noteq> L"
  shows "chains_as L (expr_tokens L e) e"
proof -
  have "expr_tokens L e = expr_tokens (Suc L) e" using assms(3) by (simp add: expr_tokens_def wrap_def)
  moreover have "Suc L \<le> 7" using assms(2) by (auto simp: loop_levels_def)
  ultimately show ?thesis using assms(1) [of "Suc L"] assms(2) by (auto intro: chain_start)
qed

lemma native_prefix:
  assumes "reads_as 2 ts e"
  shows "reads_as 2 (TKw KwNot # ts) (EUnaryOp UNot e)"
  unfolding reads_as_def
proof (intro allI impI)
  fix k n ps rest
  assume here: "ahead ps = (TKw KwNot # ts) @ rest" and rest: "stops 2 rest"
    and k: "length (TKw KwNot # ts) < k" and n: "length (TKw KwNot # ts) + 1 < n"
  obtain k' where k': "k = Suc k'" using k by (cases k) auto
  have "level_parser 2 k' n (after 1 ps) = (Inr e, after (length (TKw KwNot # ts)) ps)"
    using reads_asD [OF assms, of "after 1 ps" rest k' n] here rest k n k' by simp
  then show "level_parser 2 k n ps = (Inr (EUnaryOp UNot e), after (length (TKw KwNot # ts)) ps)"
    using here by (simp add: k' level_prefix bind_match current_ahead)
qed

lemma native_minus:
  assumes "reads_as 6 ts e"
  shows "reads_as 6 (TSym SymMinus # ts) (EUnaryOp UMinus e)"
  unfolding reads_as_def
proof (intro allI impI)
  fix k n ps rest
  assume here: "ahead ps = (TSym SymMinus # ts) @ rest" and rest: "stops 6 rest"
    and k: "length (TSym SymMinus # ts) < k" and n: "length (TSym SymMinus # ts) + 1 < n"
  obtain k' where k': "k = Suc k'" using k by (cases k) auto
  have "level_parser 6 k' n (after 1 ps) = (Inr e, after (length (TSym SymMinus # ts)) ps)"
    using reads_asD [OF assms, of "after 1 ps" rest k' n] here rest k n k' by simp
  then show "level_parser 6 k n ps = (Inr (EUnaryOp UMinus e), after (length (TSym SymMinus # ts)) ps)"
    using here by (simp add: k' level_prefix bind_match current_ahead)
qed

definition reads_everywhere :: "expr \<Rightarrow> bool" where
  "reads_everywhere e =
     ((\<forall>p \<le> 7. reads_as p (expr_tokens p e) e) \<and> (\<forall>L \<in> loop_levels. chains_as L (expr_tokens L e) e))"

lemma reads_other:
  assumes "reads_as (expr_level e) (native_tokens e) e" and "printable e" and "expr_level e \<notin> loop_levels"
  shows "reads_everywhere e"
  using wrap_reads [OF assms(1) native_head [OF assms(2)] expr_level_le] chain_other [of e] assms(3)
  by (auto simp: reads_everywhere_def)

lemma reads_atom:
  "reads_as 7 (native_tokens e) e \<Longrightarrow> printable e \<Longrightarrow> expr_level e = 7 \<Longrightarrow> reads_everywhere e"
  by (rule reads_other) (simp_all add: loop_levels_def)

lemma printable_reads: "printable e \<Longrightarrow> reads_everywhere e"
proof (induction e)
  case ENull show ?case by (rule reads_atom) (simp_all add: null_reads)
next
  case (EInteger i) show ?case by (rule reads_atom) (simp_all add: literal_reads)
next
  case (EReal r) show ?case by (rule reads_atom) (simp_all add: literal_reads)
next
  case (EString s) show ?case by (rule reads_atom) (simp_all add: literal_reads)
next
  case (EBlob b) show ?case by (rule reads_atom) (simp_all add: literal_reads)
next
  case (EIdent s) show ?case by (rule reads_atom) (simp_all add: ident_reads)
next
  case (EQualifiedIdent t c) show ?case by (rule reads_atom) (simp_all add: qualified_reads)
next
  case EStar show ?case by (rule reads_atom) (simp_all add: literal_reads)
next
  case (EUnaryOp op e)
  show ?case
    by (rule reads_other) (use EUnaryOp in \<open>auto simp: loop_levels_def expr_tokens_def reads_everywhere_def native_prefix native_minus\<close>)
next
  case (EBinaryOp op l r)
  let ?L = "binary_level op"
  have L: "?L \<in> loop_levels" "Suc ?L \<le> 7" using binary_level_loop [of op] binary_level_le [of op] by auto
  have "chains_as ?L (expr_tokens ?L l @ binary_tokens op @ expr_tokens (Suc ?L) r) (EBinaryOp op l r)"
  proof (rule chain_step)
    show "chains_as ?L (expr_tokens ?L l) l" "reads_as (Suc ?L) (expr_tokens (Suc ?L) r) r"
      using EBinaryOp L by (simp_all add: reads_everywhere_def)
    have "head_ok (Suc ?L) (expr_tokens (Suc ?L) r)" using EBinaryOp.prems L by (intro tokens_head) simp_all
    then show "expr_tokens (Suc ?L) r \<noteq> []" "hd (expr_tokens (Suc ?L) r) \<noteq> TKw KwNot \<or> ?L < 3"
      by (auto simp: head_ok_def)
  qed (use EBinaryOp.prems in simp)
  then have chain: "chains_as ?L (native_tokens (EBinaryOp op l r)) (EBinaryOp op l r)"
    by (simp add: expr_tokens_def)
  then have "reads_as p (expr_tokens p (EBinaryOp op l r)) (EBinaryOp op l r)" if "p \<le> 7" for p
    using chain_reads [OF L(1)] EBinaryOp.prems that
    by (intro wrap_reads native_head expr_level_le) simp_all
  then show ?case
    using chain_other [of "EBinaryOp op l r"] chain by (force simp: reads_everywhere_def expr_tokens_def wrap_def)
next
  case (EFunction n d args)
  have "printable a \<and> reads_as 0 (native_tokens a) a" if "a \<in> set args" for a
    using EFunction.IH [OF that] EFunction.prems that by (auto simp: list_all_iff reads_everywhere_def expr_tokens_def wrap_def)
  then show ?case
    using EFunction.prems
    by (cases "n = ''count''") (auto intro!: reads_atom count_reads call_reads simp del: native_tokens.simps)
qed simp_all

lemma parse_expr_reads:
  assumes "printable e" and "ahead ps = expr_tokens 0 e @ rest" and "stops 0 rest"
    and "length (expr_tokens 0 e) + 3 \<le> n"
  shows "parse_expr n ps = (Inr e, after (length (expr_tokens 0 e)) ps)"
proof -
  obtain m where m: "n = Suc m" using assms(4) by (cases n) auto
  have "level_parser 0 n m ps = (Inr e, after (length (expr_tokens 0 e)) ps)"
    using printable_reads [OF assms(1), unfolded reads_everywhere_def] assms m
    by (intro reads_asD [of 0 _ _ _ rest]) auto
  then show ?thesis by (simp only: m level_expr [of m n])
qed

text \<open>C8. Printing an expression with the fewest parentheses its operators need and parsing the
  tokens gives the expression back, whatever follows it that cannot continue it: \<^verbatim>\<open>OR\<close> binds
  weaker than \<^verbatim>\<open>AND\<close>, \<^verbatim>\<open>NOT\<close>, comparisons, \<^verbatim>\<open>+ - ||\<close>, \<^verbatim>\<open>* / %\<close> and unary minus in this order, and
  every binary operator associates to the left. The fuel needed is the number of tokens plus 3.\<close>

theorem expression_roundtrip:
  assumes "printable e" and "ahead ps = expr_tokens 0 e @ rest" and "stops 0 rest"
    and "length (expr_tokens 0 e) + 3 \<le> n"
  shows "parse_expr n ps = (Inr e, after (length (expr_tokens 0 e)) ps)"
  using assms by (rule parse_expr_reads)

end
