(* ===== verification/Lexer_Correct.thy ===== *)
theory Lexer_Correct
  imports Parser_Print
begin

text \<open>
  The lexer's literals and the tokens of a text: literals written with the quoting rules are read
  back, token spans lie in the text one after the other, and the tokens of \<open>a-1\<close> are not those of a
  subtraction.
\<close>

section \<open>Literals\<close>

definition quote_with :: "char \<Rightarrow> string \<Rightarrow> string" where
  "quote_with q s = q # concat (map (\<lambda>c. if c = q then [q, q] else [c]) s) @ [q]"

definition hex_of_byte :: "u8 \<Rightarrow> string" where
  "hex_of_byte b = [hex_digit (unat b div 16), hex_digit (unat b mod 16)]"

definition hex_literal :: "bytes \<Rightarrow> string" where
  "hex_literal bs = CHR ''x'' # CHR 0x27 # concat (map hex_of_byte bs) @ [CHR 0x27]"

lemma unescape_doubled:
  "backslash \<notin> set s \<Longrightarrow>
   unescape_sql_string (concat (map (\<lambda>c. if c = CHR 0x27 then [CHR 0x27, CHR 0x27] else [c]) s)) = s"
  by (induction s) auto

lemma halve_other: "c \<noteq> q \<Longrightarrow> halve_quotes q (c # s) = c # halve_quotes q s"
  by (cases s) auto

lemma halve_doubled:
  "halve_quotes q (concat (map (\<lambda>c. if c = q then [q, q] else [c]) s)) = s"
  by (induction s) (auto simp: halve_other)

lemma inner_quoted: "inner_text (Suc 0) (a # s @ [b]) = Inr s"
  by (simp add: inner_text_def slice_def slice_of_def)

lemma inner_blob: "inner_text 2 (a # b # s @ [c]) = Inr s"
  by (simp add: inner_text_def slice_def slice_of_def)

lemma hex_value_digit: "n < 16 \<Longrightarrow> hex_value (hex_digit n) = Some n"
  by (auto simp: hex_value_def hex_digit_def is_digit_def char_in_def Let_def)

lemma hex_digit_not_plus: "n < 16 \<Longrightarrow> hex_digit n \<noteq> CHR ''+''"
proof
  assume "n < 16" and "hex_digit n = CHR ''+''"
  then have "(of_char (hex_digit n) :: nat) = of_char (CHR ''+'')" by simp
  with \<open>n < 16\<close> show False by (simp add: hex_digit_def split: if_splits)
qed

lemma hex_bytes_of: "hex_bytes (concat (map hex_of_byte bs)) = Some bs"
proof (induction bs)
  case (Cons b bs)
  have "unat b div 16 < 16" "unat b mod 16 < 16" using unat_lt_256 [of b] by auto
  with Cons show ?case
    by (simp add: hex_of_byte_def hex_byte_def hex_value_digit hex_digit_not_plus
        mult.commute [of 16])
qed simp

text \<open>C24. A string, a quoted or backtick identifier and a blob written as SQL literals are read back
  by the lexer's callbacks as they were; for a string this needs that it contains no backslash,
  because the lexer, unlike SQL, treats a backslash as an escape.\<close>

theorem literals_roundtrip:
  assumes "backslash \<notin> set s"
  shows "parse_string (quote_with (CHR 0x27) s) = Inr (Some s)
    \<and> parse_ident_string (quote_with (CHR 0x22) t) = Inr (Some t)
    \<and> parse_backtick_ident (quote_with (CHR 0x60) t) = Inr (Some t)
    \<and> parse_blob (hex_literal bs) = Inr (Some bs)"
proof -
  have "even (length (concat (map hex_of_byte bs)))" by (induction bs) (auto simp: hex_of_byte_def)
  then have "parse_blob (hex_literal bs) = Inr (Some bs)"
    by (simp add: parse_blob_def hex_literal_def inner_blob hex_bytes_of)
  then show ?thesis
    by (simp add: parse_string_def parse_ident_string_def parse_backtick_ident_def quote_with_def
        inner_quoted unescape_doubled [OF assms] halve_doubled)
qed

theorem literals_roundtrip_witness:
  "parse_string (quote_with (CHR 0x27) [CHR 0x27, CHR ''a'']) = Inr (Some [CHR 0x27, CHR ''a''])
   \<and> parse_blob (hex_literal [0, 0xff]) = Inr (Some [0, 0xff])"
  using literals_roundtrip [of "[CHR 0x27, CHR ''a'']" "[]" "[0, 0xff]"] by simp

section \<open>What the rules match\<close>

inductive_set star_of :: "string set \<Rightarrow> string set" for A where
  star_Nil: "[] \<in> star_of A"
| star_append: "u \<in> A \<Longrightarrow> v \<in> star_of A \<Longrightarrow> u @ v \<in> star_of A"

fun lang :: "regex \<Rightarrow> string set" where
  "lang RNone = {}"
| "lang REmpty = {[]}"
| "lang (RChar p) = {[c] | c. p c}"
| "lang (RSeq a b) = {u @ v | u v. u \<in> lang a \<and> v \<in> lang b}"
| "lang (RAlt a b) = lang a \<union> lang b"
| "lang (RStar a) = star_of (lang a)"

lemma lang_seq_re: "lang (seq_re a b) = lang (RSeq a b)"
  by (auto simp: seq_re_def split: regex.split)

lemma lang_alt_re: "lang (alt_re a b) = lang (RAlt a b)"
  by (auto simp: alt_re_def split: regex.split)

lemma nullable_lang: "nullable r \<longleftrightarrow> [] \<in> lang r"
  by (induction r) (auto intro: star_Nil)

lemma star_Cons: "w \<in> star_of A \<Longrightarrow> w = c # s \<Longrightarrow> \<exists>u v. c # u \<in> A \<and> v \<in> star_of A \<and> s = u @ v"
proof (induction arbitrary: s rule: star_of.induct)
  case (star_append u v)
  then show ?case by (cases u) auto
qed simp

lemma lang_deriv: "s \<in> lang (deriv c r) \<longleftrightarrow> c # s \<in> lang r"
proof (induction r arbitrary: s)
  case (RSeq a b)
  show ?case
  proof
    assume "s \<in> lang (deriv c (RSeq a b))"
    then consider u v where "s = u @ v" "c # u \<in> lang a" "v \<in> lang b" | "[] \<in> lang a" "c # s \<in> lang b"
      using RSeq by (auto simp: lang_seq_re lang_alt_re nullable_lang split: if_splits)
    then show "c # s \<in> lang (RSeq a b)"
    proof cases
      case (1 u v)
      then have "c # s = (c # u) @ v" by simp
      with 1 show ?thesis unfolding lang.simps by blast
    next
      case 2
      then have "c # s = [] @ (c # s)" by simp
      with 2 show ?thesis unfolding lang.simps by blast
    qed
  next
    assume "c # s \<in> lang (RSeq a b)"
    then obtain u v where "c # s = u @ v" "u \<in> lang a" "v \<in> lang b" by auto
    then show "s \<in> lang (deriv c (RSeq a b))"
      using RSeq by (cases u) (auto simp: lang_seq_re lang_alt_re nullable_lang)
  qed
next
  case (RStar a)
  show ?case
  proof
    assume "s \<in> lang (deriv c (RStar a))"
    then obtain u v where "s = u @ v" "c # u \<in> lang a" "v \<in> star_of (lang a)"
      using RStar by (auto simp: lang_seq_re)
    then show "c # s \<in> lang (RStar a)" using star_append [of "c # u" "lang a" v] by simp
  next
    assume "c # s \<in> lang (RStar a)"
    then obtain u v where "c # u \<in> lang a" "v \<in> star_of (lang a)" "s = u @ v"
      using star_Cons [of "c # s" "lang a" c s] by auto
    then show "s \<in> lang (deriv c (RStar a))" using RStar by (auto simp: lang_seq_re)
  qed
qed (auto simp: lang_alt_re)

text \<open>The scanner's matcher finds the longest prefix in the language of a rule.\<close>

lemma longest_from_sound:
  "longest_from r k best s = Some n \<Longrightarrow>
   (best = Some n \<or> (k \<le> n \<and> n - k \<le> length s \<and> take (n - k) s \<in> lang r))"
proof (induction r k best s rule: longest_from.induct)
  case (1 r k best s)
  show ?case
  proof (cases s)
    case Nil
    then have "longest_from r k best [] = Some n" using "1.prems" by simp
    with Nil show ?thesis by (auto simp: longest_from.simps [of r k best "[]"] nullable_lang split: if_splits)
  next
    case (Cons c cs)
    have ?thesis if "longest_from (deriv c r) (Suc k) (if nullable r then Some k else best) cs = Some n"
      "r \<noteq> RNone"
    proof -
      have "(if nullable r then Some k else best) = Some n \<or> (Suc k \<le> n \<and> n - Suc k \<le> length cs
          \<and> take (n - Suc k) cs \<in> lang (deriv c r))"
        using "1.IH" [OF refl Cons] that by (cases r) auto
      then show ?thesis
      proof
        assume "Suc k \<le> n \<and> n - Suc k \<le> length cs \<and> take (n - Suc k) cs \<in> lang (deriv c r)"
        moreover from this have "take (n - k) s = c # take (n - Suc k) cs"
          by (simp add: Cons take_Cons' Suc_diff_le)
        ultimately show ?thesis by (auto simp: Cons lang_deriv)
      qed (auto simp: nullable_lang split: if_splits)
    qed
    then show ?thesis using "1.prems" Cons by (cases r) (auto simp: longest_from.simps [of _ _ _ "c # cs"])
  qed
qed

lemma longest_sound: "longest r s = Some n \<Longrightarrow> n \<le> length s \<and> take n s \<in> lang r"
  using longest_from_sound [of r 0 None s n] by (simp add: longest_def)

lemma best_rule_sound:
  "best_rule i rs s = Some (j, n) \<Longrightarrow>
   i \<le> j \<and> j < i + length rs \<and> 0 < n \<and> n \<le> length s \<and> take n s \<in> lang (fst (rs ! (j - i)))"
proof (induction i rs s arbitrary: j n rule: best_rule.induct)
  case (2 i r a rs s)
  show ?case
  proof (cases "\<exists>m. longest r s = Some m \<and> j = i \<and> n = m \<and> 0 < m")
    case True
    then show ?thesis using longest_sound [of r s n] by auto
  next
    case False
    then have "best_rule (Suc i) rs s = Some (j, n)"
      using 2 by (auto split: option.splits if_splits prod.splits)
    then have "Suc i \<le> j \<and> j < Suc i + length rs \<and> 0 < n \<and> n \<le> length s
        \<and> take n s \<in> lang (fst (rs ! (j - Suc i)))"
      using 2 by (auto split: option.splits)
    moreover from this have "j - i = Suc (j - Suc i)" by linarith
    ultimately show ?thesis by simp
  qed
qed simp

section \<open>Spans\<close>

fun spans_from :: "nat \<Rightarrow> spanned_token list \<Rightarrow> nat \<Rightarrow> bool" where
  "spans_from a [] b = (a \<le> b)"
| "spans_from a (t # ts) b =
     (a \<le> st_start t \<and> st_start t < st_end t \<and> spans_from (st_end t) ts b)"

lemma spans_from_mono: "spans_from a ts b \<Longrightarrow> a' \<le> a \<Longrightarrow> spans_from a' ts b"
  by (cases ts) auto

lemma lang_lit: "lang (re_lit [c]) = {[c]}"
  by (simp add: re_lit_def)

lemma quoted_length: "w \<in> lang (re_quoted q) \<Longrightarrow> 2 \<le> length w"
  by (auto simp: re_quoted_def lang_lit)

lemma blob_length: "w \<in> lang re_blob \<Longrightarrow> 3 \<le> length w"
  by (auto simp: re_blob_def lang_lit)

lemma param_length: "w \<in> lang (RSeq (re_lit [c]) r) \<Longrightarrow> 1 \<le> length w"
  by (auto simp: lang_lit)

text \<open>A callback never slices outside the text its rule matched.\<close>

definition action_ok :: "string \<Rightarrow> lex_action \<Rightarrow> bool" where
  "action_ok w a = (case a of Callback f \<Rightarrow> isOk (f w) | _ \<Rightarrow> True)"

lemma inner_text_ok: "k < length w \<Longrightarrow> isOk (inner_text k w)"
  by (auto simp: inner_text_def slice_def isOk_iff)

lemma callback_ok: "isOk (f w) \<Longrightarrow> action_ok w (callback mk f)"
  by (auto simp: action_ok_def callback_def isOk_bindR isOk_iff)

lemma quoted_inner: "w \<in> lang (re_quoted q) \<Longrightarrow> isOk (inner_text (Suc 0) w)"
  by (rule inner_text_ok) (use quoted_length [of w q] in simp)

lemma string_callbacks_ok:
  assumes "w \<in> lang (re_quoted q)"
  shows "isOk (parse_string w)" and "isOk (parse_ident_string w)" and "isOk (parse_backtick_ident w)"
  using quoted_inner [OF assms]
  by (auto simp: parse_string_def parse_ident_string_def parse_backtick_ident_def isOk_bindR isOk_iff)

lemma blob_callback_ok: "w \<in> lang re_blob \<Longrightarrow> isOk (parse_blob w)"
  using inner_text_ok [of 2 w] blob_length [of w]
  by (auto simp: parse_blob_def isOk_bindR isOk_iff)

lemma param_callback_ok:
  "w \<in> lang (RSeq (re_lit [c]) r) \<Longrightarrow> isOk (bindR (slice w (Suc 0) (length w)) (\<lambda>x. Inr (Some x)))"
  using param_length [of w c r] by (auto simp: isOk_bindR isOk_iff slice_def)

lemma rules_ok: "(r, a) \<in> set lex_rules \<Longrightarrow> w \<in> lang r \<Longrightarrow> action_ok w a"
  unfolding lex_rules_def set_append Un_iff list.set insert_iff empty_iff prod.inject
  by (elim disjE conjE; hypsubst?)
    (auto simp: action_ok_def simp del: lang.simps
      intro!: callback_ok [unfolded action_ok_def] string_callbacks_ok blob_callback_ok param_callback_ok)

lemma scanner_step:
  assumes "follows_rules lx" and "s \<noteq> []"
  shows "(\<exists>i n. lx s = Matched i n \<and> 0 < n \<and> n \<le> length s \<and> action_ok (take n s) (snd (lex_rules ! i)))
    \<or> (\<exists>n. lx s = LexError n \<and> 0 < n \<and> n \<le> length s)"
proof (cases "best_rule 0 lex_rules s")
  case (Some p)
  obtain i n where p: "p = (i, n)" by force
  have *: "i < length lex_rules" "0 < n" "n \<le> length s" "take n s \<in> lang (fst (lex_rules ! i))"
    using best_rule_sound [of 0 lex_rules s i n] Some p by auto
  then have "action_ok (take n s) (snd (lex_rules ! i))"
    by (intro rules_ok [of "fst (lex_rules ! i)"]) (simp_all add: nth_mem)
  with * Some p assms show ?thesis by (force simp: follows_rules_def)
qed (use assms in \<open>force simp: follows_rules_def\<close>)

lemma tokenize_loop_total:
  assumes "follows_rules lx"
  shows "length s < fuel \<Longrightarrow>
    \<exists>ts. tokenize_loop lx fuel s at = Inr ts \<and> spans_from at ts (at + length s)"
proof (induction fuel arbitrary: s at)
  case (Suc fuel)
  show ?case
  proof (cases "s = []")
    case False
    have rest: "\<exists>ts. tokenize_loop lx fuel (drop n s) (at + n) = Inr ts \<and> spans_from (at + n) ts (at + length s)
        \<and> spans_from at ts (at + length s)"
      if "0 < n" "n \<le> length s" for n
    proof -
      have "length (drop n s) < fuel" using Suc.prems that False by simp
      from Suc.IH [OF this, of "at + n"] that obtain ts
        where "tokenize_loop lx fuel (drop n s) (at + n) = Inr ts" "spans_from (at + n) ts (at + length s)"
        by auto
      then show ?thesis using spans_from_mono [of "at + n" ts "at + length s" "at"] by auto
    qed
    from scanner_step [OF assms False] show ?thesis
    proof (elim disjE exE conjE)
      fix n assume "lx s = LexError n" "0 < n" "n \<le> length s"
      with rest [of n] False show ?thesis by auto
    next
      fix i n assume m: "lx s = Matched i n" "0 < n" "n \<le> length s" "action_ok (take n s) (snd (lex_rules ! i))"
      with rest [of n] False show ?thesis
        by (cases "snd (lex_rules ! i)")
          (auto simp: action_ok_def isOk_iff split: option.split)
    qed
  qed simp
qed simp

text \<open>C23. Under any scanner that follows the rules, every text is tokenised: the loop ends, no callback
  panics, and the tokens' spans are nonempty, in order, disjoint and inside the text.\<close>

theorem tokenize_total:
  assumes "follows_rules lx"
  shows "\<exists>ts. tokenize lx sql = Inr ts \<and> spans_from 0 ts (length sql)"
  using tokenize_loop_total [OF assms, of sql "length sql + 1" 0] by (simp add: tokenize_def)

theorem tokenize_total_witness:
  "\<exists>ts. tokenize rule_scanner ''SELECT 1'' = Inr ts \<and> spans_from 0 ts 8"
  using tokenize_total [OF rule_scanner_follows, of "''SELECT 1''"] by (simp add: eval_nat_numeral)

section \<open>Running the rules\<close>

lemma longest_from_none [simp]: "longest_from RNone k best s = best"
  by (simp add: longest_from.simps Let_def split: list.split)

lemma longest_from_empty [simp]: "longest_from REmpty k best s = Some k"
  by (simp add: longest_from.simps [of REmpty] Let_def split: list.split)

lemma longest_from_Nil [simp]: "longest_from r k best [] = (if nullable r then Some k else best)"
  by (simp add: longest_from.simps Let_def)

lemma longest_from_Cons:
  "longest_from r k best (c # cs) = longest_from (deriv c r) (Suc k) (if nullable r then Some k else best) cs"
  by (cases r) (simp_all add: longest_from.simps [of _ _ _ "c # cs"] Let_def)

fun matches :: "(char \<Rightarrow> bool) list \<Rightarrow> string \<Rightarrow> bool" where
  "matches [] s = True"
| "matches (p # ps) s = (case s of [] \<Rightarrow> False | c # cs \<Rightarrow> p c \<and> matches ps cs)"

lemma longest_from_chars:
  "ps \<noteq> [] \<Longrightarrow> longest_from (re_seq (map RChar ps)) k best s
   = (if matches ps s then Some (k + length ps) else best)"
proof (induction ps arbitrary: k best s rule: induct_list012)
  case (2 p)
  then show ?case by (cases s) (simp_all add: longest_from_Cons)
next
  case (3 p q ps)
  then show ?case by (cases s) (simp_all add: longest_from_Cons seq_re_def)
qed simp

lemma longest_nocase:
  "w \<noteq> [] \<Longrightarrow> longest (re_nocase w) s
   = (if matches (map (\<lambda>c d. ascii_lower d = ascii_lower c) w) s then Some (length w) else None)"
  using longest_from_chars [of "map (\<lambda>c d. ascii_lower d = ascii_lower c) w" 0 None s]
  by (simp add: longest_def re_nocase_def o_def)

lemma longest_lit:
  "w \<noteq> [] \<Longrightarrow> longest (re_lit w) s = (if matches (map (\<lambda>c d. d = c) w) s then Some (length w) else None)"
  using longest_from_chars [of "map (\<lambda>c d. d = c) w" 0 None s]
  by (simp add: longest_def re_lit_def o_def)

definition lower_code :: "nat \<Rightarrow> nat" where
  "lower_code n = (if 65 \<le> n \<and> n \<le> 90 then n + 32 else n)"

lemma of_char_lower: "(of_char (ascii_lower c) :: nat) = lower_code (of_char c)"
  by (auto simp: ascii_lower_def lower_code_def)

lemma ascii_lower_eq: "ascii_lower c = ascii_lower d \<longleftrightarrow> lower_code (of_char c) = lower_code (of_char d)"
  using of_char_eq_iff [of "ascii_lower c" "ascii_lower d", where 'a=nat] by (simp add: of_char_lower)

lemmas class_defs = char_in_def is_letter_def is_word_def is_hex_def is_digit_def 

lemma longest_rules:
  "longest re_space s = longest_from re_space 0 None s"
  "longest re_line_comment s = longest_from re_line_comment 0 None s"
  "longest re_block_comment s = longest_from re_block_comment 0 None s"
  "longest re_integer s = longest_from re_integer 0 None s"
  "longest re_real s = longest_from re_real 0 None s"
  "longest (re_quoted q) s = longest_from (re_quoted q) 0 None s"
  "longest re_blob s = longest_from re_blob 0 None s"
  "longest re_word s = longest_from re_word 0 None s"
  "longest (RChar p) s = longest_from (RChar p) 0 None s"
  "longest (RSeq a b) s = longest_from (RSeq a b) 0 None s"
  by (simp_all add: longest_def)

lemma lit_seq: "re_lit [c] = RChar (\<lambda>d. d = c)" "re_lit (c # d # w) = RSeq (RChar (\<lambda>e. e = c)) (re_lit (d # w))"
  by (simp_all add: re_lit_def)

lemmas scan_simps = longest_nocase longest_lit longest_rules longest_from_Cons
  seq_re_def alt_re_def class_defs re_space_def re_line_comment_def re_block_comment_def
  re_integer_def re_real_def re_quoted_def re_blob_def re_word_def re_plus_def re_opt_def re_dot_def
  lit_seq lower_code_def ascii_lower_eq

text \<open>Runs of digits: what the rules for numbers do with them.\<close>

definition digits :: "string \<Rightarrow> bool" where
  "digits ds \<longleftrightarrow> ds \<noteq> [] \<and> list_all is_digit ds"

definition ends_digits :: "string \<Rightarrow> bool" where
  "ends_digits s \<longleftrightarrow> (case s of [] \<Rightarrow> True | c # cs \<Rightarrow> \<not> is_digit c \<and> c \<noteq> CHR ''.'')"

lemma longest_star_digits:
  "list_all is_digit ds \<Longrightarrow> ends_digits s \<Longrightarrow>
   longest_from (RStar (RChar is_digit)) k best (ds @ s) = Some (k + length ds)"
proof (induction ds arbitrary: k best)
  case Nil
  then show ?case
    by (cases s) (simp_all add: ends_digits_def longest_from_Cons seq_re_def)
next
  case (Cons d ds)
  then show ?case by (simp add: longest_from_Cons seq_re_def)
qed

lemma longest_digits_dot:
  "list_all is_digit ds \<Longrightarrow> ends_digits s \<Longrightarrow>
   longest_from (RSeq (RStar (RChar is_digit)) (RSeq (RChar (\<lambda>c. c = CHR ''.'')) r)) k None (ds @ s) = None"
proof (induction ds arbitrary: k)
  case Nil
  then show ?case
    by (cases s) (simp_all add: ends_digits_def longest_from_Cons seq_re_def alt_re_def)
next
  case (Cons d ds)
  then have "d \<noteq> CHR ''.''" by (auto simp: is_digit_def)
  with Cons show ?case by (simp add: longest_from_Cons seq_re_def alt_re_def)
qed

lemmas number_rules = longest_def longest_from_Cons re_integer_def re_real_def
  re_plus_def re_opt_def lit_seq seq_re_def alt_re_def

lemma longest_integer:
  assumes "digits ds" and "ends_digits s"
  shows "longest re_integer (ds @ s) = Some (length ds)"
    and "longest re_integer (CHR ''-'' # ds @ s) = Some (Suc (length ds))"
proof -
  from assms(1) obtain d es where ds: "ds = d # es" "is_digit d" "list_all is_digit es"
    by (cases ds) (auto simp: digits_def)
  then have "d \<noteq> CHR ''-''" by (auto simp: is_digit_def)
  with ds show "longest re_integer (ds @ s) = Some (length ds)"
    "longest re_integer (CHR ''-'' # ds @ s) = Some (Suc (length ds))"
    using longest_star_digits [OF ds(3) assms(2)] by (simp_all add: number_rules is_digit_def [of "CHR ''-''"])
qed

lemma longest_real:
  assumes "digits ds" and "ends_digits s"
  shows "longest re_real (ds @ s) = None" and "longest re_real (CHR ''-'' # ds @ s) = None"
proof -
  from assms(1) obtain d es where ds: "ds = d # es" "is_digit d" "list_all is_digit es"
    by (cases ds) (auto simp: digits_def)
  then have "d \<noteq> CHR ''-''" by (auto simp: is_digit_def)
  with ds show "longest re_real (ds @ s) = None" "longest re_real (CHR ''-'' # ds @ s) = None"
    using longest_digits_dot [OF ds(3) assms(2)] by (simp_all add: number_rules is_digit_def [of "CHR ''-''"])
qed

text \<open>The rules before and behind those for numbers need another first character.\<close>

lemma best_rule_append:
  "list_all (\<lambda>(r, a). longest r s = None) rs \<Longrightarrow> best_rule i (rs @ qs) s = best_rule (i + length rs) qs s"
  by (induction rs arbitrary: i) auto

lemma best_rule_none: "list_all (\<lambda>(r, a). longest r s = None) rs \<Longrightarrow> best_rule i rs s = None"
  using best_rule_append [of s rs i "[]"] by simp

lemma first_not_digit:
  "list_all (\<lambda>(w, t). w \<noteq> [] \<and> \<not> is_digit (ascii_lower (hd w))) keyword_rules"
  "list_all (\<lambda>(w, t). w \<noteq> [] \<and> \<not> is_digit (hd w)) symbol_rules"
  by (simp_all add: keyword_rules_def symbol_rules_def is_digit_def of_char_lower lower_code_def)

lemma keyword_not_digit: "(w, t) \<in> set keyword_rules \<Longrightarrow> \<exists>c cs. w = c # cs \<and> \<not> is_digit (ascii_lower c)"
  and symbol_not_digit: "(w, t) \<in> set symbol_rules \<Longrightarrow> \<exists>c cs. w = c # cs \<and> \<not> is_digit c"
  using first_not_digit by (cases w; fastforce simp: list_all_iff)+

lemma lower_digit: "is_digit c \<Longrightarrow> ascii_lower c = c"
  by (auto simp: is_digit_def ascii_lower_def)

lemma rules_on_digit:
  assumes "is_digit d"
  shows "list_all (\<lambda>(r, a). longest r (d # s) = None)
      ([(re_space, Skip), (re_line_comment, Skip), (re_block_comment, Skip)]
       @ map (\<lambda>(w, t). (re_nocase w, Emit t)) keyword_rules
       @ map (\<lambda>(w, t). (re_lit w, Emit t)) symbol_rules)"
proof -
  have other: "d \<notin> {CHR '' '', CHR 0x09, CHR 0x0D, CHR 0x0A, CHR 0x0C, CHR ''-'', CHR ''/''}"
    using assms by (auto simp: is_digit_def)
  have "longest (re_nocase w) (d # s) = None" if "(w, t) \<in> set keyword_rules" for w t
    using keyword_not_digit [OF that] assms lower_digit [OF assms] by (auto simp: longest_nocase)
  moreover have "longest (re_lit w) (d # s) = None" if "(w, t) \<in> set symbol_rules" for w t
    using symbol_not_digit [OF that] assms by (auto simp: longest_lit)
  ultimately show ?thesis
    using other by (auto simp: list_all_iff scan_simps longest_def)
qed

lemma last_rules_on_digit:
  assumes "is_digit d"
  shows "best_rule k (drop 2 (drop 105 lex_rules)) (d # s) = None"
proof -
  have len: "length keyword_rules = 78" "length symbol_rules = 24"
    by (simp_all add: keyword_rules_def symbol_rules_def)
  have "d \<notin> set ''?:@$xX'' \<union> {CHR 0x27, CHR 0x22, CHR 0x60}" "\<not> is_letter d"
    using assms by (auto simp: is_digit_def is_letter_def char_in_def)
  then show ?thesis
    by (intro best_rule_none)
      (simp add: lex_rules_def len re_quoted_def re_blob_def re_word_def lit_seq longest_def longest_from_Cons seq_re_def)
qed

lemma scan_digits:
  assumes "digits ds" and "ends_digits s"
  shows "best_rule 0 lex_rules (ds @ s) = Some (105, length ds)"
proof -
  have len: "length keyword_rules = 78" "length symbol_rules = 24"
    by (simp_all add: keyword_rules_def symbol_rules_def)
  obtain d es where ds: "ds @ s = d # es @ s" "is_digit d"
    using assms(1) by (cases ds) (auto simp: digits_def)
  from assms(1) have "0 < length ds" by (simp add: digits_def)
  with longest_integer(1) [OF assms] longest_real(1) [OF assms]
    best_rule_append [OF rules_on_digit [OF ds(2), of "es @ s"]] last_rules_on_digit [OF ds(2), of _ "es @ s"]
  show ?thesis unfolding ds lex_rules_def by (simp add: len)
qed

lemma scan_minus_digits:
  assumes "digits ds" and "ends_digits s"
  shows "best_rule 0 lex_rules (CHR ''-'' # ds @ s) = Some (105, Suc (length ds))"
proof -
  obtain d es where ds: "ds = d # es" "is_digit d"
    using assms(1) by (cases ds) (auto simp: digits_def)
  then have "d \<noteq> CHR ''-''" by (auto simp: is_digit_def)
  with longest_integer(2) [OF assms] longest_real(2) [OF assms] show ?thesis
    by (simp add: ds lex_rules_def keyword_rules_def symbol_rules_def longest_nocase longest_lit lower_code_def
      ascii_lower_eq longest_rules(1-3,6-10) longest_from_Cons seq_re_def alt_re_def re_space_def re_plus_def
      re_line_comment_def
      re_block_comment_def re_quoted_def re_blob_def re_word_def lit_seq is_letter_def char_in_def)
qed

lemma scan_select: "best_rule 0 lex_rules (''SELECT '' @ s) = Some (3, 6)"
  by (simp add: lex_rules_def keyword_rules_def symbol_rules_def scan_simps)

lemma scan_space:
  "d \<notin> {CHR '' '', CHR 0x09, CHR 0x0D, CHR 0x0A, CHR 0x0C}
   \<Longrightarrow> best_rule 0 lex_rules (CHR '' '' # d # s) = Some (0, 1)"
  by (simp add: lex_rules_def keyword_rules_def symbol_rules_def scan_simps)

lemma scan_minus: "best_rule 0 lex_rules (CHR ''-'' # CHR '' '' # s) = Some (93, 1)"
  by (simp add: lex_rules_def keyword_rules_def symbol_rules_def scan_simps)

lemma scan_space_digits: "digits ds \<Longrightarrow> best_rule 0 lex_rules (CHR '' '' # ds @ s) = Some (0, 1)"
  by (cases ds) (auto simp: digits_def is_digit_def intro!: scan_space [simplified])

lemma follows_rulesD: "follows_rules lx \<Longrightarrow> best_rule 0 lex_rules s = Some (i, n) \<Longrightarrow> s \<noteq> [] \<Longrightarrow> lx s = Matched i n"
  by (auto simp: follows_rules_def split: option.splits dest: spec [of _ s])

lemma rule_actions:
  "snd (lex_rules ! 3) = Emit (TKw KwSelect)" "snd (lex_rules ! 0) = Skip"
  "snd (lex_rules ! 93) = Emit (TSym SymMinus)"
  "snd (lex_rules ! 105) = callback TkIntegerLit (\<lambda>s. Inr (parse_i64 s))"
proof -
  have len: "length keyword_rules = 78" "length symbol_rules = 24"
    by (simp_all add: keyword_rules_def symbol_rules_def)
  show "snd (lex_rules ! 3) = Emit (TKw KwSelect)"
    by (simp add: lex_rules_def nth_append len) (simp add: keyword_rules_def)
  show "snd (lex_rules ! 93) = Emit (TSym SymMinus)"
    by (simp add: lex_rules_def nth_append len) (simp add: symbol_rules_def)
  show "snd (lex_rules ! 0) = Skip" "snd (lex_rules ! 105) = callback TkIntegerLit (\<lambda>s. Inr (parse_i64 s))"
    by (simp_all add: lex_rules_def nth_append len)
qed

text \<open>One turn of the tokeniser for each kind of token.\<close>

lemma tokenize_turn:
  assumes "follows_rules lx" and "best_rule 0 lex_rules s = Some (i, n)" and "s \<noteq> []"
  shows "snd (lex_rules ! i) = Skip \<Longrightarrow>
      tokenize_loop lx (Suc f) s at = tokenize_loop lx f (drop n s) (at + n)"
    and "snd (lex_rules ! i) = Emit t \<Longrightarrow> tokenize_loop lx f (drop n s) (at + n) = Inr ts \<Longrightarrow>
      tokenize_loop lx (Suc f) s at = Inr (\<lparr>st_token = t, st_start = at, st_end = at + n\<rparr> # ts)"
    and "i = 105 \<Longrightarrow> parse_i64 (take n s) = Some v \<Longrightarrow> tokenize_loop lx f (drop n s) (at + n) = Inr ts \<Longrightarrow>
      tokenize_loop lx (Suc f) s at = Inr (\<lparr>st_token = TkIntegerLit v, st_start = at, st_end = at + n\<rparr> # ts)"
  using follows_rulesD [OF assms] assms(3) by (simp_all add: rule_actions callback_def)

lemma tokenize_digits:
  assumes "follows_rules lx" and "digits ds" and "ends_digits s" and "parse_i64 ds = Some v"
    and "tokenize_loop lx f s (at + length ds) = Inr ts"
  shows "\<exists>us. tokenize_loop lx (Suc f) (ds @ s) at = Inr us \<and> map st_token us = TkIntegerLit v # map st_token ts"
proof -
  have "ds @ s \<noteq> []" using assms(2) by (simp add: digits_def)
  from tokenize_turn(3) [OF assms(1) scan_digits [OF assms(2,3)] this refl, of v f at ts] assms(4,5)
  show ?thesis by simp
qed

lemma tokenize_select:
  assumes "follows_rules lx" and "digits ds" and "tokenize_loop lx f (ds @ s) 7 = Inr ts"
  shows "\<exists>us. tokenize_loop lx (Suc (Suc f)) (''SELECT '' @ ds @ s) 0 = Inr us
    \<and> map st_token us = TKw KwSelect # map st_token ts"
proof -
  have "tokenize_loop lx (Suc f) (CHR '' '' # ds @ s) 6 = Inr ts"
    using tokenize_turn(1) [OF assms(1) scan_space_digits [OF assms(2)] _ rule_actions(2), of s f 6] assms(3) by simp
  with tokenize_turn(2) [OF assms(1) scan_select [of "ds @ s"] _ rule_actions(1), of "Suc f" 0 ts]
  show ?thesis by simp
qed

lemma tokens_of_difference:
  assumes lx: "follows_rules lx" and a: "digits a" and b: "digits b"
    and "parse_i64 a = Some v" and "parse_i64 (CHR ''-'' # b) = Some w"
  shows "\<exists>ts. tokenize lx (''SELECT '' @ a @ CHR ''-'' # b) = Inr ts
    \<and> map st_token ts = [TKw KwSelect, TkIntegerLit v, TkIntegerLit w]"
proof -
  obtain f where f: "length (''SELECT '' @ a @ CHR ''-'' # b) + 1 = Suc (Suc (Suc (Suc (Suc f))))"
    by (intro that [of "length a + length b + 4"]) simp
  obtain ts where "tokenize_loop lx (Suc (Suc f)) (CHR ''-'' # b) (7 + length a) = Inr ts"
    "map st_token ts = [TkIntegerLit w]"
    using tokenize_turn(3) [OF lx scan_minus_digits [OF b, of "[]"] _ refl, of w "Suc f" "7 + length a" "[]"] assms(5)
    by (simp add: ends_digits_def)
  moreover have "ends_digits (CHR ''-'' # b)" by (simp add: ends_digits_def is_digit_def)
  ultimately obtain us where "tokenize_loop lx (Suc (Suc (Suc f))) (a @ CHR ''-'' # b) 7 = Inr us"
    "map st_token us = [TkIntegerLit v, TkIntegerLit w]"
    using tokenize_digits [OF lx a _ assms(4), of "CHR ''-'' # b" "Suc (Suc f)" 7 ts] by auto
  with tokenize_select [OF lx a, of "Suc (Suc (Suc f))" "CHR ''-'' # b" us] f show ?thesis
    by (auto simp: tokenize_def)
qed

lemma tokens_of_spaced_difference:
  assumes lx: "follows_rules lx" and a: "digits a" and b: "digits b"
    and "parse_i64 a = Some v" and "parse_i64 b = Some u"
  shows "\<exists>ts. tokenize lx (''SELECT '' @ a @ '' - '' @ b) = Inr ts
    \<and> map st_token ts = [TKw KwSelect, TkIntegerLit v, TSym SymMinus, TkIntegerLit u]"
proof -
  obtain f where f: "length (''SELECT '' @ a @ '' - '' @ b) + 1 = Suc (Suc (Suc (Suc (Suc (Suc (Suc (Suc f)))))))"
    by (intro that [of "length a + length b + 3"]) simp
  obtain ts where ts: "tokenize_loop lx (Suc (Suc f)) b (10 + length a) = Inr ts"
    "map st_token ts = [TkIntegerLit u]"
    using tokenize_digits [OF lx b _ assms(5), of "[]" "Suc f" "10 + length a" "[]"] by (auto simp: ends_digits_def)
  have "tokenize_loop lx (Suc (Suc (Suc f))) (CHR '' '' # b) (9 + length a) = Inr ts"
    using tokenize_turn(1) [OF lx scan_space_digits [OF b, of "[]"] _ rule_actions(2), of "Suc (Suc f)" "9 + length a"] ts(1)
    by simp
  then obtain us where us: "tokenize_loop lx (Suc (Suc (Suc (Suc f)))) (CHR ''-'' # CHR '' '' # b) (8 + length a) = Inr us"
    "map st_token us = [TSym SymMinus, TkIntegerLit u]"
    using tokenize_turn(2) [OF lx scan_minus [of b] _ rule_actions(3), of "Suc (Suc (Suc f))" "8 + length a" ts] ts(2)
    by simp
  have "tokenize_loop lx (Suc (Suc (Suc (Suc (Suc f))))) ('' - '' @ b) (7 + length a) = Inr us"
    using tokenize_turn(1) [OF lx scan_space [of "CHR ''-''" "CHR '' '' # b"] _ rule_actions(2),
        of "Suc (Suc (Suc (Suc f)))" "7 + length a"] us(1)
    by simp
  moreover have "ends_digits ('' - '' @ b)" by (simp add: ends_digits_def is_digit_def)
  ultimately obtain ws where "tokenize_loop lx (Suc (Suc (Suc (Suc (Suc (Suc f)))))) (a @ '' - '' @ b) 7 = Inr ws"
    "map st_token ws = [TkIntegerLit v, TSym SymMinus, TkIntegerLit u]"
    using tokenize_digits [OF lx a _ assms(4), of "'' - '' @ b" "Suc (Suc (Suc (Suc (Suc f))))" 7 us] us(2) by auto
  with tokenize_select [OF lx a, of "Suc (Suc (Suc (Suc (Suc (Suc f)))))" "'' - '' @ b" ws] f show ?thesis
    by (auto simp: tokenize_def)
qed

section \<open>A subtraction is not one\<close>

definition plain_select :: "expr \<Rightarrow> statement" where
  "plain_select e = StSelect (Select False [\<lparr>rc_expr = e, rc_alias = None\<rparr>] None None [] None [] None None)"

text \<open>A query of one expression, at the end of the tokens or before an integer that is left over.\<close>

lemma parse_one_select:
  assumes "tokenize lx sql = Inr ts" and "map st_token ts = TKw KwSelect # expr_tokens 0 e @ rest"
    and "rest = [] \<or> (\<exists>i rest'. rest = TkIntegerLit i # rest')"
    and "printable e" and "hd (expr_tokens 0 e) \<noteq> TSym SymStar"
  shows "parse_one lx sql = Inr (plain_select e)"
proof -
  let ?ps = "after 1 (parser_new ts)" and ?len = "length (expr_tokens 0 e)"
  have here: "ahead (parser_new ts) = TKw KwSelect # expr_tokens 0 e @ rest"
    using assms(2) by (simp add: ahead_def parser_new_def)
  obtain n where n: "parse_fuel ts = Suc n" by (simp add: parse_fuel_def)
  have "length ts = length (TKw KwSelect # expr_tokens 0 e @ rest)"
    using assms(2) by (metis length_map)
  then have len: "?len + 3 \<le> n" using n by (simp add: parse_fuel_def)
  have e: "parse_expr n ?ps = (Inr e, after (Suc ?len) (parser_new ts))"
    using parse_expr_reads [OF assms(4), of ?ps rest n] here len assms(3)
    by (auto simp: stops_def)
  have first: "current_token ?ps = Some (hd (expr_tokens 0 e))" "hd (expr_tokens 0 e) \<noteq> TKw KwDistinct"
    using tokens_head [OF assms(4), of 0] here by (cases "expr_tokens 0 e"; simp add: current_ahead head_ok_def)+
  have next_tok: "current_token (after (Suc ?len) (parser_new ts)) = (case rest of [] \<Rightarrow> None | t # _ \<Rightarrow> Some t)"
    using here by (simp add: current_ahead split: list.split)
  obtain m where m: "n = Suc m" using len by (cases n) auto
  note quiet = bind_match bind_getS next_tok ret_bindS opt_after_def parse_by_list_def parse_offset_def bindS_assoc
  have "parse_result_columns n (parse_expr n) ?ps
      = (Inr [\<lparr>rc_expr = e, rc_alias = None\<rparr>], after (Suc ?len) (parser_new ts))"
    using first assms(3,5) e
    unfolding parse_result_columns_def m comma_list.simps parse_result_column_def by (auto simp: quiet)
  then have "parse_select (Suc n) ?ps
      = (Inr (Select False [\<lparr>rc_expr = e, rc_alias = None\<rparr>] None None [] None [] None None),
         after (Suc ?len) (parser_new ts))"
    using first assms(3) unfolding parse_select.simps parse_select_body_def by (auto simp: quiet)
  then have "fst (parse_statement (Suc n) (parser_new ts)) = Inr (plain_select e)"
    using here
    unfolding parse_statement_def statement_parsers_def
    by (simp add: bind_match current_ahead bindS_assoc plain_select_def ret_bindS)
  then show ?thesis using assms(1) n by (simp add: parse_one_def)
qed

text \<open>
  C39. A minus sign directly before digits belongs to the number. So the input \<^verbatim>\<open>SELECT a-b\<close>, of two
  numbers \<open>a\<close> and \<open>b\<close>, has the integer \<open>-b\<close> behind the query for \<open>a\<close>; \<^verbatim>\<open>parse_one\<close> does not look at what
  follows a statement and returns the query for \<open>a\<close> alone, without an error. The same text with
  spaces around the sign is the subtraction. This holds for every scanner that follows the rules.
\<close>

theorem subtraction_dropped:
  assumes "follows_rules lx" and "digits a" and "digits b"
    and "parse_i64 a = Some v" and "parse_i64 b = Some u" and "parse_i64 (CHR ''-'' # b) = Some w"
  shows "parse_one lx (''SELECT '' @ a @ ''-'' @ b) = Inr (plain_select (EInteger v))
    \<and> parse_one lx (''SELECT '' @ a @ '' - '' @ b)
        = Inr (plain_select (EBinaryOp BSub (EInteger v) (EInteger u)))"
proof
  obtain ts where "tokenize lx (''SELECT '' @ a @ ''-'' @ b) = Inr ts"
    "map st_token ts = [TKw KwSelect, TkIntegerLit v, TkIntegerLit w]"
    using tokens_of_difference [OF assms(1-4,6)] by (elim exE conjE) (simp only: append_Cons append_Nil)
  then show "parse_one lx (''SELECT '' @ a @ ''-'' @ b) = Inr (plain_select (EInteger v))"
    by (intro parse_one_select [where rest = "[TkIntegerLit w]" and ts = ts])
      (simp_all add: expr_tokens_def wrap_def)
  obtain us where "tokenize lx (''SELECT '' @ a @ '' - '' @ b) = Inr us"
    "map st_token us = [TKw KwSelect, TkIntegerLit v, TSym SymMinus, TkIntegerLit u]"
    using tokens_of_spaced_difference [OF assms(1-5)] by (elim exE conjE)
  then show "parse_one lx (''SELECT '' @ a @ '' - '' @ b)
      = Inr (plain_select (EBinaryOp BSub (EInteger v) (EInteger u)))"
    by (intro parse_one_select [where rest = "[]" and ts = us])
      (simp_all add: expr_tokens_def wrap_def)
qed

theorem subtraction_dropped_witness:
  "parse_one rule_scanner ''SELECT 50-3'' = Inr (plain_select (EInteger 50))
   \<and> parse_one rule_scanner ''SELECT 50 - 3'' = Inr (plain_select (EBinaryOp BSub (EInteger 50) (EInteger 3)))"
proof -
  have "parse_i64 ''50'' = Some 50" "parse_i64 ''3'' = Some 3" "parse_i64 ''-3'' = Some (- 3)"
    by (simp_all add: parse_i64_def split_sign_def digits_value_def digit_value_def is_digit_def)
  moreover have "digits ''50''" "digits ''3''" by (simp_all add: digits_def is_digit_def)
  ultimately show ?thesis
    using subtraction_dropped [OF rule_scanner_follows, of "''50''" "''3''"] by simp
qed

theorem expression_roundtrip_witness:
  "parse_expr 20 (parser_new (map (\<lambda>t. \<lparr>st_token = t, st_start = 0, st_end = 0\<rparr>)
     [TkIdent ''a'', TSym SymMinus, TkIdent ''b'', TSym SymMinus, TkIdent ''c'', TSym SymStar,
      TSym SymMinus, TkIntegerLit 2, TKw KwAnd, TKw KwNot, TSym SymLParen, TkIdent ''d'', TKw KwOr,
      TKw KwNull, TSym SymRParen]))
   = (Inr (EBinaryOp BAnd
        (EBinaryOp BSub (EBinaryOp BSub (EIdent ''a'') (EIdent ''b''))
          (EBinaryOp BMul (EIdent ''c'') (EUnaryOp UMinus (EInteger 2))))
        (EUnaryOp UNot (EBinaryOp BOr (EIdent ''d'') ENull))),
      \<lparr>p_tokens = map (\<lambda>t. \<lparr>st_token = t, st_start = 0, st_end = 0\<rparr>)
     [TkIdent ''a'', TSym SymMinus, TkIdent ''b'', TSym SymMinus, TkIdent ''c'', TSym SymStar,
      TSym SymMinus, TkIntegerLit 2, TKw KwAnd, TKw KwNot, TSym SymLParen, TkIdent ''d'', TKw KwOr,
      TKw KwNull, TSym SymRParen], p_pos = 15\<rparr>)"
  using expression_roundtrip [of "EBinaryOp BAnd
        (EBinaryOp BSub (EBinaryOp BSub (EIdent ''a'') (EIdent ''b''))
          (EBinaryOp BMul (EIdent ''c'') (EUnaryOp UMinus (EInteger 2))))
        (EUnaryOp UNot (EBinaryOp BOr (EIdent ''d'') ENull))" _ "[]" 20]
  by (simp add: expr_tokens_def wrap_def ahead_def parser_new_def after_def)

end
