(* ===== verification/Btree_Page.thy ===== *)
theory Btree_Page
  imports Record_Format Constants
begin

text \<open>
  The page level of \<^verbatim>\<open>sqllite-core/src/storage/btree.rs\<close>: cells and their readers, the searches
  over the cell pointers of a page, insertion into a page, splitting and rebuilding. A page is its
  bytes; \<open>ho\<close> is the offset of its b-tree header (100 on page 1). A function that changes its
  local copy of a page returns the changed copy.
\<close>

section \<open>Cells\<close>

definition leaf_cell_ptr_offset :: "nat \<Rightarrow> nat \<Rightarrow> nat" where
  "leaf_cell_ptr_offset ho index = ho + 8 + index * 2"

definition interior_cell_ptr_offset :: "nat \<Rightarrow> nat \<Rightarrow> nat" where
  "interior_cell_ptr_offset ho index = ho + 12 + index * 2"

definition page_header_offset :: "u32 \<Rightarrow> nat" where
  "page_header_offset pgno = (if pgno = ROOT_PAGE then DATABASE_HEADER_SIZE else 0)"

definition build_table_cell :: "i64 \<Rightarrow> bytes \<Rightarrow> bytes res" where
  "build_table_cell key rec =
     bindR (put_varint key []) (\<lambda>cell.
     bindR (put_varint (of_nat (length rec)) cell) (\<lambda>cell. Inr (cell @ rec)))"

definition build_index_cell :: "bytes \<Rightarrow> bytes res" where
  "build_index_cell payload =
     bindR (put_varint (of_nat (length payload)) []) (\<lambda>cell. Inr (cell @ payload))"

definition build_interior_table_cell :: "u32 \<Rightarrow> i64 \<Rightarrow> bytes res" where
  "build_interior_table_cell child key = put_varint key (be_of_u32 child)"

definition build_interior_index_cell :: "u32 \<Rightarrow> bytes \<Rightarrow> bytes res" where
  "build_interior_index_cell child key =
     bindR (put_varint (of_nat (length key)) (be_of_u32 child)) (\<lambda>cell. Inr (cell @ key))"

definition read_cell_rowid :: "bytes \<Rightarrow> nat \<Rightarrow> (i64 \<times> nat) res" where
  "read_cell_rowid data offset = bindR (read_varint data offset) (\<lambda>(rowid, n). Inr (rowid, offset + n))"

definition read_interior_table_cell :: "bytes \<Rightarrow> nat \<Rightarrow> (u32 \<times> i64) res" where
  "read_interior_table_cell data offset =
     bindR (read_u32_be data offset) (\<lambda>child.
     bindR (read_varint data (offset + 4)) (\<lambda>(key, _). Inr (child, key)))"

text \<open>The end of a body, \<open>start + len\<close>, is a \<^verbatim>\<open>usize\<close> sum.\<close>

definition add_usize :: "nat \<Rightarrow> nat \<Rightarrow> nat res" where
  "add_usize a b = (if a + b < 2 ^ 64 then Inr (a + b) else panic)"

definition read_interior_index_cell :: "bytes \<Rightarrow> nat \<Rightarrow> (u32 \<times> bytes) res" where
  "read_interior_index_cell data offset =
     bindR (read_u32_be data offset) (\<lambda>child.
     bindR (read_varint data (offset + 4)) (\<lambda>(len, n).
     let start = offset + 4 + n in
     bindR (add_usize start (unat len)) (\<lambda>e.
     bindR (slice data start e) (\<lambda>key. Inr (child, key)))))"

definition read_index_payload :: "bytes \<Rightarrow> nat \<Rightarrow> bytes res" where
  "read_index_payload data offset =
     bindR (read_varint data offset) (\<lambda>(payload_len, n).
     let start = offset + n in
     bindR (add_usize start (unat payload_len)) (\<lambda>e.
       if length data < e then sql_err RcCorrupt ''truncated index cell''
       else slice data start e))"

text \<open>The key of an index payload ends where the longest decodable prefix does.\<close>

fun split_index_payload_loop :: "bytes \<Rightarrow> nat \<Rightarrow> (bytes \<times> i64) res" where
  "split_index_payload_loop payload 0 = sql_err RcCorrupt ''invalid index payload''"
| "split_index_payload_loop payload (Suc key_len') =
     (let key_len = Suc key_len' in
      case record_byte_length (take key_len payload) of
        Inr _ \<Rightarrow>
          bindR (read_varint payload key_len) (\<lambda>(rowid, n).
            if key_len + n = length payload then Inr (take key_len payload, rowid)
            else split_index_payload_loop payload key_len')
      | Inl (Fail _) \<Rightarrow> split_index_payload_loop payload key_len'
      | Inl f \<Rightarrow> Inl f)"

definition split_index_payload :: "bytes \<Rightarrow> (bytes \<times> i64) res" where
  "split_index_payload payload = split_index_payload_loop payload (length payload - 1)"

section \<open>Searching a page\<close>

text \<open>
  The loop all searches share: \<^verbatim>\<open>for i in 0..n { let x = read(i)?; if cond(x) { return/break } }\<close>.
\<close>

fun scan_from :: "(nat \<Rightarrow> 'a res) \<Rightarrow> ('a \<Rightarrow> bool) \<Rightarrow> nat \<Rightarrow> nat \<Rightarrow> (nat \<times> 'a) option res" where
  "scan_from rd cond i 0 = Inr None"
| "scan_from rd cond i (Suc k) =
     bindR (rd i) (\<lambda>x. if cond x then Inr (Some (i, x)) else scan_from rd cond (Suc i) k)"

definition cell_count :: "bytes \<Rightarrow> nat \<Rightarrow> nat res" where
  "cell_count data ho = bindR (read_u16_be data (ho + 3)) (\<lambda>n. Inr (unat n))"

definition leaf_ptr :: "bytes \<Rightarrow> nat \<Rightarrow> nat \<Rightarrow> nat res" where
  "leaf_ptr data ho i = bindR (read_u16_be data (leaf_cell_ptr_offset ho i)) (\<lambda>p. Inr (unat p))"

definition interior_ptr :: "bytes \<Rightarrow> nat \<Rightarrow> nat \<Rightarrow> nat res" where
  "interior_ptr data ho i =
     bindR (read_u16_be data (interior_cell_ptr_offset ho i)) (\<lambda>p. Inr (unat p))"

text \<open>What the loops read at index \<open>i\<close> of each kind of page.\<close>

definition leaf_table_key :: "bytes \<Rightarrow> nat \<Rightarrow> nat \<Rightarrow> (i64 \<times> nat) res" where
  "leaf_table_key data ho i = bindR (leaf_ptr data ho i) (read_cell_rowid data)"

definition leaf_index_key :: "bytes \<Rightarrow> nat \<Rightarrow> nat \<Rightarrow> bytes res" where
  "leaf_index_key data ho i = bindR (leaf_ptr data ho i) (read_index_payload data)"

definition interior_table_cell :: "bytes \<Rightarrow> nat \<Rightarrow> nat \<Rightarrow> (u32 \<times> i64) res" where
  "interior_table_cell data ho i = bindR (interior_ptr data ho i) (read_interior_table_cell data)"

definition interior_index_cell :: "bytes \<Rightarrow> nat \<Rightarrow> nat \<Rightarrow> (u32 \<times> bytes) res" where
  "interior_index_cell data ho i = bindR (interior_ptr data ho i) (read_interior_index_cell data)"

definition find_child_page_table :: "bytes \<Rightarrow> nat \<Rightarrow> i64 \<Rightarrow> u32 res" where
  "find_child_page_table data ho key =
     bindR (cell_count data ho) (\<lambda>n.
     bindR (scan_from (interior_table_cell data ho) (\<lambda>(_, cell_key). sint key \<le> sint cell_key) 0 n) (\<lambda>r.
       case r of Some (_, (child, _)) \<Rightarrow> Inr child | None \<Rightarrow> read_u32_be data (ho + 8)))"

definition find_child_page_index :: "bytes \<Rightarrow> nat \<Rightarrow> bytes \<Rightarrow> u32 res" where
  "find_child_page_index data ho key =
     bindR (cell_count data ho) (\<lambda>n.
     bindR (scan_from (interior_index_cell data ho) (\<lambda>(_, cell_key). key \<le> cell_key) 0 n) (\<lambda>r.
       case r of Some (_, (child, _)) \<Rightarrow> Inr child | None \<Rightarrow> read_u32_be data (ho + 8)))"

definition child_page_at_slot :: "bytes \<Rightarrow> nat \<Rightarrow> nat \<Rightarrow> u32 res" where
  "child_page_at_slot data ho slot =
     bindR (cell_count data ho) (\<lambda>n.
       if slot < n
       then bindR (interior_ptr data ho slot) (\<lambda>ptr.
            bindR (get_at data ho) (\<lambda>ty.
              if ty = PAGE_TYPE_INTERIOR_TABLE
              then bindR (read_interior_table_cell data ptr) (\<lambda>c. Inr (fst c))
              else bindR (read_interior_index_cell data ptr) (\<lambda>c. Inr (fst c))))
       else if slot = n then read_u32_be data (ho + 8)
       else sql_err RcCorrupt ''invalid child slot'')"

definition find_cell_in_page_table :: "bytes \<Rightarrow> nat \<Rightarrow> i64 \<Rightarrow> i64 option res" where
  "find_cell_in_page_table data ho key =
     bindR (cell_count data ho) (\<lambda>n.
     bindR (scan_from (leaf_table_key data ho) (\<lambda>(rowid, _). rowid = key) 0 n) (\<lambda>r.
       Inr (map_option (\<lambda>(_, (rowid, _)). rowid) r)))"

definition find_cell_in_page_index :: "bytes \<Rightarrow> nat \<Rightarrow> bytes \<Rightarrow> bool res" where
  "find_cell_in_page_index data ho divider =
     bindR (cell_count data ho) (\<lambda>n.
     bindR (scan_from (leaf_index_key data ho) (\<lambda>existing. existing = divider) 0 n) (\<lambda>r.
       Inr (r \<noteq> None)))"

section \<open>Inserting a cell\<close>

text \<open>
  The second half of the four \<^verbatim>\<open>try_insert_*\<close> functions: if the cell fits below the content it is
  written there, the pointers from the insertion index on move up by one, the pointer, the content
  start and the cell count are written. \<open>po\<close> is the pointer offset of the page kind.
\<close>

fun shift_ptrs_up :: "(nat \<Rightarrow> nat \<Rightarrow> nat) \<Rightarrow> nat \<Rightarrow> nat \<Rightarrow> nat \<Rightarrow> bytes \<Rightarrow> bytes res" where
  "shift_ptrs_up po ho insert_idx 0 data = Inr data"
| "shift_ptrs_up po ho insert_idx (Suc k) data =
     (let i = insert_idx + k in
      bindR (read_u16_be data (po ho i)) (\<lambda>old_ptr.
      bindR (write_u16_be data (po ho (i + 1)) old_ptr) (\<lambda>data.
        shift_ptrs_up po ho insert_idx k data)))"

definition insert_cell_at ::
    "(nat \<Rightarrow> nat \<Rightarrow> nat) \<Rightarrow> bytes \<Rightarrow> nat \<Rightarrow> bytes \<Rightarrow> nat \<Rightarrow> nat \<Rightarrow> (bool \<times> bytes) res" where
  "insert_cell_at po data ho cell n insert_idx =
     (let min_ptr = po ho (n + 1) + 1 in
      bindR (read_u16_be data (ho + 5)) (\<lambda>cs.
        let content_start = unat cs; new_content_start = content_start - length cell in
        if new_content_start < min_ptr then Inr (False, data)
        else
          bindR (copy_at data new_content_start cell) (\<lambda>data.
          bindR (shift_ptrs_up po ho insert_idx (n - insert_idx) data) (\<lambda>data.
          bindR (write_u16_be data (po ho insert_idx) (of_nat new_content_start)) (\<lambda>data.
          bindR (write_u16_be data (ho + 5) (of_nat new_content_start)) (\<lambda>data.
          bindR (write_u16_be data (ho + 3) (of_nat (n + 1))) (\<lambda>data. Inr (True, data))))))))"

definition scan_index :: "(nat \<times> 'a) option \<Rightarrow> nat \<Rightarrow> nat" where
  "scan_index r n = (case r of Some (i, _) \<Rightarrow> i | None \<Rightarrow> n)"

definition try_insert_leaf_cell :: "bytes \<Rightarrow> nat \<Rightarrow> bytes \<Rightarrow> i64 \<Rightarrow> (bool \<times> bytes) res" where
  "try_insert_leaf_cell data ho cell key =
     bindR (cell_count data ho) (\<lambda>n.
     bindR (scan_from (leaf_table_key data ho) (\<lambda>(rowid, _). sint key < sint rowid) 0 n) (\<lambda>r.
       insert_cell_at leaf_cell_ptr_offset data ho cell n (scan_index r n)))"

definition try_insert_leaf_cell_index :: "bytes \<Rightarrow> nat \<Rightarrow> bytes \<Rightarrow> bytes \<Rightarrow> (bool \<times> bytes) res" where
  "try_insert_leaf_cell_index data ho cell divider =
     bindR (cell_count data ho) (\<lambda>n.
     bindR (scan_from (leaf_index_key data ho) (\<lambda>existing. divider < existing) 0 n) (\<lambda>r.
       insert_cell_at leaf_cell_ptr_offset data ho cell n (scan_index r n)))"

definition try_insert_interior_cell_table :: "bytes \<Rightarrow> nat \<Rightarrow> bytes \<Rightarrow> i64 \<Rightarrow> (bool \<times> bytes) res" where
  "try_insert_interior_cell_table data ho cell key =
     bindR (cell_count data ho) (\<lambda>n.
     bindR (scan_from (interior_table_cell data ho) (\<lambda>(_, cell_key). sint key \<le> sint cell_key) 0 n) (\<lambda>r.
       insert_cell_at interior_cell_ptr_offset data ho cell n (scan_index r n)))"

definition try_insert_interior_cell_index ::
    "bytes \<Rightarrow> nat \<Rightarrow> bytes \<Rightarrow> bytes \<Rightarrow> (bool \<times> bytes) res" where
  "try_insert_interior_cell_index data ho cell divider =
     bindR (cell_count data ho) (\<lambda>n.
     bindR (scan_from (interior_index_cell data ho) (\<lambda>(_, cell_key). divider \<le> cell_key) 0 n) (\<lambda>r.
       insert_cell_at interior_cell_ptr_offset data ho cell n (scan_index r n)))"

section \<open>Rebuilding a page\<close>

text \<open>
  The cells are placed from the end of the page downwards, the last one first; \<open>place_cells\<close> gets
  them in that order. The pointers are pushed and then reversed.
\<close>

fun place_cells :: "bytes list \<Rightarrow> nat \<Rightarrow> bytes \<Rightarrow> u16 list \<Rightarrow> (nat \<times> bytes \<times> u16 list) res" where
  "place_cells [] content_start data ptrs = Inr (content_start, data, ptrs)"
| "place_cells (cell # cells) content_start data ptrs =
     (if content_start < length cell then panic
      else (let content_start = content_start - length cell in
        bindR (copy_at data content_start cell) (\<lambda>data.
          place_cells cells content_start data (ptrs @ [of_nat content_start]))))"

fun write_ptrs :: "(nat \<Rightarrow> nat \<Rightarrow> nat) \<Rightarrow> nat \<Rightarrow> nat \<Rightarrow> u16 list \<Rightarrow> bytes \<Rightarrow> bytes res" where
  "write_ptrs po ho i [] data = Inr data"
| "write_ptrs po ho i (p # ps) data =
     bindR (write_u16_be data (po ho i) p) (write_ptrs po ho (Suc i) ps)"

definition rebuild_cells :: "(nat \<Rightarrow> nat \<Rightarrow> nat) \<Rightarrow> nat \<Rightarrow> bytes list \<Rightarrow> bytes \<Rightarrow> bytes res" where
  "rebuild_cells po ho cells data =
     bindR (place_cells (rev cells) (length data) data []) (\<lambda>(content_start, data, ptrs).
     let ptrs = rev ptrs in
     bindR (write_u16_be data (ho + 5) (of_nat content_start)) (\<lambda>data.
       write_ptrs po ho 0 ptrs data))"

definition rebuild_leaf_index_page :: "bytes \<Rightarrow> nat \<Rightarrow> bytes list \<Rightarrow> bytes res" where
  "rebuild_leaf_index_page data ho cells =
     bindR (set_at data (ho + 1) 0) (\<lambda>data.
     bindR (set_at data (ho + 2) 0) (\<lambda>data.
     bindR (write_u16_be data (ho + 3) (of_nat (length cells))) (\<lambda>data.
     bindR (set_at data (ho + 7) 0) (\<lambda>data.
       rebuild_cells leaf_cell_ptr_offset ho cells data))))"

definition rebuild_leaf_table_page :: "bytes \<Rightarrow> nat \<Rightarrow> (i64 \<times> bytes) list \<Rightarrow> bytes res" where
  "rebuild_leaf_table_page data ho cells =
     bindR (set_at data (ho + 1) 0) (\<lambda>data.
     bindR (set_at data (ho + 2) 0) (\<lambda>data.
     bindR (write_u16_be data (ho + 3) (of_nat (length cells))) (\<lambda>data.
     bindR (set_at data (ho + 7) 0) (\<lambda>data.
       rebuild_cells leaf_cell_ptr_offset ho (map snd cells) data))))"

definition rebuild_interior_table_page :: "bytes \<Rightarrow> nat \<Rightarrow> bytes list \<Rightarrow> u32 \<Rightarrow> bytes res" where
  "rebuild_interior_table_page data ho cells rightmost =
     bindR (set_at data (ho + 1) 0) (\<lambda>data.
     bindR (set_at data (ho + 2) 0) (\<lambda>data.
     bindR (write_u16_be data (ho + 3) (of_nat (length cells))) (\<lambda>data.
     bindR (set_at data (ho + 7) 0) (\<lambda>data.
     bindR (write_u32_be data (ho + 8) rightmost) (\<lambda>data.
       rebuild_cells interior_cell_ptr_offset ho cells data)))))"

definition rebuild_interior_index_page :: "bytes \<Rightarrow> nat \<Rightarrow> bytes list \<Rightarrow> u32 \<Rightarrow> bytes res" where
  "rebuild_interior_index_page data ho cells rightmost =
     rebuild_interior_table_page data ho cells rightmost"

section \<open>Collecting the cells of a page\<close>

text \<open>The first loops of the four split functions: \<open>k\<close> cells from index \<open>i\<close> on.\<close>

fun collect_from :: "(nat \<Rightarrow> 'a res) \<Rightarrow> nat \<Rightarrow> nat \<Rightarrow> 'a list res" where
  "collect_from rd i 0 = Inr []"
| "collect_from rd i (Suc k) =
     bindR (rd i) (\<lambda>x. bindR (collect_from rd (Suc i) k) (\<lambda>xs. Inr (x # xs)))"

definition leaf_table_cell :: "bytes \<Rightarrow> nat \<Rightarrow> nat \<Rightarrow> (i64 \<times> bytes) res" where
  "leaf_table_cell data ho i =
     bindR (leaf_table_key data ho i) (\<lambda>(rowid, payload_off).
     bindR (read_varint data payload_off) (\<lambda>(payload_len, n).
     let start = payload_off + n in
     bindR (add_usize start (unat payload_len)) (\<lambda>e.
     bindR (put_varint rowid []) (\<lambda>cell.
     bindR (put_varint payload_len cell) (\<lambda>cell.
     bindR (slice data start e) (\<lambda>body. Inr (rowid, cell @ body)))))))"

definition leaf_index_cell :: "bytes \<Rightarrow> nat \<Rightarrow> nat \<Rightarrow> (bytes \<times> bytes) res" where
  "leaf_index_cell data ho i =
     bindR (leaf_index_key data ho i) (\<lambda>payload.
     bindR (put_varint (of_nat (length payload)) []) (\<lambda>cell. Inr (payload, cell @ payload)))"

definition interior_table_raw :: "bytes \<Rightarrow> nat \<Rightarrow> nat \<Rightarrow> bytes res" where
  "interior_table_raw data ho i =
     bindR (interior_ptr data ho i) (\<lambda>ptr.
     bindR (read_varint data (ptr + 4)) (\<lambda>(_, n). slice data ptr (ptr + 4 + n)))"

definition interior_index_raw :: "bytes \<Rightarrow> nat \<Rightarrow> nat \<Rightarrow> bytes res" where
  "interior_index_raw data ho i =
     bindR (interior_ptr data ho i) (\<lambda>ptr.
     bindR (read_varint data (ptr + 4)) (\<lambda>(len, n).
     bindR (add_usize (ptr + 4 + n) (unat len)) (\<lambda>e. slice data ptr e)))"

text \<open>The sort keys of interior cells; a cell that cannot be read counts as 0 or empty.\<close>

definition interior_table_sort_key :: "bytes \<Rightarrow> int" where
  "interior_table_sort_key c =
     (case read_interior_table_cell c 0 of Inr (_, k) \<Rightarrow> sint k | Inl _ \<Rightarrow> 0)"

definition interior_index_sort_key :: "bytes \<Rightarrow> bytes" where
  "interior_index_sort_key c =
     (case read_interior_index_cell c 0 of Inr (_, k) \<Rightarrow> k | Inl _ \<Rightarrow> [])"

section \<open>Changing and removing a cell of a leaf\<close>

text \<open>The in-place update: only a record of the same length fits.\<close>

definition update_cell :: "bytes \<Rightarrow> nat \<Rightarrow> i64 \<Rightarrow> bytes \<Rightarrow> bytes option res" where
  "update_cell data ho key rec =
     bindR (cell_count data ho) (\<lambda>n.
     bindR (scan_from (leaf_table_key data ho) (\<lambda>(rowid, _). rowid = key) 0 n) (\<lambda>r.
       case r of None \<Rightarrow> Inr None
       | Some (_, (_, payload_offset)) \<Rightarrow>
           bindR (read_varint data payload_offset) (\<lambda>(old_len, n).
           let old_start = payload_offset + n in
           bindR (add_usize old_start (unat old_len)) (\<lambda>old_end.
             if length rec \<noteq> unat old_len then Inr None
             else bindR (copy_at data old_start rec) (\<lambda>data. Inr (Some data))))))"

text \<open>Deleting a cell moves the later pointers down; \<open>n - 1\<close> underflows for no page with a match.\<close>

fun shift_ptrs_down :: "(nat \<Rightarrow> nat \<Rightarrow> nat) \<Rightarrow> nat \<Rightarrow> nat \<Rightarrow> nat \<Rightarrow> bytes \<Rightarrow> bytes res" where
  "shift_ptrs_down po ho j 0 data = Inr data"
| "shift_ptrs_down po ho j (Suc k) data =
     bindR (read_u16_be data (po ho (j + 1))) (\<lambda>next_ptr.
     bindR (write_u16_be data (po ho j) next_ptr) (\<lambda>data.
       shift_ptrs_down po ho (j + 1) k data))"

definition delete_cell :: "bytes \<Rightarrow> nat \<Rightarrow> i64 \<Rightarrow> bytes option res" where
  "delete_cell data ho key =
     bindR (cell_count data ho) (\<lambda>n.
     bindR (scan_from (leaf_table_key data ho) (\<lambda>(rowid, _). rowid = key) 0 n) (\<lambda>r.
       case r of None \<Rightarrow> Inr None
       | Some (i, _) \<Rightarrow>
           bindR (shift_ptrs_down leaf_cell_ptr_offset ho i (n - 1 - i) data) (\<lambda>data.
           bindR (write_u16_be data (ho + 3) (of_nat (n - 1))) (\<lambda>data. Inr (Some data)))))"

end
