(* ===== verification/Btree.thy ===== *)
theory Btree
  imports Btree_Page Pager
begin

text \<open>
  The tree level of \<^verbatim>\<open>sqllite-core/src/storage/btree.rs\<close>: creation, insertion with splits that
  propagate to the root, replacement, lookup of a leaf and deletion. A tree is its root page number
  (a \<^verbatim>\<open>Cell\<close> that a root split replaces) and its flags; an operation runs on the tree and the
  shared pager. The recursions follow child page numbers, which a damaged file can make circular,
  so they take fuel and end in \<open>Diverge\<close> when it is used up.
\<close>

record btree_flags =
  bf_intkey :: bool
  bf_blobkey :: bool

record btree =
  bt_root :: u32
  bt_flags :: btree_flags

record leaf_split =
  ls_left :: u32
  ls_divider_key :: i64
  ls_divider_blob :: "bytes option"
  ls_right :: u32

type_synonym 'a btm = "(btree \<times> pager, 'a) sres"

definition on_pager :: "'a pgm \<Rightarrow> 'a btm" where
  "on_pager m = (\<lambda>(b, p). case m p of (r, p') \<Rightarrow> (r, (b, p')))"

definition blobkey :: "btree \<times> pager \<Rightarrow> bool" where
  "blobkey s = bf_blobkey (bt_flags (fst s))"

definition btree_root :: "btree \<times> pager \<Rightarrow> u32" where
  "btree_root s = bt_root (fst s)"

section \<open>Creation\<close>

text \<open>A new page of zeros with its type and content start.\<close>

definition empty_page :: "u32 \<Rightarrow> u32 \<Rightarrow> u8 \<Rightarrow> bytes res" where
  "empty_page ps pgno page_type =
     (let ho = page_header_offset pgno; content_start = (ucast ps :: u16) in
      bindR (set_at (replicate (unat ps) 0) ho page_type) (\<lambda>data.
      bindR (set_at data (ho + 5) (ucast (drop_bit 8 content_start))) (\<lambda>data.
        set_at data (ho + 6) (ucast content_start))))"

definition init_leaf_page :: "u32 \<Rightarrow> u8 \<Rightarrow> unit pgm" where
  "init_leaf_page pgno page_type =
     bindS (getS pgr_page_size) (\<lambda>ps.
     bindS (liftS (empty_page ps pgno page_type)) (\<lambda>data.
     bindS (write_page \<lparr>pg_no = pgno, pg_data = data, pg_dirty = True\<rparr>) (\<lambda>_.
       write_page_direct pgno data)))"

definition init_interior_page :: "u32 \<Rightarrow> u8 \<Rightarrow> unit pgm" where
  "init_interior_page pgno page_type =
     bindS (getS pgr_page_size) (\<lambda>ps.
     bindS (liftS (empty_page ps pgno page_type)) (\<lambda>data.
     bindS (write_page \<lparr>pg_no = pgno, pg_data = data, pg_dirty = True\<rparr>) (\<lambda>_.
       write_page_direct pgno data)))"

definition btree_new :: "u32 \<Rightarrow> btree_flags \<Rightarrow> btree" where
  "btree_new root flags = \<lparr>bt_root = root, bt_flags = flags\<rparr>"

definition create_btree :: "u8 \<Rightarrow> btree_flags \<Rightarrow> (btree \<times> u32) pgm" where
  "create_btree page_type flags =
     bindS allocate_page (\<lambda>pgno.
     bindS (init_leaf_page pgno page_type) (\<lambda>_. retS (btree_new pgno flags, pgno)))"

definition create_table :: "(btree \<times> u32) pgm" where
  "create_table = create_btree PAGE_TYPE_LEAF_TABLE \<lparr>bf_intkey = True, bf_blobkey = False\<rparr>"

definition create_index :: "(btree \<times> u32) pgm" where
  "create_index = create_btree PAGE_TYPE_LEAF_INDEX \<lparr>bf_intkey = False, bf_blobkey = True\<rparr>"

section \<open>Splitting pages\<close>

text \<open>
  Each split rewrites the caller's copy of the left page, which is returned with the split, and
  rewrites the freshly allocated right page in the pager. Splitting fewer than two cells fails an
  assertion or underflows an index.
\<close>

definition split_leaf_table ::
    "bytes \<Rightarrow> nat \<Rightarrow> u32 \<Rightarrow> u32 \<Rightarrow> bytes \<Rightarrow> i64 \<Rightarrow> (leaf_split \<times> bytes) pgm" where
  "split_leaf_table data ho left_pgno right_pgno new_cell new_key =
     bindS (liftS (bindR (cell_count data ho) (\<lambda>n. collect_from (leaf_table_cell data ho) 0 n))) (\<lambda>old.
     let cells = sort_key (sint \<circ> fst) (old @ [(new_key, new_cell)]);
         mid = length cells div 2 in
     if mid = 0 then throwS Panic
     else
       bindS (liftS (rebuild_leaf_table_page data ho (take mid cells))) (\<lambda>left.
       bindS (get_page right_pgno) (\<lambda>right_page.
       bindS (liftS (rebuild_leaf_table_page (pg_data right_page) (page_header_offset right_pgno)
           (drop mid cells))) (\<lambda>right.
       bindS (write_page (right_page\<lparr>pg_data := right\<rparr>)) (\<lambda>_.
         retS (\<lparr>ls_left = left_pgno, ls_divider_key = fst (cells ! (mid - 1)), ls_divider_blob = None,
           ls_right = right_pgno\<rparr>, left))))))"

definition split_leaf_index ::
    "bytes \<Rightarrow> nat \<Rightarrow> u32 \<Rightarrow> u32 \<Rightarrow> bytes \<Rightarrow> bytes \<Rightarrow> (leaf_split \<times> bytes) pgm" where
  "split_leaf_index data ho left_pgno right_pgno new_cell new_divider =
     bindS (liftS (bindR (cell_count data ho) (\<lambda>n. collect_from (leaf_index_cell data ho) 0 n))) (\<lambda>old.
     let cells = sort_key fst (old @ [(new_divider, new_cell)]);
         mid = length cells div 2 in
     if mid = 0 then throwS Panic
     else
       bindS (liftS (rebuild_leaf_index_page data ho (map snd (take mid cells)))) (\<lambda>left.
       bindS (get_page right_pgno) (\<lambda>right_page.
       bindS (liftS (rebuild_leaf_index_page (pg_data right_page) (page_header_offset right_pgno)
           (map snd (drop mid cells)))) (\<lambda>right.
       bindS (write_page (right_page\<lparr>pg_data := right\<rparr>)) (\<lambda>_.
         retS (\<lparr>ls_left = left_pgno, ls_divider_key = 0,
           ls_divider_blob = Some (fst (cells ! (mid - 1))), ls_right = right_pgno\<rparr>, left))))))"

definition split_interior_table ::
    "bytes \<Rightarrow> nat \<Rightarrow> u32 \<Rightarrow> u32 \<Rightarrow> bytes \<Rightarrow> (leaf_split \<times> bytes) pgm" where
  "split_interior_table data ho left_pgno right_pgno new_cell =
     bindS (liftS (cell_count data ho)) (\<lambda>n.
     bindS (liftS (read_u32_be data (ho + 8))) (\<lambda>rightmost.
     bindS (liftS (collect_from (interior_table_raw data ho) 0 n)) (\<lambda>old.
     let cells = sort_key interior_table_sort_key (old @ [new_cell]);
         mid = length cells div 2 in
     if mid = 0 then throwS Panic
     else
       bindS (liftS (read_interior_table_cell (cells ! (mid - 1)) 0)) (\<lambda>(_, divider_key).
       bindS (liftS (rebuild_interior_table_page data ho (take mid cells) rightmost)) (\<lambda>left.
       bindS (get_page right_pgno) (\<lambda>right_page.
       bindS (liftS (read_u32_be left (ho + 8))) (\<lambda>new_rightmost.
       bindS (liftS (rebuild_interior_table_page (pg_data right_page) (page_header_offset right_pgno)
           (drop mid cells) new_rightmost)) (\<lambda>right.
       bindS (write_page (right_page\<lparr>pg_data := right\<rparr>)) (\<lambda>_.
         retS (\<lparr>ls_left = left_pgno, ls_divider_key = divider_key, ls_divider_blob = None,
           ls_right = right_pgno\<rparr>, left))))))))))"

definition split_interior_index ::
    "bytes \<Rightarrow> nat \<Rightarrow> u32 \<Rightarrow> u32 \<Rightarrow> bytes \<Rightarrow> (leaf_split \<times> bytes) pgm" where
  "split_interior_index data ho left_pgno right_pgno new_cell =
     bindS (liftS (cell_count data ho)) (\<lambda>n.
     bindS (liftS (read_u32_be data (ho + 8))) (\<lambda>rightmost.
     bindS (liftS (collect_from (interior_index_raw data ho) 0 n)) (\<lambda>old.
     let cells = sort_key interior_index_sort_key (old @ [new_cell]);
         mid = length cells div 2 in
     if mid = 0 then throwS Panic
     else
       bindS (liftS (read_interior_index_cell (cells ! (mid - 1)) 0)) (\<lambda>(_, divider_blob).
       bindS (liftS (rebuild_interior_index_page data ho (take mid cells) rightmost)) (\<lambda>left.
       bindS (get_page right_pgno) (\<lambda>right_page.
       bindS (liftS (read_u32_be left (ho + 8))) (\<lambda>new_rightmost.
       bindS (liftS (rebuild_interior_index_page (pg_data right_page) (page_header_offset right_pgno)
           (drop mid cells) new_rightmost)) (\<lambda>right.
       bindS (write_page (right_page\<lparr>pg_data := right\<rparr>)) (\<lambda>_.
         retS (\<lparr>ls_left = left_pgno, ls_divider_key = 0, ls_divider_blob = Some divider_blob,
           ls_right = right_pgno\<rparr>, left))))))))))"

section \<open>Inserting into a leaf\<close>

definition insert_into_leaf_table :: "u32 \<Rightarrow> bytes \<Rightarrow> i64 \<Rightarrow> leaf_split option pgm" where
  "insert_into_leaf_table pgno cell key =
     bindS (get_page pgno) (\<lambda>page.
     let ho = page_header_offset pgno in
     bindS (liftS (get_at (pg_data page) ho)) (\<lambda>ty.
       if ty \<noteq> PAGE_TYPE_LEAF_TABLE then throwS (Fail (Sql RcCorrupt ''expected leaf table page''))
       else
     bindS (liftS (find_cell_in_page_table (pg_data page) ho key)) (\<lambda>existing.
       if existing = Some key then throwS (Fail (Sql RcConstraint ''UNIQUE constraint failed''))
       else
     bindS (liftS (try_insert_leaf_cell (pg_data page) ho cell key)) (\<lambda>(done, data).
       if done then bindS (write_page (page\<lparr>pg_data := data\<rparr>)) (\<lambda>_. retS None)
       else
     bindS allocate_page (\<lambda>right_pgno.
     bindS (init_leaf_page right_pgno PAGE_TYPE_LEAF_TABLE) (\<lambda>_.
     bindS (split_leaf_table data ho pgno right_pgno cell key) (\<lambda>(split, left).
     bindS (write_page (page\<lparr>pg_data := left\<rparr>)) (\<lambda>_. retS (Some split)))))))))"

definition insert_into_leaf_index :: "u32 \<Rightarrow> bytes \<Rightarrow> bytes \<Rightarrow> leaf_split option pgm" where
  "insert_into_leaf_index pgno cell divider =
     bindS (get_page pgno) (\<lambda>page.
     let ho = page_header_offset pgno in
     bindS (liftS (get_at (pg_data page) ho)) (\<lambda>ty.
       if ty \<noteq> PAGE_TYPE_LEAF_INDEX then throwS (Fail (Sql RcCorrupt ''expected leaf index page''))
       else
     bindS (liftS (find_cell_in_page_index (pg_data page) ho divider)) (\<lambda>existing.
       if existing then throwS (Fail (Sql RcConstraint ''UNIQUE constraint failed''))
       else
     bindS (liftS (try_insert_leaf_cell_index (pg_data page) ho cell divider)) (\<lambda>(done, data).
       if done then bindS (write_page (page\<lparr>pg_data := data\<rparr>)) (\<lambda>_. retS None)
       else
     bindS allocate_page (\<lambda>right_pgno.
     bindS (init_leaf_page right_pgno PAGE_TYPE_LEAF_INDEX) (\<lambda>_.
     bindS (split_leaf_index data ho pgno right_pgno cell divider) (\<lambda>(split, left).
     bindS (write_page (page\<lparr>pg_data := left\<rparr>)) (\<lambda>_. retS (Some split)))))))))"

section \<open>Splits of the root and of interior pages\<close>

definition missing_divider :: fault where
  "missing_divider = Fail (Sql RcCorrupt ''missing index divider'')"

definition promote_root_split :: "leaf_split \<Rightarrow> unit btm" where
  "promote_root_split split =
     bindS (getS btree_root) (\<lambda>old_root.
     bindS (on_pager allocate_page) (\<lambda>new_root.
     bindS (getS (pgr_page_size \<circ> snd)) (\<lambda>ps.
     bindS (getS blobkey) (\<lambda>blob.
     let ho = page_header_offset new_root; content_start = (ucast ps :: u16) in
     bindS (liftS
       (bindR (set_at (replicate (unat ps) 0) ho
          (if blob then PAGE_TYPE_INTERIOR_INDEX else PAGE_TYPE_INTERIOR_TABLE)) (\<lambda>data.
        bindR (write_u16_be data (ho + 5) content_start) (\<lambda>data.
        bindR (write_u32_be data (ho + 8) (ls_right split)) (\<lambda>data.
        bindR (if blob
               then (case ls_divider_blob split of None \<Rightarrow> Inl missing_divider
                     | Some divider \<Rightarrow> build_interior_index_cell old_root divider)
               else build_interior_table_cell old_root (ls_divider_key split)) (\<lambda>cell.
        if unat content_start < length cell then panic
        else (let cell_start = unat content_start - length cell in
        bindR (copy_at data cell_start cell) (\<lambda>data.
        bindR (write_u16_be data (ho + 3) 1) (\<lambda>data.
          write_u16_be data (ho + 12) (of_nat cell_start)))))))))) (\<lambda>data.
     bindS (on_pager (write_page \<lparr>pg_no = new_root, pg_data = data, pg_dirty = True\<rparr>)) (\<lambda>_.
       modifyS (apfst (bt_root_update (\<lambda>_. new_root)))))))))"

text \<open>The end both interior insertions share: a full interior page is split, at the root promoted.\<close>

definition finish_interior_split :: "u32 \<Rightarrow> leaf_split \<Rightarrow> leaf_split option btm" where
  "finish_interior_split pgno interior_split =
     bindS (getS btree_root) (\<lambda>root.
       if pgno = root then bindS (promote_root_split interior_split) (\<lambda>_. retS None)
       else retS (Some interior_split))"

definition insert_into_interior_table :: "u32 \<Rightarrow> leaf_split \<Rightarrow> leaf_split option btm" where
  "insert_into_interior_table pgno split =
     bindS (on_pager (get_page pgno)) (\<lambda>page.
     let ho = page_header_offset pgno in
     bindS (liftS (read_u32_be (pg_data page) (ho + 8))) (\<lambda>rightmost.
     bindS (liftS (if rightmost = ls_left split then write_u32_be (pg_data page) (ho + 8) (ls_right split)
                   else Inr (pg_data page))) (\<lambda>data.
     bindS (liftS (build_interior_table_cell (ls_left split) (ls_divider_key split))) (\<lambda>cell.
     bindS (liftS (try_insert_interior_cell_table data ho cell (ls_divider_key split)))
       (\<lambda>(done, data).
       if done then bindS (on_pager (write_page (page\<lparr>pg_data := data\<rparr>))) (\<lambda>_. retS None)
       else
     bindS (on_pager allocate_page) (\<lambda>right_pgno.
     bindS (liftS (get_at data ho)) (\<lambda>page_type.
     bindS (on_pager (init_interior_page right_pgno page_type)) (\<lambda>_.
     bindS (on_pager (split_interior_table data ho pgno right_pgno cell)) (\<lambda>(interior_split, left).
     bindS (on_pager (write_page (page\<lparr>pg_data := left\<rparr>))) (\<lambda>_.
       finish_interior_split pgno interior_split))))))))))"

definition insert_into_interior_index :: "u32 \<Rightarrow> leaf_split \<Rightarrow> leaf_split option btm" where
  "insert_into_interior_index pgno split =
     (case ls_divider_blob split of None \<Rightarrow> throwS missing_divider
      | Some divider \<Rightarrow>
     bindS (on_pager (get_page pgno)) (\<lambda>page.
     let ho = page_header_offset pgno in
     bindS (liftS (read_u32_be (pg_data page) (ho + 8))) (\<lambda>rightmost.
     bindS (liftS (if rightmost = ls_left split then write_u32_be (pg_data page) (ho + 8) (ls_right split)
                   else Inr (pg_data page))) (\<lambda>data.
     bindS (liftS (build_interior_index_cell (ls_left split) divider)) (\<lambda>cell.
     bindS (liftS (try_insert_interior_cell_index data ho cell divider)) (\<lambda>(done, data).
       if done then bindS (on_pager (write_page (page\<lparr>pg_data := data\<rparr>))) (\<lambda>_. retS None)
       else
     bindS (on_pager allocate_page) (\<lambda>right_pgno.
     bindS (on_pager (init_interior_page right_pgno PAGE_TYPE_INTERIOR_INDEX)) (\<lambda>_.
     bindS (on_pager (split_interior_index data ho pgno right_pgno cell)) (\<lambda>(interior_split, left).
     bindS (on_pager (write_page (page\<lparr>pg_data := left\<rparr>))) (\<lambda>_.
       finish_interior_split pgno interior_split))))))))))"

section \<open>Descending to a leaf\<close>

fun insert_into_tree :: "nat \<Rightarrow> u32 \<Rightarrow> bytes \<Rightarrow> i64 \<Rightarrow> leaf_split option btm" where
  "insert_into_tree 0 pgno cell key = throwS Diverge"
| "insert_into_tree (Suc fuel) pgno cell key =
     bindS (on_pager (get_page pgno)) (\<lambda>page.
     let ho = page_header_offset pgno in
     bindS (liftS (get_at (pg_data page) ho)) (\<lambda>page_type.
       if page_type = PAGE_TYPE_LEAF_TABLE then on_pager (insert_into_leaf_table pgno cell key)
       else if page_type = PAGE_TYPE_INTERIOR_TABLE
       then bindS (liftS (find_child_page_table (pg_data page) ho key)) (\<lambda>child.
            bindS (insert_into_tree fuel child cell key) (\<lambda>r.
              case r of Some split \<Rightarrow> insert_into_interior_table pgno split | None \<Rightarrow> retS None))
       else throwS (Fail (Sql RcCorrupt ''unexpected page type in table btree''))))"

fun insert_index_into_tree :: "nat \<Rightarrow> u32 \<Rightarrow> bytes \<Rightarrow> bytes \<Rightarrow> leaf_split option btm" where
  "insert_index_into_tree 0 pgno cell divider = throwS Diverge"
| "insert_index_into_tree (Suc fuel) pgno cell divider =
     bindS (on_pager (get_page pgno)) (\<lambda>page.
     let ho = page_header_offset pgno in
     bindS (liftS (get_at (pg_data page) ho)) (\<lambda>page_type.
       if page_type = PAGE_TYPE_LEAF_INDEX then on_pager (insert_into_leaf_index pgno cell divider)
       else if page_type = PAGE_TYPE_INTERIOR_INDEX
       then bindS (liftS (find_child_page_index (pg_data page) ho divider)) (\<lambda>child.
            bindS (insert_index_into_tree fuel child cell divider) (\<lambda>r.
              case r of Some split \<Rightarrow> insert_into_interior_index pgno split | None \<Rightarrow> retS None))
       else throwS (Fail (Sql RcCorrupt ''unexpected page type in index btree''))))"

definition insert_table_row :: "nat \<Rightarrow> i64 \<Rightarrow> bytes \<Rightarrow> unit btm" where
  "insert_table_row fuel key rec =
     bindS (liftS (build_table_cell key rec)) (\<lambda>cell.
     bindS (getS btree_root) (\<lambda>root.
     bindS (insert_into_tree fuel root cell key) (\<lambda>r.
       case r of None \<Rightarrow> retS ()
       | Some split \<Rightarrow>
           bindS (getS btree_root) (\<lambda>root.
             if ls_left split = root then promote_root_split split
             else bindS (insert_into_interior_table root split) (\<lambda>_. retS ())))))"

definition insert_index_payload :: "nat \<Rightarrow> bytes \<Rightarrow> unit btm" where
  "insert_index_payload fuel payload =
     bindS (liftS (build_index_cell payload)) (\<lambda>cell.
     bindS (getS btree_root) (\<lambda>root.
     bindS (insert_index_into_tree fuel root cell payload) (\<lambda>r.
       case r of None \<Rightarrow> retS ()
       | Some split \<Rightarrow>
           bindS (getS btree_root) (\<lambda>root.
             if ls_left split = root then promote_root_split split
             else bindS (insert_into_interior_index root split) (\<lambda>_. retS ())))))"

fun find_leaf_for_key :: "nat \<Rightarrow> u32 \<Rightarrow> i64 \<Rightarrow> u32 pgm" where
  "find_leaf_for_key 0 pgno key = throwS Diverge"
| "find_leaf_for_key (Suc fuel) pgno key =
     bindS (get_page pgno) (\<lambda>page.
     let ho = page_header_offset pgno in
     bindS (liftS (get_at (pg_data page) ho)) (\<lambda>page_type.
       if page_type = PAGE_TYPE_LEAF_TABLE then retS pgno
       else if page_type = PAGE_TYPE_INTERIOR_TABLE
       then bindS (liftS (find_child_page_table (pg_data page) ho key)) (\<lambda>child.
              find_leaf_for_key fuel child key)
       else throwS (Fail (Sql RcCorrupt ''invalid page in find_leaf''))))"

section \<open>The operations on a tree\<close>

definition internal_error :: "string \<Rightarrow> 'a btm" where
  "internal_error msg = throwS (Fail (Sql RcInternal msg))"

definition btree_insert :: "nat \<Rightarrow> i64 \<Rightarrow> bytes \<Rightarrow> unit btm" where
  "btree_insert fuel key rec =
     bindS (getS blobkey) (\<lambda>blob.
       if blob then internal_error ''use insert_index for index btrees''
       else insert_table_row fuel key rec)"

definition insert_index :: "nat \<Rightarrow> bytes \<Rightarrow> i64 \<Rightarrow> unit btm" where
  "insert_index fuel key rowid =
     bindS (getS blobkey) (\<lambda>blob.
       if \<not> blob then internal_error ''insert_index requires index btree''
       else bindS (liftS (put_varint rowid key)) (insert_index_payload fuel))"

definition update_table_row :: "nat \<Rightarrow> i64 \<Rightarrow> bytes \<Rightarrow> bool btm" where
  "update_table_row fuel key rec =
     bindS (getS btree_root) (\<lambda>root.
     on_pager (bindS (find_leaf_for_key fuel root key) (\<lambda>leaf.
     bindS (get_page leaf) (\<lambda>page.
     bindS (liftS (update_cell (pg_data page) (page_header_offset leaf) key rec)) (\<lambda>r.
       case r of None \<Rightarrow> retS False
       | Some data \<Rightarrow> bindS (write_page (page\<lparr>pg_data := data\<rparr>)) (\<lambda>_. retS True))))))"

definition btree_delete :: "nat \<Rightarrow> i64 \<Rightarrow> bool btm" where
  "btree_delete fuel key =
     bindS (getS blobkey) (\<lambda>blob.
       if blob then internal_error ''delete by rowid not supported on index btrees''
       else bindS (getS btree_root) (\<lambda>root.
         on_pager (bindS (find_leaf_for_key fuel root key) (\<lambda>leaf.
         bindS (get_page leaf) (\<lambda>page.
         bindS (liftS (delete_cell (pg_data page) (page_header_offset leaf) key)) (\<lambda>r.
           case r of None \<Rightarrow> retS False
           | Some data \<Rightarrow> bindS (write_page (page\<lparr>pg_data := data\<rparr>)) (\<lambda>_. retS True)))))))"

definition btree_replace :: "nat \<Rightarrow> i64 \<Rightarrow> bytes \<Rightarrow> unit btm" where
  "btree_replace fuel key rec =
     bindS (getS blobkey) (\<lambda>blob.
       if blob then internal_error ''replace not supported on index btrees''
       else bindS (update_table_row fuel key rec) (\<lambda>updated.
         if updated then retS ()
         else bindS (btree_delete fuel key) (\<lambda>_. insert_table_row fuel key rec)))"

definition btree_insert_row :: "nat \<Rightarrow> i64 \<Rightarrow> val list \<Rightarrow> unit btm" where
  "btree_insert_row fuel rowid vals =
     bindS (liftS (encode_record vals)) (btree_insert fuel rowid)"

definition btree_insert_index :: "nat \<Rightarrow> val list \<Rightarrow> i64 \<Rightarrow> unit btm" where
  "btree_insert_index fuel key_vals rowid =
     bindS (liftS (encode_record key_vals)) (\<lambda>key. insert_index fuel key rowid)"

end
