(* ===== verification/Btree_Cursor.thy ===== *)
theory Btree_Cursor
  imports Btree
begin

text \<open>
  The cursor of \<^verbatim>\<open>sqllite-core/src/storage/btree.rs\<close>: the stack of interior pages above the
  current leaf, the cell index in it and the row last read. An operation runs on the cursor and the
  shared pager and keeps, when it fails, what it has written to the cursor, as the code does. The
  loops that follow page numbers take fuel, as in the tree.
\<close>

record cursor_frame =
  cf_pgno :: u32
  cf_child_slot :: nat

record btree_cursor =
  cur_btree :: btree
  cur_stack :: "cursor_frame list"  \<comment> \<open>the last element is the top\<close>
  cur_leaf :: u32
  cur_index :: nat
  cur_eof :: bool
  cur_key :: "i64 option"
  cur_record :: "bytes option"

type_synonym 'a cum = "(btree_cursor \<times> pager, 'a) sres"

definition cu_pager :: "'a pgm \<Rightarrow> 'a cum" where
  "cu_pager m = (\<lambda>(c, p). case m p of (r, p') \<Rightarrow> (r, (c, p')))"

definition cu_get :: "(btree_cursor \<Rightarrow> 'a) \<Rightarrow> 'a cum" where
  "cu_get f = getS (f \<circ> fst)"

definition cu_modify :: "(btree_cursor \<Rightarrow> btree_cursor) \<Rightarrow> unit cum" where
  "cu_modify f = modifyS (apfst f)"

definition btree_cursor_of :: "btree \<Rightarrow> btree_cursor" where
  "btree_cursor_of b = \<lparr>cur_btree = b, cur_stack = [], cur_leaf = bt_root b, cur_index = 0,
     cur_eof = False, cur_key = None, cur_record = None\<rparr>"

section \<open>Reading the current row\<close>

definition cursor_read_current :: "bool cum" where
  "cursor_read_current =
     bindS (cu_get cur_leaf) (\<lambda>leaf.
     bindS (cu_pager (get_page leaf)) (\<lambda>page.
     let ho = page_header_offset leaf; data = pg_data page in
     bindS (liftS (cell_count data ho)) (\<lambda>n.
     bindS (cu_get cur_index) (\<lambda>i.
       if n \<le> i then retS False
       else
     bindS (liftS (leaf_ptr data ho i)) (\<lambda>ptr.
     bindS (cu_get (bf_blobkey \<circ> bt_flags \<circ> cur_btree)) (\<lambda>blob.
       if blob
       then bindS (liftS (read_index_payload data ptr)) (\<lambda>payload.
            bindS (liftS (split_index_payload payload)) (\<lambda>(key, rowid).
            bindS (cu_modify (\<lambda>c. c\<lparr>cur_key := Some rowid, cur_record := Some key\<rparr>)) (\<lambda>_.
              retS True)))
       else bindS (liftS (read_cell_rowid data ptr)) (\<lambda>(rowid, payload_offset).
            bindS (liftS (read_varint data payload_offset)) (\<lambda>(payload_len, n).
            let payload_start = payload_offset + n in
            bindS (liftS (add_usize payload_start (unat payload_len))) (\<lambda>payload_end.
            bindS (cu_modify (cur_key_update (\<lambda>_. Some rowid))) (\<lambda>_.
            bindS (liftS (slice data payload_start payload_end)) (\<lambda>rec.
            bindS (cu_modify (cur_record_update (\<lambda>_. Some rec))) (\<lambda>_.
              retS True))))))))))))"

section \<open>Descending\<close>

definition push_frame :: "u32 \<Rightarrow> nat \<Rightarrow> unit cum" where
  "push_frame pgno slot =
     cu_modify (\<lambda>c. c\<lparr>cur_stack := cur_stack c @ [\<lparr>cf_pgno = pgno, cf_child_slot = slot\<rparr>]\<rparr>)"

definition first_child :: "bytes \<Rightarrow> nat \<Rightarrow> u8 \<Rightarrow> u32 res" where
  "first_child data ho page_type =
     bindR (cell_count data ho) (\<lambda>n.
       if n = 0 then read_u32_be data (ho + 8)
       else bindR (interior_ptr data ho 0) (\<lambda>ptr.
         if page_type = PAGE_TYPE_INTERIOR_TABLE
         then bindR (read_interior_table_cell data ptr) (\<lambda>c. Inr (fst c))
         else bindR (read_interior_index_cell data ptr) (\<lambda>c. Inr (fst c))))"

definition leaf_type :: "u8 \<Rightarrow> bool" where
  "leaf_type ty = (ty = PAGE_TYPE_LEAF_TABLE \<or> ty = PAGE_TYPE_LEAF_INDEX)"

definition interior_type :: "u8 \<Rightarrow> bool" where
  "interior_type ty = (ty = PAGE_TYPE_INTERIOR_TABLE \<or> ty = PAGE_TYPE_INTERIOR_INDEX)"

text \<open>\<^verbatim>\<open>descend_leftmost\<close> and \<^verbatim>\<open>descend_leftmost_from\<close> have the same body.\<close>

fun descend_leftmost :: "nat \<Rightarrow> u32 \<Rightarrow> u32 cum" where
  "descend_leftmost 0 pgno = throwS Diverge"
| "descend_leftmost (Suc fuel) pgno =
     bindS (cu_pager (get_page pgno)) (\<lambda>page.
     let ho = page_header_offset pgno in
     bindS (liftS (get_at (pg_data page) ho)) (\<lambda>ty.
       if leaf_type ty then retS pgno
       else if interior_type ty
       then bindS (liftS (first_child (pg_data page) ho ty)) (\<lambda>child.
            bindS (push_frame pgno 0) (\<lambda>_. descend_leftmost fuel child))
       else throwS (Fail (Sql RcCorrupt ''bad page type''))))"

definition descend_leftmost_from :: "nat \<Rightarrow> u32 \<Rightarrow> u32 cum" where
  "descend_leftmost_from = descend_leftmost"

text \<open>The child slot and child for a key, the last child where every divider is smaller.\<close>

definition slot_for_table_key :: "bytes \<Rightarrow> nat \<Rightarrow> i64 \<Rightarrow> (nat \<times> u32) res" where
  "slot_for_table_key data ho key =
     bindR (cell_count data ho) (\<lambda>n.
     bindR (read_u32_be data (ho + 8)) (\<lambda>rightmost.
     bindR (scan_from (interior_table_cell data ho) (\<lambda>(_, cell_key). sint key \<le> sint cell_key) 0 n) (\<lambda>r.
       case r of Some (i, (c, _)) \<Rightarrow> Inr (i, c) | None \<Rightarrow> Inr (n, rightmost))))"

definition slot_for_index_key :: "bytes \<Rightarrow> nat \<Rightarrow> i64 \<Rightarrow> (nat \<times> u32) res" where
  "slot_for_index_key data ho key =
     bindR (cell_count data ho) (\<lambda>n.
     bindR (encode_record [VInteger key]) (\<lambda>probe.
     bindR (read_u32_be data (ho + 8)) (\<lambda>rightmost.
     bindR (scan_from (interior_index_cell data ho) (\<lambda>(_, cell_key). probe \<le> cell_key) 0 n) (\<lambda>r.
       case r of Some (i, (c, _)) \<Rightarrow> Inr (i, c) | None \<Rightarrow> Inr (n, rightmost)))))"

fun descend_for_key :: "nat \<Rightarrow> u32 \<Rightarrow> i64 \<Rightarrow> u32 cum" where
  "descend_for_key 0 pgno key = throwS Diverge"
| "descend_for_key (Suc fuel) pgno key =
     bindS (cu_pager (get_page pgno)) (\<lambda>page.
     let ho = page_header_offset pgno in
     bindS (liftS (get_at (pg_data page) ho)) (\<lambda>ty.
       if leaf_type ty then retS pgno
       else if interior_type ty
       then bindS (liftS (if ty = PAGE_TYPE_INTERIOR_TABLE then slot_for_table_key (pg_data page) ho key
                          else slot_for_index_key (pg_data page) ho key)) (\<lambda>(slot, child).
            bindS (push_frame pgno slot) (\<lambda>_. descend_for_key fuel child key))
       else throwS (Fail (Sql RcCorrupt ''bad page type''))))"

section \<open>Moving\<close>

text \<open>\<^verbatim>\<open>self.stack.pop()\<close> and the loop over it; the stack shrinks unless the loop returns.\<close>

fun advance_loop :: "nat \<Rightarrow> nat \<Rightarrow> u32 option cum" where
  "advance_loop fuel 0 = retS None"
| "advance_loop fuel (Suc k) =
     bindS (cu_get cur_stack) (\<lambda>st.
       if st = [] then retS None
       else
     bindS (cu_modify (cur_stack_update butlast)) (\<lambda>_.
     let frame = last st; ho = page_header_offset (cf_pgno frame) in
     bindS (cu_pager (get_page (cf_pgno frame))) (\<lambda>page.
     bindS (liftS (cell_count (pg_data page) ho)) (\<lambda>n.
     let next_slot = cf_child_slot frame + 1 in
       if next_slot \<le> n
       then bindS (push_frame (cf_pgno frame) next_slot) (\<lambda>_.
            bindS (liftS (child_page_at_slot (pg_data page) ho next_slot)) (\<lambda>child.
            bindS (descend_leftmost_from fuel child) (\<lambda>leaf. retS (Some leaf))))
       else advance_loop fuel k))))"

definition advance_to_next_leaf :: "nat \<Rightarrow> u32 option cum" where
  "advance_to_next_leaf fuel = bindS (cu_get (length \<circ> cur_stack)) (advance_loop fuel)"

definition cursor_end :: "bool cum" where
  "cursor_end =
     bindS (cu_modify (\<lambda>c. c\<lparr>cur_eof := True, cur_key := None, cur_record := None\<rparr>)) (\<lambda>_. retS False)"

definition cursor_first :: "nat \<Rightarrow> bool cum" where
  "cursor_first fuel =
     bindS (cu_modify (cur_stack_update (\<lambda>_. []))) (\<lambda>_.
     bindS (cu_get (bt_root \<circ> cur_btree)) (\<lambda>root.
     bindS (descend_leftmost fuel root) (\<lambda>leaf.
     bindS (cu_modify (\<lambda>c. c\<lparr>cur_leaf := leaf, cur_index := 0, cur_eof := False\<rparr>)) (\<lambda>_.
       cursor_read_current))))"

definition cursor_next :: "nat \<Rightarrow> bool cum" where
  "cursor_next fuel =
     bindS (cu_get cur_eof) (\<lambda>eof.
       if eof then retS False
       else
     bindS (cu_modify (cur_index_update Suc)) (\<lambda>_.
     bindS cursor_read_current (\<lambda>found.
       if found then retS True
       else
     bindS (advance_to_next_leaf fuel) (\<lambda>r.
       case r of
         Some leaf \<Rightarrow>
           bindS (cu_modify (\<lambda>c. c\<lparr>cur_leaf := leaf, cur_index := 0\<rparr>)) (\<lambda>_. cursor_read_current)
       | None \<Rightarrow> cursor_end))))"

text \<open>The row id \<^verbatim>\<open>seek\<close> compares at each cell of the leaf.\<close>

definition cell_rowid :: "bool \<Rightarrow> bytes \<Rightarrow> nat \<Rightarrow> nat \<Rightarrow> i64 res" where
  "cell_rowid blob data ho i =
     bindR (leaf_ptr data ho i) (\<lambda>ptr.
       if blob
       then bindR (read_index_payload data ptr) (\<lambda>payload.
            bindR (split_index_payload payload) (\<lambda>(_, rowid). Inr rowid))
       else bindR (read_cell_rowid data ptr) (\<lambda>(rowid, _). Inr rowid))"

definition cursor_seek :: "nat \<Rightarrow> i64 \<Rightarrow> bool cum" where
  "cursor_seek fuel key =
     bindS (cu_modify (cur_stack_update (\<lambda>_. []))) (\<lambda>_.
     bindS (cu_get (bt_root \<circ> cur_btree)) (\<lambda>root.
     bindS (descend_for_key fuel root key) (\<lambda>leaf.
     bindS (cu_modify (cur_leaf_update (\<lambda>_. leaf))) (\<lambda>_.
     bindS (cu_pager (get_page leaf)) (\<lambda>page.
     let ho = page_header_offset leaf in
     bindS (liftS (cell_count (pg_data page) ho)) (\<lambda>n.
     bindS (cu_modify (\<lambda>c. c\<lparr>cur_index := 0, cur_eof := False\<rparr>)) (\<lambda>_.
     bindS (cu_get (bf_blobkey \<circ> bt_flags \<circ> cur_btree)) (\<lambda>blob.
     bindS (liftS (scan_from (cell_rowid blob (pg_data page) ho) (\<lambda>rowid. sint key \<le> sint rowid) 0 n))
       (\<lambda>r. case r of
          Some (i, _) \<Rightarrow> bindS (cu_modify (cur_index_update (\<lambda>_. i))) (\<lambda>_. cursor_read_current)
        | None \<Rightarrow> cursor_end)))))))))"

definition cursor_values :: "btree_cursor \<Rightarrow> val list res" where
  "cursor_values c = (case cur_record c of Some r \<Rightarrow> decode_record r | None \<Rightarrow> Inr [])"

end
