(* ===== verification/Schema.thy ===== *)
theory Schema
  imports Btree_Cursor Parser
begin

text \<open>
  \<^verbatim>\<open>sqllite-core/src/schema.rs\<close>: the catalog of tables and indexes. The hash maps are association
  lists with distinct keys; a key is the lower-cased name (for names outside ASCII the code folds by
  the Unicode tables, the model only folds ASCII letters). Operations run on the schema and the
  shared pager. The loop \<open>for_each_row\<close> is the code's \<^verbatim>\<open>if cursor.first()? { loop { ..; if
  !cursor.next()? { break } } }\<close>.
\<close>

section \<open>Rows of a tree\<close>

fun row_loop :: "nat \<Rightarrow> nat \<Rightarrow> ('a \<Rightarrow> 'a cum) \<Rightarrow> 'a \<Rightarrow> 'a cum" where
  "row_loop fuel 0 body acc = throwS Diverge"
| "row_loop fuel (Suc k) body acc =
     bindS (body acc) (\<lambda>acc.
     bindS (cursor_next fuel) (\<lambda>more.
       if more then row_loop fuel k body acc else retS acc))"

definition for_each_row :: "nat \<Rightarrow> ('a \<Rightarrow> 'a cum) \<Rightarrow> 'a \<Rightarrow> 'a cum" where
  "for_each_row fuel body acc =
     bindS (cursor_first fuel) (\<lambda>found.
       if found then row_loop fuel fuel body acc else retS acc)"

text \<open>A loop with a cursor of its own over a tree.\<close>

definition with_cursor :: "btree \<Rightarrow> 'a cum \<Rightarrow> 'a pgm" where
  "with_cursor b m = (\<lambda>p. case m (btree_cursor_of b, p) of (r, (c, p')) \<Rightarrow> (r, p'))"

definition max_key :: "i64 \<Rightarrow> i64 cum" where
  "max_key best =
     bindS (cu_get cur_key) (\<lambda>k.
       retS (case k of None \<Rightarrow> best | Some rowid \<Rightarrow> if sint best < sint rowid then rowid else best))"

definition add_i64 :: "i64 \<Rightarrow> i64 \<Rightarrow> i64 res" where
  "add_i64 a b = (if sint a + sint b < 2 ^ 63 \<and> - (2 ^ 63) \<le> sint a + sint b then Inr (a + b) else panic)"

text \<open>The largest row id, at least 0, plus one.\<close>

definition next_rowid :: "nat \<Rightarrow> btree \<Rightarrow> i64 pgm" where
  "next_rowid fuel b =
     bindS (with_cursor b (for_each_row fuel max_key 0)) (\<lambda>max_id. liftS (add_i64 max_id 1))"

section \<open>The catalog\<close>

record column =
  co_name :: string
  co_affinity :: affinity
  co_not_null :: bool
  co_primary_key :: bool
  co_autoincrement :: bool
  co_default :: "val option"

record index =
  ix_name :: string
  ix_table :: string
  ix_columns :: "string list"
  ix_root :: u32
  ix_unique :: bool

record table =
  ta_name :: string
  ta_root :: u32
  ta_columns :: "column list"
  ta_rowid_alias :: "string option"

record schema =
  sc_tables :: "(string \<times> table) list"
  sc_indexes :: "(string \<times> index) list"
  sc_cookie :: u32
  sc_btree :: "btree option"

definition lowercase :: "string \<Rightarrow> string" where
  "lowercase s = map ascii_lower s"

definition eq_ignore_case :: "string \<Rightarrow> string \<Rightarrow> bool" where
  "eq_ignore_case a b = (map ascii_lower a = map ascii_lower b)"

fun position :: "('a \<Rightarrow> bool) \<Rightarrow> 'a list \<Rightarrow> nat option" where
  "position f [] = None"
| "position f (x # xs) = (if f x then Some 0 else map_option Suc (position f xs))"

definition column_index :: "table \<Rightarrow> string \<Rightarrow> nat option" where
  "column_index t name = position (\<lambda>c. eq_ignore_case (co_name c) name) (ta_columns t)"

definition column_count :: "table \<Rightarrow> nat" where
  "column_count t = length (ta_columns t)"

definition schema_new :: schema where
  "schema_new = \<lparr>sc_tables = [], sc_indexes = [], sc_cookie = 0, sc_btree = None\<rparr>"

definition schema_table :: "schema \<Rightarrow> string \<Rightarrow> table option" where
  "schema_table s name = map_of (sc_tables s) (lowercase name)"

definition schema_index :: "schema \<Rightarrow> string \<Rightarrow> index option" where
  "schema_index s name = map_of (sc_indexes s) (lowercase name)"

definition has_table :: "schema \<Rightarrow> string \<Rightarrow> bool" where
  "has_table s name =
     (lowercase name = SCHEMA_TABLE_NAME \<or> lowercase name = SCHEMA_TABLE_NAME_LEGACY
      \<or> map_of (sc_tables s) (lowercase name) \<noteq> None)"

type_synonym 'a scm = "(schema \<times> pager, 'a) sres"

definition sc_pager :: "'a pgm \<Rightarrow> 'a scm" where
  "sc_pager m = (\<lambda>(s, p). case m p of (r, p') \<Rightarrow> (r, (s, p')))"

definition sc_get :: "(schema \<Rightarrow> 'a) \<Rightarrow> 'a scm" where
  "sc_get f = getS (f \<circ> fst)"

definition sc_modify :: "(schema \<Rightarrow> schema) \<Rightarrow> unit scm" where
  "sc_modify f = modifyS (apfst f)"

text \<open>Running an operation of the schema's own tree, whose root may move.\<close>

definition on_schema_btree :: "'a btm \<Rightarrow> 'a scm" where
  "on_schema_btree m =
     (\<lambda>(s, p). case sc_btree s of
        None \<Rightarrow> (Inl (Fail (Sql RcInternal ''schema btree not initialized'')), (s, p))
      | Some b \<Rightarrow> (case m (b, p) of (r, (b', p')) \<Rightarrow> (r, (s\<lparr>sc_btree := Some b'\<rparr>, p'))))"

definition bump_cookie :: "unit scm" where
  "bump_cookie =
     bindS (sc_get sc_cookie) (\<lambda>c.
       if c = - 1 then throwS Panic else sc_modify (sc_cookie_update (\<lambda>_. c + 1)))"

section \<open>Columns and the stored SQL text\<close>

fun expr_to_value :: "expr \<Rightarrow> val" where
  "expr_to_value ENull = VNull"
| "expr_to_value (EInteger i) = VInteger i"
| "expr_to_value (EReal r) = VReal r"
| "expr_to_value (EString s) = VText s"
| "expr_to_value (EBlob b) = VBlob b"
| "expr_to_value e = VNull"

fun affinity_of_type :: "column_type \<Rightarrow> affinity" where
  "affinity_of_type ColInteger = AffInteger"
| "affinity_of_type ColReal = AffReal"
| "affinity_of_type ColText = AffText"
| "affinity_of_type ColBlob = AffBlob"
| "affinity_of_type t = AffNumeric"

fun apply_constraint :: "column_constraint \<Rightarrow> column \<Rightarrow> column" where
  "apply_constraint (CPrimaryKey a) col = col\<lparr>co_primary_key := True, co_autoincrement := a\<rparr>"
| "apply_constraint CNotNull col = col\<lparr>co_not_null := True\<rparr>"
| "apply_constraint CUnique col = col"
| "apply_constraint (CDefault e) col = col\<lparr>co_default := Some (expr_to_value e)\<rparr>"

definition column_def_to_column :: "column_def \<Rightarrow> column" where
  "column_def_to_column d =
     fold apply_constraint (cd_constraints d)
       \<lparr>co_name = cd_name d, co_affinity = affinity_of_type (cd_type d), co_not_null = False,
        co_primary_key = False, co_autoincrement = False, co_default = None\<rparr>"

fun type_text :: "column_type \<Rightarrow> string" where
  "type_text ColInteger = ''INTEGER''"
| "type_text ColReal = ''REAL''"
| "type_text ColText = ''TEXT''"
| "type_text ColBlob = ''BLOB''"
| "type_text ColNull = ''NULL''"
| "type_text ColNumeric = ''NUMERIC''"

definition create_sql :: "create_table_stmt \<Rightarrow> string" where
  "create_sql c =
     ''CREATE TABLE '' @ (if ct_if_not_exists c then ''IF NOT EXISTS '' else []) @ ct_name c @ ''(''
     @ join_with '', '' (map (\<lambda>d. cd_name d @ '' '' @ type_text (cd_type d)) (ct_columns c)) @ '')''"

definition create_index_sql :: "create_index_stmt \<Rightarrow> string" where
  "create_index_sql c =
     ''CREATE '' @ (if ci_unique c then ''UNIQUE '' else []) @ ''INDEX ''
     @ (if ci_if_not_exists c then ''IF NOT EXISTS '' else []) @ ci_name c @ '' ON '' @ ci_table c @ ''(''
     @ join_with '', '' (ci_columns c) @ '')''"

section \<open>Rows of the schema table\<close>

definition insert_schema_row :: "nat \<Rightarrow> string \<Rightarrow> string \<Rightarrow> u32 \<Rightarrow> string \<Rightarrow> unit scm" where
  "insert_schema_row fuel name obj_type root sql =
     on_schema_btree
       (bindS (getS fst) (\<lambda>b.
        bindS (on_pager (next_rowid fuel b)) (\<lambda>rowid.
          btree_insert_row fuel rowid
            [VText obj_type, VText name, VText name, VInteger (ucast root), VText sql])))"

definition error_exists :: "string \<Rightarrow> string \<Rightarrow> 'a scm" where
  "error_exists what name = throwS (Fail (Sql RcError (what @ '' '' @ name @ '' already exists'')))"

definition no_such_table :: "string \<Rightarrow> fault" where
  "no_such_table name = Fail (Sql RcError (''no such table: '' @ name))"

definition no_column :: "string \<Rightarrow> string \<Rightarrow> fault" where
  "no_column table col = Fail (Sql RcError (''table '' @ table @ '' has no column named '' @ col))"

definition schema_create_table :: "nat \<Rightarrow> create_table_stmt \<Rightarrow> unit scm" where
  "schema_create_table fuel c =
     bindS (sc_get (\<lambda>s. map_of (sc_tables s) (lowercase (ct_name c)))) (\<lambda>old.
       if old \<noteq> None
       then (if ct_if_not_exists c then retS () else error_exists ''table'' (ct_name c))
       else
     bindS (sc_pager create_table) (\<lambda>(b, root).
     bindS (insert_schema_row fuel (ct_name c) ''table'' root (create_sql c)) (\<lambda>_.
     bindS (sc_modify (sc_tables_update (AList.update (lowercase (ct_name c))
         \<lparr>ta_name = ct_name c, ta_root = root, ta_columns = map column_def_to_column (ct_columns c),
          ta_rowid_alias = None\<rparr>))) (\<lambda>_. bump_cookie))))"

definition table_flags :: btree_flags where
  "table_flags = \<lparr>bf_intkey = True, bf_blobkey = False\<rparr>"

text \<open>Adding the entry of the current row to the new index, which is the loop's accumulator.\<close>

definition index_row :: "nat \<Rightarrow> nat list \<Rightarrow> btree \<Rightarrow> btree cum" where
  "index_row fuel cols ib =
     bindS (cu_get cur_key) (\<lambda>k.
       case k of None \<Rightarrow> retS ib
       | Some rowid \<Rightarrow>
           bindS (cu_get cursor_values) (\<lambda>r.
           bindS (liftS r) (\<lambda>vals.
           let key_values = map (\<lambda>i. if i < length vals then vals ! i else VNull) cols in
             (\<lambda>(c, p). case btree_insert_index fuel key_values rowid (ib, p) of
                (r, (ib', p')) \<Rightarrow> (map_sum id (\<lambda>_. ib') r, (c, p'))))))"

definition schema_create_index :: "nat \<Rightarrow> create_index_stmt \<Rightarrow> unit scm" where
  "schema_create_index fuel c =
     bindS (sc_get (\<lambda>s. map_of (sc_indexes s) (lowercase (ci_name c)))) (\<lambda>old.
       if old \<noteq> None
       then (if ci_if_not_exists c then retS () else error_exists ''index'' (ci_name c))
       else
     bindS (sc_get (\<lambda>s. schema_table s (ci_table c))) (\<lambda>found.
       case found of None \<Rightarrow> throwS (no_such_table (ci_table c))
       | Some t \<Rightarrow>
           (case find (\<lambda>col. column_index t col = None) (ci_columns c) of
              Some col \<Rightarrow> throwS (no_column (ci_table c) col)
            | None \<Rightarrow>
     bindS (sc_pager create_index) (\<lambda>(ib, root).
     bindS (sc_pager (with_cursor (btree_new (ta_root t) table_flags)
         (for_each_row fuel (index_row fuel (map (the \<circ> column_index t) (ci_columns c))) ib))) (\<lambda>_.
     bindS (insert_schema_row fuel (ci_name c) ''index'' root (create_index_sql c)) (\<lambda>_.
     bindS (sc_modify (sc_indexes_update (AList.update (lowercase (ci_name c))
         \<lparr>ix_name = ci_name c, ix_table = ci_table c, ix_columns = ci_columns c, ix_root = root,
          ix_unique = ci_unique c\<rparr>))) (\<lambda>_. bump_cookie)))))))"

definition schema_drop_table :: "string \<Rightarrow> bool \<Rightarrow> unit scm" where
  "schema_drop_table name if_exists =
     bindS (sc_get (\<lambda>s. map_of (sc_tables s) (lowercase name))) (\<lambda>old.
       if old = None then (if if_exists then retS () else throwS (no_such_table name))
       else bindS (sc_modify (sc_tables_update (AList.delete (lowercase name)))) (\<lambda>_. bump_cookie))"

section \<open>The root page of a table\<close>

definition text_or_empty :: "val \<Rightarrow> string" where
  "text_or_empty v = (case as_text v of Some s \<Rightarrow> s | None \<Rightarrow> [])"

text \<open>The loop leaves at the table's row, whether it could replace it or not.\<close>

fun find_schema_row :: "nat \<Rightarrow> nat \<Rightarrow> string \<Rightarrow> (i64 \<times> val list) option cum" where
  "find_schema_row fuel 0 name = throwS Diverge"
| "find_schema_row fuel (Suc k) name =
     bindS (cu_get cursor_values) (\<lambda>r.
     bindS (liftS r) (\<lambda>vals.
       if 5 \<le> length vals \<and> text_or_empty (vals ! 0) = ''table''
          \<and> eq_ignore_case (text_or_empty (vals ! 1)) name
       then bindS (cu_get cur_key) (\<lambda>k. retS (map_option (\<lambda>rowid. (rowid, vals)) k))
       else bindS (cursor_next fuel) (\<lambda>more. if more then find_schema_row fuel k name else retS None)))"

definition set_table_root_page :: "nat \<Rightarrow> string \<Rightarrow> u32 \<Rightarrow> unit scm" where
  "set_table_root_page fuel name root =
     bindS (sc_get (\<lambda>s. map_of (sc_tables s) (lowercase name))) (\<lambda>old.
       case old of None \<Rightarrow> retS ()
       | Some t \<Rightarrow>
           if ta_root t = root then retS ()
           else
     bindS (sc_modify (sc_tables_update (AList.update (lowercase name) (t\<lparr>ta_root := root\<rparr>)))) (\<lambda>_.
     on_schema_btree
       (bindS (getS fst) (\<lambda>b.
        bindS (on_pager (with_cursor b
          (bindS (cursor_first fuel) (\<lambda>found.
             if found then find_schema_row fuel fuel name else retS None)))) (\<lambda>r.
          case r of None \<Rightarrow> retS ()
          | Some (rowid, vals) \<Rightarrow>
              bindS (liftS (encode_record (vals[3 := VInteger (ucast root)]))) (\<lambda>rec.
                btree_replace fuel rowid rec))))))"

section \<open>Loading the catalog\<close>

definition register_table_from_create :: "create_table_stmt \<Rightarrow> u32 \<Rightarrow> schema \<Rightarrow> schema" where
  "register_table_from_create c root =
     sc_tables_update (AList.update (lowercase (ct_name c))
       \<lparr>ta_name = ct_name c, ta_root = root, ta_columns = map column_def_to_column (ct_columns c),
        ta_rowid_alias = None\<rparr>)"

text \<open>\<^verbatim>\<open>if let Ok(..) = parse_one(sql)\<close>: a parse error is ignored, a panic is not.\<close>

definition parse_ok :: "logos \<Rightarrow> string \<Rightarrow> statement option res" where
  "parse_ok lx sql =
     (case parse_one lx sql of
        Inr s \<Rightarrow> Inr (Some s) | Inl (Fail e) \<Rightarrow> Inr None | Inl f \<Rightarrow> Inl f)"

definition load_row :: "logos \<Rightarrow> val list \<Rightarrow> schema \<Rightarrow> schema res" where
  "load_row lx vals s =
     (if length vals < 5 then Inr s
      else
        (let obj_type = text_or_empty (vals ! 0); name = text_or_empty (vals ! 1);
             root = (case as_integer (vals ! 3) of Some i \<Rightarrow> ucast i | None \<Rightarrow> 0);
             sql = text_or_empty (vals ! 4)
         in if obj_type = ''table''
            then (if lowercase name \<noteq> SCHEMA_TABLE_NAME \<and> lowercase name \<noteq> SCHEMA_TABLE_NAME_LEGACY
                     \<and> sql \<noteq> []
                  then bindR (parse_ok lx sql) (\<lambda>r.
                    case r of Some (StCreateTable c) \<Rightarrow> Inr (register_table_from_create c root s)
                    | _ \<Rightarrow> Inr s)
                  else Inr s)
            else if obj_type = ''index''
            then (if sql \<noteq> []
                  then bindR (parse_ok lx sql) (\<lambda>r.
                    case r of
                      Some (StCreateIndex c) \<Rightarrow>
                        Inr (sc_indexes_update (AList.update (lowercase name)
                          \<lparr>ix_name = ci_name c, ix_table = ci_table c, ix_columns = ci_columns c,
                           ix_root = root, ix_unique = ci_unique c\<rparr>) s)
                    | _ \<Rightarrow> Inr s)
                  else Inr s)
            else Inr s))"

definition load_current :: "logos \<Rightarrow> schema \<Rightarrow> schema cum" where
  "load_current lx s =
     bindS (cu_get cursor_values) (\<lambda>r. bindS (liftS r) (\<lambda>vals. liftS (load_row lx vals s)))"

text \<open>On an error the schema keeps what was loaded before; only the error is used.\<close>

definition load_schema_from_btree :: "nat \<Rightarrow> logos \<Rightarrow> unit scm" where
  "load_schema_from_btree fuel lx =
     bindS (sc_get (\<lambda>s. s)) (\<lambda>s.
       case sc_btree s of None \<Rightarrow> throwS Panic
       | Some b \<Rightarrow>
           bindS (sc_pager (with_cursor b (for_each_row fuel (load_current lx) s))) (\<lambda>s'.
             sc_modify (\<lambda>_. s')))"

definition plain_column :: "string \<Rightarrow> affinity \<Rightarrow> column" where
  "plain_column name aff =
     \<lparr>co_name = name, co_affinity = aff, co_not_null = False, co_primary_key = False,
      co_autoincrement = False, co_default = None\<rparr>"

definition schema_table_entry :: table where
  "schema_table_entry =
     \<lparr>ta_name = SCHEMA_TABLE_NAME, ta_root = ROOT_PAGE,
      ta_columns = [plain_column ''type'' AffText, plain_column ''name'' AffText,
        plain_column ''tbl_name'' AffText, plain_column ''rootpage'' AffInteger,
        plain_column ''sql'' AffText],
      ta_rowid_alias = Some ''rowid''\<rparr>"

definition init_schema_table :: "nat \<Rightarrow> logos \<Rightarrow> unit scm" where
  "init_schema_table fuel lx =
     bindS (sc_modify (sc_btree_update (\<lambda>_. Some (btree_new ROOT_PAGE table_flags)))) (\<lambda>_.
     bindS (sc_modify (sc_tables_update (AList.update (lowercase SCHEMA_TABLE_NAME) schema_table_entry))) (\<lambda>_.
       load_schema_from_btree fuel lx))"

end
