(* ===== verification/Pragma.thy ===== *)
theory Pragma
  imports Schema
begin

text \<open>
  \<^verbatim>\<open>sqllite-core/src/pragma.rs\<close>: the three pragmas. Each answers rows of values and may change the
  pager's journal mode or page size.
\<close>

fun journal_mode_name :: "journal_mode \<Rightarrow> string" where
  "journal_mode_name JDelete = ''delete''"
| "journal_mode_name JPersist = ''persist''"
| "journal_mode_name JOff = ''off''"
| "journal_mode_name JTruncate = ''truncate''"
| "journal_mode_name JMemory = ''memory''"
| "journal_mode_name JWal = ''wal''"

definition parse_journal_mode :: "string \<Rightarrow> journal_mode res" where
  "parse_journal_mode s =
     (let l = lowercase s in
      if l = ''delete'' then Inr JDelete
      else if l = ''persist'' then Inr JPersist
      else if l = ''off'' then Inr JOff
      else if l = ''truncate'' then Inr JTruncate
      else if l = ''memory'' then Inr JMemory
      else if l = ''wal'' then Inr JWal
      else sql_err RcError (''unknown journal mode: '' @ s))"

definition execute_journal_mode :: "string option \<Rightarrow> val list list pgm" where
  "execute_journal_mode arg =
     (case arg of
        Some mode_str \<Rightarrow>
          bindS (liftS (parse_journal_mode mode_str)) (\<lambda>mode.
          bindS (set_journal_mode mode) (\<lambda>applied.
            retS [[VText (journal_mode_name applied)]]))
      | None \<Rightarrow>
          bindS (getS pgr_journal_mode) (\<lambda>mode. retS [[VText (journal_mode_name mode)]]))"

text \<open>\<^verbatim>\<open>str::parse::<u32>\<close>: digits, an optional plus sign, no overflow.\<close>

definition parse_u32 :: "string \<Rightarrow> u32 option" where
  "parse_u32 s =
     (let (neg, ds) = split_sign s in
      if neg \<or> ds = [] \<or> \<not> list_all is_digit ds then None
      else if digits_value ds < 2 ^ 32 then Some (of_nat (digits_value ds)) else None)"

definition execute_page_size :: "string option \<Rightarrow> val list list pgm" where
  "execute_page_size arg =
     (case arg of
        Some size_str \<Rightarrow>
          (case parse_u32 size_str of
             None \<Rightarrow> throwS (Fail (Sql RcError ''invalid page_size value''))
           | Some sz \<Rightarrow>
               if sz < MIN_PAGE_SIZE \<or> sz > MAX_PAGE_SIZE \<or> \<not> is_power_of_two sz
               then throwS (Fail (Sql RcError ''page_size must be a power of two between 512 and 65536''))
               else bindS (set_page_size sz) (\<lambda>applied. retS [[VInteger (ucast applied)]]))
      | None \<Rightarrow> bindS (getS pgr_page_size) (\<lambda>sz. retS [[VInteger (ucast sz)]]))"

definition ascii_upper :: "char \<Rightarrow> char" where
  "ascii_upper c =
     (if 97 \<le> (of_char c :: nat) \<and> (of_char c :: nat) \<le> 122 then char_of ((of_char c :: nat) - 32) else c)"

definition bool_value :: "bool \<Rightarrow> val" where
  "bool_value b = VInteger (if b then 1 else 0)"

definition table_info_row :: "nat \<Rightarrow> column \<Rightarrow> val list" where
  "table_info_row cid col =
     [VInteger (of_nat cid), VText (co_name col), VText [ascii_upper (affinity_as_char (co_affinity col))],
      bool_value (co_not_null col),
      (case co_default col of Some v \<Rightarrow> v | None \<Rightarrow> VNull),
      bool_value (co_primary_key col)]"

definition execute_table_info :: "string option \<Rightarrow> schema \<Rightarrow> val list list res" where
  "execute_table_info arg s =
     (case arg of
        None \<Rightarrow> sql_err RcError ''table_info requires a table name''
      | Some name \<Rightarrow>
          (case schema_table s name of
             None \<Rightarrow> Inl (no_such_table name)
           | Some t \<Rightarrow> Inr (map (\<lambda>(cid, col). table_info_row cid col) (enumerate 0 (ta_columns t)))))"

definition execute_pragma :: "string \<Rightarrow> string option \<Rightarrow> schema \<Rightarrow> val list list pgm" where
  "execute_pragma name arg s =
     (let l = lowercase name in
      if l = ''journal_mode'' then execute_journal_mode arg
      else if l = ''page_size'' then execute_page_size arg
      else if l = ''table_info'' then liftS (execute_table_info arg s)
      else throwS (Fail (Sql RcError (''unknown or unsupported pragma: '' @ l))))"

fun pragma_value_from_expr :: "expr \<Rightarrow> string" where
  "pragma_value_from_expr (EString s) = s"
| "pragma_value_from_expr (EIdent s) = s"
| "pragma_value_from_expr (EInteger i) = i64_to_string i"
| "pragma_value_from_expr (EReal r) = f64_to_string r"
| "pragma_value_from_expr e = []"

text \<open>Two hexadecimal digits, with a leading zero.\<close>

definition hex_byte :: "u8 \<Rightarrow> string" where
  "hex_byte b = [hex_digit (unat b div 16), hex_digit (unat b mod 16)]"

fun value_to_string :: "val \<Rightarrow> string" where
  "value_to_string VNull = []"
| "value_to_string (VInteger i) = i64_to_string i"
| "value_to_string (VReal r) = real_to_text r"
| "value_to_string (VText s) = s"
| "value_to_string (VBlob b) = ''X'' @ [CHR 0x27] @ concat (map hex_byte b) @ [CHR 0x27]"

definition pragma_rows_to_strings :: "val list list \<Rightarrow> string list" where
  "pragma_rows_to_strings rows = concat (map (map value_to_string) rows)"

end
