(* ===== verification/Program.thy ===== *)
theory Program
  imports Values
begin

text \<open>
  \<^verbatim>\<open>sqllite-core/src/vdbe/program.rs\<close>: the instructions of the virtual machine. An opcode the
  machine acts on is a constructor of its own; the other variants of the enum, at which it only goes
  on (those of \<^verbatim>\<open>CREATE TABLE\<close> and \<^verbatim>\<open>DROP TABLE\<close> among them), are \<open>OpUnused\<close> with their number.
\<close>

datatype opcode =
    OpInit | OpHalt | OpGoto | OpInteger | OpInt64 | OpReal | OpString | OpNull | OpBlob | OpMove
  | OpCopy | OpResultRow | OpTransaction | OpOpenRead | OpOpenWrite | OpRewind | OpLast | OpSorterNext
  | OpColumn | OpRowid | OpMakeRecord | OpNewRowid | OpInsert | OpInsertInt | OpDelete
  | OpEq | OpNe | OpLt | OpLe | OpGt | OpGe | OpIf | OpIfNot | OpIsNull | OpNotNull
  | OpAdd | OpSubtract | OpMultiply | OpDivide | OpRemainder | OpConcat | OpAnd | OpOr | OpNot
  | OpSeekRowid | OpNotFound | OpFound | OpCount | OpPragma | OpRowData | OpGroupBy | OpSort
  | OpBufferRewind | OpBufferNext | OpUnused nat

datatype agg_func = AggCount | AggSum | AggMin | AggMax

record agg_spec =
  as_func :: agg_func
  as_col_index :: "nat option"

record group_by_spec =
  gb_key_indices :: "nat list"
  gb_aggs :: "agg_spec list"

record sort_key_spec =
  sk_col_index :: nat
  sk_desc :: bool

datatype insn =
    Insn (in_opcode: opcode) (in_p1: i32) (in_p2: i32) (in_p3: i32) (in_p4: insn_p4) (in_p5: u16)
and insn_p4 =
    P4None
  | P4Int i32
  | P4Int64 i64
  | P4Real f64
  | P4String string
  | P4Subprog program
  | P4Pragma string "string option"
  | P4SortKeys "sort_key_spec list"
  | P4GroupBy group_by_spec
and program =
    Program (pr_insns: "insn list") (pr_n_reg: nat) (pr_read_only: bool)

definition program_new :: program where
  "program_new = Program [] 0 False"

definition set_p2 :: "i32 \<Rightarrow> insn \<Rightarrow> insn" where
  "set_p2 target i = Insn (in_opcode i) (in_p1 i) target (in_p3 i) (in_p4 i) (in_p5 i)"

definition set_n_reg :: "nat \<Rightarrow> program \<Rightarrow> program" where
  "set_n_reg n p = Program (pr_insns p) n (pr_read_only p)"

definition set_read_only :: "program \<Rightarrow> program" where
  "set_read_only p = Program (pr_insns p) (pr_n_reg p) True"

text \<open>\<^verbatim>\<open>emit\<close> appends and returns the address; \<^verbatim>\<open>patch_p2\<close> sets a jump target afterwards.\<close>

type_synonym 'a cgm = "(program, 'a) sres"

definition emit :: "insn \<Rightarrow> nat cgm" where
  "emit i =
     bindS (getS (length \<circ> pr_insns)) (\<lambda>addr.
     bindS (modifyS (\<lambda>p. Program (pr_insns p @ [i]) (pr_n_reg p) (pr_read_only p))) (\<lambda>_.
       retS addr))"

definition patch_p2 :: "nat \<Rightarrow> i32 \<Rightarrow> unit cgm" where
  "patch_p2 addr target =
     bindS (getS pr_insns) (\<lambda>is.
     bindS (liftS (get_at is addr)) (\<lambda>i.
       modifyS (\<lambda>p. Program (is[addr := set_p2 target i]) (pr_n_reg p) (pr_read_only p))))"

end
