(* ===== verification/Float_Ops.thy ===== *)
theory Float_Ops
  imports Float64
begin

text \<open>
  The arithmetic operations of \<^verbatim>\<open>f64\<close> the virtual machine uses: the exact rational result rounded
  to the nearest double, ties to even, with the infinities and zeros of IEEE 754. The bits of a NaN
  result, which the language leaves open, are those of the quiet NaN.
\<close>

definition f64_nan :: f64 where
  "f64_nan = 0x7ff8000000000000"

definition f64_infinity :: "bool \<Rightarrow> f64" where
  "f64_infinity neg = f64_assemble neg f64_inf_bits"

definition f64_neg :: "f64 \<Rightarrow> f64" where
  "f64_neg x = flip_bit 63 x"

definition f64_is_zero :: "f64 \<Rightarrow> bool" where
  "f64_is_zero x = (f64_magnitude x = 0)"

definition signed_significand :: "f64 \<Rightarrow> int" where
  "signed_significand x = (if f64_negative x then - int (f64_significand x) else int (f64_significand x))"

text \<open>Rounding \<open>m * 2 ^ e\<close>.\<close>

definition f64_scaled :: "bool \<Rightarrow> nat \<Rightarrow> int \<Rightarrow> f64" where
  "f64_scaled neg m e = (case f64_ratio m e of (p, q) \<Rightarrow> f64_round neg p q)"

definition f64_add :: "f64 \<Rightarrow> f64 \<Rightarrow> f64" where
  "f64_add a b =
     (if f64_is_nan a \<or> f64_is_nan b then f64_nan
      else if f64_is_infinite a
        then (if f64_is_infinite b \<and> f64_negative a \<noteq> f64_negative b then f64_nan else a)
      else if f64_is_infinite b then b
      else (let e = min (f64_exponent a) (f64_exponent b);
                s = signed_significand a * 2 ^ nat (f64_exponent a - e)
                  + signed_significand b * 2 ^ nat (f64_exponent b - e)
            in if s = 0 then f64_assemble (f64_negative a \<and> f64_negative b) 0
               else f64_scaled (s < 0) (nat \<bar>s\<bar>) e))"

definition f64_sub :: "f64 \<Rightarrow> f64 \<Rightarrow> f64" where
  "f64_sub a b = f64_add a (f64_neg b)"

definition f64_mul :: "f64 \<Rightarrow> f64 \<Rightarrow> f64" where
  "f64_mul a b =
     (let neg = (f64_negative a \<noteq> f64_negative b) in
      if f64_is_nan a \<or> f64_is_nan b then f64_nan
      else if f64_is_infinite a \<or> f64_is_infinite b
        then (if f64_is_zero a \<or> f64_is_zero b then f64_nan else f64_infinity neg)
      else f64_scaled neg (f64_significand a * f64_significand b) (f64_exponent a + f64_exponent b))"

definition f64_div :: "f64 \<Rightarrow> f64 \<Rightarrow> f64" where
  "f64_div a b =
     (let neg = (f64_negative a \<noteq> f64_negative b) in
      if f64_is_nan a \<or> f64_is_nan b then f64_nan
      else if f64_is_infinite a then (if f64_is_infinite b then f64_nan else f64_infinity neg)
      else if f64_is_infinite b then f64_assemble neg 0
      else if f64_is_zero b then (if f64_is_zero a then f64_nan else f64_infinity neg)
      else (case f64_ratio (f64_significand a) (f64_exponent a - f64_exponent b) of
              (p, q) \<Rightarrow> f64_round neg p (q * f64_significand b)))"

end
