(* ===== verification/Vdbe.thy ===== *)
theory Vdbe
  imports Pragma Program Float_Ops
begin

text \<open>
  \<^verbatim>\<open>sqllite-core/src/vdbe/exec.rs\<close>: the virtual machine. Its own state is the record \<open>vdbe\<close>; the
  schema and the pager it shares with the connection are the other two parts of the state of an
  operation. A register or jump target is an \<open>i32\<close> the code casts to \<^verbatim>\<open>usize\<close>, which turns a
  negative number into one past every register and every instruction. The cursors are an association
  list. \<open>env\<close> holds the fuel of the tree operations, the lexer of the stored SQL text and the order
  in which the standard library's hash map visits its entries.
\<close>

record cursor_state =
  cs_btree :: btree
  cs_cursor :: btree_cursor
  cs_table :: string

datatype step_result = SrContinue | SrRow | SrDone | SrHalt result_code string

record vdbe =
  vm_program :: program
  vm_pc :: nat
  vm_regs :: "val list"
  vm_cursors :: "(i32 \<times> cursor_state) list"
  vm_halted :: bool
  vm_halt_code :: result_code
  vm_halt_message :: string
  vm_result_columns :: "nat list"
  vm_changes :: i64
  vm_last_rowid :: i64
  vm_pragma_pending :: "val list list"
  vm_pragma_idx :: nat
  vm_row_buffer :: "val list list"
  vm_buffer_idx :: nat

record agg_state =
  ag_count :: i64
  ag_sum :: "f64 option"
  ag_min :: "val option"
  ag_max :: "val option"

type_synonym group_map = "(string \<times> val list \<times> agg_state list) list"

record env =
  en_fuel :: nat
  en_lx :: logos
  en_order :: "group_map \<Rightarrow> group_map"

type_synonym 'a vmm = "(vdbe \<times> schema \<times> pager, 'a) sres"

definition vdbe_new :: "program \<Rightarrow> vdbe" where
  "vdbe_new prog =
     \<lparr>vm_program = prog, vm_pc = 0, vm_regs = replicate (max (pr_n_reg prog) 8) VNull, vm_cursors = [],
      vm_halted = False, vm_halt_code = RcOk, vm_halt_message = [], vm_result_columns = [],
      vm_changes = 0, vm_last_rowid = 0, vm_pragma_pending = [], vm_pragma_idx = 0,
      vm_row_buffer = [], vm_buffer_idx = 0\<rparr>"

definition vm_get :: "(vdbe \<Rightarrow> 'a) \<Rightarrow> 'a vmm" where
  "vm_get f = getS (f \<circ> fst)"

definition vm_modify :: "(vdbe \<Rightarrow> vdbe) \<Rightarrow> unit vmm" where
  "vm_modify f = modifyS (apfst f)"

definition vm_pager :: "'a pgm \<Rightarrow> 'a vmm" where
  "vm_pager m = (\<lambda>(v, s, p). case m p of (r, p') \<Rightarrow> (r, (v, s, p')))"

definition vm_schema :: "'a scm \<Rightarrow> 'a vmm" where
  "vm_schema m = (\<lambda>(v, s, p). case m (s, p) of (r, (s', p')) \<Rightarrow> (r, (v, s', p')))"

section \<open>Registers\<close>

definition as_usize :: "i32 \<Rightarrow> nat" where
  "as_usize i = unat (scast i :: u64)"

text \<open>Growing the register file to a negative index cast to \<^verbatim>\<open>usize\<close> fails in the allocator.\<close>

definition put_reg :: "i32 \<Rightarrow> val \<Rightarrow> val list \<Rightarrow> val list res" where
  "put_reg idx v regs =
     (let i = as_usize idx in
      if sint idx < 0 then panic
      else if i < length regs then Inr (regs[i := v])
      else Inr (regs @ replicate (i - length regs) VNull @ [v]))"

definition set_reg :: "i32 \<Rightarrow> val \<Rightarrow> unit vmm" where
  "set_reg idx v =
     bindS (vm_get vm_regs) (\<lambda>regs.
     bindS (liftS (put_reg idx v regs)) (\<lambda>regs'. vm_modify (vm_regs_update (\<lambda>_. regs'))))"

definition reg_at :: "val list \<Rightarrow> i32 \<Rightarrow> val" where
  "reg_at regs idx = (if as_usize idx < length regs then regs ! as_usize idx else VNull)"

definition get_reg :: "i32 \<Rightarrow> val vmm" where
  "get_reg idx = vm_get (\<lambda>v. reg_at (vm_regs v) idx)"

definition jump :: "i32 \<Rightarrow> unit vmm" where
  "jump target = vm_modify (vm_pc_update (\<lambda>_. as_usize target))"

text \<open>Storing a value, and jumping on a condition, then going on.\<close>

definition store :: "i32 \<Rightarrow> val \<Rightarrow> step_result vmm" where
  "store idx v = bindS (set_reg idx v) (\<lambda>_. retS SrContinue)"

definition jump_if :: "bool \<Rightarrow> i32 \<Rightarrow> step_result vmm" where
  "jump_if b target = bindS (if b then jump target else retS ()) (\<lambda>_. retS SrContinue)"

definition int_or_0 :: "val \<Rightarrow> i64" where
  "int_or_0 v = (case as_integer v of Some i \<Rightarrow> i | None \<Rightarrow> 0)"

definition real_or_0 :: "val \<Rightarrow> f64" where
  "real_or_0 v = (case as_real v of Some r \<Rightarrow> r | None \<Rightarrow> 0)"

text \<open>The condition \<open>If\<close> tests; \<open>IfNot\<close> tests its negation.\<close>

definition truthy :: "val \<Rightarrow> bool" where
  "truthy v = (\<not> is_null v \<and> int_or_0 v \<noteq> 0)"

section \<open>Comparison and arithmetic\<close>

fun compare_cond :: "opcode \<Rightarrow> ordering \<Rightarrow> bool" where
  "compare_cond OpEq c = (c = Equal)"
| "compare_cond OpNe c = (c \<noteq> Equal)"
| "compare_cond OpLt c = (c = Less)"
| "compare_cond OpLe c = (c \<noteq> Less)"
| "compare_cond OpGt c = (c = Greater)"
| "compare_cond OpGe c = (c \<noteq> Greater)"
| "compare_cond _ c = False"

definition exec_compare :: "insn \<Rightarrow> step_result vmm" where
  "exec_compare i =
     bindS (get_reg (in_p2 i)) (\<lambda>left.
     bindS (get_reg (in_p3 i)) (\<lambda>right.
       store (in_p1 i) (bool_value (compare_cond (in_opcode i) (compare_val left right)))))"

definition binary_numeric :: "insn \<Rightarrow> (f64 \<Rightarrow> f64 \<Rightarrow> val) \<Rightarrow> step_result vmm" where
  "binary_numeric i f =
     bindS (get_reg (in_p2 i)) (\<lambda>a.
     bindS (get_reg (in_p3 i)) (\<lambda>b. store (in_p1 i) (f (real_or_0 a) (real_or_0 b))))"

definition binary_int :: "insn \<Rightarrow> (i64 \<Rightarrow> i64 \<Rightarrow> val res) \<Rightarrow> step_result vmm" where
  "binary_int i f =
     bindS (get_reg (in_p2 i)) (\<lambda>a.
     bindS (get_reg (in_p3 i)) (\<lambda>b.
     bindS (liftS (f (int_or_0 a) (int_or_0 b))) (store (in_p1 i))))"

text \<open>The signed remainder has the sign of the dividend; by zero, or of the least integer by -1, it panics.\<close>

definition rem_i64 :: "i64 \<Rightarrow> i64 \<Rightarrow> val res" where
  "rem_i64 a b =
     (if b = 0 \<or> (sint a = - (2 ^ 63) \<and> b = - 1) then panic
      else Inr (VInteger (word_of_int (sgn (sint a) * (\<bar>sint a\<bar> mod \<bar>sint b\<bar>)))))"

definition exec_arith :: "insn \<Rightarrow> step_result vmm" where
  "exec_arith i =
     (case in_opcode i of
        OpAdd \<Rightarrow> binary_numeric i (\<lambda>a b. VReal (f64_add a b))
      | OpSubtract \<Rightarrow> binary_numeric i (\<lambda>a b. VReal (f64_sub a b))
      | OpMultiply \<Rightarrow> binary_numeric i (\<lambda>a b. VReal (f64_mul a b))
      | OpDivide \<Rightarrow> binary_numeric i (\<lambda>a b. VReal (f64_div a b))
      | _ \<Rightarrow> binary_int i rem_i64)"

definition exec_logic :: "insn \<Rightarrow> step_result vmm" where
  "exec_logic i =
     bindS (get_reg (in_p2 i)) (\<lambda>l.
       if in_opcode i = OpNot
       then store (in_p1 i) (bool_value (is_null l \<or> int_or_0 l = 0))
       else bindS (get_reg (in_p3 i)) (\<lambda>r.
         if in_opcode i = OpConcat then store (in_p1 i) (VText (to_text l @ to_text r))
         else if in_opcode i = OpAnd
         then store (in_p1 i) (bool_value (\<not> is_null l \<and> \<not> is_null r \<and> int_or_0 l \<noteq> 0 \<and> int_or_0 r \<noteq> 0))
         else store (in_p1 i) (bool_value (\<not> is_null l \<and> \<not> is_null r \<and> (int_or_0 l \<noteq> 0 \<or> int_or_0 r \<noteq> 0)))))"

section \<open>Cursors\<close>

definition vm_cursor :: "i32 \<Rightarrow> cursor_state option vmm" where
  "vm_cursor cid = vm_get (\<lambda>v. map_of (vm_cursors v) cid)"

definition put_cursor :: "i32 \<Rightarrow> cursor_state \<Rightarrow> unit vmm" where
  "put_cursor cid cs = vm_modify (vm_cursors_update (AList.update cid cs))"

text \<open>An operation on the cursor, or on the tree, of an entry of the map, which keeps what it wrote.\<close>

definition on_cursor :: "i32 \<Rightarrow> cursor_state \<Rightarrow> 'a cum \<Rightarrow> 'a vmm" where
  "on_cursor cid cs m =
     (\<lambda>(v, s, p). case m (cs_cursor cs, p) of
        (r, (c, p')) \<Rightarrow> (r, (v\<lparr>vm_cursors := AList.update cid (cs\<lparr>cs_cursor := c\<rparr>) (vm_cursors v)\<rparr>, s, p')))"

definition on_btree :: "i32 \<Rightarrow> cursor_state \<Rightarrow> 'a btm \<Rightarrow> 'a vmm" where
  "on_btree cid cs m =
     (\<lambda>(v, s, p). case m (cs_btree cs, p) of
        (r, (b, p')) \<Rightarrow> (r, (v\<lparr>vm_cursors := AList.update cid (cs\<lparr>cs_btree := b\<rparr>) (vm_cursors v)\<rparr>, s, p')))"

definition exec_open :: "insn \<Rightarrow> step_result vmm" where
  "exec_open i =
     (case in_p4 i of
        P4String name \<Rightarrow>
          bindS (vm_schema (sc_get (\<lambda>s. schema_table s name))) (\<lambda>found.
            case found of None \<Rightarrow> throwS (no_such_table name)
            | Some t \<Rightarrow>
                let b = btree_new (ta_root t) table_flags in
                bindS (put_cursor (in_p1 i) \<lparr>cs_btree = b, cs_cursor = btree_cursor_of b, cs_table = name\<rparr>)
                  (\<lambda>_. retS SrContinue))
      | _ \<Rightarrow> throwS (Fail (Sql RcInternal ''missing table name'')))"

definition exec_rewind :: "nat \<Rightarrow> insn \<Rightarrow> step_result vmm" where
  "exec_rewind fuel i =
     bindS (vm_cursor (in_p1 i)) (\<lambda>c.
       case c of None \<Rightarrow> retS SrContinue
       | Some cs \<Rightarrow>
           bindS (on_cursor (in_p1 i) cs (cursor_first fuel)) (\<lambda>found. jump_if (\<not> found) (in_p2 i)))"

definition exec_next :: "nat \<Rightarrow> insn \<Rightarrow> step_result vmm" where
  "exec_next fuel i =
     bindS (vm_cursor (in_p1 i)) (\<lambda>c.
       case c of None \<Rightarrow> retS SrContinue
       | Some cs \<Rightarrow>
           bindS (on_cursor (in_p1 i) cs (cursor_next fuel)) (\<lambda>found. jump_if found (in_p2 i)))"

definition exec_column :: "insn \<Rightarrow> step_result vmm" where
  "exec_column i =
     bindS (vm_cursor (in_p2 i)) (\<lambda>c.
       case c of None \<Rightarrow> retS SrContinue
       | Some cs \<Rightarrow>
           bindS (liftS (cursor_values (cs_cursor cs))) (\<lambda>vals.
             store (in_p1 i) (reg_at vals (in_p3 i))))"

definition exec_rowid :: "insn \<Rightarrow> step_result vmm" where
  "exec_rowid i =
     bindS (vm_cursor (in_p2 i)) (\<lambda>c.
       case c of None \<Rightarrow> retS SrContinue
       | Some cs \<Rightarrow>
           (case cur_key (cs_cursor cs) of None \<Rightarrow> retS SrContinue
            | Some rowid \<Rightarrow> store (in_p1 i) (VInteger rowid)))"

definition exec_seek :: "nat \<Rightarrow> insn \<Rightarrow> step_result vmm" where
  "exec_seek fuel i =
     bindS (get_reg (in_p3 i)) (\<lambda>v.
     bindS (vm_cursor (in_p1 i)) (\<lambda>c.
       case c of None \<Rightarrow> retS SrContinue
       | Some cs \<Rightarrow>
           bindS (on_cursor (in_p1 i) cs
               (cursor_seek fuel (case v of VInteger rowid \<Rightarrow> rowid | _ \<Rightarrow> 0))) (\<lambda>found.
             jump_if (\<not> found) (in_p2 i))))"

definition exec_found :: "insn \<Rightarrow> step_result vmm" where
  "exec_found i =
     bindS (vm_cursor (in_p1 i)) (\<lambda>c.
       case c of None \<Rightarrow> retS SrContinue
       | Some cs \<Rightarrow>
           jump_if (if in_opcode i = OpNotFound then cur_eof (cs_cursor cs) else \<not> cur_eof (cs_cursor cs))
             (in_p2 i))"

definition count_row :: "i64 \<Rightarrow> i64 cum" where
  "count_row n = liftS (add_i64 n 1)"

definition exec_count :: "nat \<Rightarrow> insn \<Rightarrow> step_result vmm" where
  "exec_count fuel i =
     bindS (vm_cursor (in_p2 i)) (\<lambda>c.
       case c of None \<Rightarrow> retS SrContinue
       | Some cs \<Rightarrow>
           bindS (vm_pager (with_cursor (cs_btree cs) (for_each_row fuel count_row 0))) (\<lambda>n.
             store (in_p1 i) (VInteger n)))"

section \<open>Rows of a table\<close>

text \<open>\<open>insn.p2 + i\<close> is a checked addition of \<open>i32\<close>s.\<close>

fun collect_regs :: "val list \<Rightarrow> i32 \<Rightarrow> nat \<Rightarrow> val list res" where
  "collect_regs regs base 0 = Inr []"
| "collect_regs regs base (Suc n) =
     bindR (collect_regs regs base n) (\<lambda>vs.
       if sint base + int n < 2 ^ 31 then Inr (vs @ [reg_at regs (base + of_nat n)]) else panic)"

text \<open>\<^verbatim>\<open>for i in 0..n\<close> of an \<open>i32\<close>, which runs no times when \<open>n\<close> is negative.\<close>

definition range_len :: "i32 \<Rightarrow> nat" where
  "range_len n = nat (sint n)"

definition exec_make_record :: "insn \<Rightarrow> step_result vmm" where
  "exec_make_record i =
     bindS (vm_get vm_regs) (\<lambda>regs.
     bindS (liftS (collect_regs regs (in_p2 i) (range_len (in_p1 i)))) (\<lambda>vals.
     bindS (liftS (encode_record vals)) (\<lambda>rec. store (in_p3 i) (VBlob rec))))"

definition allocate_rowid :: "nat \<Rightarrow> i32 \<Rightarrow> i64 vmm" where
  "allocate_rowid fuel cid =
     bindS (vm_cursor cid) (\<lambda>c.
       case c of None \<Rightarrow> retS 1
       | Some cs \<Rightarrow> vm_pager (next_rowid fuel (cs_btree cs)))"

definition exec_new_rowid :: "nat \<Rightarrow> insn \<Rightarrow> step_result vmm" where
  "exec_new_rowid fuel i =
     bindS (allocate_rowid fuel (in_p2 i)) (\<lambda>rowid.
     bindS (set_reg (in_p1 i) (VInteger rowid)) (\<lambda>_.
     bindS (vm_modify (vm_last_rowid_update (\<lambda>_. rowid))) (\<lambda>_. retS SrContinue)))"

definition count_change :: "unit vmm" where
  "count_change =
     bindS (vm_get vm_changes) (\<lambda>n.
     bindS (liftS (add_i64 n 1)) (\<lambda>n'. vm_modify (vm_changes_update (\<lambda>_. n'))))"

definition insert_rowid :: "insn \<Rightarrow> i64 vmm" where
  "insert_rowid i =
     (if in_opcode i = OpInsertInt then retS (scast (in_p3 i))
      else bindS (get_reg (in_p3 i)) (\<lambda>v.
        case v of VInteger rowid \<Rightarrow> retS rowid
        | _ \<Rightarrow> throwS (Fail (Sql RcMismatch ''rowid must be integer''))))"

definition insert_record :: "insn \<Rightarrow> bytes vmm" where
  "insert_record i =
     bindS (get_reg (in_p1 i)) (\<lambda>v.
       case v of VBlob b \<Rightarrow> retS b
       | _ \<Rightarrow> throwS (Fail (Sql RcInternal ''expected record blob'')))"

text \<open>The tree may have a new root after the insertion; the schema is told.\<close>

definition exec_insert :: "nat \<Rightarrow> insn \<Rightarrow> step_result vmm" where
  "exec_insert fuel i =
     bindS (vm_cursor (in_p2 i)) (\<lambda>c.
       case c of None \<Rightarrow> retS SrContinue
       | Some cs \<Rightarrow>
           bindS (insert_rowid i) (\<lambda>rowid.
           bindS (insert_record i) (\<lambda>rec.
           bindS (on_btree (in_p2 i) cs
               (bindS (if in_p5 i \<noteq> 0 then btree_replace fuel rowid rec else btree_insert fuel rowid rec)
                  (\<lambda>_. getS btree_root))) (\<lambda>new_root.
           bindS (vm_schema (set_table_root_page fuel (cs_table cs) new_root)) (\<lambda>_.
           bindS count_change (\<lambda>_.
           bindS (vm_modify (vm_last_rowid_update (\<lambda>_. rowid))) (\<lambda>_. retS SrContinue)))))))"

definition exec_delete :: "nat \<Rightarrow> insn \<Rightarrow> step_result vmm" where
  "exec_delete fuel i =
     bindS (vm_cursor (in_p2 i)) (\<lambda>c.
       case c of None \<Rightarrow> retS SrContinue
       | Some cs \<Rightarrow>
           (case cur_key (cs_cursor cs) of None \<Rightarrow> retS SrContinue
            | Some rowid \<Rightarrow>
                bindS (on_btree (in_p2 i) cs (btree_delete fuel rowid)) (\<lambda>_.
                bindS count_change (\<lambda>_. retS SrContinue))))"

section \<open>The row buffer\<close>

definition value_at :: "val list \<Rightarrow> nat \<Rightarrow> val" where
  "value_at row i = (if i < length row then row ! i else VNull)"

definition exec_row_data :: "insn \<Rightarrow> step_result vmm" where
  "exec_row_data i =
     (if sint (in_p1 i) < 0 then throwS Panic
      else
     bindS (vm_get vm_regs) (\<lambda>regs.
     bindS (vm_modify (vm_row_buffer_update (\<lambda>b. b @ [map (value_at regs) [0..<range_len (in_p1 i)]]))) (\<lambda>_.
       retS SrContinue)))"

text \<open>
  The order of two rows by a list of keys, and the standard library's stable sort, as
  an insertion sort: every stable sort computes the same when the order is a total preorder. (For an
  order that is not, such as the comparison of texts with numbers, the library leaves the result
  open.)
\<close>

fun compare_rows :: "sort_key_spec list \<Rightarrow> val list \<Rightarrow> val list \<Rightarrow> ordering" where
  "compare_rows [] a b = Equal"
| "compare_rows (k # ks) a b =
     (let o1 = compare_val (value_at a (sk_col_index k)) (value_at b (sk_col_index k));
          o2 = (if sk_desc k then reverse_ordering o1 else o1)
      in if o2 \<noteq> Equal then o2 else compare_rows ks a b)"

fun insert_sorted :: "('a \<Rightarrow> 'a \<Rightarrow> ordering) \<Rightarrow> 'a \<Rightarrow> 'a list \<Rightarrow> 'a list" where
  "insert_sorted c x [] = [x]"
| "insert_sorted c x (y # ys) = (if c x y = Greater then y # insert_sorted c x ys else x # y # ys)"

definition stable_sort :: "('a \<Rightarrow> 'a \<Rightarrow> ordering) \<Rightarrow> 'a list \<Rightarrow> 'a list" where
  "stable_sort c xs = foldr (insert_sorted c) xs []"

definition sort_buffer :: "sort_key_spec list \<Rightarrow> vdbe \<Rightarrow> vdbe" where
  "sort_buffer keys = vm_row_buffer_update (stable_sort (compare_rows keys))"

section \<open>Grouping\<close>

definition agg_new :: agg_state where
  "agg_new = \<lparr>ag_count = 0, ag_sum = None, ag_min = None, ag_max = None\<rparr>"

text \<open>The value kept is replaced when the new one compares to it as asked.\<close>

definition keep_best :: "ordering \<Rightarrow> val option \<Rightarrow> val \<Rightarrow> val option" where
  "keep_best wanted cur v =
     (case cur of None \<Rightarrow> Some v | Some c \<Rightarrow> if compare_val v c = wanted then Some v else Some c)"

definition agg_value :: "agg_func \<Rightarrow> val \<Rightarrow> agg_state \<Rightarrow> agg_state" where
  "agg_value f v st =
     (if is_null v then st
      else case f of
        AggCount \<Rightarrow> st
      | AggSum \<Rightarrow> st\<lparr>ag_sum := Some (f64_add (case ag_sum st of None \<Rightarrow> 0 | Some x \<Rightarrow> x) (real_or_0 v))\<rparr>
      | AggMin \<Rightarrow> st\<lparr>ag_min := keep_best Less (ag_min st) v\<rparr>
      | AggMax \<Rightarrow> st\<lparr>ag_max := keep_best Greater (ag_max st) v\<rparr>)"

definition agg_step :: "agg_func \<Rightarrow> val option \<Rightarrow> agg_state \<Rightarrow> agg_state res" where
  "agg_step f arg st =
     bindR (add_i64 (ag_count st) 1) (\<lambda>n.
       let st' = st\<lparr>ag_count := n\<rparr> in
       Inr (case arg of None \<Rightarrow> st' | Some v \<Rightarrow> agg_value f v st'))"

definition agg_finalize :: "agg_func \<Rightarrow> agg_state \<Rightarrow> val" where
  "agg_finalize f st =
     (case f of
        AggCount \<Rightarrow> VInteger (ag_count st)
      | AggSum \<Rightarrow> VReal (case ag_sum st of None \<Rightarrow> 0 | Some x \<Rightarrow> x)
      | AggMin \<Rightarrow> (case ag_min st of None \<Rightarrow> VNull | Some v \<Rightarrow> v)
      | AggMax \<Rightarrow> (case ag_max st of None \<Rightarrow> VNull | Some v \<Rightarrow> v))"

definition group_key :: "group_by_spec \<Rightarrow> val list \<Rightarrow> val list" where
  "group_key spec row = map (value_at row) (gb_key_indices spec)"

text \<open>The texts of the key values, joined by the unit separator.\<close>

definition group_key_text :: "val list \<Rightarrow> string" where
  "group_key_text key = join_with [CHR 0x1f] (map to_text key)"

definition agg_arg :: "agg_spec \<Rightarrow> val list \<Rightarrow> val option" where
  "agg_arg a row =
     (case as_col_index a of None \<Rightarrow> None | Some i \<Rightarrow> if i < length row then Some (row ! i) else None)"

fun step_all :: "agg_spec list \<Rightarrow> val list \<Rightarrow> agg_state list \<Rightarrow> agg_state list res" where
  "step_all (a # as) row (st # sts) =
     bindR (agg_step (as_func a) (agg_arg a row) st) (\<lambda>st'.
     bindR (step_all as row sts) (\<lambda>sts'. Inr (st' # sts')))"
| "step_all as row sts = Inr sts"

definition group_row :: "group_by_spec \<Rightarrow> val list \<Rightarrow> group_map \<Rightarrow> group_map res" where
  "group_row spec row groups =
     (let key = group_key spec row; k = group_key_text key;
          (key0, sts) = (case map_of groups k of Some e \<Rightarrow> e
                         | None \<Rightarrow> (key, map (\<lambda>_. agg_new) (gb_aggs spec)))
      in bindR (step_all (gb_aggs spec) row sts) (\<lambda>sts'. Inr (AList.update k (key0, sts') groups)))"

fun group_rows :: "group_by_spec \<Rightarrow> val list list \<Rightarrow> group_map \<Rightarrow> group_map res" where
  "group_rows spec [] groups = Inr groups"
| "group_rows spec (row # rows) groups = bindR (group_row spec row groups) (group_rows spec rows)"

definition group_output :: "group_by_spec \<Rightarrow> string \<times> val list \<times> agg_state list \<Rightarrow> val list" where
  "group_output spec g =
     (case g of (k, key, sts) \<Rightarrow> key @ map2 (\<lambda>a st. agg_finalize (as_func a) st) (gb_aggs spec) sts)"

definition apply_group_by :: "env \<Rightarrow> group_by_spec \<Rightarrow> unit vmm" where
  "apply_group_by en spec =
     bindS (vm_get vm_row_buffer) (\<lambda>rows.
     bindS (vm_modify (vm_row_buffer_update (\<lambda>_. []))) (\<lambda>_.
     bindS (liftS (group_rows spec rows [])) (\<lambda>groups.
       vm_modify (\<lambda>v. v\<lparr>vm_row_buffer := map (group_output spec) (en_order en groups), vm_buffer_idx := 0\<rparr>))))"

section \<open>Executing an instruction\<close>

definition try_from_i32 :: "i32 \<Rightarrow> result_code option" where
  "try_from_i32 v =
     (if v = 0 then Some RcOk else if v = 1 then Some RcError else if v = 19 then Some RcConstraint
      else if v = 101 then Some RcDone else Some RcError)"

definition exec_halt :: "insn \<Rightarrow> step_result vmm" where
  "exec_halt i =
     retS (SrHalt
       (if in_p1 i = 0 then RcOk else case try_from_i32 (in_p1 i) of Some c \<Rightarrow> c | None \<Rightarrow> RcOk)
       (case in_p4 i of P4String s \<Rightarrow> s | _ \<Rightarrow> []))"

fun set_regs :: "nat \<Rightarrow> val list \<Rightarrow> unit vmm" where
  "set_regs k [] = retS ()"
| "set_regs k (v # vs) = bindS (set_reg (of_nat k) v) (\<lambda>_. set_regs (Suc k) vs)"

definition emit_pragma_row :: "nat \<Rightarrow> unit vmm" where
  "emit_pragma_row idx =
     bindS (vm_get vm_pragma_pending) (\<lambda>rows.
     bindS (liftS (get_at rows idx)) (\<lambda>row.
     bindS (set_regs 0 row) (\<lambda>_.
       vm_modify (vm_result_columns_update (\<lambda>_. [0..<length row])))))"

definition exec_pragma :: "insn \<Rightarrow> step_result vmm" where
  "exec_pragma i =
     (case in_p4 i of
        P4Pragma name arg \<Rightarrow>
          bindS (vm_schema (sc_get (\<lambda>s. s))) (\<lambda>s.
          bindS (vm_pager (execute_pragma name arg s)) (\<lambda>rows.
          bindS (vm_modify (\<lambda>v. v\<lparr>vm_pragma_pending := rows, vm_pragma_idx := 0\<rparr>)) (\<lambda>_.
            if rows \<noteq> []
            then bindS (emit_pragma_row 0) (\<lambda>_.
                 bindS (vm_modify (vm_pragma_idx_update (\<lambda>_. 1))) (\<lambda>_. retS SrRow))
            else retS SrContinue)))
      | _ \<Rightarrow> retS SrContinue)"

definition exec_buffer_rewind :: "insn \<Rightarrow> step_result vmm" where
  "exec_buffer_rewind i =
     bindS (vm_modify (vm_buffer_idx_update (\<lambda>_. 0))) (\<lambda>_.
     bindS (vm_get vm_row_buffer) (\<lambda>rows. jump_if (rows = []) (in_p2 i)))"

definition exec_buffer_next :: "insn \<Rightarrow> step_result vmm" where
  "exec_buffer_next i =
     bindS (vm_get vm_row_buffer) (\<lambda>rows.
     bindS (vm_get vm_buffer_idx) (\<lambda>k.
       if length rows \<le> k then jump_if True (in_p2 i)
       else bindS (set_regs 0 (rows ! k)) (\<lambda>_.
            bindS (vm_modify (vm_buffer_idx_update Suc)) (\<lambda>_. retS SrContinue))))"

definition exec_result_row :: "insn \<Rightarrow> step_result vmm" where
  "exec_result_row i =
     bindS (vm_modify (vm_result_columns_update (\<lambda>_. [0..<range_len (in_p1 i)]))) (\<lambda>_. retS SrRow)"

definition exec_constant :: "insn \<Rightarrow> step_result vmm" where
  "exec_constant i =
     (case in_opcode i of
        OpInteger \<Rightarrow> store (in_p1 i) (VInteger (scast (in_p2 i)))
      | OpInt64 \<Rightarrow> (case in_p4 i of P4Int64 v \<Rightarrow> store (in_p1 i) (VInteger v) | _ \<Rightarrow> retS SrContinue)
      | OpReal \<Rightarrow> (case in_p4 i of P4Real v \<Rightarrow> store (in_p1 i) (VReal v) | _ \<Rightarrow> retS SrContinue)
      | OpString \<Rightarrow> (case in_p4 i of P4String s \<Rightarrow> store (in_p1 i) (VText s) | _ \<Rightarrow> retS SrContinue)
      | _ \<Rightarrow> store (in_p1 i) VNull)"

definition exec_jump :: "insn \<Rightarrow> step_result vmm" where
  "exec_jump i =
     bindS (get_reg (in_p1 i)) (\<lambda>v.
       jump_if
         (case in_opcode i of
            OpIf \<Rightarrow> \<not> is_null v \<and> int_or_0 v \<noteq> 0
          | OpIfNot \<Rightarrow> is_null v \<or> int_or_0 v = 0
          | OpIsNull \<Rightarrow> is_null v
          | _ \<Rightarrow> \<not> is_null v)
         (in_p2 i))"

definition execute :: "env \<Rightarrow> insn \<Rightarrow> step_result vmm" where
  "execute en i =
     (case in_opcode i of
        OpInit \<Rightarrow> retS SrContinue
      | OpHalt \<Rightarrow> exec_halt i
      | OpGoto \<Rightarrow> jump_if True (in_p2 i)
      | OpInteger \<Rightarrow> exec_constant i
      | OpInt64 \<Rightarrow> exec_constant i
      | OpReal \<Rightarrow> exec_constant i
      | OpString \<Rightarrow> exec_constant i
      | OpNull \<Rightarrow> exec_constant i
      | OpBlob \<Rightarrow> retS SrContinue
      | OpMove \<Rightarrow> bindS (get_reg (in_p2 i)) (store (in_p1 i))
      | OpCopy \<Rightarrow> bindS (get_reg (in_p2 i)) (store (in_p1 i))
      | OpResultRow \<Rightarrow> exec_result_row i
      | OpTransaction \<Rightarrow> bindS (vm_pager pager_begin) (\<lambda>_. retS SrContinue)
      | OpOpenRead \<Rightarrow> exec_open i
      | OpOpenWrite \<Rightarrow> exec_open i
      | OpRewind \<Rightarrow> exec_rewind (en_fuel en) i
      | OpLast \<Rightarrow> exec_next (en_fuel en) i
      | OpSorterNext \<Rightarrow> exec_next (en_fuel en) i
      | OpColumn \<Rightarrow> exec_column i
      | OpRowid \<Rightarrow> exec_rowid i
      | OpMakeRecord \<Rightarrow> exec_make_record i
      | OpNewRowid \<Rightarrow> exec_new_rowid (en_fuel en) i
      | OpInsert \<Rightarrow> exec_insert (en_fuel en) i
      | OpInsertInt \<Rightarrow> exec_insert (en_fuel en) i
      | OpDelete \<Rightarrow> exec_delete (en_fuel en) i
      | OpEq \<Rightarrow> exec_compare i
      | OpNe \<Rightarrow> exec_compare i
      | OpLt \<Rightarrow> exec_compare i
      | OpLe \<Rightarrow> exec_compare i
      | OpGt \<Rightarrow> exec_compare i
      | OpGe \<Rightarrow> exec_compare i
      | OpIf \<Rightarrow> exec_jump i
      | OpIfNot \<Rightarrow> exec_jump i
      | OpIsNull \<Rightarrow> exec_jump i
      | OpNotNull \<Rightarrow> exec_jump i
      | OpAdd \<Rightarrow> exec_arith i
      | OpSubtract \<Rightarrow> exec_arith i
      | OpMultiply \<Rightarrow> exec_arith i
      | OpDivide \<Rightarrow> exec_arith i
      | OpRemainder \<Rightarrow> exec_arith i
      | OpConcat \<Rightarrow> exec_logic i
      | OpAnd \<Rightarrow> exec_logic i
      | OpOr \<Rightarrow> exec_logic i
      | OpNot \<Rightarrow> exec_logic i
      | OpSeekRowid \<Rightarrow> exec_seek (en_fuel en) i
      | OpNotFound \<Rightarrow> exec_found i
      | OpFound \<Rightarrow> exec_found i
      | OpCount \<Rightarrow> exec_count (en_fuel en) i
      | OpPragma \<Rightarrow> exec_pragma i
      | OpRowData \<Rightarrow> exec_row_data i
      | OpGroupBy \<Rightarrow> (case in_p4 i of
            P4GroupBy spec \<Rightarrow> bindS (apply_group_by en spec) (\<lambda>_. retS SrContinue)
          | _ \<Rightarrow> retS SrContinue)
      | OpSort \<Rightarrow> (case in_p4 i of
            P4SortKeys keys \<Rightarrow> bindS (vm_modify (sort_buffer keys)) (\<lambda>_. retS SrContinue)
          | _ \<Rightarrow> retS SrContinue)
      | OpBufferRewind \<Rightarrow> exec_buffer_rewind i
      | OpBufferNext \<Rightarrow> exec_buffer_next i
      | OpUnused n \<Rightarrow> retS SrContinue)"

section \<open>Stepping\<close>

text \<open>One turn of the loop in \<^verbatim>\<open>step\<close>: \<open>Some\<close> of the answer when the loop leaves.\<close>

definition halt_with :: "result_code \<Rightarrow> string \<Rightarrow> result_code vmm" where
  "halt_with code msg =
     bindS (vm_modify (\<lambda>v. v\<lparr>vm_halted := True, vm_halt_code := code, vm_halt_message := msg\<rparr>)) (\<lambda>_.
       if is_ok code then retS RcDone else throwS (Fail (Sql code msg)))"

fun step_loop :: "nat \<Rightarrow> env \<Rightarrow> result_code vmm" where
  "step_loop 0 en = throwS Diverge"
| "step_loop (Suc n) en =
     bindS (vm_get (\<lambda>v. v)) (\<lambda>v.
       if length (pr_insns (vm_program v)) \<le> vm_pc v then retS RcDone
       else
     bindS (vm_modify (vm_pc_update Suc)) (\<lambda>_.
     bindS (execute en (pr_insns (vm_program v) ! vm_pc v)) (\<lambda>r.
       case r of
         SrContinue \<Rightarrow> step_loop n en
       | SrRow \<Rightarrow> retS RcRow
       | SrDone \<Rightarrow> retS RcDone
       | SrHalt code msg \<Rightarrow> halt_with code msg)))"

definition vdbe_step :: "nat \<Rightarrow> env \<Rightarrow> result_code vmm" where
  "vdbe_step n en =
     bindS (vm_get (\<lambda>v. v)) (\<lambda>v.
       if vm_halted v then retS (vm_halt_code v)
       else if vm_pragma_idx v < length (vm_pragma_pending v)
       then bindS (emit_pragma_row (vm_pragma_idx v)) (\<lambda>_.
            bindS (vm_modify (vm_pragma_idx_update Suc)) (\<lambda>_. retS RcRow))
       else step_loop n en)"

definition column_count_of :: "vdbe \<Rightarrow> nat" where
  "column_count_of v = length (vm_result_columns v)"

definition column_value :: "vdbe \<Rightarrow> nat \<Rightarrow> val option" where
  "column_value v idx =
     (if idx < length (vm_result_columns v) \<and> vm_result_columns v ! idx < length (vm_regs v)
      then Some (vm_regs v ! (vm_result_columns v ! idx)) else None)"

definition vdbe_reset :: "vdbe \<Rightarrow> vdbe" where
  "vdbe_reset v =
     v\<lparr>vm_pc := 0, vm_halted := False, vm_halt_code := RcOk, vm_regs := map (\<lambda>_. VNull) (vm_regs v),
       vm_cursors := [], vm_pragma_pending := [], vm_pragma_idx := 0, vm_row_buffer := [],
       vm_buffer_idx := 0\<rparr>"

end
