(* ===== verification/Compile.thy ===== *)
theory Compile
  imports Vdbe
begin

text \<open>
  \<^verbatim>\<open>sqllite-core/src/compile.rs\<close>: code generation for every statement but \<^verbatim>\<open>SELECT\<close>. The program
  under construction is the state; a function that returns a \<^verbatim>\<open>Program\<close> starts an empty one
  (\<open>build\<close>). Sums of \<open>i32\<close> registers are checked.
\<close>

definition build :: "'a cgm \<Rightarrow> program res" where
  "build m = (case m program_new of (Inl e, p) \<Rightarrow> Inl e | (Inr x, p) \<Rightarrow> Inr p)"

text \<open>\<open>op\<close> with its three operands and nothing else.\<close>

abbreviation ins :: "opcode \<Rightarrow> i32 \<Rightarrow> i32 \<Rightarrow> i32 \<Rightarrow> insn" where
  "ins opc a b c \<equiv> Insn opc a b c P4None 0"

definition emit1 :: "insn \<Rightarrow> unit cgm" where
  "emit1 i = bindS (emit i) (\<lambda>_. retS ())"

definition next_addr :: "nat cgm" where
  "next_addr = getS (length \<circ> pr_insns)"

fun for_each :: "'a list \<Rightarrow> ('a \<Rightarrow> ('s, unit) sres) \<Rightarrow> ('s, unit) sres" where
  "for_each [] f = retS ()"
| "for_each (x # xs) f = bindS (f x) (\<lambda>_. for_each xs f)"

definition add_i32 :: "i32 \<Rightarrow> i32 \<Rightarrow> i32 res" where
  "add_i32 a b = (if - (2 ^ 31) \<le> sint a + sint b \<and> sint a + sint b < 2 ^ 31 then Inr (a + b) else panic)"

section \<open>Expressions\<close>

fun binary_opcode :: "binary_op \<Rightarrow> opcode" where
  "binary_opcode BAdd = OpAdd"
| "binary_opcode BSub = OpSubtract"
| "binary_opcode BMul = OpMultiply"
| "binary_opcode BDiv = OpDivide"
| "binary_opcode BMod = OpRemainder"
| "binary_opcode BConcat = OpConcat"
| "binary_opcode BAnd = OpAnd"
| "binary_opcode BOr = OpOr"
| "binary_opcode BEq = OpEq"
| "binary_opcode BNotEq = OpNe"
| "binary_opcode BLt = OpLt"
| "binary_opcode BLe = OpLe"
| "binary_opcode BGt = OpGt"
| "binary_opcode BGe = OpGe"
| "binary_opcode _ = OpEq"

fun unary_opcode :: "unary_op \<Rightarrow> opcode" where
  "unary_opcode UNot = OpNot"
| "unary_opcode UMinus = OpSubtract"
| "unary_opcode _ = OpNot"

fun compile_expr :: "expr \<Rightarrow> i32 \<Rightarrow> unit cgm" where
  "compile_expr ENull reg = emit1 (ins OpNull reg 0 0)"
| "compile_expr (EInteger n) reg = emit1 (ins OpInteger reg (ucast n) 0)"
| "compile_expr (EReal r) reg = emit1 (Insn OpReal reg 0 0 (P4Real r) 0)"
| "compile_expr (EString s) reg = emit1 (Insn OpString reg 0 0 (P4String s) 0)"
| "compile_expr (EBinaryOp bop l r) reg =
     bindS (liftS (add_i32 reg 1)) (\<lambda>r1.
     bindS (compile_expr l r1) (\<lambda>_.
     bindS (liftS (add_i32 reg 2)) (\<lambda>r2.
     bindS (compile_expr r r2) (\<lambda>_.
       emit1 (ins (binary_opcode bop) reg r1 r2)))))"
| "compile_expr (EUnaryOp uop e) reg =
     bindS (liftS (add_i32 reg 1)) (\<lambda>r1.
     bindS (compile_expr e r1) (\<lambda>_.
       emit1 (ins (unary_opcode uop) reg r1 0)))"
| "compile_expr e reg = emit1 (ins OpNull reg 0 0)"

text \<open>Every caller passes a table.\<close>

definition ident_column :: "table \<Rightarrow> expr \<Rightarrow> nat option" where
  "ident_column t e = (case e of EIdent name \<Rightarrow> column_index t name | _ \<Rightarrow> None)"

definition compile_expr_with_columns :: "expr \<Rightarrow> table option \<Rightarrow> i32 \<Rightarrow> i32 \<Rightarrow> unit cgm" where
  "compile_expr_with_columns e tab cursor dest =
     (case Option.bind tab (\<lambda>t. ident_column t e) of
        Some idx \<Rightarrow> emit1 (ins OpColumn dest cursor (of_nat idx))
      | None \<Rightarrow> compile_expr e dest)"

fun compare_opcode :: "binary_op \<Rightarrow> opcode" where
  "compare_opcode BEq = OpEq"
| "compare_opcode BNotEq = OpNe"
| "compare_opcode BLt = OpLt"
| "compare_opcode BLe = OpLe"
| "compare_opcode BGt = OpGt"
| "compare_opcode BGe = OpGe"
| "compare_opcode _ = OpEq"

definition compile_where_expr :: "expr \<Rightarrow> table \<Rightarrow> i32 \<Rightarrow> i32 \<Rightarrow> unit cgm" where
  "compile_where_expr e t cursor dest =
     (case e of
        EBinaryOp bop l r \<Rightarrow>
          bindS (liftS (add_i32 dest 1)) (\<lambda>d1.
          bindS (compile_expr_with_columns l (Some t) cursor d1) (\<lambda>_.
          bindS (liftS (add_i32 dest 2)) (\<lambda>d2.
          bindS (compile_expr r d2) (\<lambda>_.
            emit1 (ins (compare_opcode bop) dest d1 d2)))))
      | _ \<Rightarrow> compile_expr_with_columns e (Some t) cursor dest)"

section \<open>INSERT, DELETE and UPDATE\<close>

definition wrong_count :: "string \<Rightarrow> nat \<Rightarrow> nat \<Rightarrow> fault" where
  "wrong_count table n m =
     Fail (Sql RcError (''table '' @ table @ '' has '' @ nat_to_string n @ '' columns but ''
       @ nat_to_string m @ '' values were supplied''))"

definition compile_insert_row :: "string \<Rightarrow> nat \<Rightarrow> expr list \<Rightarrow> unit cgm" where
  "compile_insert_row name n_cols row =
     (if length row \<noteq> n_cols then throwS (wrong_count name n_cols (length row))
      else
     bindS (for_each (enumerate 0 row) (\<lambda>(i, e). bindS (liftS (add_i32 (of_nat i) 2)) (compile_expr e))) (\<lambda>_.
     bindS (emit1 (ins OpNewRowid 1 0 0)) (\<lambda>_.
     bindS (emit1 (ins OpMakeRecord (of_nat n_cols) 2 10)) (\<lambda>_.
       emit1 (ins OpInsert 10 0 1)))))"

definition compile_insert :: "insert_stmt \<Rightarrow> schema \<Rightarrow> program res" where
  "compile_insert st s =
     (case schema_table s (in_table st) of
        None \<Rightarrow> Inl (no_such_table (in_table st))
      | Some t \<Rightarrow>
          (case find (\<lambda>col. column_index t col = None) (in_columns st) of
             Some col \<Rightarrow> Inl (no_column (in_table st) col)
           | None \<Rightarrow>
     (let n_cols = (if in_columns st = [] then column_count t else length (in_columns st)) in
      build
       (bindS (modifyS (set_n_reg 16)) (\<lambda>_.
        bindS (emit1 (ins OpInit 0 1 0)) (\<lambda>_.
        bindS (emit1 (ins OpTransaction 0 0 0)) (\<lambda>_.
        bindS (emit1 (Insn OpOpenWrite 0 0 0 (P4String (in_table st)) 0)) (\<lambda>_.
        bindS (for_each (in_values st) (compile_insert_row (in_table st) n_cols)) (\<lambda>_.
          emit1 (ins OpHalt 0 0 0))))))))))"

text \<open>The optional condition: the address of its conditional jump over the row.\<close>

definition compile_skip :: "expr option \<Rightarrow> table \<Rightarrow> nat option cgm" where
  "compile_skip cond t =
     (case cond of
        None \<Rightarrow> retS None
      | Some w \<Rightarrow>
          bindS (compile_where_expr w t 0 0) (\<lambda>_.
          bindS (emit (ins OpIfNot 0 0 0)) (\<lambda>addr. retS (Some addr))))"

text \<open>
  The end of the scan: patch the skip, go on with the next row, patch the rewind. \<^verbatim>\<open>compile_delete\<close> and
  \<^verbatim>\<open>compile_update\<close> end with the same lines.
\<close>

definition finish_scan :: "nat option \<Rightarrow> nat \<Rightarrow> unit cgm" where
  "finish_scan skip rewind =
     bindS next_addr (\<lambda>next.
     bindS (case skip of Some addr \<Rightarrow> patch_p2 addr (of_nat next) | None \<Rightarrow> retS ()) (\<lambda>_.
     bindS (emit1 (ins OpLast 0 (of_nat (rewind + 1)) 0)) (\<lambda>_.
     bindS next_addr (\<lambda>halt.
     bindS (patch_p2 rewind (of_nat halt)) (\<lambda>_.
       emit1 (ins OpHalt 0 0 0))))))"

definition compile_delete :: "delete_stmt \<Rightarrow> schema \<Rightarrow> program res" where
  "compile_delete st s =
     (case schema_table s (de_table st) of
        None \<Rightarrow> Inl (no_such_table (de_table st))
      | Some t \<Rightarrow>
      build
       (bindS (emit1 (ins OpInit 0 1 0)) (\<lambda>_.
        bindS (emit1 (ins OpTransaction 0 0 0)) (\<lambda>_.
        bindS (emit1 (Insn OpOpenWrite 0 0 0 (P4String (de_table st)) 0)) (\<lambda>_.
        bindS (emit (ins OpRewind 0 0 0)) (\<lambda>rewind.
        bindS (compile_skip (de_where st) t) (\<lambda>skip.
        bindS (emit1 (ins OpDelete 0 0 0)) (\<lambda>_.
          finish_scan skip rewind))))))))"

definition compile_assignment :: "table \<Rightarrow> string \<times> expr \<Rightarrow> unit cgm" where
  "compile_assignment t a =
     (case column_index t (fst a) of
        None \<Rightarrow> throwS Panic
      | Some idx \<Rightarrow> compile_expr_with_columns (snd a) (Some t) 0 (of_nat (idx + 2)))"

definition compile_update :: "update_stmt \<Rightarrow> schema \<Rightarrow> program res" where
  "compile_update st s =
     (case schema_table s (up_table st) of
        None \<Rightarrow> Inl (no_such_table (up_table st))
      | Some t \<Rightarrow>
          (case find (\<lambda>a. column_index t (fst a) = None) (up_assignments st) of
             Some a \<Rightarrow> Inl (no_column (up_table st) (fst a))
           | None \<Rightarrow>
     (let col_count = column_count t in
      build
       (bindS (modifyS (set_n_reg (col_count + 16))) (\<lambda>_.
        bindS (emit1 (ins OpInit 0 1 0)) (\<lambda>_.
        bindS (emit1 (ins OpTransaction 0 0 0)) (\<lambda>_.
        bindS (emit1 (Insn OpOpenWrite 0 0 0 (P4String (up_table st)) 0)) (\<lambda>_.
        bindS (emit (ins OpRewind 0 0 0)) (\<lambda>rewind.
        bindS (compile_skip (up_where st) t) (\<lambda>skip.
        bindS (for_each [0..<col_count] (\<lambda>j. emit1 (ins OpColumn (of_nat (j + 2)) 0 (of_nat j)))) (\<lambda>_.
        bindS (for_each (up_assignments st) (compile_assignment t)) (\<lambda>_.
        bindS (emit1 (ins OpRowid 1 0 0)) (\<lambda>_.
        bindS (emit1 (ins OpMakeRecord (of_nat col_count) 2 10)) (\<lambda>_.
        bindS (emit1 (Insn OpInsert 10 0 1 P4None 1)) (\<lambda>_.
          finish_scan skip rewind)))))))))))))))"

section \<open>The other statements\<close>

definition compile_create_index :: "program res" where
  "compile_create_index = Inr (Program [ins OpHalt 0 0 0] 0 False)"

text \<open>\<^verbatim>\<open>CreateBtree\<close> (75) and \<^verbatim>\<open>DropTable\<close> (107) do nothing in the machine.\<close>

definition compile_create_table :: "create_table_stmt \<Rightarrow> program res" where
  "compile_create_table c =
     build
      (bindS (emit1 (ins OpInit 0 1 0)) (\<lambda>_.
       bindS (emit1 (ins OpTransaction 0 0 0)) (\<lambda>_.
       bindS (emit1 (Insn (OpUnused 75) 0 0 0 (P4String (ct_name c)) 0)) (\<lambda>_.
         emit1 (ins OpHalt 0 0 0)))))"

definition compile_drop_table :: "drop_table_stmt \<Rightarrow> program res" where
  "compile_drop_table d =
     build
      (bindS (emit1 (Insn (OpUnused 107) 0 0 0 (P4String (dt_name d)) 0)) (\<lambda>_.
         emit1 (ins OpHalt 0 0 0)))"

fun expr_to_pragma_value :: "expr \<Rightarrow> string" where
  "expr_to_pragma_value (EString s) = s"
| "expr_to_pragma_value (EIdent s) = s"
| "expr_to_pragma_value (EInteger i) = i64_to_string i"
| "expr_to_pragma_value (EReal r) = f64_to_string r"
| "expr_to_pragma_value e = []"

definition compile_pragma :: "pragma_stmt \<Rightarrow> program res" where
  "compile_pragma p =
     build
      (bindS (modifyS (set_n_reg 8 \<circ> set_read_only)) (\<lambda>_.
       bindS (emit1 (Insn OpPragma 0 0 0
          (P4Pragma (pr_name p) (map_option expr_to_pragma_value (pr_value p))) 0)) (\<lambda>_.
         emit1 (ins OpHalt 0 0 0))))"

definition compile_begin :: "program res" where
  "compile_begin =
     build (bindS (emit1 (ins OpTransaction 0 0 0)) (\<lambda>_. emit1 (ins OpHalt 0 0 0)))"

definition compile_commit :: "program res" where
  "compile_commit = build (emit1 (ins OpHalt 0 0 0))"

definition compile_rollback :: "program res" where
  "compile_rollback = build (emit1 (ins OpHalt 0 0 0))"

end
