(* ===== verification/Compile_Select.thy ===== *)
theory Compile_Select
  imports Compile
begin

text \<open>
  \<^verbatim>\<open>sqllite-core/src/compile_select.rs\<close>, and the dispatch of \<^verbatim>\<open>compile\<close>. A \<^verbatim>\<open>SELECT\<close> is a
  nested scan of one or two tables that loads its row into registers 0, 1, ..., and either delivers
  it or keeps it in the row buffer, which is then grouped, sorted and delivered.
\<close>

record table_binding =
  tb_name :: string
  tb_alias :: string
  tb_cursor :: i32

record join_info =
  ji_type :: join_type
  ji_on :: "expr option"

record column_ref =
  cr_table :: nat
  cr_col :: nat

datatype row_source = RsColumn column_ref | RsExpr expr

record select_plan =
  sp_sources :: "row_source list"
  sp_row_width :: nat
  sp_output_width :: nat
  sp_has_aggregates :: bool
  sp_group :: "group_by_spec option"
  sp_sort :: "sort_key_spec list"

definition sql_error :: "string \<Rightarrow> 'a res" where
  "sql_error msg = sql_err RcError msg"

section \<open>Names\<close>

definition matches_table :: "string \<Rightarrow> table_binding \<Rightarrow> bool" where
  "matches_table name tb = (eq_ignore_case (tb_name tb) name \<or> eq_ignore_case (tb_alias tb) name)"

definition find_table_index :: "table_binding list \<Rightarrow> string \<Rightarrow> nat res" where
  "find_table_index tables name =
     (case position (matches_table name) tables of Some i \<Rightarrow> Inr i | None \<Rightarrow> Inl (no_such_table name))"

definition table_column :: "schema \<Rightarrow> table_binding \<Rightarrow> string \<Rightarrow> nat option" where
  "table_column s tb name = Option.bind (schema_table s (tb_name tb)) (\<lambda>t. column_index t name)"

text \<open>An unqualified name: the tables that have such a column, at most one.\<close>

definition no_such_column :: "string \<Rightarrow> 'a res" where
  "no_such_column name = sql_error (''no such column: '' @ name)"

fun resolve_ident :: "schema \<Rightarrow> string \<Rightarrow> nat \<Rightarrow> table_binding list \<Rightarrow> column_ref option \<Rightarrow> column_ref res" where
  "resolve_ident s name ti [] found = (case found of Some c \<Rightarrow> Inr c | None \<Rightarrow> no_such_column name)"
| "resolve_ident s name ti (tb # tbs) found =
     (case table_column s tb name of
        None \<Rightarrow> resolve_ident s name (Suc ti) tbs found
      | Some ci \<Rightarrow>
          if found \<noteq> None then sql_error (''ambiguous column name: '' @ name)
          else resolve_ident s name (Suc ti) tbs (Some \<lparr>cr_table = ti, cr_col = ci\<rparr>))"

definition resolve_expr_column :: "expr \<Rightarrow> schema \<Rightarrow> table_binding list \<Rightarrow> column_ref res" where
  "resolve_expr_column e s tables =
     (case e of
        EIdent name \<Rightarrow> resolve_ident s name 0 tables None
      | EQualifiedIdent tab col \<Rightarrow>
          bindR (find_table_index tables tab) (\<lambda>ti.
            case table_column s (tables ! ti) col of
              None \<Rightarrow> no_such_column col
            | Some ci \<Rightarrow> Inr \<lparr>cr_table = ti, cr_col = ci\<rparr>)
      | _ \<Rightarrow> sql_error ''expected column reference'')"

definition ok_of :: "'a res \<Rightarrow> 'a option" where
  "ok_of r = (case r of Inr x \<Rightarrow> Some x | Inl e \<Rightarrow> None)"

section \<open>The tables of a query\<close>

fun collect_from_ref ::
  "table_ref \<Rightarrow> schema \<Rightarrow> i32 \<Rightarrow> (table_binding list \<times> join_info option, i32) sres" where
  "collect_from_ref (TTable name alias) s next_cursor =
     (if schema_table s name = None then throwS (no_such_table name)
      else
     bindS (modifyS (apfst (\<lambda>ts. ts @ [\<lparr>tb_name = name,
         tb_alias = (case alias of Some a \<Rightarrow> a | None \<Rightarrow> name), tb_cursor = next_cursor\<rparr>]))) (\<lambda>_.
       liftS (add_i32 next_cursor 1)))"
| "collect_from_ref (TJoin l r jt on) s next_cursor =
     bindS (collect_from_ref l s next_cursor) (\<lambda>c.
     bindS (collect_from_ref r s c) (\<lambda>c.
     bindS (modifyS (apsnd (\<lambda>_. Some \<lparr>ji_type = jt, ji_on = on\<rparr>))) (\<lambda>_. retS c)))"
| "collect_from_ref (TSubquery q alias) s next_cursor =
     throwS (Fail (Sql RcError ''subqueries in FROM are not supported''))"

definition simple_count_star :: "select \<Rightarrow> table_ref \<Rightarrow> i32 option" where
  "simple_count_star sel from =
     (if s_group_by sel \<noteq> [] \<or> s_order_by sel \<noteq> [] then None
      else case from of
        TTable name alias \<Rightarrow>
          (case s_columns sel of
             [c] \<Rightarrow> (case rc_expr c of
                 EFunction name dist args \<Rightarrow>
                   (if eq_ignore_case name ''count'' \<and> args = [EStar] then Some 0 else None)
               | _ \<Rightarrow> None)
           | _ \<Rightarrow> None)
      | _ \<Rightarrow> None)"

definition compile_simple_count :: "i32 \<Rightarrow> schema \<Rightarrow> table_ref \<Rightarrow> program res" where
  "compile_simple_count cursor s from =
     (case from of
        TTable name alias \<Rightarrow>
          (if schema_table s name = None then Inl (no_such_table name)
           else build
            (bindS (modifyS (set_n_reg 8 \<circ> set_read_only)) (\<lambda>_.
             bindS (emit1 (ins OpInit 0 1 0)) (\<lambda>_.
             bindS (emit1 (Insn OpOpenRead cursor 0 0 (P4String name) 0)) (\<lambda>_.
             bindS (emit1 (ins OpCount 0 cursor 0)) (\<lambda>_.
             bindS (emit1 (ins OpResultRow 1 0 0)) (\<lambda>_.
               emit1 (ins OpHalt 0 0 0))))))))
      | _ \<Rightarrow> panic)"

section \<open>The plan\<close>

definition parse_agg_func :: "string \<Rightarrow> agg_func res" where
  "parse_agg_func name =
     (let l = lowercase name in
      if l = ''count'' then Inr AggCount
      else if l = ''sum'' then Inr AggSum
      else if l = ''min'' then Inr AggMin
      else if l = ''max'' then Inr AggMax
      else sql_error (''unsupported aggregate: '' @ name))"

definition push_unique_column :: "row_source list \<Rightarrow> column_ref \<Rightarrow> row_source list \<times> nat" where
  "push_unique_column sources col =
     (case position (\<lambda>src. src = RsColumn col) sources of
        Some i \<Rightarrow> (sources, i)
      | None \<Rightarrow> (sources @ [RsColumn col], length sources))"

definition group_key_contains :: "row_source list \<Rightarrow> nat list \<Rightarrow> column_ref \<Rightarrow> bool" where
  "group_key_contains sources keys col =
     list_ex (\<lambda>idx. idx < length sources \<and> sources ! idx = RsColumn col) keys"

text \<open>The state of the planning loops: the sources, the key indices and the aggregates so far.\<close>

type_synonym plan_acc = "row_source list \<times> nat list \<times> agg_spec list"

definition plan_group_key :: "schema \<Rightarrow> table_binding list \<Rightarrow> expr \<Rightarrow> plan_acc \<Rightarrow> plan_acc res" where
  "plan_group_key s tables e acc =
     (case acc of (srcs, keys, aggs) \<Rightarrow>
        bindR (resolve_expr_column e s tables) (\<lambda>col.
          let (srcs', i) = push_unique_column srcs col in Inr (srcs', keys @ [i], aggs)))"

text \<open>The argument of an aggregate; \<^verbatim>\<open>args[0]\<close> of an empty argument list panics for \<open>COUNT\<close>.\<close>

definition agg_column :: "schema \<Rightarrow> table_binding list \<Rightarrow> string \<Rightarrow> agg_func \<Rightarrow> expr list
    \<Rightarrow> row_source list \<Rightarrow> (row_source list \<times> nat option) res" where
  "agg_column s tables name f args srcs =
     (if f = AggCount \<and> args = [EStar] then Inr (srcs, None)
      else if args = []
      then (if f = AggCount then panic else sql_error (name @ '' requires an argument''))
      else bindR (resolve_expr_column (hd args) s tables) (\<lambda>col.
             let (srcs', i) = push_unique_column srcs col in Inr (srcs', Some i)))"

definition plan_agg_column :: "schema \<Rightarrow> table_binding list \<Rightarrow> result_column \<Rightarrow> plan_acc \<Rightarrow> plan_acc res" where
  "plan_agg_column s tables rc acc =
     (case acc of (srcs, keys, aggs) \<Rightarrow>
        case rc_expr rc of
          EFunction name dist args \<Rightarrow>
            bindR (parse_agg_func name) (\<lambda>f.
            bindR (agg_column s tables name f args srcs) (\<lambda>(srcs', ci).
              Inr (srcs', keys, aggs @ [\<lparr>as_func = f, as_col_index = ci\<rparr>])))
        | e \<Rightarrow>
            bindR (resolve_expr_column e s tables) (\<lambda>col.
              if \<not> group_key_contains srcs keys col
              then sql_error ''non-aggregate column must appear in GROUP BY''
              else Inr acc))"

fun fold_res :: "('a \<Rightarrow> 's \<Rightarrow> 's res) \<Rightarrow> 'a list \<Rightarrow> 's \<Rightarrow> 's res" where
  "fold_res f [] acc = Inr acc"
| "fold_res f (x # xs) acc = bindR (f x acc) (fold_res f xs)"

definition plan_column :: "schema \<Rightarrow> table_binding list \<Rightarrow> result_column \<Rightarrow> row_source list \<Rightarrow> row_source list res" where
  "plan_column s tables rc srcs =
     (if rc_expr rc = EStar
      then (if length tables \<noteq> 1 then sql_error ''* is not supported with JOIN''
            else (case schema_table s (tb_name (tables ! 0)) of
                None \<Rightarrow> panic
              | Some t \<Rightarrow>
                  Inr (srcs @ map (\<lambda>i. RsColumn \<lparr>cr_table = 0, cr_col = i\<rparr>) [0..<column_count t])))
      else Inr (srcs @ [case resolve_expr_column (rc_expr rc) s tables of
                          Inr col \<Rightarrow> RsColumn col | Inl e \<Rightarrow> RsExpr (rc_expr rc)]))"

definition is_function :: "expr \<Rightarrow> bool" where
  "is_function e = (case e of EFunction name dist args \<Rightarrow> True | _ \<Rightarrow> False)"

section \<open>ORDER BY\<close>

definition source_named :: "schema \<Rightarrow> table_binding list \<Rightarrow> string option \<Rightarrow> string \<Rightarrow> row_source \<Rightarrow> bool" where
  "source_named s tables qual name src =
     (case src of
        RsExpr e \<Rightarrow> False
      | RsColumn col \<Rightarrow>
          (let tb = tables ! cr_table col in
           (case qual of None \<Rightarrow> True | Some q \<Rightarrow> matches_table q tb)
           \<and> (case schema_table s (tb_name tb) of None \<Rightarrow> False
              | Some t \<Rightarrow> cr_col col < length (ta_columns t)
                  \<and> eq_ignore_case (co_name (ta_columns t ! cr_col col)) name)))"

definition resolve_order_in_row_sources ::
  "expr \<Rightarrow> schema \<Rightarrow> table_binding list \<Rightarrow> row_source list \<Rightarrow> nat option" where
  "resolve_order_in_row_sources e s tables srcs =
     (case e of
        EIdent name \<Rightarrow> position (source_named s tables None name) srcs
      | EQualifiedIdent tab col \<Rightarrow> position (source_named s tables (Some tab) col) srcs
      | _ \<Rightarrow> None)"

text \<open>The code's \<^verbatim>\<open>Result<bool>\<close> is never an error.\<close>

definition expr_matches :: "expr \<Rightarrow> expr \<Rightarrow> schema \<Rightarrow> table_binding list \<Rightarrow> bool" where
  "expr_matches a b s tables =
     (case (a, b) of
        (EIdent n1, EIdent n2) \<Rightarrow> eq_ignore_case n1 n2
      | (EQualifiedIdent t1 c1, EQualifiedIdent t2 c2) \<Rightarrow> eq_ignore_case t1 t2 \<and> eq_ignore_case c1 c2
      | _ \<Rightarrow>
          (case (ok_of (resolve_expr_column a s tables), ok_of (resolve_expr_column b s tables)) of
             (Some ca, Some cb) \<Rightarrow> cr_table ca = cr_table cb \<and> cr_col ca = cr_col cb
           | _ \<Rightarrow> False))"

definition is_star :: "expr \<Rightarrow> bool" where
  "is_star e = (case e of EStar \<Rightarrow> True | EQualifiedStar t \<Rightarrow> True | _ \<Rightarrow> False)"

definition resolve_order_index ::
  "expr \<Rightarrow> schema \<Rightarrow> table_binding list \<Rightarrow> select \<Rightarrow> row_source list \<Rightarrow> bool \<Rightarrow> nat res" where
  "resolve_order_index e s tables sel srcs has_aggs =
     (case resolve_order_in_row_sources e s tables srcs of
        Some i \<Rightarrow> Inr i
      | None \<Rightarrow>
          (case position (\<lambda>rc. \<not> is_star (rc_expr rc) \<and> expr_matches (rc_expr rc) e s tables) (s_columns sel) of
             Some i \<Rightarrow> Inr i
           | None \<Rightarrow>
               (case (if has_aggs then position (\<lambda>ge. expr_matches ge e s tables) (s_group_by sel) else None) of
                  Some i \<Rightarrow> Inr i
                | None \<Rightarrow> sql_error ''unsupported ORDER BY expression'')))"

fun map_res :: "('a \<Rightarrow> 'b res) \<Rightarrow> 'a list \<Rightarrow> 'b list res" where
  "map_res f [] = Inr []"
| "map_res f (x # xs) = bindR (f x) (\<lambda>y. bindR (map_res f xs) (\<lambda>ys. Inr (y # ys)))"

definition order_key :: "schema \<Rightarrow> table_binding list \<Rightarrow> select \<Rightarrow> row_source list \<Rightarrow> bool \<Rightarrow> order_term
    \<Rightarrow> sort_key_spec res" where
  "order_key s tables sel srcs has_aggs term0 =
     bindR (resolve_order_index (ot_expr term0) s tables sel srcs has_aggs) (\<lambda>i.
       Inr \<lparr>sk_col_index = i, sk_desc = ot_desc term0\<rparr>)"

definition build_select_plan :: "select \<Rightarrow> schema \<Rightarrow> table_binding list \<Rightarrow> select_plan res" where
  "build_select_plan sel s tables =
     (let has_aggs = list_ex (is_function \<circ> rc_expr) (s_columns sel) in
      bindR
        (if has_aggs
         then bindR (fold_res (plan_group_key s tables) (s_group_by sel) ([], [], []))
                (fold_res (plan_agg_column s tables) (s_columns sel))
         else bindR (fold_res (plan_column s tables) (s_columns sel) []) (\<lambda>srcs. Inr (srcs, [], [])))
        (\<lambda>(srcs, keys, aggs).
      bindR (map_res (order_key s tables sel srcs has_aggs) (s_order_by sel)) (\<lambda>sort_keys.
        Inr \<lparr>sp_sources = srcs, sp_row_width = length srcs,
             sp_output_width = (if has_aggs then length (s_columns sel) else length srcs),
             sp_has_aggregates = has_aggs,
             sp_group = (if has_aggs then Some \<lparr>gb_key_indices = keys, gb_aggs = aggs\<rparr> else None),
             sp_sort = sort_keys\<rparr>)))"

section \<open>Code for a row\<close>

definition compile_column_or_expr :: "expr \<Rightarrow> schema \<Rightarrow> table_binding list \<Rightarrow> i32 \<Rightarrow> unit cgm" where
  "compile_column_or_expr e s tables dest =
     (case resolve_expr_column e s tables of
        Inr col \<Rightarrow>
          bindS (liftS (get_at tables (cr_table col))) (\<lambda>tb.
            emit1 (ins OpColumn dest (tb_cursor tb) (of_nat (cr_col col))))
      | Inl err \<Rightarrow> compile_expr e dest)"

fun pred_opcode :: "binary_op \<Rightarrow> opcode" where
  "pred_opcode BEq = OpEq"
| "pred_opcode BNotEq = OpNe"
| "pred_opcode BLt = OpLt"
| "pred_opcode BLe = OpLe"
| "pred_opcode BGt = OpGt"
| "pred_opcode BGe = OpGe"
| "pred_opcode BAnd = OpAnd"
| "pred_opcode BOr = OpOr"
| "pred_opcode _ = OpEq"

definition compile_pred :: "expr \<Rightarrow> schema \<Rightarrow> table_binding list \<Rightarrow> i32 \<Rightarrow> unit cgm" where
  "compile_pred e s tables dest =
     (case e of
        EBinaryOp bop l r \<Rightarrow>
          bindS (liftS (add_i32 dest 1)) (\<lambda>d1.
          bindS (compile_column_or_expr l s tables d1) (\<lambda>_.
          bindS (liftS (add_i32 dest 2)) (\<lambda>d2.
          bindS (compile_column_or_expr r s tables d2) (\<lambda>_.
            emit1 (ins (pred_opcode bop) dest d1 d2)))))
      | _ \<Rightarrow> compile_column_or_expr e s tables dest)"

definition compile_optional_where :: "select \<Rightarrow> schema \<Rightarrow> table_binding list \<Rightarrow> i32 \<Rightarrow> nat option cgm" where
  "compile_optional_where sel s tables dest =
     (case s_where sel of
        None \<Rightarrow> retS None
      | Some w \<Rightarrow>
          bindS (compile_pred w s tables dest) (\<lambda>_.
          bindS (emit (ins OpIfNot dest 0 0)) (\<lambda>addr. retS (Some addr))))"

definition compile_source :: "schema \<Rightarrow> table_binding list \<Rightarrow> nat \<times> row_source \<Rightarrow> unit cgm" where
  "compile_source s tables src =
     (case src of
        (reg, RsColumn col) \<Rightarrow>
          bindS (liftS (get_at tables (cr_table col))) (\<lambda>tb.
            emit1 (ins OpColumn (of_nat reg) (tb_cursor tb) (of_nat (cr_col col))))
      | (reg, RsExpr e) \<Rightarrow> compile_column_or_expr e s tables (of_nat reg))"

definition compile_row_load :: "select_plan \<Rightarrow> table_binding list \<Rightarrow> schema \<Rightarrow> unit cgm" where
  "compile_row_load plan tables s = for_each (enumerate 0 (sp_sources plan)) (compile_source s tables)"

definition emit_scan_result :: "select_plan \<Rightarrow> bool \<Rightarrow> unit cgm" where
  "emit_scan_result plan needs_buffer =
     (if needs_buffer then emit1 (ins OpRowData (of_nat (sp_row_width plan)) 0 0)
      else emit1 (ins OpResultRow (of_nat (sp_output_width plan)) 0 0))"

section \<open>The scans\<close>

definition patch_skip :: "nat option \<Rightarrow> nat \<Rightarrow> unit cgm" where
  "patch_skip skip target =
     (case skip of Some addr \<Rightarrow> patch_p2 addr (of_nat target) | None \<Rightarrow> retS ())"

text \<open>The body of the scan of one table, whose rewind is already emitted.\<close>

definition compile_table_scan ::
  "select \<Rightarrow> schema \<Rightarrow> table_binding list \<Rightarrow> select_plan \<Rightarrow> bool \<Rightarrow> i32 \<Rightarrow> nat \<Rightarrow> unit cgm" where
  "compile_table_scan sel s tables plan needs_buffer cursor rewind =
     bindS (compile_optional_where sel s tables 1) (\<lambda>skip.
     bindS (compile_row_load plan tables s) (\<lambda>_.
     bindS (emit_scan_result plan needs_buffer) (\<lambda>_.
     bindS next_addr (\<lambda>loop_next.
     bindS (patch_skip skip loop_next) (\<lambda>_.
       emit1 (ins OpLast cursor (of_nat (rewind + 1)) 0))))))"

definition compile_join_scan ::
  "select \<Rightarrow> schema \<Rightarrow> table_binding list \<Rightarrow> select_plan \<Rightarrow> bool \<Rightarrow> expr \<Rightarrow> i32 \<Rightarrow> i32 \<Rightarrow> nat \<Rightarrow> unit cgm" where
  "compile_join_scan sel s tables plan needs_buffer on outer inner outer_rewind =
     bindS (emit (ins OpRewind inner 0 0)) (\<lambda>inner_rewind.
     bindS (compile_pred on s tables 1) (\<lambda>_.
     bindS (emit (ins OpIfNot 1 0 0)) (\<lambda>on_skip.
     bindS (compile_optional_where sel s tables 1) (\<lambda>skip.
     bindS (compile_row_load plan tables s) (\<lambda>_.
     bindS (emit_scan_result plan needs_buffer) (\<lambda>_.
     bindS next_addr (\<lambda>inner_next.
     bindS (patch_p2 on_skip (of_nat inner_next)) (\<lambda>_.
     bindS (patch_skip skip inner_next) (\<lambda>_.
     bindS (emit1 (ins OpLast inner (of_nat (inner_rewind + 1)) 0)) (\<lambda>_.
     bindS next_addr (\<lambda>outer_next.
     bindS (patch_p2 inner_rewind (of_nat outer_next)) (\<lambda>_.
       emit1 (ins OpLast outer (of_nat (outer_rewind + 1)) 0)))))))))))))"

text \<open>Delivering the buffered rows.\<close>

definition compile_buffer_output :: "select_plan \<Rightarrow> unit cgm" where
  "compile_buffer_output plan =
     bindS (emit (ins OpBufferRewind 0 0 0)) (\<lambda>rewind_addr.
     bindS next_addr (\<lambda>emit_row.
     bindS (emit (ins OpBufferNext 0 0 0)) (\<lambda>next_addr0.
     bindS (emit1 (ins OpResultRow (of_nat (sp_output_width plan)) 0 0)) (\<lambda>_.
     bindS (emit1 (ins OpGoto 0 (of_nat emit_row) 0)) (\<lambda>_.
     bindS next_addr (\<lambda>halt_addr.
     bindS (patch_p2 rewind_addr (of_nat halt_addr)) (\<lambda>_.
       patch_p2 next_addr0 (of_nat halt_addr))))))))"

definition check_join :: "table_binding list \<Rightarrow> join_info option \<Rightarrow> expr option res" where
  "check_join tables join =
     (if length tables \<le> 1 then Inr None
      else case join of
        None \<Rightarrow> sql_error ''JOIN requires an ON clause''
      | Some info \<Rightarrow>
          if ji_type info \<noteq> JInner then sql_error ''only INNER JOIN is supported''
          else (case ji_on info of None \<Rightarrow> sql_error ''JOIN requires an ON clause''
                | Some on \<Rightarrow> Inr (Some on)))"

definition compile_scan_program ::
  "select \<Rightarrow> schema \<Rightarrow> table_binding list \<Rightarrow> expr option \<Rightarrow> select_plan \<Rightarrow> unit cgm" where
  "compile_scan_program sel s tables join_on plan =
     (let needs_buffer = (s_group_by sel \<noteq> [] \<or> s_order_by sel \<noteq> [] \<or> sp_has_aggregates plan) in
      bindS (modifyS (set_n_reg 32 \<circ> set_read_only)) (\<lambda>_.
      bindS (emit1 (ins OpInit 0 1 0)) (\<lambda>_.
      bindS (for_each tables (\<lambda>tb. emit1 (Insn OpOpenRead (tb_cursor tb) 0 0 (P4String (tb_name tb)) 0))) (\<lambda>_.
      bindS (liftS (get_at tables 0)) (\<lambda>outer.
      bindS (emit (ins OpRewind (tb_cursor outer) 0 0)) (\<lambda>outer_rewind.
      bindS (case join_on of
               Some on \<Rightarrow> compile_join_scan sel s tables plan needs_buffer on (tb_cursor outer)
                            (tb_cursor (tables ! 1)) outer_rewind
             | None \<Rightarrow> compile_table_scan sel s tables plan needs_buffer (tb_cursor outer) outer_rewind) (\<lambda>_.
      bindS next_addr (\<lambda>post_scan.
      bindS (patch_p2 outer_rewind (of_nat post_scan)) (\<lambda>_.
      bindS (case (sp_has_aggregates plan, sp_group plan) of
               (True, Some spec) \<Rightarrow> emit1 (Insn OpGroupBy (of_nat (sp_row_width plan)) 0 0 (P4GroupBy spec) 0)
             | _ \<Rightarrow> retS ()) (\<lambda>_.
      bindS (if s_order_by sel \<noteq> [] then emit1 (Insn OpSort 0 0 0 (P4SortKeys (sp_sort plan)) 0)
             else retS ()) (\<lambda>_.
      bindS (if needs_buffer then compile_buffer_output plan else retS ()) (\<lambda>_.
        emit1 (ins OpHalt 0 0 0)))))))))))))"

definition compile_select :: "select \<Rightarrow> schema \<Rightarrow> program res" where
  "compile_select sel s =
     (case s_from sel of
        None \<Rightarrow> sql_error ''SELECT requires a FROM clause''
      | Some from \<Rightarrow>
          (case simple_count_star sel from of
             Some cursor \<Rightarrow> compile_simple_count cursor s from
           | None \<Rightarrow>
               (case collect_from_ref from s 0 ([], None) of
                  (Inl e, acc) \<Rightarrow> Inl e
                | (Inr c, tables, join) \<Rightarrow>
                    bindR (check_join tables join) (\<lambda>join_on.
                    bindR (build_select_plan sel s tables) (\<lambda>plan.
                      build (compile_scan_program sel s tables join_on plan))))))"

section \<open>Any statement\<close>

definition compile_statement :: "statement \<Rightarrow> schema \<Rightarrow> program res" where
  "compile_statement st s =
     (case st of
        StSelect sel \<Rightarrow> compile_select sel s
      | StInsert i \<Rightarrow> compile_insert i s
      | StUpdate u \<Rightarrow> compile_update u s
      | StDelete d \<Rightarrow> compile_delete d s
      | StCreateTable c \<Rightarrow> compile_create_table c
      | StCreateIndex c \<Rightarrow> compile_create_index
      | StDropTable d \<Rightarrow> compile_drop_table d
      | StPragma p \<Rightarrow> compile_pragma p
      | StBegin \<Rightarrow> compile_begin
      | StCommit \<Rightarrow> compile_commit
      | StRollback \<Rightarrow> compile_rollback)"

definition compile :: "logos \<Rightarrow> string \<Rightarrow> schema \<Rightarrow> program res" where
  "compile lx sql s = bindR (parse_one lx sql) (\<lambda>st. compile_statement st s)"

end
