(* ===== verification/Connection.thy ===== *)
theory Connection
  imports Compile_Select
begin

text \<open>
  \<^verbatim>\<open>sqllite-core/src/connection.rs\<close>: a connection, which owns the pager and the schema, and its
  prepared statements, which run on them. The steps of a statement take the fuel of the machine's
  loop; so does the loop over the steps.
\<close>

record connection =
  cn_pager :: pager
  cn_schema :: schema
  cn_path :: "string option"
  cn_last_error :: string
  cn_changes :: i64
  cn_last_rowid :: i64
  cn_in_transaction :: bool

record statement_handle =
  sh_vdbe :: vdbe
  sh_sql :: string
  sh_autocommit :: bool

type_synonym 'a cnm = "(connection, 'a) sres"

definition cn_with_pager :: "'a pgm \<Rightarrow> 'a cnm" where
  "cn_with_pager m = (\<lambda>c. case m (cn_pager c) of (r, p) \<Rightarrow> (r, c\<lparr>cn_pager := p\<rparr>))"

definition cn_with_schema :: "'a scm \<Rightarrow> 'a cnm" where
  "cn_with_schema m =
     (\<lambda>c. case m (cn_schema c, cn_pager c) of (r, (s, p)) \<Rightarrow> (r, c\<lparr>cn_schema := s, cn_pager := p\<rparr>))"

text \<open>Opening works on the disk; the connection exists only when it succeeds.\<close>

definition connection_open :: "env \<Rightarrow> string \<Rightarrow> disk \<Rightarrow> connection res \<times> disk" where
  "connection_open en path d =
     (let memory = (path = '':memory:''); pager_path = (if memory then None else Some path);
          flags = \<lparr>pf_omit_journal = False, pf_memory = memory, pf_read_only = False\<rparr>
      in case pager_open pager_path flags d of
           (Inl e, d') \<Rightarrow> (Inl e, d')
         | (Inr p, d') \<Rightarrow>
             (case init_schema_table (en_fuel en) (en_lx en) (schema_new, p) of
                (Inl e, (s, p')) \<Rightarrow> (Inl e, pgr_disk p')
              | (Inr _, (s, p')) \<Rightarrow>
                  (Inr \<lparr>cn_pager = p', cn_schema = s, cn_path = pager_path, cn_last_error = [],
                        cn_changes = 0, cn_last_rowid = 0, cn_in_transaction = False\<rparr>,
                   pgr_disk p')))"

definition prepare :: "env \<Rightarrow> string \<Rightarrow> connection \<Rightarrow> statement_handle res" where
  "prepare en sql c =
     bindR (compile (en_lx en) sql (cn_schema c)) (\<lambda>prog.
       Inr \<lparr>sh_vdbe = vdbe_new prog, sh_sql = sql, sh_autocommit = \<not> cn_in_transaction c\<rparr>)"

section \<open>Statements\<close>

type_synonym 'a stm = "(statement_handle \<times> connection, 'a) sres"

definition sh_vm :: "'a vmm \<Rightarrow> 'a stm" where
  "sh_vm m = (\<lambda>(h, c). case m (sh_vdbe h, cn_schema c, cn_pager c) of
     (r, (v, s, p)) \<Rightarrow> (r, (h\<lparr>sh_vdbe := v\<rparr>, c\<lparr>cn_schema := s, cn_pager := p\<rparr>)))"

text \<open>\<^verbatim>\<open>let _ = commit()\<close>: an error is dropped, a panic is not.\<close>

definition try_commit :: "unit pgm" where
  "try_commit p =
     (case pager_commit p of (Inl (Fail e), p') \<Rightarrow> (Inr (), p') | r \<Rightarrow> r)"

definition statement_step :: "nat \<Rightarrow> env \<Rightarrow> result_code stm" where
  "statement_step n en =
     bindS (sh_vm (vdbe_step n en)) (\<lambda>rc.
     bindS (getS (\<lambda>(h, c). rc = RcDone \<and> sh_autocommit h \<and> pgr_in_transaction (cn_pager c))) (\<lambda>commit.
     bindS (if commit then sh_vm (vm_pager try_commit) else retS ()) (\<lambda>_. retS rc)))"

definition statement_reset :: "statement_handle \<Rightarrow> statement_handle" where
  "statement_reset h = h\<lparr>sh_vdbe := vdbe_reset (sh_vdbe h)\<rparr>"

text \<open>The loop of \<^verbatim>\<open>exec\<close>.\<close>

fun exec_loop :: "nat \<Rightarrow> nat \<Rightarrow> env \<Rightarrow> unit stm" where
  "exec_loop 0 n en = throwS Diverge"
| "exec_loop (Suc k) n en =
     bindS (statement_step n en) (\<lambda>rc.
       if rc = RcRow then exec_loop k n en
       else if rc = RcDone \<or> is_ok rc then retS ()
       else bindS (getS (cn_last_error \<circ> snd)) (\<lambda>msg. throwS (Fail (Sql rc msg))))"

text \<open>The loop of \<^verbatim>\<open>exec_sql\<close>, which collects the rows as texts.\<close>

definition row_texts :: "vdbe \<Rightarrow> string list" where
  "row_texts v =
     concat (map (\<lambda>i. case column_value v i of Some x \<Rightarrow> [value_to_string x] | None \<Rightarrow> [])
       [0..<column_count_of v])"

fun collect_loop :: "nat \<Rightarrow> nat \<Rightarrow> env \<Rightarrow> string list \<Rightarrow> string list stm" where
  "collect_loop 0 n en acc = throwS Diverge"
| "collect_loop (Suc k) n en acc =
     bindS (statement_step n en) (\<lambda>rc.
       if rc = RcRow
       then bindS (getS (\<lambda>(h, c). row_texts (sh_vdbe h))) (\<lambda>row. collect_loop k n en (acc @ row))
       else if rc = RcDone then retS acc
       else throwS (Fail (Sql rc [])))"

text \<open>
  Preparing, running and taking over the counters. A statement that fails leaves the counters of the
  connection alone.
\<close>

definition run_statement :: "env \<Rightarrow> string \<Rightarrow> 'a stm \<Rightarrow> 'a cnm" where
  "run_statement en sql loop =
     (\<lambda>c. case prepare en sql c of
        Inl e \<Rightarrow> (Inl e, c)
      | Inr h \<Rightarrow>
          (case loop (h, c) of
             (Inl e, (h', c')) \<Rightarrow> (Inl e, c')
           | (Inr x, (h', c')) \<Rightarrow>
               (Inr x, c'\<lparr>cn_changes := vm_changes (sh_vdbe h'), cn_last_rowid := vm_last_rowid (sh_vdbe h')\<rparr>)))"

definition connection_exec :: "nat \<Rightarrow> env \<Rightarrow> string \<Rightarrow> unit cnm" where
  "connection_exec n en sql = run_statement en sql (exec_loop n n en)"

definition exec_sql :: "nat \<Rightarrow> env \<Rightarrow> string \<Rightarrow> string list cnm" where
  "exec_sql n en sql = run_statement en sql (collect_loop n n en [])"

section \<open>Transactions and DDL\<close>

definition connection_commit :: "unit cnm" where
  "connection_commit =
     bindS (cn_with_pager pager_commit) (\<lambda>_. modifyS (cn_in_transaction_update (\<lambda>_. False)))"

definition connection_rollback :: "unit cnm" where
  "connection_rollback =
     bindS (cn_with_pager pager_rollback) (\<lambda>_. modifyS (cn_in_transaction_update (\<lambda>_. False)))"

text \<open>A statement that changes the schema, inside a begin and a commit of the pager.\<close>

definition run_ddl :: "unit scm \<Rightarrow> string list cnm" where
  "run_ddl m =
     bindS (cn_with_pager pager_begin) (\<lambda>_.
     bindS (cn_with_schema m) (\<lambda>_.
     bindS (cn_with_pager pager_commit) (\<lambda>_. retS [])))"

definition run_pragma :: "pragma_stmt \<Rightarrow> string list cnm" where
  "run_pragma p =
     bindS (getS cn_schema) (\<lambda>s.
     bindS (cn_with_pager (execute_pragma (pr_name p) (map_option pragma_value_from_expr (pr_value p)) s)) (\<lambda>rows.
       retS (pragma_rows_to_strings rows)))"

definition connection_execute :: "nat \<Rightarrow> env \<Rightarrow> string \<Rightarrow> string list cnm" where
  "connection_execute n en sql =
     bindS (liftS (parse_one (en_lx en) sql)) (\<lambda>st.
       case st of
         StCreateTable c \<Rightarrow> run_ddl (schema_create_table (en_fuel en) c)
       | StCreateIndex c \<Rightarrow> run_ddl (schema_create_index (en_fuel en) c)
       | StDropTable d \<Rightarrow> run_ddl (schema_drop_table (dt_name d) (dt_if_exists d))
       | StBegin \<Rightarrow>
           bindS (cn_with_pager pager_begin) (\<lambda>_.
           bindS (modifyS (cn_in_transaction_update (\<lambda>_. True))) (\<lambda>_. retS []))
       | StCommit \<Rightarrow> bindS connection_commit (\<lambda>_. retS [])
       | StRollback \<Rightarrow> bindS connection_rollback (\<lambda>_. retS [])
       | StPragma p \<Rightarrow> run_pragma p
       | _ \<Rightarrow> exec_sql n en sql)"

end
