(* ===== verification/Vdbe_Run.thy ===== *)
theory Vdbe_Run
  imports Connection
begin

text \<open>
  Running the machine: how the lookups and updates of its state compute, one turn of its loop, and
  the register file as a map from numbers to values (\<open>value_at\<close>, with NULL past the end).
\<close>

named_theorems vm_simps \<open>running operations of the machine on a state\<close>

lemma vm_get_app [simp, vm_simps]: "vm_get f (v, s, p) = (Inr (f v), (v, s, p))"
  by (simp add: vm_get_def)

lemma vm_modify_app [simp, vm_simps]: "vm_modify f (v, s, p) = (Inr (), (f v, s, p))"
  by (simp add: vm_modify_def)

lemma vm_pager_app [vm_simps]: "vm_pager m (v, s, p) = (case m p of (r, p') \<Rightarrow> (r, (v, s, p')))"
  by (simp add: vm_pager_def)

lemma vm_schema_app [vm_simps]:
  "vm_schema m (v, s, p) = (case m (s, p) of (r, (s', p')) \<Rightarrow> (r, (v, s', p')))"
  by (simp add: vm_schema_def)

section \<open>Registers\<close>

lemma as_usize_nonneg:
  assumes "0 \<le> sint i"
  shows "as_usize i = nat (sint i)"
proof -
  have "uint (scast i :: u64) = sint i mod 2 ^ 64"
    by transfer (simp add: take_bit_eq_mod)
  moreover have "sint i < 2 ^ 31" using sint_lt [of i] by simp
  ultimately show ?thesis using assms by (simp add: as_usize_def unat_eq_nat_uint)
qed

lemma reg_at_value: "reg_at regs i = value_at regs (as_usize i)"
  by (simp add: reg_at_def value_at_def)

lemma get_reg_app [simp, vm_simps]:
  "get_reg i (v, s, p) = (Inr (value_at (vm_regs v) (as_usize i)), (v, s, p))"
  by (simp add: get_reg_def reg_at_value)

definition upd_reg :: "nat \<Rightarrow> val \<Rightarrow> val list \<Rightarrow> val list" where
  "upd_reg i v regs =
     (if i < length regs then regs[i := v] else regs @ replicate (i - length regs) VNull @ [v])"

lemma value_at_upd [simp]: "value_at (upd_reg i v regs) j = (if j = i then v else value_at regs j)"
  by (auto simp: value_at_def upd_reg_def nth_append nth_list_update)

lemma put_reg_nonneg: "0 \<le> sint i \<Longrightarrow> put_reg i v regs = Inr (upd_reg (nat (sint i)) v regs)"
  by (simp add: put_reg_def upd_reg_def as_usize_nonneg Let_def)

lemma set_reg_app:
  "0 \<le> sint i \<Longrightarrow> set_reg i x (v, s, p) = (Inr (), (v\<lparr>vm_regs := upd_reg (nat (sint i)) x (vm_regs v)\<rparr>, s, p))"
  by (simp add: set_reg_def put_reg_nonneg)

lemma store_app:
  "0 \<le> sint i \<Longrightarrow>
   store i x (v, s, p) = (Inr SrContinue, (v\<lparr>vm_regs := upd_reg (nat (sint i)) x (vm_regs v)\<rparr>, s, p))"
  by (simp add: store_def set_reg_app)

lemma jump_if_app [simp, vm_simps]:
  "jump_if b t (v, s, p) =
     (Inr SrContinue, (if b then v\<lparr>vm_pc := as_usize t\<rparr> else v, s, p))"
  by (simp add: jump_if_def jump_def)

section \<open>One turn of the loop\<close>

definition code_at :: "vdbe \<Rightarrow> nat \<Rightarrow> insn list \<Rightarrow> bool" where
  "code_at v a code =
     (a + length code \<le> length (pr_insns (vm_program v)) \<and>
      take (length code) (drop a (pr_insns (vm_program v))) = code)"

lemma code_at_Nil [simp]: "code_at v a [] \<longleftrightarrow> a \<le> length (pr_insns (vm_program v))"
  by (simp add: code_at_def)

lemma code_at_append:
  "code_at v a (xs @ ys) \<longleftrightarrow> code_at v a xs \<and> code_at v (a + length xs) ys"
proof
  assume l: "code_at v a (xs @ ys)"
  then have e: "take (length xs + length ys) (drop a (pr_insns (vm_program v))) = xs @ ys"
    by (simp add: code_at_def)
  then have "take (length xs) (drop a (pr_insns (vm_program v))) = xs"
    by (metis append_eq_conv_conj min.absorb1 le_add1 take_take)
  moreover have "take (length ys) (drop (a + length xs) (pr_insns (vm_program v))) = ys"
    using e by (metis add.commute append_eq_conv_conj drop_drop take_drop)
  ultimately show "code_at v a xs \<and> code_at v (a + length xs) ys"
    using l by (simp add: code_at_def)
next
  assume "code_at v a xs \<and> code_at v (a + length xs) ys"
  then show "code_at v a (xs @ ys)"
    by (simp add: code_at_def take_add add.commute)
qed

lemma code_at_Cons:
  "code_at v a (i # is) \<longleftrightarrow>
     a < length (pr_insns (vm_program v)) \<and> pr_insns (vm_program v) ! a = i \<and> code_at v (Suc a) is"
proof -
  have "code_at v a [i] \<longleftrightarrow>
      a < length (pr_insns (vm_program v)) \<and> pr_insns (vm_program v) ! a = i"
    by (auto simp: code_at_def take_Suc_conv_app_nth)
  then show ?thesis using code_at_append [of v a "[i]" "is"] by simp
qed

lemma code_at_cong: "vm_program w = vm_program v \<Longrightarrow> code_at w a code = code_at v a code"
  by (simp add: code_at_def)

lemma pc_suc: "vm_pc_update Suc v = v\<lparr>vm_pc := Suc (vm_pc v)\<rparr>"
  by (cases v) simp

lemma step_turn:
  assumes "vm_pc v < length (pr_insns (vm_program v))"
    and "execute en (pr_insns (vm_program v) ! vm_pc v) (v\<lparr>vm_pc := Suc (vm_pc v)\<rparr>, s, p) = (Inr SrContinue, st)"
  shows "step_loop (Suc n) en (v, s, p) = step_loop n en st"
  using assms by (simp add: not_le pc_suc)

lemma step_fails:
  assumes "vm_pc v < length (pr_insns (vm_program v))"
    and "execute en (pr_insns (vm_program v) ! vm_pc v) (v\<lparr>vm_pc := Suc (vm_pc v)\<rparr>, s, p) = (Inl f, st)"
  shows "step_loop (Suc n) en (v, s, p) = (Inl f, st)"
  using assms by (simp add: not_le pc_suc)

end
