(* ===== verification/Group_By.thy ===== *)
theory Group_By
  imports Vdbe_Run "HOL-Library.Multiset"
begin

text \<open>
  Grouping in one pass over the buffer, with one running state per aggregate and group, computes what
  grouping means: for each key text among the rows, one row with the key values of the first such row
  and every aggregate of just those rows.
\<close>

section \<open>What it means\<close>

definition known_args :: "val option list \<Rightarrow> val list" where
  "known_args args = filter (\<lambda>v. v \<noteq> VNull) (map the (filter (\<lambda>x. x \<noteq> None) args))"

definition best_of :: "ordering \<Rightarrow> val list \<Rightarrow> val" where
  "best_of wanted vs =
     (case vs of [] \<Rightarrow> VNull | v # ws \<Rightarrow> foldl (\<lambda>m w. if compare_val w m = wanted then w else m) v ws)"

text \<open>\<open>COUNT\<close> of a column counts NULLs too.\<close>

definition agg_result :: "agg_func \<Rightarrow> val option list \<Rightarrow> val" where
  "agg_result f args =
     (case f of
        AggCount \<Rightarrow> VInteger (of_nat (length args))
      | AggSum \<Rightarrow> VReal (foldl f64_add 0 (map real_or_0 (known_args args)))
      | AggMin \<Rightarrow> best_of Less (known_args args)
      | AggMax \<Rightarrow> best_of Greater (known_args args))"

definition row_text :: "group_by_spec \<Rightarrow> val list \<Rightarrow> string" where
  "row_text spec row = group_key_text (group_key spec row)"

definition rows_of :: "group_by_spec \<Rightarrow> val list list \<Rightarrow> string \<Rightarrow> val list list" where
  "rows_of spec rows k = filter (\<lambda>row. row_text spec row = k) rows"

definition group_result :: "group_by_spec \<Rightarrow> val list list \<Rightarrow> string \<Rightarrow> val list" where
  "group_result spec rows k =
     group_key spec (hd (rows_of spec rows k))
     @ map (\<lambda>a. agg_result (as_func a) (map (agg_arg a) (rows_of spec rows k))) (gb_aggs spec)"

section \<open>Running aggregates\<close>

definition agg_put :: "agg_func \<Rightarrow> agg_state \<Rightarrow> val option \<Rightarrow> agg_state" where
  "agg_put f st arg =
     (let st' = st\<lparr>ag_count := ag_count st + 1\<rparr> in case arg of None \<Rightarrow> st' | Some v \<Rightarrow> agg_value f v st')"

definition agg_of :: "agg_func \<Rightarrow> val option list \<Rightarrow> agg_state" where
  "agg_of f args = foldl (agg_put f) agg_new args"

lemma agg_of_snoc: "agg_of f (args @ [x]) = agg_put f (agg_of f args) x"
  by (simp add: agg_of_def)

lemma count_put [simp]: "ag_count (agg_put f st x) = ag_count st + 1"
  by (auto simp: agg_put_def agg_value_def Let_def split: option.splits agg_func.splits)

lemma count_of: "ag_count (agg_of f args) = of_nat (length args)"
  by (induction args rule: rev_induct) (simp_all add: agg_of_snoc, simp add: agg_of_def agg_new_def)

lemma known_snoc:
  "known_args (args @ [x]) = known_args args @ (case x of None \<Rightarrow> [] | Some v \<Rightarrow> if v = VNull then [] else [v])"
  by (auto simp: known_args_def split: option.splits)

lemma best_snoc:
  "vs \<noteq> [] \<Longrightarrow> best_of w (vs @ [x]) = (if compare_val x (best_of w vs) = w then x else best_of w vs)"
  by (cases vs) (simp_all add: best_of_def)

lemma best_single [simp]: "best_of w [x] = x" "best_of w [] = VNull"
  by (simp_all add: best_of_def)

lemma map2_self: "map2 h xs (map g xs) = map (\<lambda>x. h x (g x)) xs"
  by (induction xs) simp_all

text \<open>What a running state holds, for each function.\<close>

definition holds :: "agg_func \<Rightarrow> val list \<Rightarrow> agg_state \<Rightarrow> bool" where
  "holds f vs st =
     (case f of
        AggCount \<Rightarrow> True
      | AggSum \<Rightarrow> (case ag_sum st of None \<Rightarrow> 0 | Some x \<Rightarrow> x) = foldl f64_add 0 (map real_or_0 vs)
      | AggMin \<Rightarrow> ag_min st = (if vs = [] then None else Some (best_of Less vs))
      | AggMax \<Rightarrow> ag_max st = (if vs = [] then None else Some (best_of Greater vs)))"

lemma holds_put:
  assumes "holds f (known_args args) st"
  shows "holds f (known_args (args @ [x])) (agg_put f st x)"
  using assms
  by (cases f; cases x; cases "known_args args = []")
     (auto simp: holds_def agg_put_def agg_value_def Let_def known_snoc is_null_def keep_best_def best_snoc)

lemma holds_of: "holds f (known_args args) (agg_of f args)"
proof (induction args rule: rev_induct)
  case Nil
  then show ?case by (cases f) (simp_all add: holds_def known_args_def agg_of_def agg_new_def)
next
  case (snoc x args)
  then show ?case by (simp add: agg_of_snoc holds_put)
qed

lemma agg_finalize_of: "agg_finalize f (agg_of f args) = agg_result f args"
  using holds_of [of f args]
  by (cases f) (auto simp: agg_finalize_def agg_result_def holds_def count_of)

lemma add_i64_one:
  assumes "n < 2 ^ 63 - 1"
  shows "add_i64 (of_nat n) 1 = Inr (of_nat n + 1)"
proof -
  have "sint (of_nat n :: i64) = int n"
    using assms by (simp add: signed_of_nat signed_take_bit_int_eq_self)
  with assms show ?thesis by (simp add: add_i64_def)
qed

lemma agg_step_put:
  "n < 2 ^ 63 - 1 \<Longrightarrow> ag_count st = of_nat n \<Longrightarrow> agg_step f arg st = Inr (agg_put f st arg)"
  by (simp add: agg_step_def agg_put_def add_i64_one Let_def)

lemma step_all_put:
  assumes "n < 2 ^ 63 - 1" and "\<And>a. a \<in> set as \<Longrightarrow> ag_count (st a) = of_nat n"
  shows "step_all as row (map st as) = Inr (map (\<lambda>a. agg_put (as_func a) (st a) (agg_arg a row)) as)"
  using assms by (induction as) (simp_all add: agg_step_put)

section \<open>The pass over the rows\<close>

definition group_entry :: "group_by_spec \<Rightarrow> val list list \<Rightarrow> string \<Rightarrow> val list \<times> agg_state list" where
  "group_entry spec rows k =
     (group_key spec (hd (rows_of spec rows k)),
      map (\<lambda>a. agg_of (as_func a) (map (agg_arg a) (rows_of spec rows k))) (gb_aggs spec))"

definition grouped :: "group_by_spec \<Rightarrow> val list list \<Rightarrow> group_map \<Rightarrow> bool" where
  "grouped spec rows groups =
     (distinct (map fst groups)
      \<and> (\<forall>k. map_of groups k =
           (if k \<in> row_text spec ` set rows then Some (group_entry spec rows k) else None)))"

lemma rows_of_snoc:
  "rows_of spec (rows @ [row]) k = rows_of spec rows k @ (if row_text spec row = k then [row] else [])"
  by (simp add: rows_of_def)

lemma rows_of_empty: "rows_of spec rows k = [] \<longleftrightarrow> k \<notin> row_text spec ` set rows"
  by (auto simp: rows_of_def filter_empty_conv)

lemma entry_other: "row_text spec row \<noteq> k \<Longrightarrow> group_entry spec (rows @ [row]) k = group_entry spec rows k"
  by (simp add: group_entry_def rows_of_snoc)

lemma entry_same:
  "group_entry spec (rows @ [row]) (row_text spec row) =
     (let e = (if row_text spec row \<in> row_text spec ` set rows then group_entry spec rows (row_text spec row)
               else (group_key spec row, map (\<lambda>_. agg_new) (gb_aggs spec)))
      in (fst e, map2 (\<lambda>a st. agg_put (as_func a) st (agg_arg a row)) (gb_aggs spec) (snd e)))"
proof (cases "row_text spec row \<in> row_text spec ` set rows")
  case True
  then have "rows_of spec rows (row_text spec row) \<noteq> []" by (simp add: rows_of_empty)
  with True show ?thesis
    by (simp add: group_entry_def rows_of_snoc Let_def agg_of_snoc map2_self)
next
  case False
  then have "rows_of spec rows (row_text spec row) = []" by (simp add: rows_of_empty)
  with False show ?thesis
    by (simp add: group_entry_def rows_of_snoc Let_def agg_of_def map2_self)
qed

lemma group_row_grouped:
  assumes g: "grouped spec rows groups" and n: "length rows < 2 ^ 63 - 1"
  shows "\<exists>groups'. group_row spec row groups = Inr groups' \<and> grouped spec (rows @ [row]) groups'"
proof -
  let ?k = "row_text spec row"
  let ?e = "if ?k \<in> row_text spec ` set rows then group_entry spec rows ?k
            else (group_key spec row, map (\<lambda>_. agg_new) (gb_aggs spec))"
  have e: "(case map_of groups ?k of Some e \<Rightarrow> e | None \<Rightarrow> (group_key spec row, map (\<lambda>_. agg_new) (gb_aggs spec))) = ?e"
    using g by (simp add: grouped_def)
  have "length (rows_of spec rows ?k) \<le> length rows" by (simp add: rows_of_def)
  with n have l: "length (rows_of spec rows ?k) < 2 ^ 63 - 1" by simp
  have "snd ?e = map (\<lambda>a. agg_of (as_func a) (map (agg_arg a) (rows_of spec rows ?k))) (gb_aggs spec)"
    using rows_of_empty [of spec rows ?k] by (auto simp: group_entry_def agg_of_def)
  then have "step_all (gb_aggs spec) row (snd ?e)
      = Inr (map2 (\<lambda>a st. agg_put (as_func a) st (agg_arg a row)) (gb_aggs spec) (snd ?e))"
    using step_all_put [OF l] by (simp add: count_of map2_self)
  then have r: "group_row spec row groups = Inr (AList.update ?k (group_entry spec (rows @ [row]) ?k) groups)"
    using e by (simp add: group_row_def Let_def entry_same case_prod_beta flip: row_text_def)
  moreover have "grouped spec (rows @ [row]) (AList.update ?k (group_entry spec (rows @ [row]) ?k) groups)"
    using g by (auto simp: grouped_def update_conv distinct_update entry_other)
  ultimately show ?thesis by blast
qed

lemma group_rows_append:
  "group_rows spec (rows @ rows') groups = bindR (group_rows spec rows groups) (group_rows spec rows')"
  by (induction rows arbitrary: groups) (auto simp: bindR_assoc intro: bindR_cong)

lemma group_rows_grouped:
  assumes "length rows < 2 ^ 63"
  shows "\<exists>groups. group_rows spec rows [] = Inr groups \<and> grouped spec rows groups"
  using assms
proof (induction rows rule: rev_induct)
  case Nil
  then show ?case by (simp add: grouped_def)
next
  case (snoc row rows)
  then obtain groups where "group_rows spec rows [] = Inr groups" and "grouped spec rows groups" by auto
  with snoc.prems group_row_grouped [of spec rows groups row] show ?case
    by (auto simp: group_rows_append)
qed

lemma grouped_outputs:
  assumes "grouped spec rows groups"
  shows "mset (map (group_output spec) groups)
    = mset (map (group_result spec rows) (remdups (map (row_text spec) rows)))"
proof -
  have d: "distinct (map fst groups)" using assms by (simp add: grouped_def)
  have "group_output spec g = group_result spec rows (fst g)" if g: "g \<in> set groups" for g
  proof -
    have "map_of groups (fst g) = Some (snd g)" using d g by (simp add: map_of_is_SomeI)
    with assms have "snd g = group_entry spec rows (fst g)"
      by (auto simp: grouped_def split: if_splits)
    then show ?thesis
      by (cases g) (simp add: group_output_def group_entry_def group_result_def map2_self agg_finalize_of)
  qed
  then have "map (group_output spec) groups = map (group_result spec rows) (map fst groups)" by simp
  moreover have "mset (map fst groups) = mset (remdups (map (row_text spec) rows))"
  proof -
    have "fst ` set groups = {k. map_of groups k \<noteq> None}" by (auto simp: map_of_eq_None_iff)
    also have "\<dots> = row_text spec ` set rows" using assms by (auto simp: grouped_def)
    finally have "set (map fst groups) = set (remdups (map (row_text spec) rows))" by simp
    then show ?thesis using d by (simp only: set_eq_iff_mset_eq_distinct distinct_remdups)
  qed
  ultimately show ?thesis by (metis mset_map)
qed

text \<open>
  C7. The \<open>GroupBy\<close> instruction is the declarative grouping: whatever order the hash map visits its
  groups in, the buffer afterwards holds, for each distinct key text among its rows, exactly one row,
  which is the key of the first row with that text and each aggregate of all the rows with that text.
\<close>

theorem group_by_is_grouping:
  assumes "\<And>g. mset (en_order en g) = mset g" and "length (vm_row_buffer v) < 2 ^ 63"
  shows "\<exists>out. apply_group_by en spec (v, s, p)
      = (Inr (), (v\<lparr>vm_row_buffer := out, vm_buffer_idx := 0\<rparr>, s, p))
    \<and> mset out = mset (map (group_result spec (vm_row_buffer v))
        (remdups (map (row_text spec) (vm_row_buffer v))))"
proof -
  obtain groups where g: "group_rows spec (vm_row_buffer v) [] = Inr groups"
    and o: "grouped spec (vm_row_buffer v) groups"
    using group_rows_grouped [OF assms(2)] by blast
  have "mset (map (group_output spec) (en_order en groups)) = mset (map (group_output spec) groups)"
    using assms(1) [of groups] by simp
  with g grouped_outputs [OF o] show ?thesis
    by (auto simp: apply_group_by_def intro!: exI [of _ "map (group_output spec) (en_order en groups)"])
qed

text \<open>The integer 1 and the text 1 have the same key text, so they fall into one group.\<close>

theorem group_by_is_grouping_witness:
  "\<forall>lx s p. apply_group_by \<lparr>en_fuel = 0, en_lx = lx, en_order = id\<rparr>
       \<lparr>gb_key_indices = [0], gb_aggs = [\<lparr>as_func = AggCount, as_col_index = None\<rparr>]\<rparr>
       ((vdbe_new program_new)\<lparr>vm_row_buffer := [[VInteger 1], [VText ''1'']]\<rparr>, s, p)
     = (Inr (), ((vdbe_new program_new)\<lparr>vm_row_buffer := [[VInteger 1, VInteger 2]], vm_buffer_idx := 0\<rparr>, s, p))"
proof (intro allI)
  fix lx s p
  let ?spec = "\<lparr>gb_key_indices = [0], gb_aggs = [\<lparr>as_func = AggCount, as_col_index = None\<rparr>]\<rparr> :: group_by_spec"
  have t: "row_text ?spec [VInteger 1] = ''1''" "row_text ?spec [VText ''1''] = ''1''"
    by (simp_all add: row_text_def group_key_def group_key_text_def value_at_def i64_to_string_def
        int_to_string_def nat_to_string.simps digit_char_def char_of_def bit_0)
  then have g: "group_result ?spec [[VInteger 1], [VText ''1'']] ''1'' = [VInteger 1, VInteger 2]"
    by (simp add: group_result_def rows_of_def group_key_def value_at_def agg_result_def)
  have "\<exists>out. apply_group_by \<lparr>en_fuel = 0, en_lx = lx, en_order = id\<rparr> ?spec
      ((vdbe_new program_new)\<lparr>vm_row_buffer := [[VInteger 1], [VText ''1'']]\<rparr>, s, p)
     = (Inr (), ((vdbe_new program_new)\<lparr>vm_row_buffer := out, vm_buffer_idx := 0\<rparr>, s, p))
     \<and> mset out = mset (map (group_result ?spec [[VInteger 1], [VText ''1'']])
         (remdups (map (row_text ?spec) [[VInteger 1], [VText ''1'']])))"
    using group_by_is_grouping [of "\<lparr>en_fuel = 0, en_lx = lx, en_order = id\<rparr>"
        "(vdbe_new program_new)\<lparr>vm_row_buffer := [[VInteger 1], [VText ''1'']]\<rparr>" ?spec s p]
    by simp
  then show "apply_group_by \<lparr>en_fuel = 0, en_lx = lx, en_order = id\<rparr> ?spec
      ((vdbe_new program_new)\<lparr>vm_row_buffer := [[VInteger 1], [VText ''1'']]\<rparr>, s, p)
     = (Inr (), ((vdbe_new program_new)\<lparr>vm_row_buffer := [[VInteger 1, VInteger 2]], vm_buffer_idx := 0\<rparr>, s, p))"
    by (auto simp: t g)
qed

end
