(* ===== verification/Order_By.thy ===== *)
theory Order_By
  imports Vdbe "HOL-Library.Multiset"
begin

text \<open>
  \<^verbatim>\<open>ORDER BY\<close>: the comparison of values against the order it stands for, and the sort of the row
  buffer. The order is stated without the code's comparison: integers by their value, reals by the
  number they denote, texts and blobs by the first byte that differs, NULL before everything.
\<close>

section \<open>The order of values\<close>

text \<open>
  Every double is a multiple of \<open>2^-1074\<close>: its value in that unit. (An infinity comes out as
  \<open>2^1024\<close>, beyond every finite double.)
\<close>

definition f64_units :: "f64 \<Rightarrow> int" where
  "f64_units x =
     (if f64_negative x then -1 else 1) * int (f64_significand x * 2 ^ nat (f64_exponent x + 1074))"

definition bytes_before :: "bytes \<Rightarrow> bytes \<Rightarrow> bool" where
  "bytes_before xs ys \<longleftrightarrow> (\<exists>b vs. ys = xs @ b # vs)
     \<or> (\<exists>ps a us b vs. a < b \<and> xs = ps @ a # us \<and> ys = ps @ b # vs)"

fun val_below :: "val \<Rightarrow> val \<Rightarrow> bool" where
  "val_below VNull y \<longleftrightarrow> y \<noteq> VNull"
| "val_below (VInteger a) (VInteger b) \<longleftrightarrow> sint a < sint b"
| "val_below (VReal a) (VReal b) \<longleftrightarrow> f64_units a < f64_units b"
| "val_below (VText a) (VText b) \<longleftrightarrow> bytes_before (str_bytes a) (str_bytes b)"
| "val_below (VBlob a) (VBlob b) \<longleftrightarrow> bytes_before a b"
| "val_below x y \<longleftrightarrow> False"

text \<open>The magnitude bits grow with the number.\<close>

definition mag_units :: "nat \<Rightarrow> nat" where
  "mag_units m = (if m < 2 ^ 52 then m else (2 ^ 52 + m mod 2 ^ 52) * 2 ^ (m div 2 ^ 52 - 1))"

lemma f64_units_mag:
  "f64_units x = (if f64_negative x then - int (mag_units (f64_magnitude x)) else int (mag_units (f64_magnitude x)))"
proof (cases "f64_magnitude x < 2 ^ 52")
  case True
  then show ?thesis by (simp add: f64_units_def mag_units_def f64_significand_def f64_exponent_def)
next
  case False
  define e where "e = f64_magnitude x div 2 ^ 52"
  have "1 \<le> e" using False unfolding e_def by (simp add: Suc_le_eq div_greater_zero_iff)
  then have "nat (max 1 (int e) - 1) = e - 1" by (simp add: max_def nat_diff_distrib)
  with False show ?thesis
    by (simp add: f64_units_def mag_units_def f64_significand_def f64_exponent_def flip: e_def)
qed

lemma mag_units_step: "mag_units m < mag_units (Suc m)"
proof -
  let ?q = "2 ^ 52 :: nat"
  consider "Suc m < ?q" | "Suc m = ?q" | "?q \<le> m" by linarith
  then show ?thesis
  proof cases
    case 3
    define e where "e = m div ?q"
    have e: "1 \<le> e" using 3 unfolding e_def by (simp add: Suc_le_eq div_greater_zero_iff)
    have u: "mag_units m = (?q + m mod ?q) * 2 ^ (e - 1)" using 3 by (simp add: mag_units_def e_def)
    show ?thesis
    proof (cases "Suc (m mod ?q) = ?q")
      case True
      then have n: "Suc m mod ?q = 0" "Suc m div ?q = Suc e" by (simp_all add: mod_Suc div_Suc e_def)
      have "mag_units (Suc m) = ?q * 2 ^ e" using 3 n by (simp add: mag_units_def)
      also have "(2 :: nat) ^ e = 2 * 2 ^ (e - 1)" using e by (cases e) simp_all
      finally have "mag_units (Suc m) = (2 * ?q) * 2 ^ (e - 1)" by simp
      moreover have "?q + m mod ?q < 2 * ?q" using True by linarith
      ultimately show ?thesis unfolding u by simp
    next
      case False
      then have "Suc m mod ?q = Suc (m mod ?q)" "Suc m div ?q = e" by (simp_all add: mod_Suc div_Suc e_def)
      then have "mag_units (Suc m) = (?q + Suc (m mod ?q)) * 2 ^ (e - 1)" using 3 by (simp add: mag_units_def)
      then show ?thesis unfolding u by simp
    qed
  qed (simp_all add: mag_units_def)
qed

lemma mag_units_less: "mag_units m < mag_units n \<longleftrightarrow> m < n"
  using strict_mono_Suc_iff [of mag_units] mag_units_step strict_mono_less [of mag_units m n] by blast

lemma mag_units_zero: "mag_units m = 0 \<longleftrightarrow> m = 0"
  using mag_units_less [of 0 m] by (simp add: mag_units_def)

lemma f64_units_less: "f64_units a < f64_units b \<longleftrightarrow> f64_key a < f64_key b"
  using mag_units_less [of "f64_magnitude a" "f64_magnitude b"] mag_units_less [of "f64_magnitude b" "f64_magnitude a"]
    mag_units_zero [of "f64_magnitude a"] mag_units_zero [of "f64_magnitude b"]
  by (auto simp: f64_units_mag f64_key_def)

lemma bytes_before_less: "bytes_before xs ys \<longleftrightarrow> xs < ys"
  unfolding bytes_before_def list_less_def lexord_def mem_Collect_eq split_conv by blast

text \<open>On values of one class the code's comparison is this order.\<close>

definition by_order :: "bool \<Rightarrow> bool \<Rightarrow> ordering" where
  "by_order p q = (if p then Less else if q then Greater else Equal)"

lemma by_order_iff:
  "\<not> (p \<and> q) \<Longrightarrow> by_order p q = Less \<longleftrightarrow> p" "\<not> (p \<and> q) \<Longrightarrow> by_order p q = Greater \<longleftrightarrow> q"
  "reverse_ordering (by_order p q) = by_order q p \<or> (p \<and> q)"
  by (auto simp: by_order_def)

lemma compare_val_order:
  assumes "same_class x y" and "\<not> is_nan_val x" and "\<not> is_nan_val y"
  shows "compare_val x y = by_order (val_below x y) (val_below y x)"
  using assms
  by (cases x; cases y)
    (auto simp: by_order_def cmp_def cmp_text_def cmp_f64_le_iff f64_units_less bytes_before_less)

section \<open>The order of rows\<close>

definition key_below :: "sort_key_spec \<Rightarrow> val list \<Rightarrow> val list \<Rightarrow> bool" where
  "key_below k a b =
     (if sk_desc k then val_below (value_at b (sk_col_index k)) (value_at a (sk_col_index k))
      else val_below (value_at a (sk_col_index k)) (value_at b (sk_col_index k)))"

text \<open>The first key that tells two rows apart decides.\<close>

fun row_below :: "sort_key_spec list \<Rightarrow> val list \<Rightarrow> val list \<Rightarrow> bool" where
  "row_below [] a b = False"
| "row_below (k # ks) a b =
     (key_below k a b \<or> \<not> key_below k b a \<and> row_below ks a b)"

definition one_class :: "sort_key_spec list \<Rightarrow> val list list \<Rightarrow> bool" where
  "one_class keys rows \<longleftrightarrow> (\<forall>k \<in> set keys. \<forall>a \<in> set rows. \<not> is_nan_val (value_at a (sk_col_index k))
     \<and> (\<forall>b \<in> set rows. same_class (value_at a (sk_col_index k)) (value_at b (sk_col_index k))))"

text \<open>Strict weak orders on a set, their reversals and lexicographic combinations.\<close>

definition weak_order :: "'a set \<Rightarrow> ('a \<Rightarrow> 'a \<Rightarrow> bool) \<Rightarrow> bool" where
  "weak_order S lt \<longleftrightarrow> (\<forall>a \<in> S. \<forall>b \<in> S. lt a b \<longrightarrow> \<not> lt b a)
     \<and> (\<forall>a \<in> S. \<forall>b \<in> S. \<forall>c \<in> S. \<not> lt a b \<longrightarrow> \<not> lt b c \<longrightarrow> \<not> lt a c)"

lemma weak_order_asym: "weak_order S lt \<Longrightarrow> a \<in> S \<Longrightarrow> b \<in> S \<Longrightarrow> lt a b \<Longrightarrow> \<not> lt b a"
  unfolding weak_order_def by blast

lemma weak_order_trans:
  "weak_order S lt \<Longrightarrow> a \<in> S \<Longrightarrow> b \<in> S \<Longrightarrow> c \<in> S \<Longrightarrow> \<not> lt a b \<Longrightarrow> \<not> lt b c \<Longrightarrow> \<not> lt a c"
  unfolding weak_order_def by blast

lemma weak_order_reverse: "weak_order S lt \<Longrightarrow> weak_order S (\<lambda>a b. lt b a)"
  unfolding weak_order_def by blast

lemma weak_order_lex:
  assumes "weak_order S p" and "weak_order S q"
  shows "weak_order S (\<lambda>a b. p a b \<or> \<not> p b a \<and> q a b)"
  unfolding weak_order_def
proof (intro conjI ballI impI)
  fix a b assume "a \<in> S" "b \<in> S" "p a b \<or> \<not> p b a \<and> q a b"
  then show "\<not> (p b a \<or> \<not> p a b \<and> q b a)"
    using weak_order_asym [OF assms(1)] weak_order_asym [OF assms(2)] by blast
next
  fix a b c assume S: "a \<in> S" "b \<in> S" "c \<in> S"
    and ab: "\<not> (p a b \<or> \<not> p b a \<and> q a b)" and bc: "\<not> (p b c \<or> \<not> p c b \<and> q b c)"
  from ab bc have "\<not> p a c" using weak_order_trans [OF assms(1) S] by blast
  moreover have "\<not> q a c" if "\<not> p c a"
  proof -
    have "\<not> p b a" using weak_order_trans [OF assms(1) S(2,3,1)] bc that by blast
    moreover have "\<not> p c b" using weak_order_trans [OF assms(1) S(3,1,2)] ab that by blast
    ultimately show ?thesis using weak_order_trans [OF assms(2) S] ab bc by blast
  qed
  ultimately show "\<not> (p a c \<or> \<not> p c a \<and> q a c)" by blast
qed

lemma key_weak_order:
  assumes "one_class (k # ks) rows"
  shows "weak_order (set rows) (key_below k)"
proof -
  let ?v = "\<lambda>r. value_at r (sk_col_index k)"
  have ok: "same_class (?v a) (?v b)" "\<not> is_nan_val (?v a)" if "a \<in> set rows" "b \<in> set rows" for a b
    using assms that by (simp_all add: one_class_def)
  have asym: "val_below x y \<Longrightarrow> \<not> val_below y x" for x y
    by (cases x; cases y) (auto simp: bytes_before_less)
  have gt: "compare_val (?v a) (?v b) \<noteq> Greater \<longleftrightarrow> \<not> val_below (?v b) (?v a)"
    if "a \<in> set rows" "b \<in> set rows" for a b
    using compare_val_order [of "?v a" "?v b"] ok that asym by (auto simp: by_order_def)
  have "weak_order (set rows) (\<lambda>a b. val_below (?v a) (?v b))"
    unfolding weak_order_def
  proof (intro conjI ballI impI)
    fix a b c assume "a \<in> set rows" "b \<in> set rows" "c \<in> set rows"
      "\<not> val_below (?v a) (?v b)" "\<not> val_below (?v b) (?v c)"
    then show "\<not> val_below (?v a) (?v c)"
      using compare_transitive [of "?v c" "?v b" "?v a"] ok gt by simp
  qed (rule asym)
  then show ?thesis
    using weak_order_reverse [of "set rows" "\<lambda>a b. val_below (?v a) (?v b)"]
    by (cases "sk_desc k") (simp_all add: key_below_def [abs_def])
qed

lemma row_weak_order: "one_class keys rows \<Longrightarrow> weak_order (set rows) (row_below keys)"
proof (induction keys)
  case (Cons k ks)
  then have "one_class ks rows" by (simp add: one_class_def)
  with Cons weak_order_lex [OF key_weak_order [OF Cons.prems], of "row_below ks"] show ?case
    by (simp add: fun_eq_iff [symmetric] row_below.simps [abs_def])
qed (simp add: weak_order_def)

lemma compare_rows_order:
  assumes "one_class keys rows" and "a \<in> set rows" and "b \<in> set rows"
  shows "compare_rows keys a b = by_order (row_below keys a b) (row_below keys b a)"
  using assms
proof (induction keys)
  case (Cons k ks)
  let ?x = "value_at a (sk_col_index k)" and ?y = "value_at b (sk_col_index k)"
  have "compare_val ?x ?y = by_order (val_below ?x ?y) (val_below ?y ?x)"
    using Cons.prems by (intro compare_val_order) (auto simp: one_class_def)
  moreover have "val_below ?x ?y \<Longrightarrow> \<not> val_below ?y ?x"
    by (cases ?x; cases ?y) (auto simp: bytes_before_less)
  moreover have "one_class ks rows" using Cons.prems(1) by (simp add: one_class_def)
  ultimately show ?case
    using Cons by (auto simp: by_order_def key_below_def)
qed (simp add: by_order_def)

section \<open>Sorting\<close>

lemma mset_insert_sorted: "mset (insert_sorted c x ys) = add_mset x (mset ys)"
  by (induction ys) auto

lemma set_insert_sorted: "set (insert_sorted c x ys) = insert x (set ys)"
  using mset_insert_sorted [of c x ys] by (metis set_mset_add_mset_insert set_mset_mset)

lemma mset_stable_sort: "mset (stable_sort c xs) = mset xs"
  by (induction xs) (auto simp: stable_sort_def mset_insert_sorted)

lemma set_stable_sort: "set (stable_sort c xs) = set xs"
  using mset_stable_sort [of c xs] by (metis set_mset_mset)

lemma insert_sorted_sorts:
  assumes lt: "weak_order S lt" and c: "\<And>a b. a \<in> S \<Longrightarrow> b \<in> S \<Longrightarrow> c a b = Greater \<longleftrightarrow> lt b a"
    and "sorted_wrt (\<lambda>a b. \<not> lt b a) ys" and "set ys \<subseteq> S" and "x \<in> S"
  shows "sorted_wrt (\<lambda>a b. \<not> lt b a) (insert_sorted c x ys)"
  using assms(3-)
proof (induction ys)
  case (Cons y ys)
  then have y: "y \<in> S" by simp
  show ?case
  proof (cases "c x y = Greater")
    case True
    with c [OF \<open>x \<in> S\<close> y] weak_order_asym [OF lt y \<open>x \<in> S\<close>] Cons show ?thesis
      by (auto simp: set_insert_sorted)
  next
    case False
    then have "\<not> lt y x" using c Cons.prems(3) y by simp
    with Cons.prems weak_order_trans [OF lt _ y \<open>x \<in> S\<close>] False show ?thesis by auto
  qed
qed simp

text \<open>Elements that are equal keep their places: a new element goes before those equal to it.\<close>

lemma insert_sorted_stable:
  assumes lt: "weak_order S lt" and c: "\<And>a b. a \<in> S \<Longrightarrow> b \<in> S \<Longrightarrow> c a b = Greater \<longleftrightarrow> lt b a"
    and "set ys \<subseteq> S" and "x \<in> S" and z: "z \<in> S"
  shows "filter (\<lambda>b. \<not> lt z b \<and> \<not> lt b z) (insert_sorted c x ys)
    = filter (\<lambda>b. \<not> lt z b \<and> \<not> lt b z) (x # ys)"
  using assms(3,4)
proof (induction ys)
  case (Cons y ys)
  then have y: "y \<in> S" by simp
  have "\<not> lt y x" if "\<not> lt z x" "\<not> lt x z" "\<not> lt z y" "\<not> lt y z"
    using weak_order_trans [OF lt y z \<open>x \<in> S\<close>] that by blast
  with Cons c [OF \<open>x \<in> S\<close> y] show ?case by auto
qed simp

lemma stable_sort_sorts:
  assumes lt: "weak_order S lt" and c: "\<And>a b. a \<in> S \<Longrightarrow> b \<in> S \<Longrightarrow> c a b = Greater \<longleftrightarrow> lt b a"
    and "set xs \<subseteq> S"
  shows "sorted_wrt (\<lambda>a b. \<not> lt b a) (stable_sort c xs)"
    and "z \<in> S \<Longrightarrow> filter (\<lambda>b. \<not> lt z b \<and> \<not> lt b z) (stable_sort c xs)
      = filter (\<lambda>b. \<not> lt z b \<and> \<not> lt b z) xs"
proof -
  have step: "stable_sort c (x # ys) = insert_sorted c x (stable_sort c ys)" for x ys
    by (simp add: stable_sort_def)
  have e: "stable_sort c [] = []" by (simp add: stable_sort_def)
  from assms(3) show "sorted_wrt (\<lambda>a b. \<not> lt b a) (stable_sort c xs)"
    by (induction xs) (auto simp: e step set_stable_sort intro!: insert_sorted_sorts [OF lt c])
  show "filter (\<lambda>b. \<not> lt z b \<and> \<not> lt b z) (stable_sort c xs) = filter (\<lambda>b. \<not> lt z b \<and> \<not> lt b z) xs"
    if "z \<in> S" using assms(3)
  proof (induction xs)
    case (Cons x xs)
    then have "set (stable_sort c xs) \<subseteq> S" by (simp add: set_stable_sort)
    from insert_sorted_stable [OF lt c this, of x z] Cons that show ?case by (simp add: step)
  qed (simp add: e)
qed

text \<open>
  C33. \<^verbatim>\<open>ORDER BY\<close>. When each key column of the buffered rows holds values of one storage class (NULLs
  included, NaN excluded), the sort instruction goes on with a buffer that holds the same rows, is in
  the order the keys ask for (integers and reals by their value, texts and blobs by their bytes, NULL
  first, a descending key reversed, a later key only among rows equal in the earlier ones), and keeps
  rows that are equal in all keys in the order they had. Nothing but the buffer changes.
\<close>

theorem order_by_sorts:
  assumes "in_opcode i = OpSort" and "in_p4 i = P4SortKeys keys" and "one_class keys (vm_row_buffer v)"
  shows "\<exists>rows. execute en i (v, s, p) = (Inr SrContinue, (v\<lparr>vm_row_buffer := rows\<rparr>, s, p))
    \<and> mset rows = mset (vm_row_buffer v)
    \<and> sorted_wrt (\<lambda>a b. \<not> row_below keys b a) rows
    \<and> (\<forall>a \<in> set rows. filter (\<lambda>b. \<not> row_below keys a b \<and> \<not> row_below keys b a) rows
         = filter (\<lambda>b. \<not> row_below keys a b \<and> \<not> row_below keys b a) (vm_row_buffer v))"
proof -
  let ?rows = "stable_sort (compare_rows keys) (vm_row_buffer v)"
  note lt = row_weak_order [OF assms(3)]
  have c: "compare_rows keys a b = Greater \<longleftrightarrow> row_below keys b a"
    if "a \<in> set (vm_row_buffer v)" "b \<in> set (vm_row_buffer v)" for a b
    using compare_rows_order [OF assms(3) that] weak_order_asym [OF lt that] by (auto simp: by_order_def)
  have "execute en i (v, s, p) = (Inr SrContinue, (v\<lparr>vm_row_buffer := ?rows\<rparr>, s, p))"
    using assms(1,2) by (simp add: execute_def bindS_app vm_modify_def sort_buffer_def)
  with mset_stable_sort [of "compare_rows keys"] stable_sort_sorts [OF lt c subset_refl] show ?thesis
    by (intro exI [of _ ?rows]) (simp add: set_stable_sort)
qed

theorem order_by_sorts_witness:
  "\<forall>en s p. \<exists>rows. execute en (Insn OpSort 0 0 0 (P4SortKeys [\<lparr>sk_col_index = 0, sk_desc = True\<rparr>]) 0)
      ((vdbe_new program_new)\<lparr>vm_row_buffer := [[VInteger 2, VText ''a''], [VNull, VText ''b''],
         [VInteger 10, VText ''c''], [VInteger 2, VText ''d'']]\<rparr>, s, p)
    = (Inr SrContinue, ((vdbe_new program_new)\<lparr>vm_row_buffer := rows\<rparr>, s, p))
    \<and> rows = [[VInteger 10, VText ''c''], [VInteger 2, VText ''a''], [VInteger 2, VText ''d''], [VNull, VText ''b'']]
    \<and> sorted_wrt (\<lambda>a b. \<not> row_below [\<lparr>sk_col_index = 0, sk_desc = True\<rparr>] b a) rows"
proof (intro allI)
  fix en s p
  let ?i = "Insn OpSort 0 0 0 (P4SortKeys [\<lparr>sk_col_index = 0, sk_desc = True\<rparr>]) 0"
  let ?rows = "[[VInteger 2, VText ''a''], [VNull, VText ''b''], [VInteger 10, VText ''c''], [VInteger 2, VText ''d'']]"
  let ?v = "(vdbe_new program_new)\<lparr>vm_row_buffer := ?rows\<rparr>"
  have "one_class [\<lparr>sk_col_index = 0, sk_desc = True\<rparr>] (vm_row_buffer ?v)"
    by (simp add: one_class_def value_at_def)
  then obtain rows where r: "execute en ?i (?v, s, p) = (Inr SrContinue, (?v\<lparr>vm_row_buffer := rows\<rparr>, s, p))"
    "sorted_wrt (\<lambda>a b. \<not> row_below [\<lparr>sk_col_index = 0, sk_desc = True\<rparr>] b a) rows"
    using order_by_sorts [of ?i "[\<lparr>sk_col_index = 0, sk_desc = True\<rparr>]" ?v en s p] by auto
  from r(1) have "vm_row_buffer (?v\<lparr>vm_row_buffer := rows\<rparr>)
      = stable_sort (compare_rows [\<lparr>sk_col_index = 0, sk_desc = True\<rparr>]) ?rows"
    by (auto simp: execute_def bindS_app vm_modify_def sort_buffer_def dest: arg_cong [of _ _ vm_row_buffer])
  then have "rows = [[VInteger 10, VText ''c''], [VInteger 2, VText ''a''], [VInteger 2, VText ''d''], [VNull, VText ''b'']]"
    by (simp add: stable_sort_def value_at_def cmp_def)
  with r show "\<exists>rows. execute en ?i (?v, s, p) = (Inr SrContinue, ((vdbe_new program_new)\<lparr>vm_row_buffer := rows\<rparr>, s, p))
    \<and> rows = [[VInteger 10, VText ''c''], [VInteger 2, VText ''a''], [VInteger 2, VText ''d''], [VNull, VText ''b'']]
    \<and> sorted_wrt (\<lambda>a b. \<not> row_below [\<lparr>sk_col_index = 0, sk_desc = True\<rparr>] b a) rows"
    by (intro exI [of _ rows]) simp
qed

end
