(* ===== verification/Slotted_Page.thy ===== *)
theory Slotted_Page
  imports Btree_Page
begin

text \<open>
  What the b-tree relies on about a page of cells: a header with the number of cells and the start
  of the cell content, an array of pointers behind it and the cells themselves in the content area,
  each cell readable from the bytes at its pointer on. The locale is the interface between the page
  layout and the four cell formats; its lemmas say what the searches, the insertion of a cell, the
  removal of a pointer and the rebuilding of a page do to the list of cells the page holds. The
  cell formats are its interpretations.
\<close>

section \<open>Pages as lists of cells\<close>

definition agree_on :: "(nat \<Rightarrow> bool) \<Rightarrow> bytes \<Rightarrow> bytes \<Rightarrow> bool" where
  "agree_on P d d' = (length d' = length d \<and> (\<forall>m < length d. P m \<longrightarrow> d' ! m = d ! m))"

definition slots :: "(nat \<Rightarrow> nat \<Rightarrow> nat) \<Rightarrow> bytes \<Rightarrow> nat \<Rightarrow> nat list \<Rightarrow> nat \<Rightarrow> bool" where
  "slots po data ho ptrs cs \<longleftrightarrow>
     length data < 65536 \<and> cs \<le> length data \<and> po ho (length ptrs) \<le> cs
     \<and> unat (u16_at data (ho + 3)) = length ptrs \<and> unat (u16_at data (ho + 5)) = cs
     \<and> (\<forall>i < length ptrs. unat (u16_at data (po ho i)) = ptrs ! i) \<and> (\<forall>p \<in> set ptrs. cs \<le> p)"

text \<open>Where the cells lie: each at its pointer, no two of them overlapping.\<close>

definition apart :: "('c \<Rightarrow> bytes) \<Rightarrow> nat \<times> 'c \<Rightarrow> nat \<times> 'c \<Rightarrow> bool" where
  "apart enc a b \<longleftrightarrow>
     fst a + length (enc (snd a)) \<le> fst b \<or> fst b + length (enc (snd b)) \<le> fst a"

definition extent :: "('c \<Rightarrow> bytes) \<Rightarrow> nat \<times> 'c \<Rightarrow> nat \<times> nat" where
  "extent enc a = (fst a, fst a + length (enc (snd a)))"

lemma apart_extents:
  "sorted_wrt (apart enc) cells
   \<longleftrightarrow> sorted_wrt (\<lambda>a b. snd a \<le> fst b \<or> snd b \<le> fst a) (map (extent enc) cells)"
  by (simp add: sorted_wrt_map apart_def [abs_def] extent_def)

definition cell_at :: "('c \<Rightarrow> bytes) \<Rightarrow> bytes \<Rightarrow> nat \<times> 'c \<Rightarrow> bool" where
  "cell_at enc data c \<longleftrightarrow> fst c + length (enc (snd c)) \<le> length data
     \<and> slice_of data (fst c) (length (enc (snd c))) = enc (snd c)"

definition holds_cells ::
    "(nat \<Rightarrow> nat \<Rightarrow> nat) \<Rightarrow> ('c \<Rightarrow> bytes) \<Rightarrow> bytes \<Rightarrow> nat \<Rightarrow> nat \<Rightarrow> 'c list \<Rightarrow> bool" where
  "holds_cells po enc data ho cs xs \<longleftrightarrow>
     (\<exists>cells. slots po data ho (map fst cells) cs \<and> map snd cells = xs
        \<and> (\<forall>c \<in> set cells. cell_at enc data c) \<and> sorted_wrt (apart enc) cells)"

text \<open>
  What a reader needs of a page, whatever its content start says: the count, and a cell at every
  pointer.
\<close>

definition shows_cells ::
    "(nat \<Rightarrow> nat \<Rightarrow> nat) \<Rightarrow> ('c \<Rightarrow> bytes) \<Rightarrow> bytes \<Rightarrow> nat \<Rightarrow> 'c list \<Rightarrow> bool" where
  "shows_cells po enc data ho xs \<longleftrightarrow>
     length data < 65536 \<and> po ho (length xs) \<le> length data \<and> unat (u16_at data (ho + 3)) = length xs
     \<and> (\<forall>i < length xs. cell_at enc data (unat (u16_at data (po ho i)), xs ! i))"

lemma agree_on_refl [simp]: "agree_on P d d"
  by (simp add: agree_on_def)

lemma agree_on_trans: "agree_on P d d' \<Longrightarrow> agree_on P d' d'' \<Longrightarrow> agree_on P d d''"
  by (simp add: agree_on_def)

lemma agree_on_mono: "agree_on P d d' \<Longrightarrow> (\<And>m. Q m \<Longrightarrow> P m) \<Longrightarrow> agree_on Q d d'"
  by (auto simp: agree_on_def)

lemma agree_on_length: "agree_on P d d' \<Longrightarrow> length d' = length d"
  by (simp add: agree_on_def)

lemma agree_on_overlay:
  assumes "a + length ys \<le> length d" and "\<And>m. P m \<Longrightarrow> m < a \<or> a + length ys \<le> m"
  shows "agree_on P d (overlay d a ys)"
  using assms by (fastforce simp: agree_on_def nth_overlay)

lemma agree_on_u16:
  "agree_on P d d' \<Longrightarrow> P a \<Longrightarrow> P (a + 1) \<Longrightarrow> a + 2 \<le> length d \<Longrightarrow> u16_at d' a = u16_at d a"
  by (simp add: agree_on_def u16_at_def)

lemma agree_on_u32:
  "agree_on P d d' \<Longrightarrow> P a \<Longrightarrow> P (a + 1) \<Longrightarrow> P (a + 2) \<Longrightarrow> P (a + 3) \<Longrightarrow> a + 4 \<le> length d
   \<Longrightarrow> u32_at d' a = u32_at d a"
  by (simp add: agree_on_def u32_at_def)

lemma agree_on_drop: "agree_on P d d' \<Longrightarrow> (\<And>m. a \<le> m \<Longrightarrow> P m) \<Longrightarrow> drop a d' = drop a d"
  by (auto simp: agree_on_def intro!: nth_equalityI)

lemma agree_on_take: "agree_on P d d' \<Longrightarrow> (\<And>m. m < a \<Longrightarrow> P m) \<Longrightarrow> take a d' = take a d"
  by (auto simp: agree_on_def intro!: nth_equalityI)

section \<open>The loops over a list\<close>

definition first_at :: "('a \<Rightarrow> bool) \<Rightarrow> 'a list \<Rightarrow> nat" where
  "first_at cond xs = length (takeWhile (\<lambda>x. \<not> cond x) xs)"

lemma first_at_le: "first_at cond xs \<le> length xs"
  by (simp add: first_at_def length_takeWhile_le)

lemma first_at_less: "first_at cond xs < length xs \<longleftrightarrow> (\<exists>x \<in> set xs. cond x)"
  by (induction xs) (auto simp: first_at_def)

lemma first_at_holds: "first_at cond xs < length xs \<Longrightarrow> cond (xs ! first_at cond xs)"
  using nth_length_takeWhile [of "\<lambda>x. \<not> cond x" xs] by (simp add: first_at_def)

lemma scan_from_list:
  assumes "\<forall>j < length xs. rd (i + j) = Inr (xs ! j)"
  shows "scan_from rd cond i (length xs) =
    Inr (if first_at cond xs < length xs then Some (i + first_at cond xs, xs ! first_at cond xs)
         else None)"
  using assms
proof (induction xs arbitrary: i)
  case Nil
  then show ?case by (simp add: first_at_def)
next
  case (Cons x xs)
  have "rd i = Inr x" using Cons.prems by auto
  moreover have "scan_from rd cond (Suc i) (length xs) =
    Inr (if first_at cond xs < length xs then Some (Suc i + first_at cond xs, xs ! first_at cond xs)
         else None)"
    using Cons.prems by (intro Cons.IH) auto
  ultimately show ?case by (simp add: first_at_def)
qed

lemma collect_from_list:
  assumes "\<forall>j < length xs. rd (i + j) = Inr (xs ! j)"
  shows "collect_from rd i (length xs) = Inr xs"
  using assms
proof (induction xs arbitrary: i)
  case (Cons x xs)
  have "rd i = Inr x" using Cons.prems by auto
  moreover have "collect_from rd (Suc i) (length xs) = Inr xs"
    using Cons.prems by (intro Cons.IH) auto
  ultimately show ?case by simp
qed simp

section \<open>The array of pointers\<close>

locale slot_array =
  fixes po :: "nat \<Rightarrow> nat \<Rightarrow> nat"
  assumes po_step: "po ho i = po ho 0 + 2 * i"
    and po_base: "ho + 8 \<le> po ho 0"
begin

lemma po_Suc: "po ho (Suc i) = po ho i + 2"
  using po_step [of ho i] po_step [of ho "Suc i"] by simp

lemma po_ge: "ho + 8 \<le> po ho i"
  using po_step [of ho i] po_base [of ho] by simp

lemma po_mono: "i \<le> j \<Longrightarrow> po ho i \<le> po ho j"
  using po_step [of ho i] po_step [of ho j] by simp

lemma po_less: "i < j \<Longrightarrow> po ho i + 2 \<le> po ho j"
  using po_step [of ho i] po_step [of ho j] by simp

lemma shift_ptrs_up_spec:
  assumes "po ho (Suc (i + k)) \<le> length data"
  shows "\<exists>d'. shift_ptrs_up po ho i k data = Inr d'
    \<and> agree_on (\<lambda>m. m < po ho (Suc i) \<or> po ho (Suc (i + k)) \<le> m) data d'
    \<and> (\<forall>j. i \<le> j \<and> j < i + k \<longrightarrow> u16_at d' (po ho (Suc j)) = u16_at data (po ho j))"
  using assms
proof (induction k arbitrary: data)
  case (Suc k)
  let ?v = "u16_at data (po ho (i + k))"
  let ?d = "overlay data (po ho (Suc (i + k))) (be_of_u16 ?v)"
  have len: "po ho (Suc (i + k)) + 2 \<le> length data" using Suc.prems by (simp add: po_Suc)
  then have len': "po ho (i + k) + 2 \<le> length data" by (simp add: po_Suc)
  have ov: "agree_on (\<lambda>m. m < po ho (Suc (i + k)) \<or> po ho (Suc (Suc (i + k))) \<le> m) data ?d"
    using len by (intro agree_on_overlay) (auto simp: po_Suc)
  have "po ho (Suc (i + k)) \<le> length ?d" using len by simp
  from Suc.IH [OF this] obtain d' where d': "shift_ptrs_up po ho i k ?d = Inr d'"
    and ag: "agree_on (\<lambda>m. m < po ho (Suc i) \<or> po ho (Suc (i + k)) \<le> m) ?d d'"
    and sh: "\<forall>j. i \<le> j \<and> j < i + k \<longrightarrow> u16_at d' (po ho (Suc j)) = u16_at ?d (po ho j)"
    by blast
  have low: "po ho (Suc i) \<le> po ho (Suc (i + k))" by (rule po_mono) simp
  have "u16_at d' (po ho (Suc j)) = u16_at data (po ho j)" if "i \<le> j" "j < i + Suc k" for j
  proof (cases "j = i + k")
    case True
    have "u16_at d' (po ho (Suc (i + k))) = u16_at ?d (po ho (Suc (i + k)))"
      using len by (intro agree_on_u16 [OF ag]) auto
    then show ?thesis using True len by simp
  next
    case False
    then have j: "j < i + k" using that by simp
    then have "po ho j + 2 \<le> po ho (i + k)" by (rule po_less)
    moreover from this have "po ho j + 2 \<le> po ho (Suc (i + k))" by (simp add: po_Suc)
    ultimately have "u16_at ?d (po ho j) = u16_at data (po ho j)"
      using len' by (intro agree_on_u16 [OF ov]) auto
    with sh j that show ?thesis by simp
  qed
  moreover have "agree_on (\<lambda>m. m < po ho (Suc i) \<or> po ho (Suc (i + Suc k)) \<le> m) data d'"
    using low by (intro agree_on_trans [OF agree_on_mono [OF ov] agree_on_mono [OF ag]])
      (auto simp: po_Suc)
  moreover have "shift_ptrs_up po ho i (Suc k) data = Inr d'"
    using len len' d' by (simp add: Let_def read_u16_be_eq write_u16_be_def copy_at_def po_Suc)
  ultimately show ?case by blast
qed auto

lemma shift_ptrs_up_into:
  assumes "po ho (Suc n) \<le> length data" and "i \<le> n"
  obtains d' where "shift_ptrs_up po ho i (n - i) data = Inr d'"
    and "agree_on (\<lambda>m. m < po ho (Suc i) \<or> po ho (Suc n) \<le> m) data d'"
    and "\<And>j. i \<le> j \<Longrightarrow> j < n \<Longrightarrow> u16_at d' (po ho (Suc j)) = u16_at data (po ho j)"
  using shift_ptrs_up_spec [of ho i "n - i" data] assms by auto

text \<open>A cell that fits is written below the content and its pointer inserted.\<close>

lemma unat_u16_of_nat: "n < 65536 \<Longrightarrow> unat (of_nat n :: u16) = n"
  by (simp only: unat_of_nat) (simp add: take_bit_nat_eq_self)

lemma slotsD:
  assumes "slots po data ho ptrs cs"
  shows "length data < 65536" "cs \<le> length data" "po ho (length ptrs) \<le> cs"
    "unat (u16_at data (ho + 3)) = length ptrs" "unat (u16_at data (ho + 5)) = cs"
    "i < length ptrs \<Longrightarrow> unat (u16_at data (po ho i)) = ptrs ! i" "p \<in> set ptrs \<Longrightarrow> cs \<le> p"
    "ho + 8 \<le> cs" "length ptrs < 65536"
  using assms po_ge [of ho "length ptrs"] po_step [of ho "length ptrs"]
  by (auto simp: slots_def)

text \<open>The pointers after the later ones are moved up and the new one is written into the gap.\<close>

lemma inserted_ptr:
  assumes sl: "slots po data ho ptrs cs" and i: "i \<le> length ptrs" and j: "j \<le> length ptrs"
    and top: "po ho (Suc (length ptrs)) < c" and csl: "c \<le> cs"
    and a1: "agree_on (\<lambda>m. m < c \<or> cs \<le> m) data d1"
    and a2: "agree_on (\<lambda>m. m < po ho (Suc i) \<or> po ho (Suc (length ptrs)) \<le> m) d1 d2"
    and sh: "\<And>k. i \<le> k \<Longrightarrow> k < length ptrs \<Longrightarrow> u16_at d2 (po ho (Suc k)) = u16_at d1 (po ho k)"
    and d3: "d3 = overlay d2 (po ho i) (be_of_u16 (of_nat c))"
    and a3: "agree_on (\<lambda>m. m < po ho i \<or> po ho (Suc i) \<le> m) d2 d3"
  shows "unat (u16_at d3 (po ho j)) = (take i ptrs @ c # drop i ptrs) ! j"
proof -
  note sd = slotsD [OF sl]
  have low: "k \<le> Suc (length ptrs) \<Longrightarrow> po ho k < c" for k using po_mono [of k "Suc (length ptrs)" ho] top by simp
  have l1: "length d1 = length data" and l2: "length d2 = length data"
    using agree_on_length [OF a1] agree_on_length [OF a2] by simp_all
  have pi: "po ho i + 2 \<le> c" using low [of "Suc i"] i po_Suc [of ho i] by simp
  have pj: "po ho j + 2 \<le> length data" using low [of "Suc j"] j po_Suc [of ho j] csl sd by simp
  consider "j < i" | "j = i" | k where "j = Suc k" "i \<le> k" "k < length ptrs" using j i
    by (metis less_Suc_eq_le linorder_neqE_nat not0_implies_Suc not_less_zero Suc_le_eq)
  then show ?thesis
  proof cases
    case 1
    then have lt: "po ho j + 2 \<le> po ho i" by (rule po_less)
    have "u16_at d3 (po ho j) = u16_at d2 (po ho j)"
      using lt pj l2 by (intro agree_on_u16 [OF a3]) auto
    also have "\<dots> = u16_at d1 (po ho j)"
      using lt pj l1 po_Suc [of ho i] by (intro agree_on_u16 [OF a2]) auto
    also have "\<dots> = u16_at data (po ho j)"
      using lt pj pi by (intro agree_on_u16 [OF a1]) auto
    finally show ?thesis using sd(6) [of j] 1 i by (simp add: nth_append)
  next
    case 2
    have "u16_at d3 (po ho i) = of_nat c" using pj l2 2 by (simp add: d3)
    then show ?thesis using 2 i csl sd by (simp add: nth_append unat_u16_of_nat)
  next
    case 3
    have lt: "po ho (Suc i) \<le> po ho j" using 3 by (intro po_mono) simp
    have "u16_at d3 (po ho j) = u16_at d2 (po ho j)"
      using lt pj l2 by (intro agree_on_u16 [OF a3]) auto
    also have "\<dots> = u16_at d1 (po ho k)" using sh 3 by simp
    also have "\<dots> = u16_at data (po ho k)"
      using low [of j] 3 pj by (intro agree_on_u16 [OF a1]) (auto simp: po_Suc)
    finally show ?thesis using sd(6) [of k] 3 i by (simp add: nth_append)
  qed
qed

lemma insert_cell_at_fits:
  assumes sl: "slots po data ho ptrs cs" and i: "i \<le> length ptrs"
    and fits: "po ho (length ptrs + 1) + 1 \<le> cs - length cell"
  obtains d' where "insert_cell_at po data ho cell (length ptrs) i = Inr (True, d')"
    and "slots po d' ho (take i ptrs @ (cs - length cell) # drop i ptrs) (cs - length cell)"
    and "drop (cs - length cell) d' = cell @ drop cs data"
    and "agree_on (\<lambda>m. m < ho + 3 \<or> ho + 7 \<le> m \<and> m < po ho 0 \<or> cs \<le> m) data d'"
proof -
  let ?n = "length ptrs" and ?cs = "cs - length cell"
  let ?U = "\<lambda>m. m < ho + 3 \<or> ho + 7 \<le> m \<and> m < po ho 0 \<or> cs \<le> m"
  note sd = slotsD [OF sl]
  have cl: "?cs + length cell = cs" and csl: "cs \<le> length data" using fits sd by auto
  have top: "po ho (Suc ?n) < ?cs" using fits by simp
  have b0: "ho + 8 \<le> po ho j" for j by (rule po_ge)
  have low: "j \<le> Suc ?n \<Longrightarrow> po ho j < ?cs" for j using po_mono [of j "Suc ?n" ho] top by simp
  define d1 where "d1 = overlay data ?cs cell"
  have a1: "agree_on (\<lambda>m. m < ?cs \<or> cs \<le> m) data d1"
    unfolding d1_def using cl csl by (intro agree_on_overlay) auto
  have l1: "length d1 = length data" using agree_on_length [OF a1] .
  have "po ho (Suc ?n) \<le> length d1" using top l1 csl by simp
  then obtain d2 where d2: "shift_ptrs_up po ho i (?n - i) d1 = Inr d2"
    and a2: "agree_on (\<lambda>m. m < po ho (Suc i) \<or> po ho (Suc ?n) \<le> m) d1 d2"
    and sh: "\<And>j. i \<le> j \<Longrightarrow> j < ?n \<Longrightarrow> u16_at d2 (po ho (Suc j)) = u16_at d1 (po ho j)"
    using shift_ptrs_up_into [of ho ?n d1 i] i by blast
  have l2: "length d2 = length data" using agree_on_length [OF a2] l1 by simp
  define d3 where "d3 = overlay d2 (po ho i) (be_of_u16 (of_nat ?cs))"
  have pi: "po ho i + 2 \<le> ?cs" using i top po_mono [of "Suc i" "Suc ?n" ho] po_Suc [of ho i] by simp
  have a3: "agree_on (\<lambda>m. m < po ho i \<or> po ho (Suc i) \<le> m) d2 d3"
    unfolding d3_def using pi l2 csl by (intro agree_on_overlay) (auto simp: po_Suc)
  have l3: "length d3 = length data" using agree_on_length [OF a3] l2 by simp
  define d4 where "d4 = overlay d3 (ho + 5) (be_of_u16 (of_nat ?cs))"
  have a4: "agree_on (\<lambda>m. m < ho + 5 \<or> ho + 7 \<le> m) d3 d4"
    unfolding d4_def using sd l3 by (intro agree_on_overlay) auto
  have l4: "length d4 = length data" using agree_on_length [OF a4] l3 by simp
  define d5 where "d5 = overlay d4 (ho + 3) (be_of_u16 (of_nat (Suc ?n)))"
  have a5: "agree_on (\<lambda>m. m < ho + 3 \<or> ho + 5 \<le> m) d4 d5"
    unfolding d5_def using sd l4 by (intro agree_on_overlay) auto
  have l5: "length d5 = length data" using agree_on_length [OF a5] l4 by simp
  have n16: "Suc ?n < 65536" using top sd po_step [of ho "Suc ?n"] by simp
  have pd: "po ho i + 2 \<le> length data" using pi csl by simp
  have run: "insert_cell_at po data ho cell ?n i = Inr (True, d5)"
    using d2 fits sd cl pi pd l1 l2 l3 l4 l5
    by (simp add: insert_cell_at_def read_u16_be_eq write_u16_be_def copy_at_def Let_def
        del: of_nat_diff of_nat_add of_nat_Suc flip: d1_def d3_def d4_def d5_def)
  show thesis
  proof (rule that [OF run])
    have step: "i \<le> length ptrs \<Longrightarrow> po ho i \<le> po ho (Suc i) \<and> po ho (Suc i) \<le> po ho (Suc ?n)"
      for i using po_mono [of i "Suc i" ho] po_mono [of "Suc i" "Suc ?n" ho] by auto
    show U: "agree_on ?U data d5"
      by (intro agree_on_trans [OF agree_on_mono [OF a1] agree_on_trans [OF agree_on_mono [OF a2]
              agree_on_trans [OF agree_on_mono [OF a3] agree_on_trans [OF agree_on_mono [OF a4]
                agree_on_mono [OF a5]]]]])
        (use cl top step [OF i] po_mono [of 0 i ho] b0 [of 0] in auto)
    have hi: "agree_on (\<lambda>m. ?cs \<le> m) d1 d5"
      by (intro agree_on_trans [OF agree_on_mono [OF a2] agree_on_trans [OF agree_on_mono [OF a3]
            agree_on_trans [OF agree_on_mono [OF a4] agree_on_mono [OF a5]]]])
        (use top step [OF i] b0 [of i] b0 [of "Suc i"] in auto)
    have "drop ?cs d1 = cell @ drop cs data"
      unfolding d1_def overlay_def using cl csl by simp
    with agree_on_drop [OF hi] show "drop ?cs d5 = cell @ drop cs data" by simp
    have far: "u16_at d5 (po ho j) = u16_at d3 (po ho j)" if "j \<le> ?n" for j
    proof -
      have "po ho j + 2 \<le> length d3" using low [of "Suc j"] that po_Suc [of ho j] l3 csl by simp
      then have "u16_at d4 (po ho j) = u16_at d3 (po ho j)"
        using b0 [of j] by (intro agree_on_u16 [OF a4]) auto
      moreover have "u16_at d5 (po ho j) = u16_at d4 (po ho j)"
        using b0 [of j] \<open>po ho j + 2 \<le> length d3\<close> l3 l4 by (intro agree_on_u16 [OF a5]) auto
      ultimately show ?thesis by simp
    qed
    have ptr: "unat (u16_at d5 (po ho j)) = (take i ptrs @ ?cs # drop i ptrs) ! j" if "j \<le> ?n" for j
      unfolding far [OF that] by (rule inserted_ptr [OF sl i that top _ a1 a2 sh d3_def a3]) simp_all
    have "u16_at d5 (ho + 3) = of_nat (Suc ?n)" using l4 sd by (simp add: d5_def)
    moreover have "u16_at d5 (ho + 5) = u16_at d4 (ho + 5)"
      using l4 sd by (intro agree_on_u16 [OF a5]) auto
    moreover have "u16_at d4 (ho + 5) = of_nat ?cs" using l3 sd by (simp add: d4_def)
    moreover have "?cs \<le> p" if "p \<in> set (take i ptrs @ ?cs # drop i ptrs)" for p
      using that sd(7) [of p] by (auto dest!: in_set_takeD in_set_dropD)
    ultimately show "slots po d5 ho (take i ptrs @ ?cs # drop i ptrs) ?cs"
      using i n16 l5 csl sd(1) top ptr unfolding slots_def
      by (auto simp: unat_u16_of_nat simp del: of_nat_add of_nat_Suc of_nat_diff)
  qed
qed

lemma insert_cell_at_full:
  assumes "slots po data ho ptrs cs" and "\<not> po ho (length ptrs + 1) + 1 \<le> cs - length cell"
  shows "insert_cell_at po data ho cell (length ptrs) i = Inr (False, data)"
  using slotsD [OF assms(1)] assms(2)
  by (simp add: insert_cell_at_def read_u16_be_eq Let_def)

text \<open>Removing a pointer.\<close>

lemma shift_ptrs_down_spec:
  assumes "po ho (Suc (j + k)) \<le> length data"
  shows "\<exists>d'. shift_ptrs_down po ho j k data = Inr d'
    \<and> agree_on (\<lambda>m. m < po ho j \<or> po ho (j + k) \<le> m) data d'
    \<and> (\<forall>i. j \<le> i \<and> i < j + k \<longrightarrow> u16_at d' (po ho i) = u16_at data (po ho (Suc i)))"
  using assms
proof (induction k arbitrary: j data)
  case (Suc k)
  let ?v = "u16_at data (po ho (Suc j))"
  let ?d = "overlay data (po ho j) (be_of_u16 ?v)"
  have le: "po ho (Suc (Suc j)) \<le> length data"
    using Suc.prems po_mono [of "Suc (Suc j)" "Suc (j + Suc k)" ho] by simp
  then have lj: "po ho j + 2 \<le> length data" "po ho (Suc j) + 2 \<le> length data"
    by (simp_all add: po_Suc)
  have ov: "agree_on (\<lambda>m. m < po ho j \<or> po ho (Suc j) \<le> m) data ?d"
    using lj by (intro agree_on_overlay) (auto simp: po_Suc)
  have "po ho (Suc (Suc j + k)) \<le> length ?d" using Suc.prems lj by simp
  from Suc.IH [OF this] obtain d' where d': "shift_ptrs_down po ho (Suc j) k ?d = Inr d'"
    and ag: "agree_on (\<lambda>m. m < po ho (Suc j) \<or> po ho (Suc j + k) \<le> m) ?d d'"
    and sh: "\<forall>i. Suc j \<le> i \<and> i < Suc j + k \<longrightarrow> u16_at d' (po ho i) = u16_at ?d (po ho (Suc i))"
    by blast
  have "u16_at d' (po ho i) = u16_at data (po ho (Suc i))" if i: "j \<le> i" "i < j + Suc k" for i
  proof (cases "i = j")
    case True
    have "u16_at d' (po ho j) = u16_at ?d (po ho j)"
      using lj by (intro agree_on_u16 [OF ag]) (auto simp: po_Suc)
    then show ?thesis using True lj by simp
  next
    case False
    then have "po ho (Suc j) \<le> po ho (Suc i)" and "po ho (Suc i) + 2 \<le> length data"
      using i po_mono [of "Suc j" "Suc i" ho] po_mono [of "Suc (Suc i)" "Suc (j + Suc k)" ho]
        Suc.prems po_Suc [of ho "Suc i"] by auto
    then have "u16_at ?d (po ho (Suc i)) = u16_at data (po ho (Suc i))"
      by (intro agree_on_u16 [OF ov]) auto
    with sh i False show ?thesis by simp
  qed
  moreover have "agree_on (\<lambda>m. m < po ho j \<or> po ho (j + Suc k) \<le> m) data d'"
    using po_mono [of "Suc j" "Suc j + k" ho]
    by (intro agree_on_trans [OF agree_on_mono [OF ov] agree_on_mono [OF ag]])
      (auto simp: po_Suc)
  moreover have "shift_ptrs_down po ho j (Suc k) data = Inr d'"
    using lj d' by (simp add: read_u16_be_eq write_u16_be_def copy_at_def)
  ultimately show ?case by blast
qed auto

lemma remove_ptr:
  assumes sl: "slots po data ho ptrs cs" and i: "i < length ptrs"
  obtains d d' where "shift_ptrs_down po ho i (length ptrs - 1 - i) data = Inr d"
    and "write_u16_be d (ho + 3) (of_nat (length ptrs - 1)) = Inr d'"
    and "slots po d' ho (take i ptrs @ drop (Suc i) ptrs) cs"
    and "agree_on (\<lambda>m. m < ho + 3 \<or> ho + 5 \<le> m \<and> m < po ho 0 \<or> cs \<le> m) data d'"
proof -
  let ?n = "length ptrs"
  note sd = slotsD [OF sl]
  have ne: "ptrs \<noteq> []" using i by auto
  then have "po ho (Suc (i + (?n - 1 - i))) \<le> length data" using sd i by simp
  from shift_ptrs_down_spec [OF this] i obtain d where
    d: "shift_ptrs_down po ho i (?n - 1 - i) data = Inr d"
    and a1: "agree_on (\<lambda>m. m < po ho i \<or> po ho (?n - 1) \<le> m) data d"
    and sh: "\<forall>j. i \<le> j \<and> j < ?n - 1 \<longrightarrow> u16_at d (po ho j) = u16_at data (po ho (Suc j))"
    by auto
  have l1: "length d = length data" using agree_on_length [OF a1] .
  define d' where "d' = overlay d (ho + 3) (be_of_u16 (of_nat (?n - 1)))"
  have a2: "agree_on (\<lambda>m. m < ho + 3 \<or> ho + 5 \<le> m) d d'"
    unfolding d'_def using sd l1 by (intro agree_on_overlay) auto
  have l2: "length d' = length data" using agree_on_length [OF a2] l1 by simp
  have w: "write_u16_be d (ho + 3) (of_nat (?n - 1)) = Inr d'"
    using sd l1 by (simp add: write_u16_be_def d'_def copy_at_def)
  have b: "ho + 8 \<le> po ho j" for j by (rule po_ge)
  have last: "po ho (?n - 1) + 2 \<le> cs" using sd(3) ne po_Suc [of ho "?n - 1"] by simp
  have all: "agree_on (\<lambda>m. m < ho + 3 \<or> ho + 5 \<le> m \<and> m < po ho 0 \<or> cs \<le> m) data d'"
    by (intro agree_on_trans [OF agree_on_mono [OF a1] agree_on_mono [OF a2]])
      (use last b [of 0] b [of "?n - 1"] po_mono [of 0 i ho] sd in auto)
  have at: "unat (u16_at d' (po ho j)) = (take i ptrs @ drop (Suc i) ptrs) ! j" if j: "j < ?n - 1" for j
  proof -
    have lo: "po ho j + 2 \<le> length data"
      using po_less [of j "?n - 1" ho] j last sd(2) by simp
    have "u16_at d' (po ho j) = u16_at d (po ho j)"
      using b [of j] lo l1 by (intro agree_on_u16 [OF a2]) auto
    moreover have "unat (u16_at d (po ho j)) = (take i ptrs @ drop (Suc i) ptrs) ! j"
    proof (cases "j < i")
      case True
      then have "u16_at d (po ho j) = u16_at data (po ho j)"
        using lo po_less [OF True, of ho] by (intro agree_on_u16 [OF a1]) auto
      with True i sd(6) [of j] show ?thesis by (simp add: nth_append)
    next
      case False
      with sh j sd(6) [of "Suc j"] i show ?thesis by (simp add: nth_append)
    qed
    ultimately show ?thesis by simp
  qed
  have "u16_at d' (ho + 3) = of_nat (?n - 1)" using sd l1 by (simp add: d'_def)
  moreover have "u16_at d' (ho + 5) = u16_at data (ho + 5)"
    using sd b [of 0] by (intro agree_on_u16 [OF all]) auto
  moreover have "\<forall>p \<in> set (take i ptrs @ drop (Suc i) ptrs). cs \<le> p"
    using sd(7) by (auto dest: in_set_takeD in_set_dropD)
  ultimately have "slots po d' ho (take i ptrs @ drop (Suc i) ptrs) cs"
    using at i sd(1-5,9) l2 po_mono [of "?n - 1" ?n ho] unfolding slots_def
    by (auto simp: unat_u16_of_nat simp del: of_nat_diff)
  from that [OF d w this all] show thesis .
qed

text \<open>Writing a whole array.\<close>

lemma write_ptrs_spec:
  assumes "po ho (i + length ps) \<le> length data"
  shows "\<exists>d'. write_ptrs po ho i ps data = Inr d'
    \<and> agree_on (\<lambda>m. m < po ho i \<or> po ho (i + length ps) \<le> m) data d'
    \<and> (\<forall>j < length ps. u16_at d' (po ho (i + j)) = ps ! j)"
  using assms
proof (induction ps arbitrary: i data)
  case (Cons p ps)
  let ?d = "overlay data (po ho i) (be_of_u16 p)"
  have lt: "po ho (Suc i) \<le> po ho (i + length (p # ps))" by (rule po_mono) simp
  then have li: "po ho i + 2 \<le> length data" using Cons.prems by (simp add: po_Suc)
  have ov: "agree_on (\<lambda>m. m < po ho i \<or> po ho (Suc i) \<le> m) data ?d"
    using li by (intro agree_on_overlay) (auto simp: po_Suc)
  have "po ho (Suc i + length ps) \<le> length ?d" using Cons.prems li by simp
  from Cons.IH [OF this] obtain d' where d': "write_ptrs po ho (Suc i) ps ?d = Inr d'"
    and ag: "agree_on (\<lambda>m. m < po ho (Suc i) \<or> po ho (Suc i + length ps) \<le> m) ?d d'"
    and at: "\<forall>j < length ps. u16_at d' (po ho (Suc i + j)) = ps ! j" by blast
  have "u16_at d' (po ho i) = u16_at ?d (po ho i)"
    using li by (intro agree_on_u16 [OF ag]) (auto simp: po_Suc)
  then have "u16_at d' (po ho (i + j)) = (p # ps) ! j" if "j < length (p # ps)" for j
    using at that li by (cases j) auto
  moreover have "agree_on (\<lambda>m. m < po ho i \<or> po ho (i + length (p # ps)) \<le> m) data d'"
    using lt po_Suc [of ho i]
    by (intro agree_on_trans [OF agree_on_mono [OF ov] agree_on_mono [OF ag]]) auto
  moreover have "write_ptrs po ho i (p # ps) data = Inr d'"
    using li d' by (simp add: write_u16_be_def copy_at_def)
  ultimately show ?case by blast
qed auto

end

section \<open>Placing cells\<close>

definition cell_starts :: "nat \<Rightarrow> bytes list \<Rightarrow> nat list" where
  "cell_starts e cells = map (\<lambda>i. e - length (concat (drop i cells))) [0..<length cells]"

lemma length_cell_starts [simp]: "length (cell_starts e cells) = length cells"
  by (simp add: cell_starts_def)

lemma nth_cell_starts [simp]:
  "i < length cells \<Longrightarrow> cell_starts e cells ! i = e - length (concat (drop i cells))"
  by (simp add: cell_starts_def)

lemma cell_starts_snoc:
  "cell_starts e (cells @ [c]) = cell_starts (e - length c) cells @ [e - length c]"
  by (rule nth_equalityI) (auto simp: nth_append less_Suc_eq)

lemma place_cells_spec:
  assumes "e \<le> length data"
  shows "place_cells (rev cells) e data ptrs =
    (if length (concat cells) \<le> e
     then Inr (e - length (concat cells), overlay data (e - length (concat cells)) (concat cells),
            ptrs @ map of_nat (rev (cell_starts e cells)))
     else panic)"
  using assms
proof (induction cells arbitrary: e data ptrs rule: rev_induct)
  case Nil
  then show ?case by (simp add: cell_starts_def)
next
  case (snoc c cells)
  show ?case
  proof (cases "length c \<le> e")
    case True
    let ?d = "overlay data (e - length c) c"
    have fits: "e - length c + length c \<le> length data" using True snoc.prems by simp
    have IH: "place_cells (rev cells) (e - length c) ?d (ptrs @ [of_nat (e - length c)]) =
      (if length (concat cells) \<le> e - length c
       then Inr (e - length c - length (concat cells),
              overlay ?d (e - length c - length (concat cells)) (concat cells),
              (ptrs @ [of_nat (e - length c)]) @ map of_nat (rev (cell_starts (e - length c) cells)))
       else panic)"
      using snoc.prems fits by (intro snoc.IH) simp
    have ov: "overlay ?d (e - length c - length (concat cells)) (concat cells)
      = overlay data (e - length (concat (cells @ [c]))) (concat (cells @ [c]))"
      if "length (concat cells) \<le> e - length c"
      using that fits True snoc.prems
      by (auto simp: overlay_def min_def add.commute [of "length c"])
    show ?thesis
      using True fits IH ov
      by (auto simp: Let_def copy_at_def cell_starts_snoc simp del: of_nat_diff)
  qed simp
qed

lemma cell_starts_bounds:
  assumes "length (concat cells) \<le> e" and "p \<in> set (cell_starts e cells)"
  shows "e - length (concat cells) \<le> p" and "p \<le> e"
proof -
  obtain i where i: "i < length cells" "p = e - length (concat (drop i cells))"
    using assms(2) by (auto simp: cell_starts_def)
  have "length (concat cells) = length (concat (take i cells)) + length (concat (drop i cells))"
    by (metis append_take_drop_id concat_append length_append)
  with i assms(1) show "e - length (concat cells) \<le> p" and "p \<le> e" by auto
qed

context slot_array begin

lemma rebuild_cells_spec:
  assumes len: "length data < 65536" and n: "unat (u16_at data (ho + 3)) = length cells"
    and room: "po ho (length cells) + length (concat cells) \<le> length data"
  obtains d' where "rebuild_cells po ho cells data = Inr d'"
    and "slots po d' ho (cell_starts (length data) cells) (length data - length (concat cells))"
    and "drop (length data - length (concat cells)) d' = concat cells"
    and "agree_on (\<lambda>m. m < ho + 5 \<or> ho + 7 \<le> m \<and> m < po ho 0) data d'"
proof -
  let ?e = "length data" let ?cs = "?e - length (concat cells)"
  let ?ptrs = "map of_nat (cell_starts ?e cells) :: u16 list"
  have tot: "length (concat cells) \<le> ?e" and pe: "po ho (length cells) \<le> ?cs" using room by auto
  have cse: "?cs + length (concat cells) = ?e" using tot by simp
  have b: "ho + 8 \<le> po ho j" for j by (rule po_ge)
  have bc: "ho + 8 \<le> ?cs" using b [of "length cells"] pe by simp
  define d1 where "d1 = overlay data ?cs (concat cells)"
  have a1: "agree_on (\<lambda>m. m < ?cs) data d1"
    unfolding d1_def using cse by (intro agree_on_overlay) auto
  have l1: "length d1 = ?e" using agree_on_length [OF a1] .
  have dr: "drop ?cs d1 = concat cells" unfolding d1_def overlay_def using cse by simp
  define d2 where "d2 = overlay d1 (ho + 5) (be_of_u16 (of_nat ?cs))"
  have a2: "agree_on (\<lambda>m. m < ho + 5 \<or> ho + 7 \<le> m) d1 d2"
    unfolding d2_def using bc l1 by (intro agree_on_overlay) auto
  have l2: "length d2 = ?e" using agree_on_length [OF a2] l1 by simp
  have "po ho (0 + length ?ptrs) \<le> length d2" using pe l2 by simp
  from write_ptrs_spec [OF this] obtain d3 where d3: "write_ptrs po ho 0 ?ptrs d2 = Inr d3"
    and a3: "agree_on (\<lambda>m. m < po ho 0 \<or> po ho (length cells) \<le> m) d2 d3"
    and at: "\<forall>j < length cells. u16_at d3 (po ho j) = ?ptrs ! j" by auto
  have l3: "length d3 = ?e" using agree_on_length [OF a3] l2 by simp
  have run: "rebuild_cells po ho cells data = Inr d3"
    using place_cells_spec [of ?e data cells "[]"] tot d3 bc l1
    by (simp add: rebuild_cells_def write_u16_be_def copy_at_def rev_map
        del: of_nat_diff flip: d1_def d2_def)
  have all: "agree_on (\<lambda>m. m < ho + 5 \<or> ho + 7 \<le> m \<and> m < po ho 0) data d3"
    by (intro agree_on_trans [OF agree_on_mono [OF a1] agree_on_trans [OF agree_on_mono [OF a2]
          agree_on_mono [OF a3]]])
      (use bc b [of 0] po_mono [of 0 "length cells" ho] pe in auto)
  have hi: "agree_on (\<lambda>m. ?cs \<le> m) d1 d3"
    by (intro agree_on_trans [OF agree_on_mono [OF a2] agree_on_mono [OF a3]])
      (use bc pe in auto)
  have "unat (u16_at d3 (ho + 5)) = ?cs"
  proof -
    have "u16_at d3 (ho + 5) = u16_at d2 (ho + 5)"
      using bc b [of 0] l2 by (intro agree_on_u16 [OF a3]) auto
    also have "\<dots> = of_nat ?cs" using bc l1 by (simp add: d2_def)
    finally show ?thesis using len by (simp add: unat_u16_of_nat del: of_nat_diff)
  qed
  moreover have "u16_at d3 (ho + 3) = u16_at data (ho + 3)"
    using bc by (intro agree_on_u16 [OF all]) auto
  moreover have "unat (u16_at d3 (po ho j)) = cell_starts ?e cells ! j" if "j < length cells" for j
    using at that len by (simp add: unat_u16_of_nat del: of_nat_diff)
  ultimately have "slots po d3 ho (cell_starts ?e cells) ?cs"
    using len n pe l3 cell_starts_bounds(1) [OF tot] unfolding slots_def by auto
  then show thesis
    using that [OF run _ _ all] agree_on_drop [OF hi] dr by auto
qed

end

section \<open>Cell formats\<close>

lemma cell_at_bound: "cell_at enc data c \<Longrightarrow> fst c + length (enc (snd c)) \<le> length data"
  by (simp add: cell_at_def)

lemma cell_at_split:
  assumes "cell_at enc d c"
  shows "d = take (fst c) d @ enc (snd c) @ drop (fst c + length (enc (snd c))) d"
  using assms by (metis append_take_drop_id cell_at_def drop_drop add.commute slice_of_def)

lemma cell_at_agree:
  assumes "cell_at enc data c" and "agree_on P data d'"
    and "\<And>m. fst c \<le> m \<Longrightarrow> m < fst c + length (enc (snd c)) \<Longrightarrow> P m"
  shows "cell_at enc d' c"
proof -
  have "slice_of d' (fst c) (length (enc (snd c))) = slice_of data (fst c) (length (enc (snd c)))"
    using assms(2,3) cell_at_bound [OF assms(1)]
    by (intro nth_equalityI) (auto simp: agree_on_def)
  with assms(1,2) show ?thesis by (simp add: cell_at_def agree_on_def)
qed

lemma sorted_wrt_middle:
  "sorted_wrt R (ys @ x # zs) \<longleftrightarrow>
     sorted_wrt R (ys @ zs) \<and> (\<forall>y \<in> set ys. R y x) \<and> (\<forall>z \<in> set zs. R x z)"
  by (auto simp: sorted_wrt_append)

lemma sorted_wrt_insert:
  "sorted_wrt R (take i xs @ x # drop i xs) \<longleftrightarrow>
     sorted_wrt R xs \<and> (\<forall>y \<in> set (take i xs). R y x) \<and> (\<forall>z \<in> set (drop i xs). R x z)"
  by (simp add: sorted_wrt_middle)

lemma in_set_dropD_Suc: "x \<in> set (drop (Suc i) xs) \<Longrightarrow> x \<in> set (drop i xs)"
  using set_drop_subset_set_drop [of i "Suc i" xs] by auto

lemma sorted_wrt_remove: "sorted_wrt R xs \<Longrightarrow> sorted_wrt R (take i xs @ drop (Suc i) xs)"
  using sorted_wrt_append [of R "take i xs" "drop i xs"]
  by (auto simp: sorted_wrt_append sorted_wrt_drop dest: in_set_dropD_Suc)

text \<open>A cell format reads back what it encodes in a page, whatever is around it.\<close>

locale cell_format = slot_array po for po +
  fixes rd :: "bytes \<Rightarrow> nat \<Rightarrow> 'c res"
    and enc :: "'c \<Rightarrow> bytes"
    and ok :: "'c \<Rightarrow> bool"
  assumes rd_enc: "ok x \<Longrightarrow> length (pre @ enc x @ post) < 65536
      \<Longrightarrow> rd (pre @ enc x @ post) (length pre) = Inr x"
begin

lemma rd_cell_at:
  assumes "ok (snd c)" and "cell_at enc d c" and "length d < 65536"
  shows "rd d (fst c) = Inr (snd c)"
proof -
  note cell_at_split [OF assms(2)]
  with rd_enc [OF assms(1), of "take (fst c) d" "drop (fst c + length (enc (snd c))) d"] assms(2,3)
  show ?thesis by (simp add: cell_at_def)
qed

lemma holdsE:
  assumes "holds_cells po enc data ho cs xs"
  obtains cells where "slots po data ho (map fst cells) cs" and "map snd cells = xs"
    and "\<And>c. c \<in> set cells \<Longrightarrow> cell_at enc data c" and "sorted_wrt (apart enc) cells"
    and "length cells = length xs"
  using assms unfolding holds_cells_def by (metis length_map)

lemma shows_count:
  assumes "shows_cells po enc data ho xs"
  shows "cell_count data ho = Inr (length xs)"
  using assms po_ge [of ho "length xs"] by (simp add: shows_cells_def cell_count_def read_u16_be_eq)

lemma shows_ptr:
  assumes "shows_cells po enc data ho xs" and "i < length xs"
  shows "read_u16_be data (po ho i) = Inr (u16_at data (po ho i))"
    and "cell_at enc data (unat (u16_at data (po ho i)), xs ! i)"
proof -
  have "po ho i + 2 \<le> length data"
    using assms po_less [of i "length xs" ho] by (simp add: shows_cells_def)
  then show "read_u16_be data (po ho i) = Inr (u16_at data (po ho i))" by (rule read_u16_be_eq)
qed (use assms in \<open>simp add: shows_cells_def\<close>)

lemma shows_nth:
  assumes "shows_cells po enc data ho xs" and "\<forall>x \<in> set xs. ok x" and "i < length xs"
  shows "bindR (read_u16_be data (po ho i)) (\<lambda>p. rd data (unat p)) = Inr (xs ! i)"
proof -
  have "length data < 65536" using assms(1) by (simp add: shows_cells_def)
  then show ?thesis
    using rd_cell_at [OF _ shows_ptr(2) [OF assms(1,3)]] shows_ptr(1) [OF assms(1,3)] assms(2,3)
    by (simp del: read_u16_be_Inr)
qed

lemma holds_shows:
  assumes "holds_cells po enc data ho cs xs"
  shows "shows_cells po enc data ho xs"
proof -
  obtain cells where sl: "slots po data ho (map fst cells) cs" and sn: "map snd cells = xs"
    and at: "\<And>c. c \<in> set cells \<Longrightarrow> cell_at enc data c" and len: "length cells = length xs"
    using assms by (rule holdsE) blast
  have "cell_at enc data (unat (u16_at data (po ho i)), xs ! i)" if "i < length xs" for i
  proof -
    have "xs ! i = snd (cells ! i)" using that len nth_map [of i cells snd] by (simp add: sn)
    moreover have "unat (u16_at data (po ho i)) = fst (cells ! i)"
      using slotsD(6) [OF sl, of i] that len by simp
    moreover have "cell_at enc data (cells ! i)" using at that len by simp
    ultimately show ?thesis by simp
  qed
  with slotsD(1-4) [OF sl] len show ?thesis by (simp add: shows_cells_def)
qed

lemma holds_count:
  "holds_cells po enc data ho cs xs \<Longrightarrow> cell_count data ho = Inr (length xs)"
  by (rule shows_count [OF holds_shows])

lemma holds_size:
  assumes "holds_cells po enc data ho cs xs"
  shows "length data < 65536" and "cs \<le> length data" and "po ho (length xs) \<le> cs"
    and "unat (u16_at data (ho + 5)) = cs" and "ho + 8 \<le> cs"
proof -
  obtain cells :: "(nat \<times> 'c) list"
    where sl: "slots po data ho (map fst cells) cs" and "length cells = length xs"
    using assms by (rule holdsE) blast
  with slotsD [OF sl] show "length data < 65536" and "cs \<le> length data" and "po ho (length xs) \<le> cs"
    and "unat (u16_at data (ho + 5)) = cs" and "ho + 8 \<le> cs" by auto
qed

lemma holds_ptr:
  assumes "holds_cells po enc data ho cs xs" and "i < length xs"
  obtains p where "read_u16_be data (po ho i) = Inr p" and "cell_at enc data (unat p, xs ! i)"
  using shows_ptr [OF holds_shows [OF assms(1)] assms(2)] by (rule that)

lemma holds_nth:
  assumes "holds_cells po enc data ho cs xs" and "\<forall>x \<in> set xs. ok x" and "i < length xs"
  shows "bindR (read_u16_be data (po ho i)) (\<lambda>p. rd data (unat p)) = Inr (xs ! i)"
  by (rule shows_nth [OF holds_shows [OF assms(1)] assms(2,3)])

lemma holds_insert:
  assumes h: "holds_cells po enc data ho cs xs" and i: "i \<le> length xs"
    and fits: "po ho (length xs + 1) + 1 \<le> cs - length (enc x)"
  obtains d' where "insert_cell_at po data ho (enc x) (length xs) i = Inr (True, d')"
    and "holds_cells po enc d' ho (cs - length (enc x)) (take i xs @ x # drop i xs)"
    and "agree_on (\<lambda>m. m < ho + 3 \<or> ho + 7 \<le> m \<and> m < po ho 0 \<or> cs \<le> m) data d'"
proof -
  obtain cells where sl: "slots po data ho (map fst cells) cs" and sn: "map snd cells = xs"
    and at: "\<And>c. c \<in> set cells \<Longrightarrow> cell_at enc data c" and ap: "sorted_wrt (apart enc) cells"
    and len: "length cells = length xs"
    using h by (rule holdsE) blast
  let ?cs = "cs - length (enc x)" and ?cells = "take i cells @ (cs - length (enc x), x) # drop i cells"
  from insert_cell_at_fits [OF sl, of i "enc x"] i fits len obtain d' where
    d': "insert_cell_at po data ho (enc x) (length xs) i = Inr (True, d')"
    and sl': "slots po d' ho (take i (map fst cells) @ ?cs # drop i (map fst cells)) ?cs"
    and dr: "drop ?cs d' = enc x @ drop cs data"
    and ag: "agree_on (\<lambda>m. m < ho + 3 \<or> ho + 7 \<le> m \<and> m < po ho 0 \<or> cs \<le> m) data d'"
    by auto
  have lo: "cs \<le> fst c" if "c \<in> set cells" for c using slotsD(7) [OF sl, of "fst c"] that by simp
  have xl: "length (enc x) \<le> cs" using fits by simp
  have "cell_at enc d' (?cs, x)"
    using dr xl slotsD(2) [OF sl] agree_on_length [OF ag] by (simp add: cell_at_def slice_of_def)
  moreover have "cell_at enc d' c" if "c \<in> set cells" for c
    using lo [OF that] by (intro cell_at_agree [OF at [OF that] ag]) auto
  moreover have "apart enc (?cs, x) c \<and> apart enc c (?cs, x)" if "c \<in> set cells" for c
    using lo [OF that] xl by (simp add: apart_def)
  ultimately have "holds_cells po enc d' ho ?cs (take i xs @ x # drop i xs)"
    unfolding holds_cells_def using sl' ap sn
    by (intro exI [of _ ?cells])
      (auto simp: take_map drop_map sorted_wrt_insert dest: in_set_takeD in_set_dropD)
  from that [OF d' this ag] show thesis .
qed

lemma holds_full:
  assumes "holds_cells po enc data ho cs xs"
    and "\<not> po ho (length xs + 1) + 1 \<le> cs - length cell"
  shows "insert_cell_at po data ho cell (length xs) i = Inr (False, data)"
proof -
  obtain cells :: "(nat \<times> 'c) list"
    where sl: "slots po data ho (map fst cells) cs" and "length cells = length xs"
    using assms(1) by (rule holdsE) blast
  with insert_cell_at_full [OF sl, of cell i] assms(2) show ?thesis by simp
qed

lemma holds_remove:
  assumes h: "holds_cells po enc data ho cs xs" and i: "i < length xs"
  obtains d d' where "shift_ptrs_down po ho i (length xs - 1 - i) data = Inr d"
    and "write_u16_be d (ho + 3) (of_nat (length xs - 1)) = Inr d'"
    and "holds_cells po enc d' ho cs (take i xs @ drop (Suc i) xs)"
    and "agree_on (\<lambda>m. m < ho + 3 \<or> ho + 5 \<le> m \<and> m < po ho 0 \<or> cs \<le> m) data d'"
proof -
  obtain cells where sl: "slots po data ho (map fst cells) cs" and sn: "map snd cells = xs"
    and at: "\<And>c. c \<in> set cells \<Longrightarrow> cell_at enc data c" and ap: "sorted_wrt (apart enc) cells"
    and len: "length cells = length xs"
    using h by (rule holdsE) blast
  from remove_ptr [OF sl, of i] i len obtain d d' where
    d: "shift_ptrs_down po ho i (length xs - 1 - i) data = Inr d"
      "write_u16_be d (ho + 3) (of_nat (length xs - 1)) = Inr d'"
    and sl': "slots po d' ho (take i (map fst cells) @ drop (Suc i) (map fst cells)) cs"
    and ag: "agree_on (\<lambda>m. m < ho + 3 \<or> ho + 5 \<le> m \<and> m < po ho 0 \<or> cs \<le> m) data d'"
    by auto
  have "cell_at enc d' c" if "c \<in> set cells" for c
    using slotsD(7) [OF sl, of "fst c"] that by (intro cell_at_agree [OF at [OF that] ag]) auto
  then have "holds_cells po enc d' ho cs (take i xs @ drop (Suc i) xs)"
    unfolding holds_cells_def using sl' sn sorted_wrt_remove [OF ap, of i]
    by (intro exI [of _ "take i cells @ drop (Suc i) cells"])
      (auto simp: take_map drop_map dest: in_set_takeD in_set_dropD)
  from that [OF d this ag] show thesis .
qed

lemma slots_agree:
  assumes sl: "slots po data ho ptrs cs" and ag: "agree_on (\<lambda>m. m < cs) data d'"
  shows "slots po d' ho ptrs cs"
proof -
  have "u16_at d' a = u16_at data a" if "a + 2 \<le> cs" for a
    using that slotsD(2) [OF sl] by (intro agree_on_u16 [OF ag]) auto
  moreover have "po ho i + 2 \<le> cs" if "i < length ptrs" for i
    using po_less [OF that, of ho] slotsD(3) [OF sl] by simp
  ultimately show ?thesis
    using sl slotsD(8) [OF sl] agree_on_length [OF ag] by (simp add: slots_def)
qed

lemma holds_replace:
  assumes h: "holds_cells po enc data ho cs xs" and i: "i < length xs"
    and p: "read_u16_be data (po ho i) = Inr p" and y: "length (enc y) = length (enc (xs ! i))"
  shows "holds_cells po enc (overlay data (unat p) (enc y)) ho cs (xs[i := y])"
    and "agree_on (\<lambda>m. m < cs) data (overlay data (unat p) (enc y))"
proof -
  obtain cells where sl: "slots po data ho (map fst cells) cs" and sn: "map snd cells = xs"
    and at: "\<And>c. c \<in> set cells \<Longrightarrow> cell_at enc data c" and ap: "sorted_wrt (apart enc) cells"
    and len: "length cells = length xs"
    using h by (rule holdsE) blast
  let ?d = "overlay data (unat p) (enc y)" and ?cells = "cells[i := (unat p, y)]"
  have ci: "cells ! i = (unat p, xs ! i)"
  proof (rule prod_eqI)
    show "snd (cells ! i) = snd (unat p, xs ! i)" using i len nth_map [of i cells snd] by (simp add: sn)
    show "fst (cells ! i) = fst (unat p, xs ! i)" using p slotsD(6) [OF sl, of i] i len by simp
  qed
  have ci_in: "cells ! i \<in> set cells" using i len by simp
  have pb: "unat p + length (enc y) \<le> length data" using cell_at_bound [OF at [OF ci_in]] y by (simp add: ci)
  have pcs: "cs \<le> unat p" using slotsD(7) [OF sl, of "unat p"] ci ci_in by (metis fst_conv image_eqI set_map)
  show ag: "agree_on (\<lambda>m. m < cs) data ?d" using pb pcs by (intro agree_on_overlay) auto
  have out: "agree_on (\<lambda>m. m < unat p \<or> unat p + length (enc y) \<le> m) data ?d"
    using pb by (intro agree_on_overlay) auto
  have apart_i: "apart enc (cells ! j) (cells ! i)" if "j < length cells" "j \<noteq> i" for j
    using that ap i len by (cases j i rule: linorder_cases) (auto simp: sorted_wrt_iff_nth_less apart_def)
  have "cell_at enc ?d (?cells ! j)" if "j < length cells" for j
  proof (cases "j = i")
    case True
    then show ?thesis using that pb slice_of_overlay_same [OF pb] by (simp add: cell_at_def)
  next
    case False
    then have "cell_at enc ?d (cells ! j)"
      using apart_i [OF that False] y at [of "cells ! j"] that
      by (intro cell_at_agree [OF _ out]) (auto simp: apart_def ci)
    with False show ?thesis by simp
  qed
  then have "\<forall>c \<in> set ?cells. cell_at enc ?d c" by (metis in_set_conv_nth length_list_update)
  moreover have "map fst ?cells = map fst cells"
    using ci i len list_update_id [of "map fst cells" i] by (simp add: map_update)
  moreover have "sorted_wrt (apart enc) ?cells"
    using ap ci i len y list_update_id [of "map (extent enc) cells" i]
    unfolding apart_extents by (simp add: map_update extent_def)
  ultimately show "holds_cells po enc ?d ho cs (xs[i := y])"
    unfolding holds_cells_def using slots_agree [OF sl ag] sn
    by (intro exI [of _ ?cells]) (auto simp: map_update)
qed

lemma placed_apart:
  assumes "length (concat (map enc xs)) \<le> e"
  shows "sorted_wrt (apart enc) (zip (cell_starts e (map enc xs)) xs)"
proof -
  have "e - length (concat (drop i (map enc xs))) + length (enc (xs ! i))
      \<le> e - length (concat (drop j (map enc xs)))" if "i < j" "j < length xs" for i j
  proof -
    have "length (concat (drop i (map enc xs))) \<le> length (concat (map enc xs))"
      by (metis append_take_drop_id concat_append le_add2 length_append)
    moreover have "drop i (map enc xs) = enc (xs ! i) # drop (Suc i) (map enc xs)"
      using that Cons_nth_drop_Suc [of i "map enc xs"] by simp
    moreover have "length (concat (drop j (map enc xs))) \<le> length (concat (drop (Suc i) (map enc xs)))"
    proof -
      have "drop j (map enc xs) = drop (j - Suc i) (drop (Suc i) (map enc xs))" using that by simp
      then show ?thesis by (metis append_take_drop_id concat_append le_add2 length_append)
    qed
    ultimately show ?thesis using assms by simp
  qed
  then show ?thesis by (auto simp: sorted_wrt_iff_nth_less apart_def)
qed

lemma placed_at:
  assumes "drop (length d - length (concat (map enc xs))) d = concat (map enc xs)"
    and "length (concat (map enc xs)) \<le> length d" and i: "i < length xs"
  shows "cell_at enc d (length d - length (concat (drop i (map enc xs))), xs ! i)"
proof -
  let ?r = "concat (drop i (map enc xs))" and ?t = "concat (take i (map enc xs))"
  have split: "concat (map enc xs) = ?t @ ?r" by (simp flip: concat_append)
  then have le: "length ?r \<le> length d" and tot: "length (concat (map enc xs)) = length ?t + length ?r"
    using assms(2) by simp_all
  have "length d - length ?r = length ?t + (length d - length (concat (map enc xs)))"
    using tot assms(2) by simp
  then have "drop (length d - length ?r) d = drop (length ?t) (drop (length d - length (concat (map enc xs))) d)"
    by simp
  also have "\<dots> = ?r" using assms(1) split by simp
  also have "?r = enc (xs ! i) @ concat (drop (Suc i) (map enc xs))"
    using i by (simp flip: Cons_nth_drop_Suc)
  finally have d: "drop (length d - length ?r) d = enc (xs ! i) @ concat (drop (Suc i) (map enc xs))" .
  have "length (enc (xs ! i)) \<le> length ?r" using i by (simp flip: Cons_nth_drop_Suc)
  with d le show ?thesis by (simp add: cell_at_def slice_of_def)
qed

lemma holds_rebuild:
  assumes "length data < 65536" and "unat (u16_at data (ho + 3)) = length xs"
    and "po ho (length xs) + length (concat (map enc xs)) \<le> length data"
  obtains d' where "rebuild_cells po ho (map enc xs) data = Inr d'"
    and "holds_cells po enc d' ho (length data - length (concat (map enc xs))) xs"
    and "agree_on (\<lambda>m. m < ho + 5 \<or> ho + 7 \<le> m \<and> m < po ho 0) data d'"
proof -
  from rebuild_cells_spec [of data ho "map enc xs"] assms obtain d' where
    d': "rebuild_cells po ho (map enc xs) data = Inr d'"
    and sl: "slots po d' ho (cell_starts (length data) (map enc xs))
        (length data - length (concat (map enc xs)))"
    and dr: "drop (length data - length (concat (map enc xs))) d' = concat (map enc xs)"
    and ag: "agree_on (\<lambda>m. m < ho + 5 \<or> ho + 7 \<le> m \<and> m < po ho 0) data d'"
    by auto
  let ?cells = "zip (cell_starts (length data) (map enc xs)) xs"
  have "\<forall>c \<in> set ?cells. cell_at enc d' c"
    using placed_at [of d' xs] dr assms(3) agree_on_length [OF ag] by (auto simp: set_zip)
  then have "holds_cells po enc d' ho (length data - length (concat (map enc xs))) xs"
    unfolding holds_cells_def using sl placed_apart [of xs "length data"] assms(3)
    by (intro exI [of _ ?cells]) auto
  from that [OF d' this ag] show thesis .
qed

end

end
