(* ===== verification/Cell_Formats.thy ===== *)
theory Cell_Formats
  imports Slotted_Page
begin

text \<open>
  The four cell formats of the b-tree as interpretations of \<open>cell_format\<close>: rows of table leaves,
  payloads of index leaves, and child pointers with their dividers of interior pages. A key or a
  length of \<open>2 ^ 56\<close> or more is not encodable, because the code's varints do not round trip there.
\<close>

section \<open>Small numbers\<close>

lemma put_varint_small: "unat v < 2 ^ 56 \<Longrightarrow> put_varint v acc = Inr (acc @ varint_enc v)"
  by (simp add: put_varint_eq)

lemma unat_length: "n < 2 ^ 64 \<Longrightarrow> unat (of_nat n :: u64) = n"
  by (simp only: unat_of_nat) (simp add: take_bit_nat_eq_self)

section \<open>Rows of a table leaf\<close>

definition table_row :: "bytes \<Rightarrow> nat \<Rightarrow> (i64 \<times> bytes) res" where
  "table_row data ptr =
     bindR (read_cell_rowid data ptr) (\<lambda>(rowid, payload_offset).
     bindR (read_varint data payload_offset) (\<lambda>(payload_len, n).
     let start = payload_offset + n in
     bindR (add_usize start (unat payload_len)) (\<lambda>e.
     bindR (slice data start e) (\<lambda>rec. Inr (rowid, rec)))))"

definition table_cell :: "i64 \<times> bytes \<Rightarrow> bytes" where
  "table_cell row = varint_enc (fst row) @ varint_enc (of_nat (length (snd row))) @ snd row"

definition table_row_ok :: "i64 \<times> bytes \<Rightarrow> bool" where
  "table_row_ok row \<longleftrightarrow> unat (fst row) < 2 ^ 56 \<and> length (snd row) < 2 ^ 56"

lemma read_after:
  assumes "unat v < 2 ^ 56"
  shows "read_varint (pre @ mid @ varint_enc v @ post) (length pre + length mid)
    = Inr (v, length (varint_enc v))"
  using vc.dec_enc [OF assms, of "pre @ mid" post] by simp

lemma table_row_enc:
  assumes "table_row_ok row" and "length (pre @ table_cell row @ post) < 65536"
  shows "table_row (pre @ table_cell row @ post) (length pre) = Inr row"
proof -
  obtain k r where row: "row = (k, r)" by (cases row)
  have k: "unat k < 2 ^ 56" and r: "length r < 2 ^ 56" using assms(1) row by (auto simp: table_row_ok_def)
  have ul: "unat (of_nat (length r) :: u64) = length r" using r by (intro unat_length) simp
  let ?d = "pre @ table_cell row @ post" and ?e = "varint_enc (of_nat (length r))"
  have d: "?d = pre @ varint_enc k @ ?e @ r @ post" by (simp add: row table_cell_def)
  have "read_varint ?d (length pre) = Inr (k, length (varint_enc k))"
    unfolding d by (rule vc.dec_enc [OF k])
  moreover have "read_varint ?d (length pre + length (varint_enc k)) = Inr (of_nat (length r), length ?e)"
    unfolding d by (rule read_after) (use ul r in simp)
  moreover have "slice ?d (length pre + length (varint_enc k) + length ?e)
      (length pre + length (varint_enc k) + length ?e + length r) = Inr r"
    unfolding d using slice_of_middle [of "pre @ varint_enc k @ ?e" r post] by (simp add: add.assoc)
  moreover have "length pre + length (varint_enc k) + length ?e + length r < 2 ^ 64"
    using assms(2) by (simp add: row table_cell_def add.assoc)
  ultimately show ?thesis
    by (simp add: table_row_def read_cell_rowid_def add_usize_def ul Let_def row del: slice_eq_Inr)
qed

section \<open>The other formats\<close>

definition payload_cell :: "bytes \<Rightarrow> bytes" where
  "payload_cell payload = varint_enc (of_nat (length payload)) @ payload"

definition payload_ok :: "bytes \<Rightarrow> bool" where
  "payload_ok payload \<longleftrightarrow> length payload < 2 ^ 56"

definition divider_cell :: "u32 \<times> i64 \<Rightarrow> bytes" where
  "divider_cell c = be_of_u32 (fst c) @ varint_enc (snd c)"

definition divider_ok :: "u32 \<times> i64 \<Rightarrow> bool" where
  "divider_ok c \<longleftrightarrow> unat (snd c) < 2 ^ 56"

definition index_divider_cell :: "u32 \<times> bytes \<Rightarrow> bytes" where
  "index_divider_cell c = be_of_u32 (fst c) @ payload_cell (snd c)"

definition index_divider_ok :: "u32 \<times> bytes \<Rightarrow> bool" where
  "index_divider_ok c \<longleftrightarrow> payload_ok (snd c)"

text \<open>The builders of the code write these encodings.\<close>

lemma build_cells:
  "table_row_ok (k, r) \<Longrightarrow> build_table_cell k r = Inr (table_cell (k, r))"
  "payload_ok b \<Longrightarrow> build_index_cell b = Inr (payload_cell b)"
  "divider_ok (c, k) \<Longrightarrow> build_interior_table_cell c k = Inr (divider_cell (c, k))"
  "index_divider_ok (c, b) \<Longrightarrow> build_interior_index_cell c b = Inr (index_divider_cell (c, b))"
  by (simp_all add: build_table_cell_def build_index_cell_def build_interior_table_cell_def
      build_interior_index_cell_def table_row_ok_def payload_ok_def divider_ok_def index_divider_ok_def
      table_cell_def payload_cell_def divider_cell_def index_divider_cell_def put_varint_small unat_length)

lemma u32_at_middle: "u32_at (pre @ be_of_u32 w @ post) (length pre) = w"
  by (simp add: u32_at_def be_of_u32_def nth_append u32_of_be_inverse)

lemma read_payload_enc:
  assumes "payload_ok b" and "length (pre @ payload_cell b @ post) < 65536"
  shows "read_varint (pre @ payload_cell b @ post) (length pre)
      = Inr (of_nat (length b), length (varint_enc (of_nat (length b))))"
    and "unat (of_nat (length b) :: u64) = length b"
    and "slice (pre @ payload_cell b @ post) (length pre + length (varint_enc (of_nat (length b))))
      (length pre + length (varint_enc (of_nat (length b))) + length b) = Inr b"
    and "length pre + length (varint_enc (of_nat (length b))) + length b
      \<le> length (pre @ payload_cell b @ post)"
proof -
  let ?e = "varint_enc (of_nat (length b))"
  show u: "unat (of_nat (length b) :: u64) = length b"
    using assms(1) by (intro unat_length) (simp add: payload_ok_def)
  have d: "pre @ payload_cell b @ post = pre @ ?e @ (b @ post)" by (simp add: payload_cell_def)
  show "read_varint (pre @ payload_cell b @ post) (length pre) = Inr (of_nat (length b), length ?e)"
    unfolding d using assms(1) u by (intro vc.dec_enc) (simp add: payload_ok_def)
  show "slice (pre @ payload_cell b @ post) (length pre + length ?e)
      (length pre + length ?e + length b) = Inr b"
    unfolding d using slice_of_middle [of "pre @ ?e" b post] by simp
qed (simp add: payload_cell_def)

lemma read_index_payload_enc:
  assumes "payload_ok b" and "length (pre @ payload_cell b @ post) < 65536"
  shows "read_index_payload (pre @ payload_cell b @ post) (length pre) = Inr b"
  using read_payload_enc [OF assms] assms(2)
  by (simp add: read_index_payload_def add_usize_def Let_def del: slice_eq_Inr)

lemma read_interior_table_enc:
  assumes "divider_ok c" and "length (pre @ divider_cell c @ post) < 65536"
  shows "read_interior_table_cell (pre @ divider_cell c @ post) (length pre) = Inr c"
  using assms(1) u32_at_middle [of pre "fst c" "varint_enc (snd c) @ post"]
    vc.dec_enc [of "snd c" "pre @ be_of_u32 (fst c)" post]
  by (simp add: read_interior_table_cell_def divider_cell_def divider_ok_def read_u32_be_eq)

lemma read_interior_index_enc:
  assumes "index_divider_ok c" and "length (pre @ index_divider_cell c @ post) < 65536"
  shows "read_interior_index_cell (pre @ index_divider_cell c @ post) (length pre) = Inr c"
proof -
  have ok: "payload_ok (snd c)" using assms(1) by (simp add: index_divider_ok_def)
  have "length ((pre @ be_of_u32 (fst c)) @ payload_cell (snd c) @ post) < 65536"
    using assms(2) by (simp add: index_divider_cell_def)
  from read_payload_enc [OF ok this] this u32_at_middle [of pre "fst c" "payload_cell (snd c) @ post"]
  show ?thesis
    by (simp add: read_interior_index_cell_def index_divider_cell_def add_usize_def Let_def
        read_u32_be_eq del: slice_eq_Inr)
qed

section \<open>Interpretations\<close>

lemma slot_array_leaf: "slot_array leaf_cell_ptr_offset"
  by unfold_locales (simp_all add: leaf_cell_ptr_offset_def)

lemma slot_array_interior: "slot_array interior_cell_ptr_offset"
  by unfold_locales (simp_all add: interior_cell_ptr_offset_def)

interpretation tl: cell_format leaf_cell_ptr_offset table_row table_cell table_row_ok
  by (intro cell_format.intro slot_array_leaf cell_format_axioms.intro table_row_enc)

interpretation il: cell_format leaf_cell_ptr_offset read_index_payload payload_cell payload_ok
  by (intro cell_format.intro slot_array_leaf cell_format_axioms.intro read_index_payload_enc)

interpretation ti: cell_format interior_cell_ptr_offset read_interior_table_cell divider_cell divider_ok
  by (intro cell_format.intro slot_array_interior cell_format_axioms.intro read_interior_table_enc)

interpretation ii: cell_format interior_cell_ptr_offset read_interior_index_cell index_divider_cell
    index_divider_ok
  by (intro cell_format.intro slot_array_interior cell_format_axioms.intro read_interior_index_enc)

end
