(* ===== verification/Table_Leaf.thy ===== *)
theory Table_Leaf
  imports Cell_Formats
begin

text \<open>
  Leaves of a table b-tree as sorted lists of rows: what the search, the insertion, the update, the
  deletion and the split of a leaf page do to the list.
\<close>

section \<open>Rows in key order\<close>

type_synonym row = "i64 \<times> bytes"

abbreviation rowkey :: "row \<Rightarrow> int" where
  "rowkey r \<equiv> sint (fst r)"

definition rows_sorted :: "row list \<Rightarrow> bool" where
  "rows_sorted rows = sorted_wrt (\<lambda>r s. rowkey r < rowkey s) rows"

lemma rows_sorted_simps [simp]:
  "rows_sorted []"
  "rows_sorted (r # rows) \<longleftrightarrow> (\<forall>s \<in> set rows. rowkey r < rowkey s) \<and> rows_sorted rows"
  by (simp_all add: rows_sorted_def)

lemma rows_sorted_append [simp]:
  "rows_sorted (xs @ ys) \<longleftrightarrow>
     rows_sorted xs \<and> rows_sorted ys \<and> (\<forall>x \<in> set xs. \<forall>y \<in> set ys. rowkey x < rowkey y)"
  by (simp add: rows_sorted_def sorted_wrt_append)

lemma rows_sorted_distinct: "rows_sorted rows \<Longrightarrow> distinct (map fst rows)"
  by (induction rows) fastforce+

lemma first_at_remove:
  assumes "rows_sorted rows" and "first_at (\<lambda>r. fst r = k) rows < length rows"
  shows "take (first_at (\<lambda>r. fst r = k) rows) rows @ drop (Suc (first_at (\<lambda>r. fst r = k) rows)) rows
    = filter (\<lambda>r. fst r \<noteq> k) rows"
  using assms
proof (induction rows)
  case (Cons r rows)
  show ?case
  proof (cases "fst r = k")
    case True
    then have "filter (\<lambda>r. fst r \<noteq> k) rows = rows"
      using Cons.prems(1) by (intro filter_True) auto
    with True show ?thesis by (simp add: first_at_def)
  next
    case False
    with Cons show ?thesis by (simp add: first_at_def)
  qed
qed simp

definition set_row :: "i64 \<Rightarrow> bytes \<Rightarrow> row list \<Rightarrow> row list" where
  "set_row k rec rows = map (\<lambda>r. if fst r = k then (k, rec) else r) rows"

lemma first_at_update:
  assumes "rows_sorted rows" and "first_at (\<lambda>r. fst r = k) rows < length rows"
  shows "rows[first_at (\<lambda>r. fst r = k) rows := (k, rec)] = set_row k rec rows"
  using assms
proof (induction rows)
  case (Cons r rows)
  show ?case
  proof (cases "fst r = k")
    case True
    then have "set_row k rec rows = rows"
      using Cons.prems(1) unfolding set_row_def by (intro map_idI) auto
    with True show ?thesis by (simp add: first_at_def set_row_def)
  next
    case False
    with Cons show ?thesis by (simp add: first_at_def set_row_def)
  qed
qed simp

lemma set_row_sorted: "rows_sorted rows \<Longrightarrow> rows_sorted (set_row k rec rows)"
  by (induction rows) (auto simp: set_row_def)

lemma filter_sorted: "rows_sorted rows \<Longrightarrow> rows_sorted (filter P rows)"
  by (induction rows) auto

lemma rowkey_eq [simp]: "rowkey r = rowkey s \<longleftrightarrow> fst r = fst s"
  by (auto intro: signed_word_eqI)

lemma first_at_insort:
  "(\<forall>r \<in> set rows. fst r \<noteq> fst x) \<Longrightarrow>
   (let i = first_at (\<lambda>r. rowkey x < rowkey r) rows in take i rows @ x # drop i rows)
   = insort_key rowkey x rows"
proof (induction rows)
  case (Cons r rows)
  then have "rowkey x < rowkey r \<or> rowkey r < rowkey x"
    using rowkey_eq [of x r] by (auto simp del: rowkey_eq)
  with Cons show ?case by (auto simp: first_at_def Let_def)
qed (simp add: first_at_def)

lemma insort_sorted:
  "rows_sorted rows \<Longrightarrow> (\<forall>r \<in> set rows. fst r \<noteq> fst x) \<Longrightarrow> rows_sorted (insort_key rowkey x rows)"
proof (induction rows)
  case (Cons r rows)
  then have "rowkey x < rowkey r \<or> rowkey r < rowkey x"
    using rowkey_eq [of x r] by (auto simp del: rowkey_eq)
  with Cons show ?case by (auto simp: set_insort_key)
qed simp

section \<open>The rows of a page\<close>

definition table_leaf :: "bytes \<Rightarrow> nat \<Rightarrow> row list \<Rightarrow> bool" where
  "table_leaf data ho rows \<longleftrightarrow>
     data ! ho = PAGE_TYPE_LEAF_TABLE \<and> rows_sorted rows \<and> (\<forall>r \<in> set rows. table_row_ok r)
     \<and> (\<exists>cs. holds_cells leaf_cell_ptr_offset table_cell data ho cs rows)"

lemma table_leafE:
  assumes "table_leaf data ho rows"
  obtains cs where "holds_cells leaf_cell_ptr_offset table_cell data ho cs rows"
    and "data ! ho = PAGE_TYPE_LEAF_TABLE" and "rows_sorted rows" and "\<forall>r \<in> set rows. table_row_ok r"
    and "ho < length data" and "length data < 65536"
proof -
  obtain cs where h: "holds_cells leaf_cell_ptr_offset table_cell data ho cs rows"
    using assms by (auto simp: table_leaf_def)
  from that [OF h] tl.holds_size [OF h] assms show thesis by (auto simp: table_leaf_def)
qed

lemma table_leaf_count: "table_leaf data ho rows \<Longrightarrow> cell_count data ho = Inr (length rows)"
  by (auto simp: table_leaf_def intro: tl.holds_count)

lemma leaf_ptr_bind: "bindR (leaf_ptr data ho i) f = bindR (read_u16_be data (leaf_cell_ptr_offset ho i)) (\<lambda>p. f (unat p))"
  by (simp add: leaf_ptr_def bindR_assoc)

lemma table_row_key:
  assumes "table_row data p = Inr r"
  shows "\<exists>off. read_cell_rowid data p = Inr (fst r, off)"
proof -
  obtain k off where "read_cell_rowid data p = Inr (k, off)"
    using assms by (cases "read_cell_rowid data p") (auto simp: table_row_def)
  moreover from this assms have "fst r = k"
    by (auto simp: table_row_def Let_def bindR_eq_Inr split: prod.splits)
  ultimately show ?thesis by simp
qed

text \<open>What the searches read at each index.\<close>

lemma table_leaf_keys:
  assumes "table_leaf data ho rows"
  obtains offs where "length offs = length rows"
    and "\<And>j. j < length rows \<Longrightarrow> leaf_table_key data ho j = Inr (fst (rows ! j), offs ! j)"
proof -
  obtain cs where h: "holds_cells leaf_cell_ptr_offset table_cell data ho cs rows"
    and ok: "\<forall>r \<in> set rows. table_row_ok r"
    using assms by (rule table_leafE)
  have "\<exists>off. leaf_table_key data ho j = Inr (fst (rows ! j), off)" if j: "j < length rows" for j
  proof -
    have "bindR (leaf_ptr data ho j) (table_row data) = Inr (rows ! j)"
      unfolding leaf_ptr_bind by (rule tl.holds_nth [OF h ok j])
    then obtain p where p: "leaf_ptr data ho j = Inr p" "table_row data p = Inr (rows ! j)"
      by (rule bindR_E)
    from table_row_key [OF p(2)] p(1) show ?thesis by (auto simp: leaf_table_key_def)
  qed
  then obtain off where "\<And>j. j < length rows \<Longrightarrow> leaf_table_key data ho j = Inr (fst (rows ! j), off j)"
    by metis
  with that [of "map off [0..<length rows]"] show thesis by simp
qed

lemma first_at_zip:
  "length offs = length rows \<Longrightarrow>
   first_at (\<lambda>(k, _). P k) (zip (map fst rows) offs) = first_at (\<lambda>r. P (fst r)) rows"
proof (induction rows arbitrary: offs)
  case (Cons r rows)
  then show ?case by (cases offs) (simp_all add: first_at_def)
qed (simp add: first_at_def)

lemma table_leaf_scan:
  assumes "table_leaf data ho rows"
  obtains off where "scan_from (leaf_table_key data ho) (\<lambda>(k, _). P k) 0 (length rows) =
    Inr (if first_at (\<lambda>r. P (fst r)) rows < length rows
         then Some (first_at (\<lambda>r. P (fst r)) rows,
           (fst (rows ! first_at (\<lambda>r. P (fst r)) rows), off)) else None)"
proof -
  obtain offs where len: "length offs = length rows"
    and key: "\<And>j. j < length rows \<Longrightarrow> leaf_table_key data ho j = Inr (fst (rows ! j), offs ! j)"
    using assms by (rule table_leaf_keys) blast
  have "scan_from (leaf_table_key data ho) (\<lambda>(k, _). P k) 0 (length (zip (map fst rows) offs)) =
    Inr (if first_at (\<lambda>(k, _). P k) (zip (map fst rows) offs) < length (zip (map fst rows) offs)
         then Some (0 + first_at (\<lambda>(k, _). P k) (zip (map fst rows) offs),
           zip (map fst rows) offs ! first_at (\<lambda>(k, _). P k) (zip (map fst rows) offs)) else None)"
    using key len by (intro scan_from_list) simp
  with len that show thesis by (simp add: first_at_zip split: if_splits)
qed

text \<open>Searching.\<close>

lemma find_cell_leaf:
  assumes "table_leaf data ho rows"
  shows "find_cell_in_page_table data ho key = Inr (if key \<in> fst ` set rows then Some key else None)"
proof -
  let ?i = "first_at (\<lambda>r. fst r = key) rows"
  obtain off where "scan_from (leaf_table_key data ho) (\<lambda>(k, _). k = key) 0 (length rows) =
    Inr (if ?i < length rows then Some (?i, (fst (rows ! ?i), off)) else None)"
    using table_leaf_scan [OF assms, of "\<lambda>k. k = key"] by blast
  moreover have "?i < length rows \<longleftrightarrow> key \<in> fst ` set rows" by (auto simp: first_at_less)
  moreover have "?i < length rows \<Longrightarrow> fst (rows ! ?i) = key" by (rule first_at_holds)
  ultimately show ?thesis
    by (auto simp: find_cell_in_page_table_def table_leaf_count [OF assms])
qed

text \<open>Inserting. The cell fits when the pointer array, grown by one, stays clear of it.\<close>

definition leaf_fits :: "bytes \<Rightarrow> nat \<Rightarrow> bytes \<Rightarrow> bool" where
  "leaf_fits data ho cell \<longleftrightarrow>
     leaf_cell_ptr_offset ho (unat (u16_at data (ho + 3)) + 1) + 1
       \<le> unat (u16_at data (ho + 5)) - length cell"

lemma table_leaf_fits:
  assumes "holds_cells leaf_cell_ptr_offset table_cell data ho cs rows"
  shows "leaf_fits data ho cell
    \<longleftrightarrow> leaf_cell_ptr_offset ho (length rows + 1) + 1 \<le> cs - length cell"
proof -
  have "ho + 5 \<le> length data" using tl.holds_size(2,5) [OF assms] by simp
  then have "unat (u16_at data (ho + 3)) = length rows"
    using tl.holds_count [OF assms] by (simp add: cell_count_def read_u16_be_eq)
  with tl.holds_size(4) [OF assms] show ?thesis by (simp add: leaf_fits_def)
qed

lemma try_insert_leaf:
  assumes l: "table_leaf data ho rows" and x: "table_row_ok x" and new: "fst x \<notin> fst ` set rows"
  shows "leaf_fits data ho (table_cell x) \<Longrightarrow>
      \<exists>data'. try_insert_leaf_cell data ho (table_cell x) (fst x) = Inr (True, data')
        \<and> table_leaf data' ho (insort_key rowkey x rows) \<and> length data' = length data
        \<and> take ho data' = take ho data"
    and "\<not> leaf_fits data ho (table_cell x) \<Longrightarrow>
      try_insert_leaf_cell data ho (table_cell x) (fst x) = Inr (False, data)"
proof -
  obtain cs where h: "holds_cells leaf_cell_ptr_offset table_cell data ho cs rows"
    and ty: "data ! ho = PAGE_TYPE_LEAF_TABLE" and so: "rows_sorted rows"
    and ok: "\<forall>r \<in> set rows. table_row_ok r" and hl: "ho < length data"
    using l by (rule table_leafE) blast
  let ?i = "first_at (\<lambda>r. rowkey x < rowkey r) rows"
  obtain off where sc: "scan_from (leaf_table_key data ho) (\<lambda>(k, _). sint (fst x) < sint k) 0 (length rows) =
    Inr (if ?i < length rows then Some (?i, (fst (rows ! ?i), off)) else None)"
    using table_leaf_scan [OF l, of "\<lambda>k. sint (fst x) < sint k"] by blast
  have run: "try_insert_leaf_cell data ho (table_cell x) (fst x)
    = insert_cell_at leaf_cell_ptr_offset data ho (table_cell x) (length rows) ?i"
    using sc first_at_le [of "\<lambda>r. rowkey x < rowkey r" rows]
    by (cases "?i < length rows")
      (simp_all add: try_insert_leaf_cell_def table_leaf_count [OF l] split_def scan_index_def)
  have i: "?i \<le> length rows" by (rule first_at_le)
  have new': "\<forall>r \<in> set rows. fst r \<noteq> fst x" using new by (metis image_eqI)
  show "\<exists>data'. try_insert_leaf_cell data ho (table_cell x) (fst x) = Inr (True, data')
        \<and> table_leaf data' ho (insort_key rowkey x rows) \<and> length data' = length data
        \<and> take ho data' = take ho data"
    if "leaf_fits data ho (table_cell x)"
  proof -
    have "leaf_cell_ptr_offset ho (length rows + 1) + 1 \<le> cs - length (table_cell x)"
      using that by (simp only: table_leaf_fits [OF h])
    from tl.holds_insert [OF h i this] obtain d' where
      d': "insert_cell_at leaf_cell_ptr_offset data ho (table_cell x) (length rows) ?i = Inr (True, d')"
      and h': "holds_cells leaf_cell_ptr_offset table_cell d' ho (cs - length (table_cell x))
          (take ?i rows @ x # drop ?i rows)"
      and ag: "agree_on (\<lambda>m. m < ho + 3 \<or> ho + 7 \<le> m \<and> m < leaf_cell_ptr_offset ho 0 \<or> cs \<le> m) data d'"
      by blast
    have "take ?i rows @ x # drop ?i rows = insort_key rowkey x rows"
      using first_at_insort [OF new'] by (simp add: Let_def)
    then have "table_leaf d' ho (insort_key rowkey x rows)"
      using h' ty hl ag so ok x insort_sorted [OF so new']
      by (auto simp: table_leaf_def agree_on_def set_insort_key)
    with d' run agree_on_length [OF ag] agree_on_take [OF ag, of ho] show ?thesis by auto
  qed
  show "try_insert_leaf_cell data ho (table_cell x) (fst x) = Inr (False, data)"
    if "\<not> leaf_fits data ho (table_cell x)"
  proof -
    have "\<not> leaf_cell_ptr_offset ho (length rows + 1) + 1 \<le> cs - length (table_cell x)"
      using that by (simp only: table_leaf_fits [OF h]) simp
    from tl.holds_full [OF h this] run show ?thesis by simp
  qed
qed

text \<open>Deleting and updating.\<close>

lemma delete_cell_leaf:
  assumes l: "table_leaf data ho rows"
  shows "key \<in> fst ` set rows \<Longrightarrow>
      \<exists>data'. delete_cell data ho key = Inr (Some data')
        \<and> table_leaf data' ho (filter (\<lambda>r. fst r \<noteq> key) rows) \<and> length data' = length data
        \<and> take ho data' = take ho data"
    and "key \<notin> fst ` set rows \<Longrightarrow> delete_cell data ho key = Inr None"
proof -
  obtain cs where h: "holds_cells leaf_cell_ptr_offset table_cell data ho cs rows"
    and ty: "data ! ho = PAGE_TYPE_LEAF_TABLE" and so: "rows_sorted rows"
    and ok: "\<forall>r \<in> set rows. table_row_ok r" and hl: "ho < length data"
    using l by (rule table_leafE) blast
  let ?i = "first_at (\<lambda>r. fst r = key) rows"
  obtain off where sc: "scan_from (leaf_table_key data ho) (\<lambda>(k, _). k = key) 0 (length rows) =
    Inr (if ?i < length rows then Some (?i, (fst (rows ! ?i), off)) else None)"
    using table_leaf_scan [OF l, of "\<lambda>k. k = key"] by blast
  have mem: "?i < length rows \<longleftrightarrow> key \<in> fst ` set rows" by (auto simp: first_at_less)
  show "\<exists>data'. delete_cell data ho key = Inr (Some data')
        \<and> table_leaf data' ho (filter (\<lambda>r. fst r \<noteq> key) rows) \<and> length data' = length data
        \<and> take ho data' = take ho data"
    if "key \<in> fst ` set rows"
  proof -
    have i: "?i < length rows" using that mem by simp
    from tl.holds_remove [OF h i] obtain d d' where
      d: "shift_ptrs_down leaf_cell_ptr_offset ho ?i (length rows - 1 - ?i) data = Inr d"
        "write_u16_be d (ho + 3) (of_nat (length rows - 1)) = Inr d'"
      and h': "holds_cells leaf_cell_ptr_offset table_cell d' ho cs (take ?i rows @ drop (Suc ?i) rows)"
      and ag: "agree_on (\<lambda>m. m < ho + 3 \<or> ho + 5 \<le> m \<and> m < leaf_cell_ptr_offset ho 0 \<or> cs \<le> m) data d'"
      by blast
    have run: "delete_cell data ho key = Inr (Some d')"
      using sc i d by (simp add: delete_cell_def table_leaf_count [OF l] del: of_nat_diff)
    have "table_leaf d' ho (filter (\<lambda>r. fst r \<noteq> key) rows)"
      using h' ty hl ag ok filter_sorted [OF so] unfolding first_at_remove [OF so i]
      by (auto simp: table_leaf_def agree_on_def)
    with run agree_on_length [OF ag] agree_on_take [OF ag, of ho] show ?thesis by auto
  qed
  show "delete_cell data ho key = Inr None" if "key \<notin> fst ` set rows"
    using that sc mem by (simp add: delete_cell_def table_leaf_count [OF l])
qed

lemma table_row_parts:
  assumes "table_row_ok (k, rec)" and at: "cell_at table_cell data (p, (k, rec))"
    and len: "length data < 65536"
  shows "read_cell_rowid data p = Inr (k, p + length (varint_enc k))"
    and "read_varint data (p + length (varint_enc k))
      = Inr (of_nat (length rec), length (varint_enc (of_nat (length rec))))"
    and "unat (of_nat (length rec) :: u64) = length rec"
    and "p + length (varint_enc k) + length (varint_enc (of_nat (length rec))) + length rec \<le> length data"
proof -
  let ?c = "table_cell (k, rec)" and ?e = "varint_enc (of_nat (length rec))"
  have d: "data = take p data @ ?c @ drop (p + length ?c) data"
    using cell_at_split [OF at] by simp
  have p: "length (take p data) = p" using cell_at_bound [OF at] by simp
  have k: "unat k < 2 ^ 56" and r: "length rec < 2 ^ 56" using assms(1) by (auto simp: table_row_ok_def)
  show u: "unat (of_nat (length rec) :: u64) = length rec" using r by (intro unat_length) simp
  have d': "data = take p data @ varint_enc k @ ?e @ rec @ drop (p + length ?c) data"
    using d by (simp add: table_cell_def)
  have "read_varint data p = Inr (k, length (varint_enc k))"
    using vc.dec_enc [OF k, of "take p data"] p by (metis d')
  then show "read_cell_rowid data p = Inr (k, p + length (varint_enc k))"
    by (simp add: read_cell_rowid_def)
  have "unat (of_nat (length rec) :: u64) < 2 ^ 56" using u r by simp
  from read_after [OF this, of "take p data" "varint_enc k" "rec @ drop (p + length ?c) data"] p
  show "read_varint data (p + length (varint_enc k)) = Inr (of_nat (length rec), length ?e)"
    by (metis d')
  show "p + length (varint_enc k) + length ?e + length rec \<le> length data"
    using cell_at_bound [OF at] by (simp add: table_cell_def add.assoc)
qed

lemma overlay_tail:
  assumes at: "slice_of d p (length (xs @ ys)) = xs @ ys" and "p + length (xs @ ys) \<le> length d"
    and "length zs = length ys"
  shows "overlay d (p + length xs) zs = overlay d p (xs @ zs)"
proof (rule nth_equalityI)
  fix i assume "i < length (overlay d (p + length xs) zs)"
  then have i: "i < length d" using assms by simp
  have "d ! i = xs ! (i - p)" if "p \<le> i" "i < p + length xs"
  proof -
    have "slice_of d p (length (xs @ ys)) ! (i - p) = (xs @ ys) ! (i - p)" by (simp only: at)
    moreover have "i - p < length xs" using that by simp
    ultimately show ?thesis using that assms(2) by (simp add: nth_append)
  qed
  then show "overlay d (p + length xs) zs ! i = overlay d p (xs @ zs) ! i"
    using i assms(2,3) by (auto simp: nth_overlay nth_append)
qed (use assms in simp)

text \<open>The scan for a key stops at its row, and reports where the record's length field begins.\<close>

lemma row_of_key:
  assumes so: "rows_sorted rows" and m: "(key, old) \<in> set rows"
  shows "first_at (\<lambda>r. fst r = key) rows < length rows \<and> rows ! first_at (\<lambda>r. fst r = key) rows = (key, old)"
proof -
  let ?i = "first_at (\<lambda>r. fst r = key) rows"
  have i: "?i < length rows" using m by (force simp: first_at_less)
  have k: "fst (rows ! ?i) = key" using first_at_holds [OF i] .
  obtain j where j: "j < length rows" "rows ! j = (key, old)" using m by (auto simp: in_set_conv_nth)
  have "map fst rows ! ?i = map fst rows ! j" using i j k by simp
  moreover have "?i < length (map fst rows)" and "j < length (map fst rows)"
    using i j(1) by simp_all
  ultimately have "?i = j"
    using nth_eq_iff_index_eq [OF rows_sorted_distinct [OF so]] by blast
  then show ?thesis using i j(2) by simp
qed

lemma scan_offset:
  assumes l: "table_leaf data ho rows" and row: "i < length rows" "i = first_at (\<lambda>r. fst r = key) rows"
    and sc: "scan_from (leaf_table_key data ho) (\<lambda>(k, _). k = key) 0 (length rows) = Inr (Some (i, (k', off)))"
    and at: "leaf_table_key data ho i = Inr (key, off')"
  shows "off = off'"
proof -
  obtain offs where lo: "length offs = length rows"
    and key: "\<And>j. j < length rows \<Longrightarrow> leaf_table_key data ho j = Inr (fst (rows ! j), offs ! j)"
    using l by (rule table_leaf_keys) blast
  have "scan_from (leaf_table_key data ho) (\<lambda>(k, _). k = key) 0 (length (zip (map fst rows) offs)) =
    Inr (Some (0 + i, zip (map fst rows) offs ! i))"
    using scan_from_list [of "zip (map fst rows) offs" "leaf_table_key data ho" 0 "\<lambda>(k, _). k = key"]
      lo key row first_at_zip [OF lo, of "\<lambda>k. k = key"] by simp
  then show ?thesis using sc lo row key [OF row(1)] at by simp
qed

lemma update_cell_leaf:
  assumes l: "table_leaf data ho rows"
  shows "(key, old) \<in> set rows \<Longrightarrow> length rec = length old \<Longrightarrow>
      \<exists>data'. update_cell data ho key rec = Inr (Some data')
        \<and> table_leaf data' ho (set_row key rec rows) \<and> length data' = length data
        \<and> take ho data' = take ho data"
    and "(key, old) \<in> set rows \<Longrightarrow> length rec \<noteq> length old \<Longrightarrow> update_cell data ho key rec = Inr None"
    and "key \<notin> fst ` set rows \<Longrightarrow> update_cell data ho key rec = Inr None"
proof -
  obtain cs where h: "holds_cells leaf_cell_ptr_offset table_cell data ho cs rows"
    and ty: "data ! ho = PAGE_TYPE_LEAF_TABLE" and so: "rows_sorted rows"
    and ok: "\<forall>r \<in> set rows. table_row_ok r" and hl: "ho < length data" and len: "length data < 65536"
    using l by (rule table_leafE) blast
  let ?i = "first_at (\<lambda>r. fst r = key) rows"
  have mem: "?i < length rows \<longleftrightarrow> key \<in> fst ` set rows" by (auto simp: first_at_less)
  obtain off where sc: "scan_from (leaf_table_key data ho) (\<lambda>(k, _). k = key) 0 (length rows) =
    Inr (if ?i < length rows then Some (?i, (fst (rows ! ?i), off)) else None)"
    using table_leaf_scan [OF l, of "\<lambda>k. k = key"] by blast
  show "update_cell data ho key rec = Inr None" if "key \<notin> fst ` set rows"
    using that sc mem by (simp add: update_cell_def table_leaf_count [OF l])
  note row = row_of_key [OF so, THEN conjunct1] row_of_key [OF so, THEN conjunct2]
  have upd: "update_cell data ho key rec =
      (if length rec \<noteq> length old then Inr None
       else Inr (Some (overlay data (unat p + length (varint_enc key)
              + length (varint_enc (of_nat (length old)))) rec)))"
    if m: "(key, old) \<in> set rows" and p: "read_u16_be data (leaf_cell_ptr_offset ho ?i) = Inr p"
      and at: "cell_at table_cell data (unat p, (key, old))" for p
  proof -
    have okr: "table_row_ok (key, old)" using ok m by auto
    note parts = table_row_parts [OF okr at len]
    have "leaf_table_key data ho ?i = Inr (key, unat p + length (varint_enc key))"
      using p parts(1) by (simp add: leaf_table_key_def leaf_ptr_def del: read_u16_be_Inr)
    then have "off = unat p + length (varint_enc key)"
      using scan_offset [OF l row(1) [OF m] refl] sc row(1) [OF m] by simp
    then show ?thesis
      using sc row [OF m] parts len
      by (simp add: update_cell_def table_leaf_count [OF l] Let_def add_usize_def copy_at_def)
  qed
  show "update_cell data ho key rec = Inr None" if m: "(key, old) \<in> set rows" and "length rec \<noteq> length old"
  proof -
    obtain p where "read_u16_be data (leaf_cell_ptr_offset ho ?i) = Inr p"
      "cell_at table_cell data (unat p, rows ! ?i)"
      using h row(1) [OF m] by (rule tl.holds_ptr)
    with upd [OF m] row [OF m] that show ?thesis by simp
  qed
  show "\<exists>data'. update_cell data ho key rec = Inr (Some data')
        \<and> table_leaf data' ho (set_row key rec rows) \<and> length data' = length data
        \<and> take ho data' = take ho data"
    if m: "(key, old) \<in> set rows" and lr: "length rec = length old"
  proof -
    obtain p where p: "read_u16_be data (leaf_cell_ptr_offset ho ?i) = Inr p"
      and at: "cell_at table_cell data (unat p, rows ! ?i)"
      using h row(1) [OF m] by (rule tl.holds_ptr)
    let ?pre = "varint_enc key @ varint_enc (of_nat (length old))"
    let ?d = "overlay data (unat p + length ?pre) rec"
    have pl: "unat p + length (?pre @ old) \<le> length data" and sl: "slice_of data (unat p) (length (?pre @ old)) = ?pre @ old"
      using at row(2) [OF m] by (simp_all add: cell_at_def table_cell_def)
    have d: "?d = overlay data (unat p) (table_cell (key, rec))"
      using overlay_tail [OF sl pl lr] lr by (simp add: table_cell_def)
    have "length (table_cell (key, rec)) = length (table_cell (rows ! ?i))"
      using row(2) [OF m] lr by (simp add: table_cell_def)
    from tl.holds_replace [OF h row(1) [OF m] p this]
    have h': "holds_cells leaf_cell_ptr_offset table_cell ?d ho cs (rows[?i := (key, rec)])"
      and ag: "agree_on (\<lambda>m. m < cs) data ?d" unfolding d by blast+
    have lo: "ho + 8 \<le> cs" using tl.holds_size(5) [OF h] .
    have "table_leaf ?d ho (set_row key rec rows)"
      using h' ty hl ag lo ok m lr set_row_sorted [OF so] unfolding first_at_update [OF so row(1) [OF m]]
      by (auto simp: table_leaf_def agree_on_def set_row_def table_row_ok_def)
    moreover have "update_cell data ho key rec = Inr (Some ?d)"
      using upd [OF m p] at row(2) [OF m] lr by (simp add: add.assoc)
    ultimately show ?thesis using agree_on_length [OF ag] agree_on_take [OF ag, of ho] lo by auto
  qed
qed

end
