(* ===== verification/Pager_Pages.thy ===== *)
theory Pager_Pages
  imports Pager_Correct
begin

text \<open>
  What the b-tree needs of the pager: reading a page that a reader sees, and writing back the page
  record it got, in any journal mode. The cache holds every page under its own number.
\<close>

definition pages_keyed :: "pager \<Rightarrow> bool" where
  "pages_keyed p \<longleftrightarrow> (\<forall>k pg. map_of (pgr_cache p) k = Some pg \<longrightarrow> pg_no pg = k)"

definition pager_same :: "pager \<Rightarrow> pager \<Rightarrow> bool" where
  "pager_same p q \<longleftrightarrow> pgr_read_only q = pgr_read_only p \<and> pgr_page_count q = pgr_page_count p
     \<and> pgr_page_size q = pgr_page_size p \<and> (pages_keyed p \<longrightarrow> pages_keyed q)
     \<and> (pgr_journal_mode p \<noteq> JWal \<longrightarrow> pgr_journal_mode q = pgr_journal_mode p
        \<and> pgr_file q = pgr_file p \<and> pgr_disk q = pgr_disk p)"

lemma pager_same_refl [simp]: "pager_same p p"
  by (simp add: pager_same_def)

lemma pager_same_trans [trans]: "pager_same p q \<Longrightarrow> pager_same q r \<Longrightarrow> pager_same p r"
  by (simp add: pager_same_def)

lemma pages_keyed_insert: "pages_keyed p \<Longrightarrow> pages_keyed (cache_insert pg p)"
  by (auto simp: pages_keyed_def cache_insert_def update_conv' split: if_splits)

lemma pager_same_insert: "pager_same p (cache_insert pg p)"
  by (simp add: pager_same_def pages_keyed_insert)

lemma pager_same_opened:
  assumes "open_for_fetch p = (Inr (), q)"
  shows "pager_same p q"
  using open_for_fetch_keeps [OF assms] assms
  by (auto simp: pager_same_def pages_keyed_def open_for_fetch_def split: if_splits)

lemma get_page_same:
  assumes "get_page n p = (Inr pg, p')"
  shows "pager_same p p'" and "pages_keyed p \<Longrightarrow> pg_no pg = n"
proof -
  have "pager_same p p' \<and> (pages_keyed p \<longrightarrow> pg_no pg = n)"
  proof (cases "map_of (pgr_cache p) n")
    case None
    with assms have f: "fetch_page n p = (Inr pg, p')" by (auto simp: get_page_eq split: if_splits)
    then obtain p1 where p1: "open_for_fetch p = (Inr (), p1)" "fetch_found n p1 = Inr pg"
      "p' = cache_insert pg p1"
      by (auto simp: fetch_page_eq split: prod.splits sum.splits)
    then show ?thesis
      using fetch_found_no [OF p1(2)] pager_same_trans [OF pager_same_opened [OF p1(1)] pager_same_insert]
      by simp
  next
    case (Some c)
    with assms show ?thesis by (simp add: get_page_eq) (auto simp: pages_keyed_def)
  qed
  then show "pager_same p p'" and "pages_keyed p \<Longrightarrow> pg_no pg = n" by auto
qed

lemma page_get:
  assumes "pager_view p n = Some d"
  obtains pg p' where "get_page n p = (Inr pg, p')" and "pg_data pg = d"
    and "pager_view p' = pager_view p" and "pager_same p p'" and "pages_keyed p \<Longrightarrow> pg_no pg = n"
proof -
  obtain pg p' where g: "get_page n p = (Inr pg, p')"
    using assms by (cases "get_page n p") (auto simp: pager_view_def split: sum.splits)
  from that [OF g _ get_page_view(2) [OF g] get_page_same [OF g]] get_page_view(1) [OF g] assms
  show thesis by simp
qed

lemma page_put:
  assumes "\<not> pgr_read_only p"
  obtains p' where "write_page pg p = (Inr (), p')"
    and "pager_view p' = (pager_view p)(pg_no pg \<mapsto> pg_data pg)" and "pager_same p p'"
proof -
  have "write_page pg p = (Inr (), cache_insert (pg\<lparr>pg_dirty := True\<rparr>) p)"
    using assms by (simp add: write_page_def bindS_app)
  from that [OF this _ pager_same_insert] show thesis
    by (simp add: pager_view_insert)
qed

section \<open>Adding pages\<close>

text \<open>
  Outside the log mode, with a writable file and every page of the database readable, a page can be
  added: it becomes visible and no other page changes.
\<close>

definition can_grow :: "pager \<Rightarrow> bool" where
  "can_grow p \<longleftrightarrow> pgr_journal_mode p \<noteq> JWal \<and> file_writable (pgr_file p, pgr_disk p)
     \<and> pgr_page_count p \<noteq> 0 \<and> 512 \<le> pager_psize p \<and> pager_psize p < 65536
     \<and> (\<forall>k. pager_view p k \<noteq> None \<longleftrightarrow> k \<noteq> 0 \<and> k \<le> pgr_page_count p)"

lemma can_grow_ok: "pager_ok p \<Longrightarrow> pager_psize p < 65536 \<Longrightarrow> can_grow p"
  using psize_bounds [of p] pager_view_ok(1) [of p] by (simp add: pager_ok_def can_grow_def)

lemma can_grow_same:
  assumes "can_grow p" and "pager_same p q" and "\<forall>k. pager_view q k \<noteq> None \<longleftrightarrow> pager_view p k \<noteq> None"
  shows "can_grow q"
  using assms by (auto simp: can_grow_def pager_same_def pager_psize_def)

lemma word_le_succ:
  assumes "(n :: u32) \<noteq> - 1"
  shows "k \<le> n + 1 \<longleftrightarrow> k \<le> n \<or> k = n + 1" and "n < n + 1" and "n + 1 \<noteq> 0"
proof -
  have "n + 1 \<noteq> 0" using assms by (metis add.commute add_eq_0_iff)
  then have u: "unat (n + 1) = Suc (unat n)" using unatSuc [of n] by (simp add: add.commute)
  have "k = n + 1 \<longleftrightarrow> unat k = Suc (unat n)" by (simp only: word_unat_eq_iff u)
  then show "k \<le> n + 1 \<longleftrightarrow> k \<le> n \<or> k = n + 1" and "n < n + 1"
    by (simp_all only: word_le_nat_alt word_less_nat_alt u le_Suc_eq lessI)
  show "n + 1 \<noteq> 0" by fact
qed

lemma allocate_grows:
  assumes g: "can_grow p" and n: "pgr_page_count p \<noteq> - 1"
  obtains p1 where "allocate_page p = (Inr (pgr_page_count p + 1), p1)"
    and "pager_view p1 = (pager_view p)(pgr_page_count p + 1 \<mapsto> replicate (pager_psize p) 0)"
    and "can_grow p1" and "pgr_page_count p1 = pgr_page_count p + 1"
    and "pager_view p (pgr_page_count p + 1) = None" and "map_of (pgr_cache p1) (pgr_page_count p + 1) \<noteq> None"
    and "pager_psize p1 = pager_psize p" and "pgr_read_only p1 = pgr_read_only p"
    and "pages_keyed p \<Longrightarrow> pages_keyed p1"
proof -
  let ?n = "pgr_page_count p + 1"
  let ?q = "p\<lparr>pgr_page_count := ?n\<rparr>"
  let ?pg = "\<lparr>pg_no = ?n, pg_data = replicate (pager_psize p) 0, pg_dirty = True\<rparr>"
  have nw: "pgr_journal_mode p \<noteq> JWal" using g by (simp add: can_grow_def)
  have run: "allocate_page p = (Inr ?n, cache_insert ?pg ?q)"
    using n by (simp add: allocate_page_def bindS_app pager_psize_def)
  have vq: "pager_view ?q k = pager_view p k" if "k \<noteq> ?n" for k
  proof -
    have "k > ?n \<longleftrightarrow> k > pgr_page_count p"
      using that word_le_succ(1) [OF n, of k] by (simp only: not_le [symmetric] simp_thms)
    moreover have "pager_psize ?q = pager_psize p" "pager_content ?q = pager_content p"
      by (simp_all add: pager_psize_def pager_content_def)
    ultimately show ?thesis using nw by (simp add: pager_view_file cong: option.case_cong)
  qed
  have view: "pager_view (cache_insert ?pg ?q) = (pager_view p)(?n \<mapsto> replicate (pager_psize p) 0)"
  proof
    fix k show "pager_view (cache_insert ?pg ?q) k = ((pager_view p)(?n \<mapsto> replicate (pager_psize p) 0)) k"
      using vq [of k] by (simp add: pager_view_insert)
  qed
  have "can_grow (cache_insert ?pg ?q)"
    unfolding can_grow_def view
    using g word_le_succ [OF n] by (auto simp: can_grow_def pager_psize_def cache_insert_def)
  moreover have "pager_view p ?n = None"
    using g word_le_succ(2) [OF n] by (meson can_grow_def not_le)
  moreover have "map_of (pgr_cache (cache_insert ?pg ?q)) ?n \<noteq> None"
    by (simp add: cache_insert_def update_conv')
  moreover have "pages_keyed p \<Longrightarrow> pages_keyed (cache_insert ?pg ?q)"
    by (rule pages_keyed_insert) (simp add: pages_keyed_def)
  ultimately show thesis
    using that [OF run view] by (simp add: cache_insert_def pager_psize_def)
qed

lemma put_direct:
  assumes g: "can_grow p" and n: "n \<noteq> 0" and c: "map_of (pgr_cache p) n \<noteq> None"
    and len: "length data = pager_psize p"
  obtains p1 where "write_page_direct n data p = (Inr (), p1)" and "pager_view p1 = pager_view p"
    and "can_grow p1" and "pgr_page_count p1 = pgr_page_count p"
    and "pager_psize p1 = pager_psize p" and "pgr_read_only p1 = pgr_read_only p"
    and "pages_keyed p \<Longrightarrow> pages_keyed p1"
proof -
  have nw: "pgr_journal_mode p \<noteq> JWal" and fw: "file_writable (pgr_file p, pgr_disk p)"
    using g by (simp_all add: can_grow_def)
  obtain f d where w: "file_write_exact (page_offset (pager_psize p) n) data (pgr_file p, pgr_disk p)
      = (Inr (), (f, d))" "file_writable (f, d)"
    "file_content (f, d) = put_bytes (pager_content p) (page_offset (pager_psize p) n) data"
    using file_write_exact_ok [OF fw] by (metis pager_content_def surj_pair)
  let ?q = "p\<lparr>pgr_file := f, pgr_disk := d\<rparr>"
  have run: "write_page_direct n data p = (Inr (), ?q)"
    using w(1) n by (simp add: write_page_direct_def bindS_app on_db_file_def page_offset_def pager_psize_def)
  have ps: "0 < pager_psize p" using g by (simp add: can_grow_def)
  have view: "pager_view ?q = pager_view p"
  proof
    fix k
    show "pager_view ?q k = pager_view p k"
    proof (cases "map_of (pgr_cache p) k \<noteq> None \<or> k = 0 \<or> k > pgr_page_count p")
      case True
      then show ?thesis using nw by (auto simp: pager_view_file)
    next
      case False
      then have k: "map_of (pgr_cache p) k = None" "k \<noteq> 0" "k \<le> pgr_page_count p" "n \<noteq> k" using c by auto
      then have "pager_view p k \<noteq> None" using g by (simp add: can_grow_def)
      then have h: "has_page (pager_psize p) (pager_content p) k"
        using k nw ps by (auto simp: pager_view_file split: if_splits)
      have "has_page (pager_psize p) (file_content (f, d)) k"
        unfolding w(3) by (rule has_page_put [OF h])
      moreover have "page_at (pager_psize p) (file_content (f, d)) k = page_at (pager_psize p) (pager_content p) k"
        unfolding w(3) by (rule page_at_put_other [OF k(4) n h len])
      ultimately show ?thesis
        using h k nw by (simp add: pager_view_file pager_psize_def pager_content_def)
    qed
  qed
  have "can_grow ?q" unfolding can_grow_def view using g w(2) by (simp add: can_grow_def pager_psize_def)
  moreover have "pages_keyed p \<Longrightarrow> pages_keyed ?q" by (simp add: pages_keyed_def)
  ultimately show thesis using that [OF run view] by (simp add: pager_psize_def)
qed

lemma can_grow_put:
  assumes "can_grow p" and "\<not> pgr_read_only p" and "pager_view p (pg_no pg) \<noteq> None"
  shows "write_page pg p = (Inr (), cache_insert (pg\<lparr>pg_dirty := True\<rparr>) p)"
    and "can_grow (cache_insert (pg\<lparr>pg_dirty := True\<rparr>) p)"
proof -
  show "write_page pg p = (Inr (), cache_insert (pg\<lparr>pg_dirty := True\<rparr>) p)"
    using assms(2) by (simp add: write_page_def bindS_app)
  show "can_grow (cache_insert (pg\<lparr>pg_dirty := True\<rparr>) p)"
    by (rule can_grow_same [OF assms(1) pager_same_insert])
      (use assms(3) in \<open>auto simp: pager_view_insert\<close>)
qed

end
