(* ===== verification/Table_Tree.thy ===== *)
theory Table_Tree
  imports Table_Leaf Btree_Cursor Pager_Pages
begin

text \<open>
  Table b-trees of any height as an abstract search tree: the tree a set of stored pages represents,
  its rows in order, the leaf a key leads to and the change of one leaf. The lemmas lift the leaf
  operations to the rows of the whole tree.
\<close>

section \<open>Trees\<close>

datatype tree = TLeaf u32 "row list" | TNode u32 "(tree \<times> i64) list" tree

fun root_page :: "tree \<Rightarrow> u32" where
  "root_page (TLeaf n rows) = n"
| "root_page (TNode n cs r) = n"

fun tree_rows :: "tree \<Rightarrow> row list" where
  "tree_rows (TLeaf n rows) = rows"
| "tree_rows (TNode n cs r) = concat (map (\<lambda>(t, k). tree_rows t) cs) @ tree_rows r"

fun tree_pages :: "tree \<Rightarrow> u32 list" where
  "tree_pages (TLeaf n rows) = [n]"
| "tree_pages (TNode n cs r) = n # concat (map (\<lambda>(t, k). tree_pages t) cs) @ tree_pages r"

fun height :: "tree \<Rightarrow> nat" where
  "height (TLeaf n rows) = 1"
| "height (TNode n cs r) = Suc (max (Max (set (0 # map (\<lambda>(t, k). height t) cs))) (height r))"

text \<open>Every row is on the right side of every divider.\<close>

fun dividers_ok :: "(row list \<times> i64) list \<Rightarrow> row list \<Rightarrow> bool" where
  "dividers_ok [] rest = True"
| "dividers_ok ((rows, k) # cs) rest \<longleftrightarrow>
     (\<forall>r \<in> set rows. rowkey r \<le> sint k) \<and> (\<forall>r \<in> set (concat (map fst cs) @ rest). sint k < rowkey r)
     \<and> dividers_ok cs rest"

fun tree_ok :: "tree \<Rightarrow> bool" where
  "tree_ok (TLeaf n rows) = rows_sorted rows"
| "tree_ok (TNode n cs r) \<longleftrightarrow>
     dividers_ok (map (\<lambda>(t, k). (tree_rows t, k)) cs) (tree_rows r)
     \<and> (\<forall>(t, k) \<in> set cs. tree_ok t) \<and> tree_ok r"

text \<open>The child a key leads to and the change of the leaf it leads to.\<close>

definition child_slot :: "i64 \<Rightarrow> (tree \<times> i64) list \<Rightarrow> nat" where
  "child_slot key cs = first_at (\<lambda>(t, k). sint key \<le> sint k) cs"

definition child_at :: "(tree \<times> i64) list \<Rightarrow> tree \<Rightarrow> nat \<Rightarrow> tree" where
  "child_at cs r i = (if i < length cs then fst (cs ! i) else r)"

definition set_child :: "nat \<Rightarrow> tree \<Rightarrow> tree \<Rightarrow> tree" where
  "set_child i t' t = (case t of TLeaf n rows \<Rightarrow> t
     | TNode n cs r \<Rightarrow> if i < length cs then TNode n (cs[i := (t', snd (cs ! i))]) r else TNode n cs t')"

lemma size_child: "size (child_at cs r i) < size (TNode n cs r)"
proof (cases "i < length cs")
  case True
  obtain t k where c: "cs ! i = (t, k)" by (cases "cs ! i")
  with True have "(t, k) \<in> set cs" by (metis nth_mem)
  then have "size t \<le> size_list (size_prod size (\<lambda>_. 0)) cs"
    by (rule size_list_estimation') simp
  with True c show ?thesis by (simp add: child_at_def)
qed (simp add: child_at_def)

lemma height_child: "height (child_at cs r i) < height (TNode n cs r)"
proof (cases "i < length cs")
  case True
  obtain t k where c: "cs ! i = (t, k)" by (cases "cs ! i")
  with True have "(t, k) \<in> set cs" by (metis nth_mem)
  then have "height t \<in> set (0 # map (\<lambda>(t, k). height t) cs)" by force
  then have "height t \<le> Max (set (0 # map (\<lambda>(t, k). height t) cs))" by (intro Max_ge) auto
  with True c show ?thesis by (simp add: child_at_def)
qed (simp add: child_at_def)

function leaf_for :: "i64 \<Rightarrow> tree \<Rightarrow> u32 \<times> row list" where
  "leaf_for key (TLeaf n rows) = (n, rows)"
| "leaf_for key (TNode n cs r) = leaf_for key (child_at cs r (child_slot key cs))"
  by pat_completeness auto
termination
  by (relation "measure (size \<circ> snd)") (use size_child in auto)

function upd_leaf :: "i64 \<Rightarrow> (row list \<Rightarrow> row list) \<Rightarrow> tree \<Rightarrow> tree" where
  "upd_leaf key f (TLeaf n rows) = TLeaf n (f rows)"
| "upd_leaf key f (TNode n cs r) =
     set_child (child_slot key cs) (upd_leaf key f (child_at cs r (child_slot key cs))) (TNode n cs r)"
  by pat_completeness auto
termination
  by (relation "measure (size \<circ> snd \<circ> snd)") (use size_child in auto)

lemma root_upd [simp]: "root_page (upd_leaf key f t) = root_page t"
  by (cases t) (auto simp: set_child_def)

section \<open>The rows around a leaf\<close>

definition local_at :: "i64 \<Rightarrow> (row list \<Rightarrow> row list) \<Rightarrow> bool" where
  "local_at key f \<longleftrightarrow> (\<forall>xs ys zs. (\<forall>x \<in> set xs. rowkey x < sint key) \<longrightarrow>
     (\<forall>z \<in> set zs. sint key < rowkey z) \<longrightarrow> f (xs @ ys @ zs) = xs @ f ys @ zs)"

definition keeps_order :: "i64 \<Rightarrow> (row list \<Rightarrow> row list) \<Rightarrow> bool" where
  "keeps_order key f \<longleftrightarrow> (\<forall>rows. rows_sorted rows \<longrightarrow> rows_sorted (f rows)
     \<and> (\<forall>r \<in> set (f rows). fst r = key \<or> fst r \<in> fst ` set rows))"

lemma local_filter: "local_at key (filter (\<lambda>r. fst r \<noteq> key))"
proof -
  have "filter (\<lambda>r. fst r \<noteq> key) xs = xs" if "\<forall>x \<in> set xs. rowkey x \<noteq> sint key" for xs :: "row list"
    using that by (intro filter_True) auto
  then show ?thesis by (simp add: local_at_def order.strict_implies_not_eq)
      (metis order.strict_implies_not_eq)
qed

lemma local_set_row: "local_at key (set_row key rec)"
  by (auto simp: local_at_def set_row_def intro!: map_idI)

text \<open>The split of a node's rows at the child a key leads to.\<close>

definition rows_before :: "(tree \<times> i64) list \<Rightarrow> nat \<Rightarrow> row list" where
  "rows_before cs i = concat (map (\<lambda>(t, k). tree_rows t) (take i cs))"

definition rows_after :: "(tree \<times> i64) list \<Rightarrow> tree \<Rightarrow> nat \<Rightarrow> row list" where
  "rows_after cs r i =
     (if i < length cs then concat (map (\<lambda>(t, k). tree_rows t) (drop (Suc i) cs)) @ tree_rows r else [])"

lemma rows_split:
  "i \<le> length cs \<Longrightarrow>
   tree_rows (TNode n cs r) = rows_before cs i @ tree_rows (child_at cs r i) @ rows_after cs r i"
proof (cases "i < length cs")
  case True
  then have "cs = take i cs @ cs ! i # drop (Suc i) cs" by (simp add: id_take_nth_drop)
  then have "concat (map (\<lambda>(t, k). tree_rows t) cs)
    = concat (map (\<lambda>(t, k). tree_rows t) (take i cs @ cs ! i # drop (Suc i) cs))" by simp
  with True show ?thesis
    by (simp add: rows_before_def rows_after_def child_at_def split: prod.splits)
qed (simp add: rows_before_def rows_after_def child_at_def)

lemma rows_split_set:
  "i \<le> length cs \<Longrightarrow>
   tree_rows (set_child i t (TNode n cs r)) = rows_before cs i @ tree_rows t @ rows_after cs r i"
proof (cases "i < length cs")
  case True
  then have "cs[i := (t, snd (cs ! i))] = take i cs @ (t, snd (cs ! i)) # drop (Suc i) cs"
    by (simp add: upd_conv_take_nth_drop)
  with True show ?thesis by (simp add: rows_before_def rows_after_def set_child_def)
qed (simp add: rows_before_def rows_after_def set_child_def)

lemma dividers_after:
  "dividers_ok cs rest \<Longrightarrow> i < length cs \<Longrightarrow>
   (\<forall>r \<in> set (fst (cs ! i)). rowkey r \<le> sint (snd (cs ! i)))
   \<and> (\<forall>r \<in> set (concat (map fst (drop (Suc i) cs)) @ rest). sint (snd (cs ! i)) < rowkey r)"
proof (induction cs arbitrary: i)
  case (Cons c cs)
  then show ?case by (cases c; cases i) auto
qed simp

lemma child_slot_le: "child_slot key cs \<le> length cs"
  unfolding child_slot_def by (rule first_at_le)

lemma child_slot_before:
  assumes "j < child_slot key cs"
  shows "sint (snd (cs ! j)) < sint key"
proof -
  have "cs ! j \<in> set (takeWhile (\<lambda>c. \<not> (case c of (t, k) \<Rightarrow> sint key \<le> sint k)) cs)"
    using assms takeWhile_nth [of j _ cs] nth_mem unfolding child_slot_def first_at_def by metis
  from set_takeWhileD [OF this] show ?thesis by (simp add: split_def)
qed

lemma around_child:
  assumes "tree_ok (TNode n cs r)"
  shows "\<forall>x \<in> set (rows_before cs (child_slot key cs)). rowkey x < sint key"
    and "\<forall>z \<in> set (rows_after cs r (child_slot key cs)). sint key < rowkey z"
    and "tree_ok (child_at cs r (child_slot key cs))"
proof -
  let ?i = "child_slot key cs" and ?ds = "map (\<lambda>(t, k). (tree_rows t, k)) cs"
  have d: "dividers_ok ?ds (tree_rows r)" using assms by simp
  show "tree_ok (child_at cs r ?i)"
    using assms nth_mem [of ?i cs] by (fastforce simp: child_at_def)
  show "\<forall>x \<in> set (rows_before cs ?i). rowkey x < sint key"
  proof
    fix x assume "x \<in> set (rows_before cs ?i)"
    then obtain j where j: "j < ?i" "x \<in> set (tree_rows (fst (cs ! j)))"
      using child_slot_le [of key cs]
      by (fastforce simp: rows_before_def in_set_conv_nth split: prod.splits)
    then have "rowkey x \<le> sint (snd (cs ! j))"
      using dividers_after [OF d, of j] child_slot_le [of key cs] by (auto simp: split_def)
    with child_slot_before [OF j(1)] show "rowkey x < sint key" by simp
  qed
  show "\<forall>z \<in> set (rows_after cs r ?i). sint key < rowkey z"
  proof (cases "?i < length cs")
    case True
    then have "case cs ! ?i of (t, k) \<Rightarrow> sint key \<le> sint k"
      unfolding child_slot_def by (rule first_at_holds)
    moreover have "\<forall>z \<in> set (rows_after cs r ?i). sint (snd (cs ! ?i)) < rowkey z"
      using dividers_after [OF d, of ?i] True
      by (auto simp: rows_after_def split_def drop_map comp_def)
    ultimately show ?thesis by (fastforce simp: split_def)
  qed (simp add: rows_after_def)
qed

lemma dividers_sorted:
  "dividers_ok ds rest \<Longrightarrow> (\<forall>d \<in> set ds. rows_sorted (fst d)) \<Longrightarrow> rows_sorted rest
   \<Longrightarrow> rows_sorted (concat (map fst ds) @ rest)"
proof (induction ds)
  case (Cons d ds)
  obtain rows k where d: "d = (rows, k)" by (cases d)
  let ?tl = "concat (map fst ds) @ rest"
  have "rows_sorted ?tl" using Cons d by simp
  moreover have "rowkey x < rowkey y" if "x \<in> set rows" "y \<in> set ?tl" for x y
    using Cons.prems(1) d that by (meson dividers_ok.simps(2) le_less_trans)
  ultimately have "rows_sorted (rows @ ?tl)"
    using Cons.prems(2) d by (simp only: rows_sorted_append) auto
  then show ?case by (simp only: d list.map concat.simps fst_conv append_assoc)
qed simp

lemma tree_rows_sorted: "tree_ok t \<Longrightarrow> rows_sorted (tree_rows t)"
proof (induction t)
  case (TNode n cs r)
  let ?ds = "map (\<lambda>(t, k). (tree_rows t, k)) cs"
  have "\<forall>d \<in> set ?ds. rows_sorted (fst d)"
  proof
    fix d assume "d \<in> set ?ds"
    then obtain t k where c: "(t, k) \<in> set cs" "d = (tree_rows t, k)" by auto
    then have "tree_ok t" using TNode.prems by auto
    with TNode.IH(1) [OF c(1), of t] c(2) show "rows_sorted (fst d)" by simp
  qed
  with dividers_sorted [of ?ds "tree_rows r"] TNode show ?case
    by (simp add: split_def comp_def)
qed simp

lemma in_leaf:
  "tree_ok t \<Longrightarrow> (key, rec) \<in> set (tree_rows t) \<longleftrightarrow> (key, rec) \<in> set (snd (leaf_for key t))"
proof (induction key t rule: leaf_for.induct)
  case (2 key n cs r)
  note ar = around_child [OF "2.prems", of key]
  have "(key, rec) \<in> set (tree_rows (TNode n cs r))
    \<longleftrightarrow> (key, rec) \<in> set (tree_rows (child_at cs r (child_slot key cs)))"
  proof -
    have "(key, rec) \<notin> set (rows_before cs (child_slot key cs))"
      and "(key, rec) \<notin> set (rows_after cs r (child_slot key cs))"
      using ar(1,2) by fastforce+
    then show ?thesis by (simp only: rows_split [OF child_slot_le [of key]] set_append Un_iff simp_thms)
  qed
  with "2.IH" [OF ar(3)] show ?case by simp
qed simp

lemma rows_upd:
  "tree_ok t \<Longrightarrow> local_at key f \<Longrightarrow> tree_rows (upd_leaf key f t) = f (tree_rows t)"
proof (induction key f t rule: upd_leaf.induct)
  case (2 key f n cs r)
  note ar = around_child [OF "2.prems"(1), of key]
  have "tree_rows (upd_leaf key f (TNode n cs r))
    = rows_before cs (child_slot key cs) @ f (tree_rows (child_at cs r (child_slot key cs)))
      @ rows_after cs r (child_slot key cs)"
    using "2.IH" [OF ar(3) "2.prems"(2)] by (simp add: rows_split_set [OF child_slot_le [of key]])
  also have "\<dots> = f (rows_before cs (child_slot key cs)
      @ tree_rows (child_at cs r (child_slot key cs)) @ rows_after cs r (child_slot key cs))"
    using "2.prems"(2) ar(1,2) unfolding local_at_def by metis
  finally show ?case by (simp only: rows_split [OF child_slot_le [of key]])
qed simp

lemma new_keys:
  assumes "\<forall>r \<in> set rows. fst r = key \<or> fst r \<in> fst ` set old" and "P (sint key)"
    and "\<forall>s \<in> set old. P (rowkey s)"
  shows "\<forall>r \<in> set rows. P (rowkey r)"
proof
  fix r assume "r \<in> set rows"
  with assms(1) have "fst r = key \<or> fst r \<in> fst ` set old" by blast
  then show "P (rowkey r)"
  proof
    assume "fst r \<in> fst ` set old"
    then obtain s where "s \<in> set old" "fst r = fst s" by blast
    with assms(3) show ?thesis by simp
  qed (use assms(2) in simp)
qed

lemma dividers_set:
  assumes "dividers_ok ds rest" and "i < length ds" and "sint key \<le> sint (snd (ds ! i))"
    and "\<forall>j < i. sint (snd (ds ! j)) < sint key"
    and "\<forall>r \<in> set rows. fst r = key \<or> fst r \<in> fst ` set (fst (ds ! i))"
  shows "dividers_ok (ds[i := (rows, snd (ds ! i))]) rest"
  using assms
proof (induction ds arbitrary: i)
  case (Cons d ds)
  obtain rs k where d: "d = (rs, k)" by (cases d)
  show ?case
  proof (cases i)
    case 0
    have "\<forall>r \<in> set rows. rowkey r \<le> sint k"
      by (rule new_keys [where P = "\<lambda>x. x \<le> sint k" and old = rs and key = key])
        (use Cons.prems(1,3,5) 0 d in simp_all)
    with Cons.prems(1) 0 d show ?thesis by simp
  next
    case (Suc j)
    have j: "j < length ds" using Cons.prems(2) Suc by simp
    have p5: "\<forall>r \<in> set rows. fst r = key \<or> fst r \<in> fst ` set (fst (ds ! j))"
      using Cons.prems(5) Suc by simp
    have p4: "\<forall>l < j. sint (snd (ds ! l)) < sint key"
      using Cons.prems(4) Suc by (metis Suc_less_eq nth_Cons_Suc)
    have IH: "dividers_ok (ds[j := (rows, snd (ds ! j))]) rest"
      using Cons.prems(1,3) Suc d j p4 p5 by (intro Cons.IH) simp_all
    have k: "sint k < sint key" using Cons.prems(4) Suc d by (metis nth_Cons_0 snd_conv zero_less_Suc)
    have old: "sint k < rowkey r" if "e \<in> set ds" "r \<in> set (fst e)" for e r
      using Cons.prems(1) d that by auto
    have new: "\<forall>r \<in> set rows. sint k < rowkey r"
      by (rule new_keys [where P = "\<lambda>x. sint k < x" and old = "fst (ds ! j)" and key = key])
        (use p5 k old [of "ds ! j"] j in auto)
    have "sint k < rowkey r" if "r \<in> set (concat (map fst (ds[j := (rows, snd (ds ! j))])))" for r
    proof -
      from that obtain e where e: "e \<in> set (ds[j := (rows, snd (ds ! j))])" "r \<in> set (fst e)" by auto
      then have "e = (rows, snd (ds ! j)) \<or> e \<in> set ds" using set_update_subset_insert [of ds j] by blast
      then show ?thesis
      proof
        assume "e \<in> set ds"
        then show ?thesis using e(2) by (rule old)
      qed (use e(2) new in simp)
    qed
    with IH Cons.prems(1) d Suc show ?thesis by auto
  qed
qed simp

lemma dividers_rest:
  assumes "dividers_ok ds rest" and "\<forall>j < length ds. sint (snd (ds ! j)) < sint key"
    and "\<forall>r \<in> set rows. fst r = key \<or> fst r \<in> fst ` set rest"
  shows "dividers_ok ds rows"
  using assms
proof (induction ds)
  case (Cons d ds)
  obtain rs k where d: "d = (rs, k)" by (cases d)
  have k: "sint k < sint key" using Cons.prems(2) d by (metis length_greater_0_conv list.discI nth_Cons_0 snd_conv)
  have "\<forall>r \<in> set rows. sint k < rowkey r"
    by (rule new_keys [where P = "\<lambda>x. sint k < x" and old = rest and key = key])
      (use k Cons.prems(1,3) d in auto)
  moreover have "\<forall>j < length ds. sint (snd (ds ! j)) < sint key"
    using Cons.prems(2) by (metis Suc_less_eq length_Cons nth_Cons_Suc)
  then have "dividers_ok ds rows" using Cons.prems(1,3) d by (intro Cons.IH) simp_all
  ultimately show ?case using Cons.prems(1) d by auto
qed simp

lemma upd_ok:
  "tree_ok t \<Longrightarrow> local_at key f \<Longrightarrow> keeps_order key f \<Longrightarrow> tree_ok (upd_leaf key f t)"
proof (induction key f t rule: upd_leaf.induct)
  case (1 key f n rows)
  then show ?case by (simp add: keeps_order_def)
next
  case (2 key f n cs r)
  let ?i = "child_slot key cs" and ?ds = "map (\<lambda>(t, k). (tree_rows t, k)) cs"
  let ?c = "child_at cs r ?i"
  let ?t = "upd_leaf key f ?c"
  have c: "tree_ok ?c" by (rule around_child(3) [OF "2.prems"(1)])
  have t: "tree_ok ?t" by (rule "2.IH" [OF c "2.prems"(2,3)])
  have new: "\<forall>x \<in> set (tree_rows ?t). fst x = key \<or> fst x \<in> fst ` set (tree_rows ?c)"
    using "2.prems"(3) tree_rows_sorted [OF c] unfolding rows_upd [OF c "2.prems"(2)] keeps_order_def by blast
  have d: "dividers_ok ?ds (tree_rows r)" using "2.prems"(1) by simp
  have before: "\<forall>j < ?i. sint (snd (?ds ! j)) < sint key"
    using child_slot_before [of _ key cs] child_slot_le [of key cs] by (auto simp: split_def)
  show ?case
  proof (cases "?i < length cs")
    case True
    then have "case cs ! ?i of (t, k) \<Rightarrow> sint key \<le> sint k"
      unfolding child_slot_def by (rule first_at_holds)
    then have "sint key \<le> sint (snd (?ds ! ?i))" using True by (simp add: split_def)
    with dividers_set [OF d _ _ before, of "tree_rows ?t"] True new
    have "dividers_ok (?ds[?i := (tree_rows ?t, snd (?ds ! ?i))]) (tree_rows r)"
      by (simp add: child_at_def split_def)
    moreover have "?ds[?i := (tree_rows ?t, snd (?ds ! ?i))]
      = map (\<lambda>(t, k). (tree_rows t, k)) (cs[?i := (?t, snd (cs ! ?i))])"
      using True by (simp add: map_update split_def)
    moreover have "\<forall>(t, k) \<in> set (cs[?i := (?t, snd (cs ! ?i))]). tree_ok t"
      using t "2.prems"(1) set_update_subset_insert [of cs ?i] by fastforce
    ultimately show ?thesis using True "2.prems"(1) by (simp add: set_child_def)
  next
    case False
    then have i: "?i = length cs" using child_slot_le [of key cs] by simp
    with dividers_rest [OF d, of key "tree_rows ?t"] before new
    have "dividers_ok ?ds (tree_rows ?t)" by (simp add: child_at_def)
    with t "2.prems"(1) False show ?thesis by (simp add: set_child_def)
  qed
qed

text \<open>The three changes of a leaf the operations make.\<close>

lemma local_insort: "local_at (fst x) (insort_key rowkey x)"
proof -
  have after: "insort_key rowkey x (ys @ zs) = insort_key rowkey x ys @ zs"
    if "\<forall>z \<in> set zs. rowkey x < rowkey z" for ys zs :: "row list"
  proof (induction ys)
    case Nil
    with that show ?case by (cases zs) auto
  qed auto
  have "insort_key rowkey x (xs @ ws) = xs @ insort_key rowkey x ws"
    if "\<forall>y \<in> set xs. rowkey y < rowkey x" for xs ws :: "row list"
    using that by (induction xs) auto
  with after show ?thesis by (simp add: local_at_def)
qed

lemma keeps_filter: "keeps_order key (filter P)"
  by (force simp: keeps_order_def filter_sorted)

lemma keeps_set_row: "keeps_order key (set_row key rec)"
  by (auto simp: keeps_order_def set_row_sorted) (force simp: set_row_def split: if_splits)

definition insert_new :: "row \<Rightarrow> row list \<Rightarrow> row list" where
  "insert_new x rows = (if fst x \<in> fst ` set rows then rows else insort_key rowkey x rows)"

lemma keeps_insert: "keeps_order (fst x) (insert_new x)"
proof -
  have "rows_sorted (insort_key rowkey x rows)" if so: "rows_sorted rows" and new: "fst x \<notin> fst ` set rows" for rows
  proof -
    have "\<forall>r \<in> set rows. fst r \<noteq> fst x" using new by (metis image_eqI)
    then show ?thesis by (rule insort_sorted [OF so])
  qed
  then show ?thesis by (auto simp: keeps_order_def insert_new_def set_insort_key)
qed

lemma key_absent:
  assumes "\<forall>y \<in> set xs. rowkey y \<noteq> rowkey x"
  shows "fst x \<notin> fst ` set xs"
proof
  assume "fst x \<in> fst ` set xs"
  then obtain y where "fst x = fst y" and "y \<in> set xs" by (rule imageE)
  with assms show False by (metis rowkey_eq)
qed

lemma local_insert: "local_at (fst x) (insert_new x)"
proof -
  have "insert_new x (xs @ ys @ zs) = xs @ insert_new x ys @ zs"
    if "\<forall>y \<in> set xs. rowkey y < rowkey x" "\<forall>z \<in> set zs. rowkey x < rowkey z" for xs ys zs
  proof -
    have "fst x \<notin> fst ` set xs" and "fst x \<notin> fst ` set zs" 
      by (rule key_absent, use that in \<open>auto dest!: bspec simp: less_le\<close>)+
    then have "fst x \<in> fst ` set (xs @ ys @ zs) \<longleftrightarrow> fst x \<in> fst ` set ys" by (simp add: image_Un)
    moreover have "insort_key rowkey x (xs @ ys @ zs) = xs @ insort_key rowkey x ys @ zs"
      using local_insort [of x] that unfolding local_at_def by blast
    ultimately show ?thesis by (simp only: insert_new_def split: if_split) simp
  qed
  then show ?thesis by (simp add: local_at_def)
qed

section \<open>Stored trees\<close>

definition table_interior :: "bytes \<Rightarrow> nat \<Rightarrow> (u32 \<times> i64) list \<Rightarrow> u32 \<Rightarrow> bool" where
  "table_interior data ho cells rightmost \<longleftrightarrow>
     data ! ho = PAGE_TYPE_INTERIOR_TABLE \<and> u32_at data (ho + 8) = rightmost
     \<and> (\<forall>c \<in> set cells. divider_ok c)
     \<and> shows_cells interior_cell_ptr_offset divider_cell data ho cells"

fun stored :: "(u32 \<Rightarrow> bytes option) \<Rightarrow> tree \<Rightarrow> bool" where
  "stored v (TLeaf n rows) \<longleftrightarrow> (\<exists>d. v n = Some d \<and> table_leaf d (page_header_offset n) rows)"
| "stored v (TNode n cs r) \<longleftrightarrow>
     (\<exists>d. v n = Some d
        \<and> table_interior d (page_header_offset n) (map (\<lambda>(t, k). (root_page t, k)) cs) (root_page r))
     \<and> (\<forall>(t, k) \<in> set cs. stored v t) \<and> stored v r"

lemma table_interiorE:
  assumes "table_interior data ho cells rightmost"
  obtains "shows_cells interior_cell_ptr_offset divider_cell data ho cells"
    and "data ! ho = PAGE_TYPE_INTERIOR_TABLE" and "read_u32_be data (ho + 8) = Inr rightmost"
    and "\<forall>c \<in> set cells. divider_ok c" and "ho < length data"
proof -
  have "ho + 12 \<le> length data"
    using assms by (simp add: table_interior_def shows_cells_def interior_cell_ptr_offset_def)
  with that assms show thesis by (simp add: table_interior_def read_u32_be_eq)
qed

lemma interior_scan:
  assumes "table_interior data ho cells rightmost"
  shows "cell_count data ho = Inr (length cells)"
    and "scan_from (interior_table_cell data ho) cond 0 (length cells) =
    Inr (if first_at cond cells < length cells
         then Some (first_at cond cells, cells ! first_at cond cells) else None)"
proof -
  have h: "shows_cells interior_cell_ptr_offset divider_cell data ho cells"
    and ok: "\<forall>c \<in> set cells. divider_ok c"
    using assms by (auto elim: table_interiorE)
  show "cell_count data ho = Inr (length cells)" by (rule ti.shows_count [OF h])
  have "interior_table_cell data ho j = Inr (cells ! j)" if "j < length cells" for j
    using ti.shows_nth [OF h ok that]
    by (simp add: interior_table_cell_def interior_ptr_def bindR_assoc)
  with scan_from_list [of cells "interior_table_cell data ho" 0 cond]
  show "scan_from (interior_table_cell data ho) cond 0 (length cells) =
    Inr (if first_at cond cells < length cells
         then Some (first_at cond cells, cells ! first_at cond cells) else None)" by simp
qed

lemma first_at_map: "first_at P (map f xs) = first_at (P \<circ> f) xs"
  by (simp add: first_at_def takeWhile_map comp_def)

lemma find_child_node:
  assumes "table_interior data ho (map (\<lambda>(t, k). (root_page t, k)) cs) (root_page r)"
  shows "find_child_page_table data ho key = Inr (root_page (child_at cs r (child_slot key cs)))"
proof -
  have rm: "read_u32_be data (ho + 8) = Inr (root_page r)"
    using assms by (auto elim: table_interiorE simp del: read_u32_be_Inr)
  have slot: "first_at (\<lambda>(_, k). sint key \<le> sint k) (map (\<lambda>(t, k). (root_page t, k)) cs)
    = child_slot key cs"
    by (simp add: first_at_map child_slot_def comp_def split_def)
  show ?thesis
    using interior_scan [OF assms] rm slot
    by (simp add: find_child_page_table_def child_at_def split_def)
qed

lemma find_leaf:
  "stored (pager_view p) t \<Longrightarrow> height t \<le> fuel \<Longrightarrow>
   \<exists>p'. find_leaf_for_key fuel (root_page t) key p = (Inr (fst (leaf_for key t)), p')
     \<and> pager_view p' = pager_view p \<and> pager_same p p'"
proof (induction key t arbitrary: fuel p rule: leaf_for.induct)
  case (1 key n rows)
  then obtain d fuel' where d: "pager_view p n = Some d" "table_leaf d (page_header_offset n) rows"
    and fuel: "fuel = Suc fuel'" by (cases fuel) auto
  obtain pg p' where "get_page n p = (Inr pg, p')" "pg_data pg = d" "pager_view p' = pager_view p"
    "pager_same p p'"
    using d(1) by (rule page_get)
  moreover have "get_at d (page_header_offset n) = Inr PAGE_TYPE_LEAF_TABLE"
    using d(2) by (rule table_leafE) (simp add: get_at_def)
  ultimately show ?case by (simp add: fuel Let_def)
next
  case (2 key n cs r)
  let ?c = "child_at cs r (child_slot key cs)"
  from "2.prems" obtain d fuel' where d: "pager_view p n = Some d"
    "table_interior d (page_header_offset n) (map (\<lambda>(t, k). (root_page t, k)) cs) (root_page r)"
    and fuel: "fuel = Suc fuel'" by (cases fuel) auto
  obtain pg p1 where g: "get_page n p = (Inr pg, p1)" "pg_data pg = d" "pager_view p1 = pager_view p"
    "pager_same p p1"
    using d(1) by (rule page_get)
  have ty: "get_at d (page_header_offset n) = Inr PAGE_TYPE_INTERIOR_TABLE"
    using d(2) by (rule table_interiorE) (simp add: get_at_def)
  have st: "stored (pager_view p1) ?c"
    using "2.prems"(1) nth_mem [of "child_slot key cs" cs] g(3) by (fastforce simp: child_at_def)
  have "height ?c < Suc fuel'"
    using "2.prems"(2) unfolding fuel by (rule less_le_trans [OF height_child])
  then have "height ?c \<le> fuel'" by simp
  from "2.IH" [OF st this] obtain p' where
    p': "find_leaf_for_key fuel' (root_page ?c) key p1 = (Inr (fst (leaf_for key ?c)), p')"
      "pager_view p' = pager_view p1" "pager_same p1 p'" by blast
  with g ty find_child_node [OF d(2), of key] show ?case
    by (auto simp: fuel Let_def intro: pager_same_trans)
qed

end
