(* ===== verification/Table_Ops.thy ===== *)
theory Table_Ops
  imports Table_Tree
begin

text \<open>
  The operations of a table b-tree against its rows: lookup, insertion into a leaf with room,
  replacement and deletion, for trees of any height and in any journal mode.
\<close>

section \<open>Changing one page of a stored tree\<close>

lemma stored_cong: "(\<forall>m \<in> set (tree_pages t). w m = v m) \<Longrightarrow> stored w t = stored v t"
proof (induction t)
  case (TNode n cs r)
  have "stored w t = stored v t" if "(t, k) \<in> set cs" for t k
    using that TNode.prems by (intro TNode.IH(1) [of "(t, k)" t]) auto
  moreover have "stored w r = stored v r" using TNode.prems by (intro TNode.IH(2)) auto
  ultimately show ?case using TNode.prems by auto
qed simp

lemma root_in_pages [simp]: "root_page t \<in> set (tree_pages t)"
  by (cases t) auto

lemma child_member: "i < length cs \<Longrightarrow> (child_at cs r i, snd (cs ! i)) \<in> set cs"
  by (simp add: child_at_def)

lemma child_pages: "set (tree_pages (child_at cs r i)) \<subseteq> set (tree_pages (TNode n cs r))"
proof (cases "i < length cs")
  case True
  from child_member [OF this, of r] show ?thesis by (auto simp: split_def intro!: bexI [of _ "(child_at cs r i, snd (cs ! i))"])
qed (auto simp: child_at_def)

lemma child_stored: "stored v (TNode n cs r) \<Longrightarrow> stored v (child_at cs r i)"
proof (cases "i < length cs")
  case True
  from child_member [OF this, of r] show "stored v (TNode n cs r) \<Longrightarrow> stored v (child_at cs r i)" by auto
qed (simp add: child_at_def)

lemma leaf_in_pages: "fst (leaf_for key t) \<in> set (tree_pages t)"
proof (induction key t rule: leaf_for.induct)
  case (2 key n cs r)
  from subsetD [OF child_pages this] show ?case by (simp only: leaf_for.simps)
qed simp

lemma pages_split:
  "i < length cs \<Longrightarrow> tree_pages (TNode n cs r)
   = n # concat (map (\<lambda>(t, k). tree_pages t) (take i cs)) @ tree_pages (fst (cs ! i))
     @ concat (map (\<lambda>(t, k). tree_pages t) (drop (Suc i) cs)) @ tree_pages r"
proof -
  assume i: "i < length cs"
  then have "concat (map (\<lambda>(t, k). tree_pages t) cs)
    = concat (map (\<lambda>(t, k). tree_pages t) (take i cs @ cs ! i # drop (Suc i) cs))"
    by (metis id_take_nth_drop)
  then show ?thesis by (simp add: split_def)
qed

lemma pages_set_child:
  assumes "tree_pages t = tree_pages (child_at cs r i)"
  shows "tree_pages (set_child i t (TNode n cs r)) = tree_pages (TNode n cs r)"
proof (cases "i < length cs")
  case True
  then have "cs[i := (t, snd (cs ! i))] = take i cs @ (t, snd (cs ! i)) # drop (Suc i) cs"
    by (simp add: upd_conv_take_nth_drop)
  with True assms show ?thesis
    unfolding pages_split [OF True] by (simp add: set_child_def child_at_def)
qed (use assms in \<open>simp add: set_child_def child_at_def\<close>)

lemma pages_upd [simp]: "tree_pages (upd_leaf key f t) = tree_pages t"
proof (induction key f t rule: upd_leaf.induct)
  case (2 key f n cs r)
  then show ?case by (simp only: upd_leaf.simps pages_set_child)
qed simp

lemma stored_upd:
  "stored v t \<Longrightarrow> distinct (tree_pages t)
   \<Longrightarrow> table_leaf d (page_header_offset (fst (leaf_for key t))) (f (snd (leaf_for key t)))
   \<Longrightarrow> stored (v(fst (leaf_for key t) \<mapsto> d)) (upd_leaf key f t)"
proof (induction key f t rule: upd_leaf.induct)
  case (2 key f n cs r)
  let ?i = "child_slot key cs"
  let ?c = "child_at cs r ?i"
  let ?l = "fst (leaf_for key ?c)"
  define w where "w = v(?l \<mapsto> d)"
  have same: "w m = v m" if "m \<noteq> ?l" for m using that by (simp add: w_def)
  have l: "?l \<in> set (tree_pages ?c)" by (rule leaf_in_pages)
  have out: "\<forall>m \<in> set ns. w m = v m" if "set ns \<inter> set (tree_pages ?c) = {}" for ns
    using that l same by (metis disjoint_iff)
  have st: "stored v ?c" by (rule child_stored [OF "2.prems"(1)])
  obtain pd where pd: "v n = Some pd"
    "table_interior pd (page_header_offset n) (map (\<lambda>(t, k). (root_page t, k)) cs) (root_page r)"
    using "2.prems"(1) by auto
  have "stored w (set_child ?i (upd_leaf key f ?c) (TNode n cs r))"
  proof (cases "?i < length cs")
    case True
    let ?pre = "take ?i cs" and ?post = "drop (Suc ?i) cs"
    note ps = pages_split [OF True, of n r]
    have c: "?c = fst (cs ! ?i)" using True by (simp add: child_at_def)
    have dist: "distinct (n # concat (map (\<lambda>(t, k). tree_pages t) ?pre) @ tree_pages ?c
        @ concat (map (\<lambda>(t, k). tree_pages t) ?post) @ tree_pages r)"
      using "2.prems"(2) unfolding ps c by simp
    have dc: "distinct (tree_pages ?c)" using dist by simp
    have IH: "stored w (upd_leaf key f ?c)"
      unfolding w_def
      by (rule "2.IH" [OF st dc]) (use "2.prems"(3) in simp)
    have other: "stored w t" if "(t, k) \<in> set ?pre \<union> set ?post" for t k
    proof -
      have "set (tree_pages t) \<inter> set (tree_pages ?c) = {}" using dist that by fastforce
      then have "\<forall>m \<in> set (tree_pages t). w m = v m" by (rule out)
      moreover have "stored v t"
        using "2.prems"(1) that by (auto dest: in_set_takeD in_set_dropD)
      ultimately show ?thesis using stored_cong [of t w v] by blast
    qed
    have "set (tree_pages r) \<inter> set (tree_pages ?c) = {}" using dist by auto
    then have "\<forall>m \<in> set (tree_pages r). w m = v m" by (rule out)
    then have r: "stored w r" using "2.prems"(1) stored_cong [of r w v] by auto
    have "n \<noteq> ?l" using dist l by auto
    then have n: "w n = Some pd" using same [of n] pd(1) by simp
    have upd: "cs[?i := (upd_leaf key f ?c, snd (cs ! ?i))]
      = ?pre @ (upd_leaf key f ?c, snd (cs ! ?i)) # ?post"
      using True by (simp add: upd_conv_take_nth_drop)
    have "map (\<lambda>(t, k). (root_page t, k)) (cs[?i := (upd_leaf key f ?c, snd (cs ! ?i))])
      = map (\<lambda>(t, k). (root_page t, k)) cs"
      using True list_update_id [of "map (\<lambda>(t, k). (root_page t, k)) cs" ?i]
      by (simp add: map_update c split_def)
    moreover have "\<forall>(t, k) \<in> set (cs[?i := (upd_leaf key f ?c, snd (cs ! ?i))]). stored w t"
      unfolding upd using IH other by auto
    ultimately show ?thesis using True n pd(2) r by (simp add: set_child_def)
  next
    case False
    then have c: "?c = r" by (simp add: child_at_def)
    have dist: "distinct (n # concat (map (\<lambda>(t, k). tree_pages t) cs) @ tree_pages r)"
      using "2.prems"(2) by simp
    have dc: "distinct (tree_pages ?c)" using dist c by simp
    have IH: "stored w (upd_leaf key f ?c)"
      unfolding w_def
      by (rule "2.IH" [OF st dc]) (use "2.prems"(3) in simp)
    have "stored w t" if "(t, k) \<in> set cs" for t k
    proof -
      have "set (tree_pages t) \<inter> set (tree_pages ?c) = {}" using dist that unfolding c by fastforce
      then have "\<forall>m \<in> set (tree_pages t). w m = v m" by (rule out)
      moreover have "stored v t" using "2.prems"(1) that by auto
      ultimately show ?thesis using stored_cong [of t w v] by blast
    qed
    moreover have "n \<noteq> ?l" using dist l c by auto
    then have "w n = Some pd" using same [of n] pd(1) by simp
    ultimately show ?thesis using False IH pd(2) c by (auto simp: set_child_def)
  qed
  then show ?case by (simp only: upd_leaf.simps leaf_for.simps w_def)
qed simp

lemma leaf_data:
  "stored v t \<Longrightarrow> \<exists>d. v (fst (leaf_for key t)) = Some d
     \<and> table_leaf d (page_header_offset (fst (leaf_for key t))) (snd (leaf_for key t))"
proof (induction key t rule: leaf_for.induct)
  case (2 key n cs r)
  from "2.IH" [OF child_stored [OF "2.prems"]] show ?case by (simp only: leaf_for.simps)
qed simp

section \<open>Table states\<close>

text \<open>A tree of the code and the pager behind it represent an abstract tree.\<close>

definition table_state :: "btree \<Rightarrow> pager \<Rightarrow> tree \<Rightarrow> bool" where
  "table_state b p t \<longleftrightarrow>
     bt_root b = root_page t \<and> \<not> bf_blobkey (bt_flags b) \<and> stored (pager_view p) t \<and> tree_ok t
     \<and> distinct (tree_pages t) \<and> pages_keyed p \<and> \<not> pgr_read_only p"

lemma table_state_read:
  assumes "table_state b p t" and "pager_view p' = pager_view p" and "pager_same p p'"
  shows "table_state b p' t"
  using assms by (simp add: table_state_def pager_same_def)

lemma table_state_upd:
  assumes st: "table_state b p t" and f: "local_at key f" "keeps_order key f"
    and d: "table_leaf d (page_header_offset (fst (leaf_for key t))) (f (snd (leaf_for key t)))"
    and v: "pager_view p' = (pager_view p)(fst (leaf_for key t) \<mapsto> d)" and same: "pager_same p p'"
  shows "table_state b p' (upd_leaf key f t)" and "tree_rows (upd_leaf key f t) = f (tree_rows t)"
proof -
  have ok: "tree_ok t" and sd: "stored (pager_view p) t" and di: "distinct (tree_pages t)"
    using st by (simp_all add: table_state_def)
  show "tree_rows (upd_leaf key f t) = f (tree_rows t)" by (rule rows_upd [OF ok f(1)])
  show "table_state b p' (upd_leaf key f t)"
    using st same stored_upd [where f = f and d = d and key = key, OF sd di d] upd_ok [OF ok f]
    by (simp add: table_state_def pager_same_def v)
qed

text \<open>Reading the leaf and writing the changed page, the steps deletion and update share.\<close>

definition leaf_change :: "nat \<Rightarrow> u32 \<Rightarrow> i64 \<Rightarrow> (bytes \<Rightarrow> nat \<Rightarrow> bytes option res) \<Rightarrow> bool pgm" where
  "leaf_change fuel root key change =
     bindS (find_leaf_for_key fuel root key) (\<lambda>leaf.
     bindS (get_page leaf) (\<lambda>page.
     bindS (liftS (change (pg_data page) (page_header_offset leaf))) (\<lambda>r.
       case r of None \<Rightarrow> retS False
       | Some data \<Rightarrow> bindS (write_page (page\<lparr>pg_data := data\<rparr>)) (\<lambda>_. retS True))))"

lemma leaf_change_reads:
  assumes st: "table_state b p t" and fuel: "height t \<le> fuel"
  obtains d pg p' where "pager_view p (fst (leaf_for key t)) = Some d"
    and "table_leaf d (page_header_offset (fst (leaf_for key t))) (snd (leaf_for key t))"
    and "leaf_change fuel (bt_root b) key change p =
      bindS (liftS (change d (page_header_offset (fst (leaf_for key t))))) (\<lambda>r.
        case r of None \<Rightarrow> retS False
        | Some data \<Rightarrow> bindS (write_page (pg\<lparr>pg_data := data\<rparr>)) (\<lambda>_. retS True)) p'"
    and "pg_no pg = fst (leaf_for key t)" and "pager_view p' = pager_view p" and "pager_same p p'"
proof -
  have sd: "stored (pager_view p) t" and root: "bt_root b = root_page t" and keyed: "pages_keyed p"
    using st by (simp_all add: table_state_def)
  obtain d where d: "pager_view p (fst (leaf_for key t)) = Some d"
    "table_leaf d (page_header_offset (fst (leaf_for key t))) (snd (leaf_for key t))"
    using leaf_data [OF sd] by blast
  obtain p1 where p1: "find_leaf_for_key fuel (root_page t) key p = (Inr (fst (leaf_for key t)), p1)"
    "pager_view p1 = pager_view p" "pager_same p p1"
    using find_leaf [OF sd fuel] by blast
  have "pager_view p1 (fst (leaf_for key t)) = Some d" using d(1) p1(2) by simp
  then obtain pg p2 where g: "get_page (fst (leaf_for key t)) p1 = (Inr pg, p2)" "pg_data pg = d"
    "pager_view p2 = pager_view p1" "pager_same p1 p2"
    and no: "pages_keyed p1 \<Longrightarrow> pg_no pg = fst (leaf_for key t)"
    by (rule page_get) blast
  have "pages_keyed p1" using p1(3) keyed by (simp add: pager_same_def)
  from no [OF this] show thesis
    using that [OF d, of pg p2] p1 g pager_same_trans [OF p1(3) g(4)]
    by (simp add: leaf_change_def root)
qed

lemma leaf_change_none:
  assumes st: "table_state b p t" and fuel: "height t \<le> fuel"
    and none: "\<And>d ho. table_leaf d ho (snd (leaf_for key t)) \<Longrightarrow> change d ho = Inr None"
  obtains p' where "leaf_change fuel (bt_root b) key change p = (Inr False, p')"
    and "table_state b p' t" and "pager_view p' = pager_view p"
proof -
  obtain d pg p' where d: "table_leaf d (page_header_offset (fst (leaf_for key t))) (snd (leaf_for key t))"
    and run: "leaf_change fuel (bt_root b) key change p =
      bindS (liftS (change d (page_header_offset (fst (leaf_for key t))))) (\<lambda>r.
        case r of None \<Rightarrow> retS False
        | Some data \<Rightarrow> bindS (write_page (pg\<lparr>pg_data := data\<rparr>)) (\<lambda>_. retS True)) p'"
    and p': "pager_view p' = pager_view p" "pager_same p p'"
    using st fuel by (rule leaf_change_reads [where key = key and change = change]) blast
  from that [OF _ table_state_read [OF st p'] p'(1)] run none [OF d] show thesis by simp
qed

lemma leaf_change_some:
  assumes st: "table_state b p t" and fuel: "height t \<le> fuel"
    and f: "local_at key f" "keeps_order key f"
    and some: "\<And>d ho. table_leaf d ho (snd (leaf_for key t))
      \<Longrightarrow> \<exists>d'. change d ho = Inr (Some d') \<and> table_leaf d' ho (f (snd (leaf_for key t)))"
  obtains p' where "leaf_change fuel (bt_root b) key change p = (Inr True, p')"
    and "table_state b p' (upd_leaf key f t)" and "tree_rows (upd_leaf key f t) = f (tree_rows t)"
proof -
  obtain d pg p1 where d: "table_leaf d (page_header_offset (fst (leaf_for key t))) (snd (leaf_for key t))"
    and run: "leaf_change fuel (bt_root b) key change p =
      bindS (liftS (change d (page_header_offset (fst (leaf_for key t))))) (\<lambda>r.
        case r of None \<Rightarrow> retS False
        | Some data \<Rightarrow> bindS (write_page (pg\<lparr>pg_data := data\<rparr>)) (\<lambda>_. retS True)) p1"
    and no: "pg_no pg = fst (leaf_for key t)" and p1: "pager_view p1 = pager_view p" "pager_same p p1"
    using st fuel by (rule leaf_change_reads [where key = key and change = change]) blast
  obtain d' where d': "change d (page_header_offset (fst (leaf_for key t))) = Inr (Some d')"
    "table_leaf d' (page_header_offset (fst (leaf_for key t))) (f (snd (leaf_for key t)))"
    using some [OF d] by blast
  have "\<not> pgr_read_only p1" using st p1(2) by (simp add: table_state_def pager_same_def)
  then obtain p2 where p2: "write_page (pg\<lparr>pg_data := d'\<rparr>) p1 = (Inr (), p2)"
    "pager_view p2 = (pager_view p1)(pg_no (pg\<lparr>pg_data := d'\<rparr>) \<mapsto> pg_data (pg\<lparr>pg_data := d'\<rparr>))"
    "pager_same p1 p2"
    by (rule page_put)
  have v: "pager_view p2 = (pager_view p)(fst (leaf_for key t) \<mapsto> d')" using p2(2) no p1(1) by simp
  from that [OF _ table_state_upd [where f = f and d = d' and key = key, OF st f d'(2) v pager_same_trans [OF p1(2) p2(3)]]] run d'(1) p2(1)
  show thesis by simp
qed

section \<open>Deletion and replacement\<close>

lemma on_pager_app: "on_pager m (b, p) = (case m p of (r, p') \<Rightarrow> (r, (b, p')))"
  by (simp add: on_pager_def)

lemma key_in_leaf:
  assumes "tree_ok t"
  shows "key \<in> fst ` set (snd (leaf_for key t)) \<longleftrightarrow> key \<in> fst ` set (tree_rows t)"
  using in_leaf [OF assms, of key] by (force simp: image_iff)

lemma delete_is_change:
  assumes "\<not> bf_blobkey (bt_flags b)"
  shows "btree_delete fuel key (b, p)
    = on_pager (leaf_change fuel (bt_root b) key (\<lambda>d ho. delete_cell d ho key)) (b, p)"
  using assms by (simp add: btree_delete_def leaf_change_def blobkey_def btree_root_def)

lemma update_is_change:
  "update_table_row fuel key rec (b, p)
    = on_pager (leaf_change fuel (bt_root b) key (\<lambda>d ho. update_cell d ho key rec)) (b, p)"
  by (simp add: update_table_row_def leaf_change_def btree_root_def)

lemma delete_present:
  assumes st: "table_state b p t" and fuel: "height t \<le> fuel"
    and key: "key \<in> fst ` set (snd (leaf_for key t))"
  shows "\<exists>p'. btree_delete fuel key (b, p) = (Inr True, (b, p'))
    \<and> table_state b p' (upd_leaf key (filter (\<lambda>r. fst r \<noteq> key)) t)"
proof -
  have blob: "\<not> bf_blobkey (bt_flags b)" using st by (simp add: table_state_def)
  have "\<exists>d'. delete_cell d ho key = Inr (Some d')
      \<and> table_leaf d' ho (filter (\<lambda>r. fst r \<noteq> key) (snd (leaf_for key t)))"
    if "table_leaf d ho (snd (leaf_for key t))" for d ho
    using delete_cell_leaf(1) [OF that key] by blast
  then obtain p' where "leaf_change fuel (bt_root b) key (\<lambda>d ho. delete_cell d ho key) p = (Inr True, p')"
    and "table_state b p' (upd_leaf key (filter (\<lambda>r. fst r \<noteq> key)) t)"
    by (rule leaf_change_some [where change = "\<lambda>d ho. delete_cell d ho key",
          OF st fuel local_filter keeps_filter])
  then show ?thesis using delete_is_change [OF blob, of fuel key p] by (simp add: on_pager_app)
qed

text \<open>
  C10. Deletion. On any table b-tree, of any height and in any journal mode, \<^verbatim>\<open>Btree::delete\<close> says
  whether the key was there and leaves a tree with exactly the other rows, in order, on the same
  pages.
\<close>

theorem table_delete:
  assumes st: "table_state b p t" and fuel: "height t \<le> fuel"
  shows "\<exists>p' t'. btree_delete fuel key (b, p) = (Inr (key \<in> fst ` set (tree_rows t)), (b, p'))
    \<and> table_state b p' t' \<and> tree_rows t' = filter (\<lambda>r. fst r \<noteq> key) (tree_rows t)
    \<and> tree_pages t' = tree_pages t"
proof -
  have blob: "\<not> bf_blobkey (bt_flags b)" and ok: "tree_ok t" using st by (simp_all add: table_state_def)
  note del = delete_is_change [OF blob, of fuel key p]
  show ?thesis
  proof (cases "key \<in> fst ` set (snd (leaf_for key t))")
    case True
    from delete_present [OF st fuel this] obtain p' where
      "btree_delete fuel key (b, p) = (Inr True, (b, p'))"
      and "table_state b p' (upd_leaf key (filter (\<lambda>r. fst r \<noteq> key)) t)"
      by blast
    with True rows_upd [OF ok local_filter, of key] show ?thesis
      by (intro exI [of _ p'] exI [of _ "upd_leaf key (filter (\<lambda>r. fst r \<noteq> key)) t"])
        (simp add: key_in_leaf [OF ok])
  next
    case False
    obtain p' where p': "leaf_change fuel (bt_root b) key (\<lambda>d ho. delete_cell d ho key) p = (Inr False, p')"
      and st': "table_state b p' t"
      using delete_cell_leaf(2) False
      by (rule_tac leaf_change_none [where change = "\<lambda>d ho. delete_cell d ho key", OF st fuel]) blast+
    have nk: "key \<notin> fst ` set (tree_rows t)" using False key_in_leaf [OF ok] by simp
    have "filter (\<lambda>r. fst r \<noteq> key) (tree_rows t) = tree_rows t"
      using nk by (intro filter_True) (metis image_eqI)
    with p' st' nk del show ?thesis
      by (intro exI [of _ p'] exI [of _ t]) (simp add: on_pager_app)
  qed
qed

lemma update_table_row_no:
  assumes st: "table_state b p t" and fuel: "height t \<le> fuel"
    and none: "\<And>d ho. table_leaf d ho (snd (leaf_for key t)) \<Longrightarrow> update_cell d ho key rec = Inr None"
  obtains p' where "update_table_row fuel key rec (b, p) = (Inr False, (b, p'))" and "table_state b p' t"
    and "pager_view p' = pager_view p"
proof -
  let ?up = "\<lambda>d ho. update_cell d ho key rec"
  obtain p' where "leaf_change fuel (bt_root b) key ?up p = (Inr False, p')" "table_state b p' t"
    "pager_view p' = pager_view p"
    using none by (rule leaf_change_none [where change = ?up, OF st fuel])
  with update_is_change [of fuel key rec b p] that show thesis by (simp add: on_pager_app)
qed

text \<open>
  C11. Replacement. Where the table has a row of the key whose record is as long as the new one,
  \<^verbatim>\<open>Btree::replace\<close> exchanges that record in place and nothing else; the update step says no, and
  changes nothing a reader sees, where the key is missing or the lengths differ.
\<close>

theorem table_replace:
  assumes st: "table_state b p t" and fuel: "height t \<le> fuel"
  shows "\<exists>p' t'. tree_pages t' = tree_pages t \<and> table_state b p' t'
    \<and> (case map_of (tree_rows t) key of
        Some old \<Rightarrow>
          if length rec = length old
          then btree_replace fuel key rec (b, p) = (Inr (), (b, p'))
            \<and> tree_rows t' = set_row key rec (tree_rows t)
          else update_table_row fuel key rec (b, p) = (Inr False, (b, p'))
            \<and> pager_view p' = pager_view p
      | None \<Rightarrow> update_table_row fuel key rec (b, p) = (Inr False, (b, p'))
            \<and> pager_view p' = pager_view p)"
proof -
  have blob: "\<not> bf_blobkey (bt_flags b)" and ok: "tree_ok t" using st by (simp_all add: table_state_def)
  let ?up = "\<lambda>d ho. update_cell d ho key rec"
  note upd = update_is_change [of fuel key rec b p]
  show ?thesis
  proof (cases "map_of (tree_rows t) key")
    case None
    then have nk: "key \<notin> fst ` set (snd (leaf_for key t))"
      using key_in_leaf [OF ok] by (simp add: map_of_eq_None_iff)
    obtain p' where "update_table_row fuel key rec (b, p) = (Inr False, (b, p'))" "table_state b p' t"
      "pager_view p' = pager_view p"
      using update_table_row_no [OF st fuel update_cell_leaf(3) [OF _ nk]] by blast
    with None show ?thesis by (intro exI [of _ p'] exI [of _ t]) simp
  next
    case (Some old)
    then have m: "(key, old) \<in> set (snd (leaf_for key t))"
      using in_leaf [OF ok, of key old] map_of_SomeD [of "tree_rows t" key old] by simp
    show ?thesis
    proof (cases "length rec = length old")
      case True
      have "\<exists>d'. update_cell d ho key rec = Inr (Some d')
          \<and> table_leaf d' ho (set_row key rec (snd (leaf_for key t)))"
        if "table_leaf d ho (snd (leaf_for key t))" for d ho
        using update_cell_leaf(1) [OF that m True] by blast
      then obtain p' where "leaf_change fuel (bt_root b) key ?up p = (Inr True, p')"
        and "table_state b p' (upd_leaf key (set_row key rec) t)"
        and "tree_rows (upd_leaf key (set_row key rec) t) = set_row key rec (tree_rows t)"
        by (rule leaf_change_some [where change = ?up, OF st fuel local_set_row keeps_set_row])
      with upd Some True blob show ?thesis
        by (intro exI [of _ p'] exI [of _ "upd_leaf key (set_row key rec) t"])
          (simp add: on_pager_app btree_replace_def blobkey_def bindS_app)
    next
      case False
      obtain p' where "update_table_row fuel key rec (b, p) = (Inr False, (b, p'))" "table_state b p' t"
        "pager_view p' = pager_view p"
        using update_table_row_no [OF st fuel update_cell_leaf(2) [OF _ m False]] by blast
      with Some False show ?thesis by (intro exI [of _ p'] exI [of _ t]) simp
    qed
  qed
qed

section \<open>Insertion\<close>

definition unique_failed :: fault where
  "unique_failed = Fail (Sql RcConstraint ''UNIQUE constraint failed'')"

text \<open>Descending reads pages only; a leaf that is not split or fails ends the insertion.\<close>

lemma insert_descends:
  "stored (pager_view p) t \<Longrightarrow> height t \<le> fuel \<Longrightarrow>
   \<exists>p1. pager_view p1 = pager_view p \<and> pager_same p p1
     \<and> (\<forall>r p2. insert_into_leaf_table (fst (leaf_for key t)) cell key p1 = (r, p2)
          \<longrightarrow> r = Inr None \<or> (\<exists>e. r = Inl e)
          \<longrightarrow> insert_into_tree fuel (root_page t) cell key (b, p) = (r, (b, p2)))"
proof (induction key t arbitrary: fuel p rule: leaf_for.induct)
  case (1 key n rows)
  then obtain d fuel' where d: "pager_view p n = Some d" "table_leaf d (page_header_offset n) rows"
    and fuel: "fuel = Suc fuel'" by (cases fuel) auto
  obtain pg p1 where g: "get_page n p = (Inr pg, p1)" "pg_data pg = d" "pager_view p1 = pager_view p"
    "pager_same p p1"
    using d(1) by (rule page_get)
  have "get_at d (page_header_offset n) = Inr PAGE_TYPE_LEAF_TABLE"
    using d(2) by (rule table_leafE) (simp add: get_at_def)
  then have "insert_into_tree fuel n cell key (b, p) = on_pager (insert_into_leaf_table n cell key) (b, p1)"
    using g by (simp add: fuel Let_def on_pager_app)
  with g(3,4) show ?case by (intro exI [of _ p1]) (simp add: on_pager_app)
next
  case (2 key n cs r)
  let ?c = "child_at cs r (child_slot key cs)"
  from "2.prems" obtain d fuel' where d: "pager_view p n = Some d"
    "table_interior d (page_header_offset n) (map (\<lambda>(t, k). (root_page t, k)) cs) (root_page r)"
    and fuel: "fuel = Suc fuel'" by (cases fuel) auto
  obtain pg p1 where g: "get_page n p = (Inr pg, p1)" "pg_data pg = d" "pager_view p1 = pager_view p"
    "pager_same p p1"
    using d(1) by (rule page_get)
  have ty: "get_at d (page_header_offset n) = Inr PAGE_TYPE_INTERIOR_TABLE"
    using d(2) by (rule table_interiorE) (simp add: get_at_def)
  have st: "stored (pager_view p1) ?c" using child_stored [OF "2.prems"(1)] g(3) by simp
  have "height ?c < Suc fuel'"
    using "2.prems"(2) unfolding fuel by (rule less_le_trans [OF height_child])
  then have "height ?c \<le> fuel'" by simp
  from "2.IH" [OF st this] obtain p2 where p2: "pager_view p2 = pager_view p1" "pager_same p1 p2"
    and run: "\<forall>r p3. insert_into_leaf_table (fst (leaf_for key ?c)) cell key p2 = (r, p3)
      \<longrightarrow> r = Inr None \<or> (\<exists>e. r = Inl e)
      \<longrightarrow> insert_into_tree fuel' (root_page ?c) cell key (b, p1) = (r, (b, p3))" by blast
  have "insert_into_tree fuel (root_page (TNode n cs r)) cell key (b, p) = (r', (b, p3))"
    if "insert_into_leaf_table (fst (leaf_for key ?c)) cell key p2 = (r', p3)"
      and r': "r' = Inr None \<or> (\<exists>e. r' = Inl e)" for r' p3
  proof -
    have "insert_into_tree fuel' (root_page ?c) cell key (b, p1) = (r', (b, p3))" using run that by blast
    with g ty r' find_child_node [OF d(2), of key] show ?thesis
      by (auto simp: fuel Let_def on_pager_app bindS_app simp del: get_at_eq_Inr)
  qed
  with p2 g(3,4) show ?case
    by (intro exI [of _ p2]) (simp add: pager_same_trans [of p p1 p2])
qed

lemma insert_leaf_page:
  assumes d: "pager_view p n = Some d" "table_leaf d (page_header_offset n) rows"
    and keyed: "pages_keyed p" and rw: "\<not> pgr_read_only p" and x: "table_row_ok x"
  shows "fst x \<in> fst ` set rows \<Longrightarrow>
      \<exists>p'. insert_into_leaf_table n (table_cell x) (fst x) p = (Inl unique_failed, p')
        \<and> pager_view p' = pager_view p \<and> pager_same p p'"
    and "fst x \<notin> fst ` set rows \<Longrightarrow> leaf_fits d (page_header_offset n) (table_cell x) \<Longrightarrow>
      \<exists>p' d'. insert_into_leaf_table n (table_cell x) (fst x) p = (Inr None, p')
        \<and> pager_view p' = (pager_view p)(n \<mapsto> d') \<and> pager_same p p'
        \<and> table_leaf d' (page_header_offset n) (insert_new x rows)"
proof -
  obtain pg p1 where g: "get_page n p = (Inr pg, p1)" "pg_data pg = d" "pager_view p1 = pager_view p"
    "pager_same p p1" and no: "pages_keyed p \<Longrightarrow> pg_no pg = n"
    using d(1) by (rule page_get) blast
  have ty: "get_at d (page_header_offset n) = Inr PAGE_TYPE_LEAF_TABLE"
    using d(2) by (rule table_leafE) (simp add: get_at_def)
  note fc = find_cell_leaf [OF d(2), of "fst x"]
  show "\<exists>p'. insert_into_leaf_table n (table_cell x) (fst x) p = (Inl unique_failed, p')
        \<and> pager_view p' = pager_view p \<and> pager_same p p'" if "fst x \<in> fst ` set rows"
    using g ty fc that
    by (intro exI [of _ p1]) (simp add: insert_into_leaf_table_def Let_def unique_failed_def)
  show "\<exists>p' d'. insert_into_leaf_table n (table_cell x) (fst x) p = (Inr None, p')
        \<and> pager_view p' = (pager_view p)(n \<mapsto> d') \<and> pager_same p p'
        \<and> table_leaf d' (page_header_offset n) (insert_new x rows)"
    if new: "fst x \<notin> fst ` set rows" and fits: "leaf_fits d (page_header_offset n) (table_cell x)"
  proof -
    obtain d' where d': "try_insert_leaf_cell d (page_header_offset n) (table_cell x) (fst x) = Inr (True, d')"
      "table_leaf d' (page_header_offset n) (insort_key rowkey x rows)"
      using try_insert_leaf(1) [OF d(2) x new fits] by blast
    have "\<not> pgr_read_only p1" using g(4) rw by (simp add: pager_same_def)
    then obtain p2 where p2: "write_page (pg\<lparr>pg_data := d'\<rparr>) p1 = (Inr (), p2)"
      "pager_view p2 = (pager_view p1)(pg_no (pg\<lparr>pg_data := d'\<rparr>) \<mapsto> pg_data (pg\<lparr>pg_data := d'\<rparr>))"
      "pager_same p1 p2"
      by (rule page_put)
    have "insert_into_leaf_table n (table_cell x) (fst x) p = (Inr None, p2)"
      using g(1,2) ty fc new d'(1) p2(1) by (simp add: insert_into_leaf_table_def Let_def)
    with p2(2) g(3) no [OF keyed] d'(2) new pager_same_trans [OF g(4) p2(3)] show ?thesis
      by (intro exI [of _ p2] exI [of _ d']) (simp add: insert_new_def)
  qed
qed

lemma insert_is_tree_insert:
  assumes "\<not> bf_blobkey (bt_flags b)" and "table_row_ok (key, rec)"
    and "insert_into_tree fuel (bt_root b) (table_cell (key, rec)) key (b, p) = (r, (b, p'))"
    and "r = Inr None \<or> (\<exists>e. r = Inl e)"
  shows "btree_insert fuel key rec (b, p) = (case r of Inl e \<Rightarrow> Inl e | Inr _ \<Rightarrow> Inr (), (b, p'))"
  using assms
  by (auto simp: btree_insert_def insert_table_row_def blobkey_def btree_root_def build_cells bindS_app)

lemma insert_ok:
  assumes st: "table_state b p t" and fuel: "height t \<le> fuel" and x: "table_row_ok (key, rec)"
  shows "key \<in> fst ` set (tree_rows t) \<Longrightarrow>
      \<exists>p'. btree_insert fuel key rec (b, p) = (Inl unique_failed, (b, p'))
        \<and> table_state b p' t \<and> pager_view p' = pager_view p"
    and "key \<notin> fst ` set (tree_rows t) \<Longrightarrow> pager_view p (fst (leaf_for key t)) = Some d \<Longrightarrow>
      leaf_fits d (page_header_offset (fst (leaf_for key t))) (table_cell (key, rec)) \<Longrightarrow>
      \<exists>p' t'. btree_insert fuel key rec (b, p) = (Inr (), (b, p')) \<and> table_state b p' t'
        \<and> tree_rows t' = insort_key rowkey (key, rec) (tree_rows t) \<and> tree_pages t' = tree_pages t"
proof -
  let ?n = "fst (leaf_for key t)" and ?rows = "snd (leaf_for key t)" and ?x = "(key, rec)"
  have blob: "\<not> bf_blobkey (bt_flags b)" and ok: "tree_ok t" and sd: "stored (pager_view p) t"
    and root: "bt_root b = root_page t" and keyed: "pages_keyed p" and rw: "\<not> pgr_read_only p"
    using st by (simp_all add: table_state_def)
  obtain p1 where p1: "pager_view p1 = pager_view p" "pager_same p p1"
    and run: "\<forall>r p2. insert_into_leaf_table ?n (table_cell ?x) key p1 = (r, p2)
      \<longrightarrow> r = Inr None \<or> (\<exists>e. r = Inl e)
      \<longrightarrow> insert_into_tree fuel (root_page t) (table_cell ?x) key (b, p) = (r, (b, p2))"
    using insert_descends [OF sd fuel] by blast
  have fin: "insert_into_leaf_table ?n (table_cell ?x) key p1 = (r, p2) \<Longrightarrow>
      r = Inr None \<or> (\<exists>e. r = Inl e) \<Longrightarrow>
      btree_insert fuel key rec (b, p) = (case r of Inl e \<Rightarrow> Inl e | Inr _ \<Rightarrow> Inr (), (b, p2))" for r p2
    using insert_is_tree_insert [OF blob x, of fuel p r p2] run root by simp
  have p1': "pages_keyed p1" "\<not> pgr_read_only p1" using p1(2) keyed rw by (simp_all add: pager_same_def)
  show "\<exists>p'. btree_insert fuel key rec (b, p) = (Inl unique_failed, (b, p'))
        \<and> table_state b p' t \<and> pager_view p' = pager_view p" if "key \<in> fst ` set (tree_rows t)"
  proof -
    have k: "fst ?x \<in> fst ` set ?rows" using that key_in_leaf [OF ok] by simp
    obtain d where "pager_view p1 ?n = Some d" "table_leaf d (page_header_offset ?n) ?rows"
      using leaf_data [OF sd] p1(1) by metis
    from insert_leaf_page(1) [OF this p1' x k] obtain p2 where
      p2: "insert_into_leaf_table ?n (table_cell ?x) key p1 = (Inl unique_failed, p2)"
      "pager_view p2 = pager_view p1" "pager_same p1 p2" by auto
    have v: "pager_view p2 = pager_view p" using p1(1) p2(2) by simp
    with fin [OF p2(1)] table_state_read [OF st v pager_same_trans [OF p1(2) p2(3)]]
    show ?thesis by auto
  qed
  show "\<exists>p' t'. btree_insert fuel key rec (b, p) = (Inr (), (b, p')) \<and> table_state b p' t'
        \<and> tree_rows t' = insort_key rowkey ?x (tree_rows t) \<and> tree_pages t' = tree_pages t"
    if new: "key \<notin> fst ` set (tree_rows t)" and d: "pager_view p ?n = Some d"
      and fits: "leaf_fits d (page_header_offset ?n) (table_cell ?x)"
  proof -
    have k: "fst ?x \<notin> fst ` set ?rows" using new key_in_leaf [OF ok] by simp
    have dl: "table_leaf d (page_header_offset ?n) ?rows" using leaf_data [OF sd, of key] d by auto
    have d1: "pager_view p1 ?n = Some d" using d p1(1) by simp
    from insert_leaf_page(2) [OF d1 dl p1' x k fits] obtain p2 d' where
      p2: "insert_into_leaf_table ?n (table_cell ?x) key p1 = (Inr None, p2)"
      "pager_view p2 = (pager_view p1)(?n \<mapsto> d')" "pager_same p1 p2"
      and d': "table_leaf d' (page_header_offset ?n) (insert_new ?x ?rows)" by auto
    have v: "pager_view p2 = (pager_view p)(?n \<mapsto> d')" using p1(1) p2(2) by simp
    have lf: "local_at key (insert_new ?x)" and kf: "keeps_order key (insert_new ?x)"
      using local_insert [of ?x] keeps_insert [of ?x] by simp_all
    note up = table_state_upd [where f = "insert_new ?x" and d = d' and key = key,
        OF st lf kf d' v pager_same_trans [OF p1(2) p2(3)]]
    have "insert_new ?x (tree_rows t) = insort_key rowkey ?x (tree_rows t)"
      using new by (simp add: insert_new_def)
    with fin [OF p2(1)] up show ?thesis
      by (intro exI [of _ p2] exI [of _ "upd_leaf key (insert_new ?x) t"]) simp
  qed
qed

text \<open>
  C6. Inserting a new key into a leaf with room. The row goes to its place in key order, in the leaf
  the key leads to, whatever the height of the tree; no page is added.
\<close>

theorem table_insert:
  assumes "table_state b p t" and "height t \<le> fuel" and "table_row_ok (key, rec)"
    and "key \<notin> fst ` set (tree_rows t)" and "pager_view p (fst (leaf_for key t)) = Some d"
    and "leaf_fits d (page_header_offset (fst (leaf_for key t))) (table_cell (key, rec))"
  shows "\<exists>p' t'. btree_insert fuel key rec (b, p) = (Inr (), (b, p')) \<and> table_state b p' t'
    \<and> tree_rows t' = insort_key rowkey (key, rec) (tree_rows t) \<and> tree_pages t' = tree_pages t"
  by (rule insert_ok(2) [OF assms(1-6)])

text \<open>
  C30. Inserting a key the table already holds fails with a constraint error, and every page still
  reads as before.
\<close>

theorem table_insert_duplicate:
  assumes "table_state b p t" and "height t \<le> fuel" and "table_row_ok (key, rec)"
    and "key \<in> fst ` set (tree_rows t)"
  shows "\<exists>p'. btree_insert fuel key rec (b, p)
      = (Inl (Fail (Sql RcConstraint ''UNIQUE constraint failed'')), (b, p'))
    \<and> table_state b p' t \<and> pager_view p' = pager_view p"
  using insert_ok(1) [OF assms] by (simp add: unique_failed_def)

end
