(* ===== verification/Cursor_Correct.thy ===== *)
theory Cursor_Correct
  imports Table_Ops
begin

text \<open>
  The cursor over a table b-tree. The stack of a cursor is a path through the abstract tree; the
  rows that are still to come are the rest of the leaf and everything to the right of the path.
\<close>

section \<open>Paths\<close>

inductive path :: "tree \<Rightarrow> cursor_frame list \<Rightarrow> u32 \<Rightarrow> row list \<Rightarrow> row list \<Rightarrow> bool" where
  path_leaf: "path (TLeaf n rows) [] n rows []"
| path_node: "i \<le> length cs \<Longrightarrow> path (child_at cs r i) st leaf lrows rest
    \<Longrightarrow> path (TNode n cs r) (\<lparr>cf_pgno = n, cf_child_slot = i\<rparr> # st) leaf lrows
      (rest @ rows_after cs r i)"

inductive_cases path_leafE [elim!]: "path (TLeaf n rows) st leaf lrows rest"
inductive_cases path_nodeE: "path (TNode n cs r) st leaf lrows rest"

text \<open>Every leaf has a row.\<close>

fun dense :: "tree \<Rightarrow> bool" where
  "dense (TLeaf n rows) \<longleftrightarrow> rows \<noteq> []"
| "dense (TNode n cs r) \<longleftrightarrow> (\<forall>(t, k) \<in> set cs. dense t) \<and> dense r"

lemma dense_rows: "dense t \<Longrightarrow> tree_rows t \<noteq> []"
  by (induction t) auto

lemma dense_child: "dense (TNode n cs r) \<Longrightarrow> dense (child_at cs r i)"
proof (cases "i < length cs")
  case True
  from child_member [OF True, of r] show "dense (TNode n cs r) \<Longrightarrow> dense (child_at cs r i)" by auto
qed (simp add: child_at_def)

lemma rows_after_next:
  assumes "i < length cs"
  shows "rows_after cs r i = tree_rows (child_at cs r (Suc i)) @ rows_after cs r (Suc i)"
proof (cases "Suc i < length cs")
  case True
  then have "drop (Suc i) cs = cs ! Suc i # drop (Suc (Suc i)) cs" by (simp add: Cons_nth_drop_Suc)
  with True assms show ?thesis by (simp add: rows_after_def child_at_def split_def)
qed (use assms in \<open>simp add: rows_after_def child_at_def\<close>)

lemma path_leaf_stored:
  "path t st leaf lrows rest \<Longrightarrow> stored v t \<Longrightarrow>
   \<exists>d. v leaf = Some d \<and> table_leaf d (page_header_offset leaf) lrows"
proof (induction rule: path.induct)
  case (path_node i cs r st leaf lrows rest n)
  from path_node.IH [OF child_stored [OF path_node.prems]] show ?case .
qed auto

lemma path_dense: "path t st leaf lrows rest \<Longrightarrow> dense t \<Longrightarrow> lrows \<noteq> []"
proof (induction rule: path.induct)
  case (path_node i cs r st leaf lrows rest n)
  from path_node.IH [OF dense_child [OF path_node.prems]] show ?case .
qed auto

section \<open>Reading pages through a cursor\<close>

lemma cu_pager_app: "cu_pager m (c, p) = (case m p of (r, p') \<Rightarrow> (r, (c, p')))"
  by (simp add: cu_pager_def)

lemma cu_get_app [simp]: "cu_get f (c, p) = (Inr (f c), (c, p))"
  by (simp add: cu_get_def)

lemma cu_modify_app [simp]: "cu_modify f (c, p) = (Inr (), (f c, p))"
  by (simp add: cu_modify_def)

lemma push_frame_app [simp]:
  "push_frame n i (c, p)
   = (Inr (), (c\<lparr>cur_stack := cur_stack c @ [\<lparr>cf_pgno = n, cf_child_slot = i\<rparr>]\<rparr>, p))"
  by (simp add: push_frame_def)

lemma first_child_node:
  assumes "table_interior d ho (map (\<lambda>(t, k). (root_page t, k)) cs) (root_page r)"
  shows "first_child d ho PAGE_TYPE_INTERIOR_TABLE = Inr (root_page (child_at cs r 0))"
proof -
  have h: "shows_cells interior_cell_ptr_offset divider_cell d ho
      (map (\<lambda>(t, k). (root_page t, k)) cs)"
    and rm: "read_u32_be d (ho + 8) = Inr (root_page r)"
    and ok: "\<forall>c \<in> set (map (\<lambda>(t, k). (root_page t, k)) cs). divider_ok c"
    by (rule table_interiorE [OF assms], assumption)+
  have "bindR (interior_ptr d ho 0) (read_interior_table_cell d) = Inr (map (\<lambda>(t, k). (root_page t, k)) cs ! 0)"
    if "cs \<noteq> []"
    using ti.shows_nth [OF h ok, of 0] that by (simp add: interior_ptr_def bindR_assoc)
  then show ?thesis
    using rm interior_scan(1) [OF assms]
    by (cases cs) (auto simp: first_child_def child_at_def bindR_eq_Inr split_def simp del: read_u32_be_Inr)
qed

lemma child_at_slot_node:
  assumes "table_interior d ho (map (\<lambda>(t, k). (root_page t, k)) cs) (root_page r)" and "i \<le> length cs"
  shows "child_page_at_slot d ho i = Inr (root_page (child_at cs r i))"
proof -
  have h: "shows_cells interior_cell_ptr_offset divider_cell d ho
      (map (\<lambda>(t, k). (root_page t, k)) cs)"
    and rm: "read_u32_be d (ho + 8) = Inr (root_page r)" and ty: "d ! ho = PAGE_TYPE_INTERIOR_TABLE"
    and ok: "\<forall>c \<in> set (map (\<lambda>(t, k). (root_page t, k)) cs). divider_ok c" and ho: "ho < length d"
    by (rule table_interiorE [OF assms(1)], assumption)+
  show ?thesis
  proof (cases "i < length cs")
    case True
    then have "bindR (interior_ptr d ho i) (read_interior_table_cell d)
      = Inr (map (\<lambda>(t, k). (root_page t, k)) cs ! i)"
      using ti.shows_nth [OF h ok, of i] by (simp add: interior_ptr_def bindR_assoc)
    then show ?thesis
      using True interior_scan(1) [OF assms(1)] ty ho
      by (auto simp: child_page_at_slot_def child_at_def bindR_eq_Inr get_at_def split_def)
  next
    case False
    with assms(2) rm interior_scan(1) [OF assms(1)] show ?thesis
      by (simp add: child_page_at_slot_def child_at_def)
  qed
qed

text \<open>Opening a node: the steps every loop of the cursor begins with.\<close>

lemma open_node:
  assumes "stored (pager_view p) (TNode n cs r)"
  obtains pg p' where "get_page n p = (Inr pg, p')" and "pager_view p' = pager_view p"
    and "pager_same p p'"
    and "table_interior (pg_data pg) (page_header_offset n) (map (\<lambda>(t, k). (root_page t, k)) cs) (root_page r)"
    and "get_at (pg_data pg) (page_header_offset n) = Inr PAGE_TYPE_INTERIOR_TABLE"
proof -
  obtain d where d: "pager_view p n = Some d"
    "table_interior d (page_header_offset n) (map (\<lambda>(t, k). (root_page t, k)) cs) (root_page r)"
    using assms by auto
  obtain pg p' where g: "get_page n p = (Inr pg, p')" "pg_data pg = d" "pager_view p' = pager_view p"
    "pager_same p p'"
    using d(1) by (rule page_get)
  have "get_at d (page_header_offset n) = Inr PAGE_TYPE_INTERIOR_TABLE"
    using d(2) by (rule table_interiorE) (simp add: get_at_def)
  with that g d(2) show thesis by simp
qed

lemma open_leaf:
  assumes "pager_view p n = Some d" and "table_leaf d (page_header_offset n) rows"
  obtains pg p' where "get_page n p = (Inr pg, p')" and "pager_view p' = pager_view p"
    and "pager_same p p'" and "pg_data pg = d"
    and "get_at d (page_header_offset n) = Inr PAGE_TYPE_LEAF_TABLE"
proof -
  obtain pg p' where g: "get_page n p = (Inr pg, p')" "pg_data pg = d" "pager_view p' = pager_view p"
    "pager_same p p'"
    using assms(1) by (rule page_get)
  have "get_at d (page_header_offset n) = Inr PAGE_TYPE_LEAF_TABLE"
    using assms(2) by (rule table_leafE) (simp add: get_at_def)
  with that g show thesis by simp
qed

section \<open>Descending and advancing\<close>

lemma height_pos [simp]: "0 < height t"
  by (cases t) auto

fun leftmost_rows :: "tree \<Rightarrow> row list" where
  "leftmost_rows (TLeaf n rows) = rows"
| "leftmost_rows (TNode n [] r) = leftmost_rows r"
| "leftmost_rows (TNode n (c # cs) r) = leftmost_rows (fst c)"

lemma leftmost_child: "leftmost_rows (TNode n cs r) = leftmost_rows (child_at cs r 0)"
  by (cases cs) (simp_all add: child_at_def)

lemma descend_left:
  "stored (pager_view p) t \<Longrightarrow> height t \<le> fuel \<Longrightarrow>
   \<exists>p' st leaf lrows rest.
     descend_leftmost fuel (root_page t) (c, p) = (Inr leaf, (c\<lparr>cur_stack := cur_stack c @ st\<rparr>, p'))
     \<and> path t st leaf lrows rest \<and> lrows @ rest = tree_rows t \<and> lrows = leftmost_rows t
     \<and> pager_view p' = pager_view p \<and> pager_same p p'"
proof (induction fuel arbitrary: t c p)
  case 0
  then show ?case using height_pos [of t] by simp
next
  case (Suc fuel)
  show ?case
  proof (cases t)
    case (TLeaf n rows)
    with Suc.prems obtain d where d: "pager_view p n = Some d" "table_leaf d (page_header_offset n) rows"
      by auto
    obtain pg p' where g: "get_page n p = (Inr pg, p')" "pager_view p' = pager_view p" "pager_same p p'"
      "pg_data pg = d" "get_at d (page_header_offset n) = Inr PAGE_TYPE_LEAF_TABLE"
      using d by (rule open_leaf)
    have "descend_leftmost (Suc fuel) n (c, p) = (Inr n, (c, p'))"
      using g by (simp add: cu_pager_app Let_def leaf_type_def del: get_at_eq_Inr)
    with g(2,3) TLeaf show ?thesis
      by (intro exI [of _ p'] exI [of _ "[]"] exI [of _ n] exI [of _ rows]) (simp add: path_leaf)
  next
    case (TNode n cs r)
    obtain pg p1 where g: "get_page n p = (Inr pg, p1)" "pager_view p1 = pager_view p" "pager_same p p1"
      "table_interior (pg_data pg) (page_header_offset n) (map (\<lambda>(t, k). (root_page t, k)) cs) (root_page r)"
      "get_at (pg_data pg) (page_header_offset n) = Inr PAGE_TYPE_INTERIOR_TABLE"
      using Suc.prems(1) unfolding TNode by (rule open_node)
    let ?c = "child_at cs r 0" and ?f = "\<lparr>cf_pgno = n, cf_child_slot = 0\<rparr>"
    let ?c1 = "c\<lparr>cur_stack := cur_stack c @ [?f]\<rparr>"
    have "stored (pager_view p1) ?c" using child_stored [of "pager_view p" n cs r 0] Suc.prems(1) g(2) TNode by simp
    moreover have "height ?c \<le> fuel"
      using height_child [of cs r 0 n] Suc.prems(2) unfolding TNode by linarith
    ultimately obtain p' st leaf lrows rest where
      d: "descend_leftmost fuel (root_page ?c) (?c1, p1) = (Inr leaf, (?c1\<lparr>cur_stack := cur_stack ?c1 @ st\<rparr>, p'))"
      and pa: "path ?c st leaf lrows rest" and rows: "lrows @ rest = tree_rows ?c"
      and lm: "lrows = leftmost_rows ?c"
      and p': "pager_view p' = pager_view p1" "pager_same p1 p'"
      using Suc.IH by blast
    have "descend_leftmost (Suc fuel) n (c, p) = (Inr leaf, (c\<lparr>cur_stack := cur_stack c @ ?f # st\<rparr>, p'))"
      using g d first_child_node [OF g(4)]
      by (simp add: cu_pager_app Let_def leaf_type_def interior_type_def del: get_at_eq_Inr)
    moreover have "path t (?f # st) leaf lrows (rest @ rows_after cs r 0)"
      unfolding TNode by (rule path_node [OF _ pa]) simp
    moreover have "lrows @ rest @ rows_after cs r 0 = tree_rows t"
      unfolding TNode using rows_split [of 0 cs n r] rows by (simp add: rows_before_def)
    ultimately show ?thesis
      using p' g(2) pager_same_trans [OF g(3) p'(2)] TNode lm leftmost_child [of n cs r]
      by (intro exI [of _ p'] exI [of _ "?f # st"] exI [of _ leaf] exI [of _ lrows]
          exI [of _ "rest @ rows_after cs r 0"]) simp
  qed
qed

text \<open>
  Popping the stack under any prefix \<open>pre\<close>: where rows are left to the right of the path the loop
  ends on the next leaf, otherwise it goes on with the prefix.
\<close>

lemma pop_stack: "cur_stack c = pre @ [f] \<Longrightarrow> cur_stack_update butlast c = c\<lparr>cur_stack := pre\<rparr>"
  by (cases c) simp

lemma advance_step:
  assumes st: "stored (pager_view p) (TNode n cs r)" and h: "height (TNode n cs r) \<le> fuel"
    and i: "i \<le> length cs"
    and c: "cur_stack c = pre @ [\<lparr>cf_pgno = n, cf_child_slot = i\<rparr>]"
  shows "i < length cs \<Longrightarrow> \<exists>p' st' leaf lrows rest.
      advance_loop fuel (Suc k) (c, p) = (Inr (Some leaf), (c\<lparr>cur_stack := pre @ st'\<rparr>, p'))
      \<and> path (TNode n cs r) st' leaf lrows rest \<and> lrows @ rest = rows_after cs r i
      \<and> pager_view p' = pager_view p \<and> pager_same p p'"
    and "i = length cs \<Longrightarrow> \<exists>p'.
      advance_loop fuel (Suc k) (c, p) = advance_loop fuel k (c\<lparr>cur_stack := pre\<rparr>, p')
      \<and> pager_view p' = pager_view p \<and> pager_same p p'"
proof -
  obtain pg p1 where g: "get_page n p = (Inr pg, p1)" "pager_view p1 = pager_view p" "pager_same p p1"
    "table_interior (pg_data pg) (page_header_offset n) (map (\<lambda>(t, k). (root_page t, k)) cs) (root_page r)"
    using st by (rule open_node)
  note count = interior_scan(1) [OF g(4)]
  show "\<exists>p'. advance_loop fuel (Suc k) (c, p) = advance_loop fuel k (c\<lparr>cur_stack := pre\<rparr>, p')
      \<and> pager_view p' = pager_view p \<and> pager_same p p'" if "i = length cs"
    using g count that c by (intro exI [of _ p1]) (simp add: Let_def cu_pager_app pop_stack [OF c])
  show "\<exists>p' st' leaf lrows rest.
      advance_loop fuel (Suc k) (c, p) = (Inr (Some leaf), (c\<lparr>cur_stack := pre @ st'\<rparr>, p'))
      \<and> path (TNode n cs r) st' leaf lrows rest \<and> lrows @ rest = rows_after cs r i
      \<and> pager_view p' = pager_view p \<and> pager_same p p'" if il: "i < length cs"
  proof -
    let ?t = "child_at cs r (Suc i)" and ?f = "\<lparr>cf_pgno = n, cf_child_slot = Suc i\<rparr>"
    let ?c = "c\<lparr>cur_stack := pre @ [?f]\<rparr>"
    have "stored (pager_view p1) ?t" using child_stored [OF st] g(2) by simp
    moreover have "height ?t \<le> fuel" using height_child [of cs r "Suc i" n] h by simp
    ultimately obtain p' st' leaf lrows rest where
      d: "descend_leftmost fuel (root_page ?t) (?c, p1) = (Inr leaf, (?c\<lparr>cur_stack := cur_stack ?c @ st'\<rparr>, p'))"
      and pa: "path ?t st' leaf lrows rest" and rows: "lrows @ rest = tree_rows ?t"
      and p': "pager_view p' = pager_view p1" "pager_same p1 p'"
      using descend_left by blast
    have "advance_loop fuel (Suc k) (c, p) = (Inr (Some leaf), (c\<lparr>cur_stack := pre @ ?f # st'\<rparr>, p'))"
      using g count il c child_at_slot_node [OF g(4), of "Suc i"] d
      by (simp add: Let_def cu_pager_app descend_leftmost_from_def pop_stack [OF c])
    moreover have "path (TNode n cs r) (?f # st') leaf lrows (rest @ rows_after cs r (Suc i))"
      by (rule path_node [OF _ pa]) (use il in simp)
    moreover have "lrows @ rest @ rows_after cs r (Suc i) = rows_after cs r i"
      using rows rows_after_next [OF il] by simp
    ultimately show ?thesis
      using p' g(2) pager_same_trans [OF g(3) p'(2)]
      by (intro exI [of _ p'] exI [of _ "?f # st'"] exI [of _ leaf] exI [of _ lrows]
          exI [of _ "rest @ rows_after cs r (Suc i)"]) simp
  qed
qed

lemma advance_path:
  assumes "path t st leaf lrows rest" and "stored v t" and "dense t" and "height t \<le> fuel"
    and "pager_view p = v" and "cur_stack c = pre @ st"
  shows "rest \<noteq> [] \<Longrightarrow> \<exists>p' st' leaf' lrows' rest'.
      advance_loop fuel (length st + k) (c, p) = (Inr (Some leaf'), (c\<lparr>cur_stack := pre @ st'\<rparr>, p'))
      \<and> path t st' leaf' lrows' rest' \<and> lrows' @ rest' = rest
      \<and> pager_view p' = v \<and> pager_same p p'"
    and "rest = [] \<Longrightarrow> \<exists>p'.
      advance_loop fuel (length st + k) (c, p) = advance_loop fuel k (c\<lparr>cur_stack := pre\<rparr>, p')
      \<and> pager_view p' = v \<and> pager_same p p'"
  using assms
proof (induction arbitrary: c p pre k rule: path.induct)
  case (path_leaf n rows)
  case 1
  then show ?case by simp
next
  case (path_leaf n rows)
  case 2
  then show ?case by (intro exI [of _ p]) (auto simp del: advance_loop.simps)
next
  case (path_node i cs r st leaf lrows rest n)
  let ?f = "\<lparr>cf_pgno = n, cf_child_slot = i\<rparr>"
  case 1
  have ch: "stored v (child_at cs r i)" "dense (child_at cs r i)" "height (child_at cs r i) \<le> fuel"
    "cur_stack c = (pre @ [?f]) @ st"
    using child_stored [OF 1(2)] dense_child [OF 1(3)] height_child [of cs r i n] 1(4,6) by simp_all
  show ?case
  proof (cases "rest = []")
    case False
    obtain p' st' leaf' lrows' rest' where
      a: "advance_loop fuel (length st + Suc k) (c, p)
        = (Inr (Some leaf'), (c\<lparr>cur_stack := (pre @ [?f]) @ st'\<rparr>, p'))"
      and pa: "path (child_at cs r i) st' leaf' lrows' rest'" "lrows' @ rest' = rest"
      and p': "pager_view p' = v" "pager_same p p'"
      using path_node.IH(1) [OF False ch(1-3) 1(5) ch(4), of "Suc k"] by blast
    have "path (TNode n cs r) (?f # st') leaf' lrows' (rest' @ rows_after cs r i)"
      by (rule path.path_node [OF path_node.hyps(1) pa(1)])
    with a pa(2) p' show ?thesis
      by (intro exI [of _ p'] exI [of _ "?f # st'"] exI [of _ leaf'] exI [of _ lrows']
          exI [of _ "rest' @ rows_after cs r i"]) (auto simp del: advance_loop.simps)
  next
    case True
    obtain p1 where p1: "advance_loop fuel (length (?f # st) + k) (c, p)
        = advance_loop fuel (Suc k) (c\<lparr>cur_stack := pre @ [?f]\<rparr>, p1)" "pager_view p1 = v" "pager_same p p1"
      using path_node.IH(2) [OF True ch(1-3) 1(5) ch(4), of "Suc k"] by (auto simp del: advance_loop.simps)
    have "stored (pager_view p1) (TNode n cs r)" using 1(2) p1(2) by simp
    moreover have "i < length cs" using 1(1) True by (auto simp: rows_after_def split: if_splits)
    ultimately obtain p' st' leaf' lrows' rest' where
      "advance_loop fuel (Suc k) (c\<lparr>cur_stack := pre @ [?f]\<rparr>, p1)
        = (Inr (Some leaf'), (c\<lparr>cur_stack := pre @ [?f], cur_stack := pre @ st'\<rparr>, p'))"
      "path (TNode n cs r) st' leaf' lrows' rest'" "lrows' @ rest' = rows_after cs r i"
      "pager_view p' = pager_view p1" "pager_same p1 p'"
      using advance_step(1) [of p1 n cs r fuel i "c\<lparr>cur_stack := pre @ [?f]\<rparr>" pre k] 1(4)
        path_node.hyps(1) by fastforce
    with p1 True show ?thesis
      by (intro exI [of _ p'] exI [of _ st'] exI [of _ leaf'] exI [of _ lrows'] exI [of _ rest'])
        (auto intro: pager_same_trans simp del: advance_loop.simps)
  qed
next
  case (path_node i cs r st leaf lrows rest n)
  let ?f = "\<lparr>cf_pgno = n, cf_child_slot = i\<rparr>"
  case 2
  have rest: "rest = []" and ra: "rows_after cs r i = []" using 2(1) by simp_all
  have i: "i = length cs"
  proof (rule ccontr)
    assume "i \<noteq> length cs"
    then have "i < length cs" using path_node.hyps(1) by simp
    from rows_after_next [OF this, of r] ra dense_rows [OF dense_child [OF 2(3), of "Suc i"]]
    show False by simp
  qed
  have ch: "stored v (child_at cs r i)" "dense (child_at cs r i)" "height (child_at cs r i) \<le> fuel"
    "cur_stack c = (pre @ [?f]) @ st"
    using child_stored [OF 2(2)] dense_child [OF 2(3)] height_child [of cs r i n] 2(4,6) by simp_all
  obtain p1 where p1: "advance_loop fuel (length (?f # st) + k) (c, p)
      = advance_loop fuel (Suc k) (c\<lparr>cur_stack := pre @ [?f]\<rparr>, p1)" "pager_view p1 = v" "pager_same p p1"
    using path_node.IH(2) [OF rest ch(1-3) 2(5) ch(4), of "Suc k"] by (auto simp del: advance_loop.simps)
  have "stored (pager_view p1) (TNode n cs r)" using 2(2) p1(2) by simp
  then obtain p' where
    "advance_loop fuel (Suc k) (c\<lparr>cur_stack := pre @ [?f]\<rparr>, p1)
      = advance_loop fuel k (c\<lparr>cur_stack := pre @ [?f], cur_stack := pre\<rparr>, p')"
    "pager_view p' = pager_view p1" "pager_same p1 p'"
    using advance_step(2) [of p1 n cs r fuel i "c\<lparr>cur_stack := pre @ [?f]\<rparr>" pre k] 2(4)
      path_node.hyps(1) i by fastforce
  with p1 show ?case
    by (intro exI [of _ p']) (auto intro: pager_same_trans simp del: advance_loop.simps)
qed

section \<open>Reading the row under the cursor\<close>

lemma read_current_leaf:
  assumes d: "pager_view p (cur_leaf c) = Some d" "table_leaf d (page_header_offset (cur_leaf c)) rows"
    and b: "\<not> bf_blobkey (bt_flags (cur_btree c))"
  obtains p' where "pager_view p' = pager_view p" and "pager_same p p'"
    and "cur_index c < length rows \<Longrightarrow> cursor_read_current (c, p) = (Inr True,
        (c\<lparr>cur_key := Some (fst (rows ! cur_index c)), cur_record := Some (snd (rows ! cur_index c))\<rparr>, p'))"
    and "length rows \<le> cur_index c \<Longrightarrow> cursor_read_current (c, p) = (Inr False, (c, p'))"
proof -
  let ?ho = "page_header_offset (cur_leaf c)" and ?i = "cur_index c"
  obtain pg p' where g: "get_page (cur_leaf c) p = (Inr pg, p')" "pager_view p' = pager_view p"
    "pager_same p p'" "pg_data pg = d"
    using d by (rule open_leaf)
  have n: "cell_count d ?ho = Inr (length rows)" using d(2) by (rule table_leaf_count)
  have "cursor_read_current (c, p) = (Inr True,
      (c\<lparr>cur_key := Some (fst (rows ! ?i)), cur_record := Some (snd (rows ! ?i))\<rparr>, p'))"
    if i: "?i < length rows"
  proof -
    obtain cs where h: "holds_cells leaf_cell_ptr_offset table_cell d ?ho cs rows"
      and ok: "\<forall>r \<in> set rows. table_row_ok r" using d(2) by (rule table_leafE) blast
    have "bindR (leaf_ptr d ?ho ?i) (table_row d) = Inr (rows ! ?i)"
      using tl.holds_nth [OF h ok i] by (simp add: leaf_ptr_def bindR_assoc)
    then obtain ptr where ptr: "leaf_ptr d ?ho ?i = Inr ptr" "table_row d ptr = Inr (rows ! ?i)"
      by (auto simp: bindR_eq_Inr)
    obtain k po where k: "read_cell_rowid d ptr = Inr (k, po)"
      using ptr(2) by (cases "read_cell_rowid d ptr") (auto simp: table_row_def)
    obtain pl m e rec where rest: "read_varint d po = Inr (pl, m)" "add_usize (po + m) (unat pl) = Inr e"
      "slice d (po + m) e = Inr rec" "rows ! ?i = (k, rec)"
      using ptr(2) k by (auto simp: table_row_def Let_def bindR_eq_Inr simp del: slice_eq_Inr)
    show ?thesis
      using g n i b ptr(1) k rest
      by (simp add: cursor_read_current_def cu_pager_app Let_def del: slice_eq_Inr)
  qed
  moreover have "cursor_read_current (c, p) = (Inr False, (c, p'))" if "length rows \<le> ?i"
    using g n that by (simp add: cursor_read_current_def cu_pager_app Let_def)
  ultimately show thesis using that [OF g(2,3)] by blast
qed

text \<open>The cursor stands on \<open>x\<close> and the rows \<open>later\<close> are still to come.\<close>

definition cursor_on :: "tree \<Rightarrow> btree_cursor \<Rightarrow> row \<Rightarrow> row list \<Rightarrow> bool" where
  "cursor_on t c x later \<longleftrightarrow>
     (\<exists>lrows rest. path t (cur_stack c) (cur_leaf c) lrows rest \<and> cur_index c < length lrows
        \<and> x = lrows ! cur_index c \<and> later = drop (Suc (cur_index c)) lrows @ rest)
     \<and> \<not> cur_eof c \<and> cur_key c = Some (fst x) \<and> cur_record c = Some (snd x)"

text \<open>Entering the leaf a path ends in.\<close>

lemma enter_leaf:
  assumes pa: "path t st leaf lrows rest" and rows: "lrows @ rest = x # later" and dn: "dense t"
    and sd: "stored (pager_view p) t" and b: "\<not> bf_blobkey (bt_flags (cur_btree c))"
    and c: "cur_stack c = st" "cur_leaf c = leaf" "cur_index c = 0" "\<not> cur_eof c"
  shows "\<exists>c' p'. cursor_read_current (c, p) = (Inr True, (c', p')) \<and> cursor_on t c' x later
     \<and> cur_btree c' = cur_btree c \<and> pager_view p' = pager_view p \<and> pager_same p p'"
proof -
  obtain d where d: "pager_view p (cur_leaf c) = Some d"
    "table_leaf d (page_header_offset (cur_leaf c)) lrows"
    using path_leaf_stored [OF pa sd] c(2) by auto
  obtain y ys where y: "lrows = y # ys" using path_dense [OF pa dn] by (cases lrows) auto
  obtain p' where p': "pager_view p' = pager_view p" "pager_same p p'"
    and r: "cur_index c < length lrows \<Longrightarrow> cursor_read_current (c, p) = (Inr True,
      (c\<lparr>cur_key := Some (fst (lrows ! cur_index c)), cur_record := Some (snd (lrows ! cur_index c))\<rparr>, p'))"
    using d b by (rule read_current_leaf) blast
  let ?c = "c\<lparr>cur_key := Some (fst x), cur_record := Some (snd x)\<rparr>"
  have "cursor_read_current (c, p) = (Inr True, (?c, p'))" using r y rows c(3) by simp
  moreover have "cursor_on t ?c x later"
    using pa rows y c unfolding cursor_on_def
    by (intro conjI exI [of _ lrows] exI [of _ rest]) auto
  ultimately show ?thesis using p' by auto
qed

section \<open>First and next\<close>

lemma first_descends:
  assumes st: "table_state b p t" and fuel: "height t \<le> fuel" and b: "cur_btree c = b"
  obtains c1 p1 st leaf lrows rest where
    "cursor_first fuel (c, p) = cursor_read_current (c1, p1)"
    and "path t st leaf lrows rest" and "lrows @ rest = tree_rows t" and "lrows = leftmost_rows t"
    and "cur_stack c1 = st" and "cur_leaf c1 = leaf" and "cur_index c1 = 0" and "\<not> cur_eof c1"
    and "cur_btree c1 = b" and "pager_view p1 = pager_view p" and "pager_same p p1"
proof -
  have sd: "stored (pager_view p) t" and root: "bt_root b = root_page t"
    using st by (simp_all add: table_state_def)
  let ?c = "c\<lparr>cur_stack := []\<rparr>"
  obtain p1 st leaf lrows rest where
    d: "descend_leftmost fuel (root_page t) (?c, p) = (Inr leaf, (?c\<lparr>cur_stack := cur_stack ?c @ st\<rparr>, p1))"
    and pa: "path t st leaf lrows rest" "lrows @ rest = tree_rows t" "lrows = leftmost_rows t"
    and p1: "pager_view p1 = pager_view p" "pager_same p p1"
    using descend_left [OF sd fuel] by blast
  let ?c1 = "c\<lparr>cur_stack := st, cur_leaf := leaf, cur_index := 0, cur_eof := False\<rparr>"
  have "cur_stack_update (\<lambda>_. []) c = ?c" by simp
  then have "cursor_first fuel (c, p) = cursor_read_current (?c1, p1)"
    using d b root by (simp add: cursor_first_def)
  from that [OF this pa] p1 b show thesis by simp
qed

lemma cursor_first_on:
  assumes st: "table_state b p t" and fuel: "height t \<le> fuel" and b: "cur_btree c = b"
    and dn: "dense t" and rows: "tree_rows t = x # later"
  shows "\<exists>c' p'. cursor_first fuel (c, p) = (Inr True, (c', p')) \<and> cursor_on t c' x later
     \<and> cur_btree c' = b \<and> pager_view p' = pager_view p \<and> pager_same p p'"
proof -
  obtain c1 p1 st leaf lrows rest where
    r: "cursor_first fuel (c, p) = cursor_read_current (c1, p1)"
    and pa: "path t st leaf lrows rest" "lrows @ rest = tree_rows t"
    and c1: "cur_stack c1 = st" "cur_leaf c1 = leaf" "cur_index c1 = 0" "\<not> cur_eof c1" "cur_btree c1 = b"
    and p1: "pager_view p1 = pager_view p" "pager_same p p1"
    using assms(1-3) by (rule first_descends) blast
  have "lrows @ rest = x # later" using pa(2) rows by simp
  moreover have "stored (pager_view p1) t" "\<not> bf_blobkey (bt_flags (cur_btree c1))"
    using st p1 c1 by (simp_all add: table_state_def)
  ultimately obtain c' p' where "cursor_read_current (c1, p1) = (Inr True, (c', p'))"
    "cursor_on t c' x later" "cur_btree c' = b" "pager_view p' = pager_view p1" "pager_same p1 p'"
    using enter_leaf [OF pa(1) _ dn, of x later p1 c1] c1 by auto
  with r p1 show ?thesis by (auto intro: pager_same_trans)
qed

text \<open>The step inside a leaf and the step to the next one.\<close>

lemma cursor_next_on:
  assumes on: "cursor_on t c x (y # later)" and dn: "dense t" and sd: "stored (pager_view p) t"
    and fuel: "height t \<le> fuel" and b: "\<not> bf_blobkey (bt_flags (cur_btree c))"
  shows "\<exists>c' p'. cursor_next fuel (c, p) = (Inr True, (c', p')) \<and> cursor_on t c' y later
     \<and> cur_btree c' = cur_btree c \<and> pager_view p' = pager_view p \<and> pager_same p p'"
proof -
  obtain lrows rest where pa: "path t (cur_stack c) (cur_leaf c) lrows rest"
    and i: "cur_index c < length lrows" and later: "y # later = drop (Suc (cur_index c)) lrows @ rest"
    and eof: "\<not> cur_eof c"
    using on by (auto simp: cursor_on_def)
  let ?c = "cur_index_update Suc c"
  have same: "cur_stack ?c = cur_stack c" "cur_leaf ?c = cur_leaf c" "cur_btree ?c = cur_btree c"
    "cur_index ?c = Suc (cur_index c)" "cur_eof ?c = cur_eof c" by simp_all
  obtain d where d: "pager_view p (cur_leaf c) = Some d"
    "table_leaf d (page_header_offset (cur_leaf c)) lrows"
    using path_leaf_stored [OF pa sd] by auto
  have d': "pager_view p (cur_leaf ?c) = Some d" "table_leaf d (page_header_offset (cur_leaf ?c)) lrows"
    "\<not> bf_blobkey (bt_flags (cur_btree ?c))" using d b by simp_all
  obtain p1 where p1: "pager_view p1 = pager_view p" "pager_same p p1"
    and r1: "cur_index ?c < length lrows \<Longrightarrow> cursor_read_current (?c, p) = (Inr True,
      (?c\<lparr>cur_key := Some (fst (lrows ! cur_index ?c)), cur_record := Some (snd (lrows ! cur_index ?c))\<rparr>, p1))"
    and r2: "length lrows \<le> cur_index ?c \<Longrightarrow> cursor_read_current (?c, p) = (Inr False, (?c, p1))"
    using d' by (rule read_current_leaf) blast
  show ?thesis
  proof (cases "Suc (cur_index c) < length lrows")
    case True
    then have dr: "drop (Suc (cur_index c)) lrows
      = lrows ! Suc (cur_index c) # drop (Suc (Suc (cur_index c))) lrows"
      by (simp add: Cons_nth_drop_Suc)
    let ?c1 = "?c\<lparr>cur_key := Some (fst y), cur_record := Some (snd y)\<rparr>"
    have "cursor_next fuel (c, p) = (Inr True, (?c1, p1))"
      using r1 True eof later dr by (simp add: cursor_next_def)
    moreover have "cursor_on t ?c1 y later"
      using pa True eof later dr unfolding cursor_on_def
      by (intro conjI exI [of _ lrows] exI [of _ rest]) auto
    ultimately show ?thesis using p1 by (intro exI [of _ ?c1] exI [of _ p1]) simp
  next
    case False
    with later have rest: "rest = y # later" by simp
    then have ne: "rest \<noteq> []" by simp
    have "pager_view p1 = pager_view p" by (rule p1(1))
    moreover have "cur_stack ?c = [] @ cur_stack c" by simp
    ultimately obtain p2 st' leaf' lrows' rest' where
      a: "advance_loop fuel (length (cur_stack c) + 0) (?c, p1)
        = (Inr (Some leaf'), (?c\<lparr>cur_stack := [] @ st'\<rparr>, p2))"
      and pa': "path t st' leaf' lrows' rest'" "lrows' @ rest' = rest"
      and p2: "pager_view p2 = pager_view p" "pager_same p1 p2"
      using advance_path(1) [OF pa sd dn fuel _ _ ne, of p1 ?c "[]" 0] by blast
    let ?c2 = "?c\<lparr>cur_stack := st', cur_leaf := leaf', cur_index := 0\<rparr>"
    have c2: "cur_stack ?c2 = st'" "cur_leaf ?c2 = leaf'" "cur_index ?c2 = 0" "\<not> cur_eof ?c2"
      "cur_btree ?c2 = cur_btree c" using eof by simp_all
    have run: "cursor_next fuel (c, p) = cursor_read_current (?c2, p2)"
      using r2 False eof a by (simp add: cursor_next_def advance_to_next_leaf_def)
    have "stored (pager_view p2) t" using sd p2(1) by simp
    moreover have "\<not> bf_blobkey (bt_flags (cur_btree ?c2))" using b by simp
    moreover have "lrows' @ rest' = y # later" using pa'(2) rest by simp
    ultimately obtain c' p' where "cursor_read_current (?c2, p2) = (Inr True, (c', p'))"
      "cursor_on t c' y later" "cur_btree c' = cur_btree ?c2" "pager_view p' = pager_view p2"
      "pager_same p2 p'"
      using enter_leaf [OF pa'(1) _ dn, of y later p2 ?c2] c2(1-4) by blast
    with run p1 p2 c2(5) show ?thesis by (auto intro: pager_same_trans)
  qed
qed

lemma cursor_next_last:
  assumes on: "cursor_on t c x []" and dn: "dense t" and sd: "stored (pager_view p) t"
    and fuel: "height t \<le> fuel" and b: "\<not> bf_blobkey (bt_flags (cur_btree c))"
  shows "\<exists>c' p'. cursor_next fuel (c, p) = (Inr False, (c', p')) \<and> cur_eof c' \<and> cur_key c' = None
     \<and> cur_record c' = None \<and> cur_btree c' = cur_btree c \<and> pager_view p' = pager_view p \<and> pager_same p p'"
proof -
  obtain lrows rest where pa: "path t (cur_stack c) (cur_leaf c) lrows rest"
    and i: "cur_index c < length lrows" "length lrows \<le> Suc (cur_index c)" and rest: "rest = []"
    and eof: "\<not> cur_eof c"
    using on by (auto simp: cursor_on_def)
  let ?c = "cur_index_update Suc c"
  obtain d where d: "pager_view p (cur_leaf c) = Some d"
    "table_leaf d (page_header_offset (cur_leaf c)) lrows"
    using path_leaf_stored [OF pa sd] by auto
  have d': "pager_view p (cur_leaf ?c) = Some d" "table_leaf d (page_header_offset (cur_leaf ?c)) lrows"
    "\<not> bf_blobkey (bt_flags (cur_btree ?c))" using d b by simp_all
  obtain p1 where p1: "pager_view p1 = pager_view p" "pager_same p p1"
    and r2: "length lrows \<le> cur_index ?c \<Longrightarrow> cursor_read_current (?c, p) = (Inr False, (?c, p1))"
    using d' by (rule read_current_leaf) blast
  have "pager_view p1 = pager_view p" by (rule p1(1))
  moreover have "cur_stack ?c = [] @ cur_stack c" by simp
  ultimately obtain p2 where
    a: "advance_loop fuel (length (cur_stack c) + 0) (?c, p1) = advance_loop fuel 0 (?c\<lparr>cur_stack := []\<rparr>, p2)"
    and p2: "pager_view p2 = pager_view p" "pager_same p1 p2"
    using advance_path(2) [OF pa sd dn fuel _ _ rest, of p1 ?c "[]" 0] by blast
  let ?c2 = "?c\<lparr>cur_stack := [], cur_eof := True, cur_key := None, cur_record := None\<rparr>"
  have "cursor_next fuel (c, p) = (Inr False, (?c2, p2))"
    using r2 i(2) eof a by (simp add: cursor_next_def advance_to_next_leaf_def cursor_end_def)
  with p1 p2 show ?thesis
    by (intro exI [of _ ?c2] exI [of _ p2]) (auto intro: pager_same_trans)
qed

section \<open>Scanning a table\<close>

text \<open>
  The loop the virtual machine runs over a cursor, \<^verbatim>\<open>first\<close> and then \<^verbatim>\<open>next\<close> as long as they
  find a row, and the keys and records it sees. \<open>steps\<close> bounds the number of rows.
\<close>

definition cursor_row :: "btree_cursor \<Rightarrow> i64 option \<times> bytes option" where
  "cursor_row c = (cur_key c, cur_record c)"

fun scan_on :: "nat \<Rightarrow> nat \<Rightarrow> (i64 option \<times> bytes option) list cum" where
  "scan_on fuel 0 = throwS Diverge"
| "scan_on fuel (Suc steps) =
     bindS (cu_get cursor_row) (\<lambda>x.
     bindS (cursor_next fuel) (\<lambda>more.
       if more then bindS (scan_on fuel steps) (\<lambda>xs. retS (x # xs)) else retS [x]))"

definition cursor_scan :: "nat \<Rightarrow> nat \<Rightarrow> (i64 option \<times> bytes option) list cum" where
  "cursor_scan fuel steps =
     bindS (cursor_first fuel) (\<lambda>found. if found then scan_on fuel steps else retS [])"

definition shown_rows :: "row list \<Rightarrow> (i64 option \<times> bytes option) list" where
  "shown_rows = map (\<lambda>r. (Some (fst r), Some (snd r)))"

lemma cursor_on_row: "cursor_on t c x later \<Longrightarrow> cursor_row c = (Some (fst x), Some (snd x))"
  by (simp add: cursor_on_def cursor_row_def)

lemma scan_on_rows:
  assumes "cursor_on t c x later" and "dense t" and "stored (pager_view p) t"
    and "height t \<le> fuel" and "\<not> bf_blobkey (bt_flags (cur_btree c))" and "length later < steps"
  shows "\<exists>c' p'. scan_on fuel steps (c, p) = (Inr (shown_rows (x # later)), (c', p'))
     \<and> pager_view p' = pager_view p \<and> pager_same p p'"
  using assms
proof (induction later arbitrary: c p x steps)
  case Nil
  then obtain k where k: "steps = Suc k" by (cases steps) auto
  obtain c' p' where "cursor_next fuel (c, p) = (Inr False, (c', p'))" "pager_view p' = pager_view p"
    "pager_same p p'"
    using cursor_next_last [OF Nil.prems(1-5)] by blast
  with k cursor_on_row [OF Nil.prems(1)] show ?case by (simp add: shown_rows_def bindS_app)
next
  case (Cons y later)
  then obtain k where k: "steps = Suc k" by (cases steps) auto
  obtain c1 p1 where n: "cursor_next fuel (c, p) = (Inr True, (c1, p1))" "cursor_on t c1 y later"
    "cur_btree c1 = cur_btree c" "pager_view p1 = pager_view p" "pager_same p p1"
    using cursor_next_on [OF Cons.prems(1-5)] by blast
  have "stored (pager_view p1) t" "\<not> bf_blobkey (bt_flags (cur_btree c1))" "length later < k"
    using Cons.prems(3,5,6) n k by simp_all
  then obtain c' p' where "scan_on fuel k (c1, p1) = (Inr (shown_rows (y # later)), (c', p'))"
    "pager_view p' = pager_view p1" "pager_same p1 p'"
    using Cons.IH [OF n(2) Cons.prems(2) _ Cons.prems(4)] by blast
  with k n cursor_on_row [OF Cons.prems(1)] show ?case
    by (auto simp: shown_rows_def bindS_app intro: pager_same_trans)
qed

text \<open>
  C13. Scanning a table visits every row of the tree exactly once and in key order, whatever its
  height, provided no leaf is empty, and leaves the stored tree as it was: the loop ends after as
  many steps as there are rows.
\<close>

theorem table_scan:
  assumes "table_state b p t" and "dense t" and "height t \<le> fuel"
    and "length (tree_rows t) \<le> steps"
  shows "\<exists>c' p'. cursor_scan fuel steps (btree_cursor_of b, p)
      = (Inr (shown_rows (tree_rows t)), (c', p')) \<and> table_state b p' t"
proof -
  obtain x later where rows: "tree_rows t = x # later"
    using dense_rows [OF assms(2)] by (cases "tree_rows t") auto
  have b: "cur_btree (btree_cursor_of b) = b" by (simp add: btree_cursor_of_def)
  obtain c1 p1 where f: "cursor_first fuel (btree_cursor_of b, p) = (Inr True, (c1, p1))"
    "cursor_on t c1 x later" "cur_btree c1 = b" "pager_view p1 = pager_view p" "pager_same p p1"
    using cursor_first_on [OF assms(1,3) b assms(2) rows] by blast
  have sd: "stored (pager_view p1) t" "\<not> bf_blobkey (bt_flags (cur_btree c1))" "length later < steps"
    using assms(1,4) f rows by (auto simp: table_state_def)
  obtain c' p' where s: "scan_on fuel steps (c1, p1) = (Inr (shown_rows (x # later)), (c', p'))"
    "pager_view p' = pager_view p1" "pager_same p1 p'"
    using scan_on_rows [OF f(2) assms(2) sd(1) assms(3) sd(2,3)] by blast
  have "pager_view p' = pager_view p" using s(2) f(4) by simp
  from table_state_read [OF assms(1) this pager_same_trans [OF f(5) s(3)]] show ?thesis
    using f(1) s(1) rows by (simp add: cursor_scan_def)
qed

text \<open>
  C37. A scan whose leftmost leaf is empty returns no row at all, however many rows the other leaves
  hold: \<^verbatim>\<open>first\<close> reads the leftmost leaf only and reports the end of the table there. Deleting the
  rows of the first leaf hides the rest of the table.
\<close>

theorem scan_stops_at_empty_leaf:
  assumes "table_state b p t" and "leftmost_rows t = []" and "height t \<le> fuel"
  shows "\<exists>c' p'. cursor_scan fuel steps (btree_cursor_of b, p) = (Inr [], (c', p'))"
proof -
  have b: "cur_btree (btree_cursor_of b) = b" by (simp add: btree_cursor_of_def)
  obtain c1 p1 st leaf lrows rest where
    r: "cursor_first fuel (btree_cursor_of b, p) = cursor_read_current (c1, p1)"
    and pa: "path t st leaf lrows rest" "lrows = leftmost_rows t"
    and c1: "cur_leaf c1 = leaf" "cur_btree c1 = b" and p1: "pager_view p1 = pager_view p"
    using assms(1,3) b by (rule first_descends) blast
  have sd: "stored (pager_view p1) t" and blob: "\<not> bf_blobkey (bt_flags (cur_btree c1))"
    using assms(1) p1 c1(2) by (simp_all add: table_state_def)
  obtain d where d: "pager_view p1 (cur_leaf c1) = Some d"
    "table_leaf d (page_header_offset (cur_leaf c1)) lrows"
    using path_leaf_stored [OF pa(1) sd] c1(1) by auto
  obtain p' where "length lrows \<le> cur_index c1 \<Longrightarrow> cursor_read_current (c1, p1) = (Inr False, (c1, p'))"
    using d blob by (rule read_current_leaf) blast
  with r pa(2) assms(2) show ?thesis by (simp add: cursor_scan_def bindS_app)
qed

section \<open>Seeking\<close>

lemma slot_node:
  assumes "table_interior d ho (map (\<lambda>(t, k). (root_page t, k)) cs) (root_page r)"
  shows "slot_for_table_key d ho key
    = Inr (child_slot key cs, root_page (child_at cs r (child_slot key cs)))"
proof -
  have rm: "read_u32_be d (ho + 8) = Inr (root_page r)"
    by (rule table_interiorE [OF assms], assumption)+
  have slot: "first_at (\<lambda>(_, k). sint key \<le> sint k) (map (\<lambda>(t, k). (root_page t, k)) cs)
    = child_slot key cs"
    by (simp add: first_at_map child_slot_def comp_def split_def)
  show ?thesis
  proof (cases "child_slot key cs < length cs")
    case True
    then show ?thesis
      using interior_scan [OF assms] rm slot
      by (simp add: slot_for_table_key_def child_at_def split_def del: read_u32_be_Inr)
  next
    case False
    then have "child_slot key cs = length cs" using child_slot_le [of key cs] by simp
    then show ?thesis
      using interior_scan [OF assms] rm slot
      by (simp add: slot_for_table_key_def child_at_def split_def del: read_u32_be_Inr)
  qed
qed

definition rows_around :: "i64 \<Rightarrow> row list \<Rightarrow> row list \<Rightarrow> row list \<Rightarrow> bool" where
  "rows_around key rows lrows rest \<longleftrightarrow>
     (\<exists>before. rows = before @ lrows @ rest \<and> (\<forall>x \<in> set before. rowkey x < sint key)
        \<and> (\<forall>z \<in> set rest. sint key < rowkey z))"

lemma descend_key:
  "stored (pager_view p) t \<Longrightarrow> height t \<le> fuel \<Longrightarrow> tree_ok t \<Longrightarrow>
   \<exists>p' st rest.
     descend_for_key fuel (root_page t) key (c, p)
       = (Inr (fst (leaf_for key t)), (c\<lparr>cur_stack := cur_stack c @ st\<rparr>, p'))
     \<and> path t st (fst (leaf_for key t)) (snd (leaf_for key t)) rest
     \<and> rows_around key (tree_rows t) (snd (leaf_for key t)) rest
     \<and> pager_view p' = pager_view p \<and> pager_same p p'"
proof (induction fuel arbitrary: t c p)
  case 0
  then show ?case using height_pos [of t] by simp
next
  case (Suc fuel)
  show ?case
  proof (cases t)
    case (TLeaf n rows)
    with Suc.prems obtain d where d: "pager_view p n = Some d" "table_leaf d (page_header_offset n) rows"
      by auto
    obtain pg p' where g: "get_page n p = (Inr pg, p')" "pager_view p' = pager_view p" "pager_same p p'"
      "pg_data pg = d" "get_at d (page_header_offset n) = Inr PAGE_TYPE_LEAF_TABLE"
      using d by (rule open_leaf)
    have "descend_for_key (Suc fuel) n key (c, p) = (Inr n, (c, p'))"
      using g by (simp add: cu_pager_app Let_def leaf_type_def del: get_at_eq_Inr)
    moreover have "rows_around key rows rows []" unfolding rows_around_def by (rule exI [of _ "[]"]) simp
    ultimately show ?thesis
      using g(2,3) TLeaf
      by (intro exI [of _ p'] exI [of _ "[]"]) (simp add: path_leaf)
  next
    case (TNode n cs r)
    let ?i = "child_slot key cs"
    let ?c = "child_at cs r ?i" and ?f = "\<lparr>cf_pgno = n, cf_child_slot = ?i\<rparr>"
    let ?c1 = "c\<lparr>cur_stack := cur_stack c @ [?f]\<rparr>"
    obtain pg p1 where g: "get_page n p = (Inr pg, p1)" "pager_view p1 = pager_view p" "pager_same p p1"
      "table_interior (pg_data pg) (page_header_offset n) (map (\<lambda>(t, k). (root_page t, k)) cs) (root_page r)"
      "get_at (pg_data pg) (page_header_offset n) = Inr PAGE_TYPE_INTERIOR_TABLE"
      using Suc.prems(1) unfolding TNode by (rule open_node)
    have sd: "stored (pager_view p1) ?c"
      using child_stored [of "pager_view p" n cs r ?i] Suc.prems(1) g(2) TNode by simp
    have h: "height ?c \<le> fuel"
      using height_child [of cs r ?i n] Suc.prems(2) unfolding TNode by linarith
    note ar = around_child [OF Suc.prems(3) [unfolded TNode], of key]
    let ?l = "leaf_for key ?c"
    obtain p' st rest where
      d: "descend_for_key fuel (root_page ?c) key (?c1, p1)
        = (Inr (fst ?l), (?c1\<lparr>cur_stack := cur_stack ?c1 @ st\<rparr>, p'))"
      and pa: "path ?c st (fst ?l) (snd ?l) rest" and ra: "rows_around key (tree_rows ?c) (snd ?l) rest"
      and p': "pager_view p' = pager_view p1" "pager_same p1 p'"
      using Suc.IH [OF sd h ar(3), of ?c1] by blast
    have "descend_for_key (Suc fuel) n key (c, p) = (Inr (fst ?l), (c\<lparr>cur_stack := cur_stack c @ ?f # st\<rparr>, p'))"
      using g d slot_node [OF g(4), of key]
      by (simp add: cu_pager_app Let_def leaf_type_def interior_type_def del: get_at_eq_Inr)
    moreover have "path t (?f # st) (fst ?l) (snd ?l) (rest @ rows_after cs r ?i)"
      unfolding TNode by (rule path_node [OF child_slot_le pa])
    moreover have "rows_around key (tree_rows t) (snd ?l) (rest @ rows_after cs r ?i)"
    proof -
      obtain before where b: "tree_rows ?c = before @ snd ?l @ rest" "\<forall>x \<in> set before. rowkey x < sint key"
        "\<forall>z \<in> set rest. sint key < rowkey z"
        using ra by (auto simp: rows_around_def)
      have "tree_rows t = (rows_before cs ?i @ before) @ snd ?l @ rest @ rows_after cs r ?i"
        unfolding TNode rows_split [OF child_slot_le [of key]] b(1) by simp
      moreover have "\<forall>x \<in> set (rows_before cs ?i @ before). rowkey x < sint key" using ar(1) b(2) by auto
      moreover have "\<forall>z \<in> set (rest @ rows_after cs r ?i). sint key < rowkey z" using ar(2) b(3) by auto
      ultimately show ?thesis unfolding rows_around_def by blast
    qed
    ultimately show ?thesis
      using p' g(2) pager_same_trans [OF g(3) p'(2)] TNode
      by (intro exI [of _ p'] exI [of _ "?f # st"] exI [of _ "rest @ rows_after cs r ?i"]) simp
  qed
qed

text \<open>The rows above a key in a sorted list, where the key sits at \<open>i\<close>.\<close>

lemma above_key:
  assumes "rows_sorted rows" and "i < length rows"
  shows "filter (\<lambda>r. rowkey (rows ! i) < rowkey r) rows = drop (Suc i) rows"
proof -
  have split: "rows = take i rows @ rows ! i # drop (Suc i) rows" using assms(2) by (simp add: id_take_nth_drop)
  then have so: "rows_sorted (take i rows @ rows ! i # drop (Suc i) rows)" using assms(1) by simp
  have "filter (\<lambda>r. rowkey (rows ! i) < rowkey r) (take i rows) = []"
    using so by (auto simp: filter_empty_conv order.strict_iff_not)
  moreover have "filter (\<lambda>r. rowkey (rows ! i) < rowkey r) (drop (Suc i) rows) = drop (Suc i) rows"
    using so by (intro filter_True) auto
  ultimately show ?thesis
    using arg_cong [OF split, of "filter (\<lambda>r. rowkey (rows ! i) < rowkey r)"] by simp
qed

lemma above_around:
  assumes "rows_around key rows lrows rest" and "rows_sorted rows" and "i < length lrows"
    and "fst (lrows ! i) = key"
  shows "filter (\<lambda>r. sint key < rowkey r) rows = drop (Suc i) lrows @ rest"
proof -
  obtain before where rows: "rows = before @ lrows @ rest"
    using assms(1) by (auto simp: rows_around_def)
  let ?i = "length before + i"
  have at: "rows ! ?i = lrows ! i" using rows assms(3) by (simp add: nth_append)
  have "filter (\<lambda>r. rowkey (rows ! ?i) < rowkey r) rows = drop (Suc ?i) rows"
    by (rule above_key [OF assms(2)]) (use rows assms(3) in simp)
  then show ?thesis using at assms(3,4) by (simp add: rows)
qed

lemma rowid_scan:
  assumes "table_leaf d ho rows"
  shows "scan_from (cell_rowid False d ho) (\<lambda>rowid. sint key \<le> sint rowid) 0 (length rows) =
    Inr (if first_at (\<lambda>r. sint key \<le> rowkey r) rows < length rows
         then Some (first_at (\<lambda>r. sint key \<le> rowkey r) rows,
           fst (rows ! first_at (\<lambda>r. sint key \<le> rowkey r) rows)) else None)"
proof -
  obtain cs where h: "holds_cells leaf_cell_ptr_offset table_cell d ho cs rows"
    and ok: "\<forall>r \<in> set rows. table_row_ok r"
    using assms by (rule table_leafE) blast
  have "cell_rowid False d ho j = Inr (map fst rows ! j)" if j: "j < length rows" for j
  proof -
    have "bindR (leaf_ptr d ho j) (table_row d) = Inr (rows ! j)"
      unfolding leaf_ptr_bind by (rule tl.holds_nth [OF h ok j])
    then obtain p where p: "leaf_ptr d ho j = Inr p" "table_row d p = Inr (rows ! j)"
      by (rule bindR_E)
    from table_row_key [OF p(2)] p(1) j show ?thesis by (auto simp: cell_rowid_def)
  qed
  with scan_from_list [of "map fst rows" "cell_rowid False d ho" 0 "\<lambda>rowid. sint key \<le> sint rowid"]
  show ?thesis by (simp add: first_at_map comp_def)
qed

lemma first_at_key:
  assumes "rows_sorted rows" and "i < length rows"
  shows "first_at (\<lambda>r. rowkey (rows ! i) \<le> rowkey r) rows = i"
proof -
  have split: "rows = take i rows @ rows ! i # drop (Suc i) rows" using assms(2) by (simp add: id_take_nth_drop)
  then have so: "rows_sorted (take i rows @ rows ! i # drop (Suc i) rows)" using assms(1) by simp
  have "takeWhile (\<lambda>r. \<not> rowkey (rows ! i) \<le> rowkey r) (take i rows @ rows ! i # drop (Suc i) rows)
    = take i rows"
    using so by (subst takeWhile_append2) auto
  then show ?thesis using split assms(2) by (simp add: first_at_def)
qed

text \<open>
  C14. Seeking a key the table holds finds its row, and the rows that \<^verbatim>\<open>next\<close> then returns are exactly
  those with a greater key.
\<close>

theorem seek_finds:
  assumes st: "table_state b p t" and fuel: "height t \<le> fuel" and x: "(key, rec) \<in> set (tree_rows t)"
  shows "\<exists>c' p'. cursor_seek fuel key (btree_cursor_of b, p) = (Inr True, (c', p'))
     \<and> cursor_on t c' (key, rec) (filter (\<lambda>r. sint key < rowkey r) (tree_rows t))
     \<and> table_state b p' t"
proof -
  have sd: "stored (pager_view p) t" and root: "bt_root b = root_page t" and ok: "tree_ok t"
    and blob: "\<not> bf_blobkey (bt_flags b)"
    using st by (simp_all add: table_state_def)
  let ?n = "fst (leaf_for key t)" and ?rows = "snd (leaf_for key t)"
  let ?c0 = "(btree_cursor_of b)\<lparr>cur_stack := []\<rparr>"
  obtain p1 st' rest where
    d: "descend_for_key fuel (root_page t) key (?c0, p) = (Inr ?n, (?c0\<lparr>cur_stack := cur_stack ?c0 @ st'\<rparr>, p1))"
    and pa: "path t st' ?n ?rows rest" and ra: "rows_around key (tree_rows t) ?rows rest"
    and p1: "pager_view p1 = pager_view p" "pager_same p p1"
    using descend_key [OF sd fuel ok] by blast
  obtain dt where dt: "pager_view p1 ?n = Some dt" "table_leaf dt (page_header_offset ?n) ?rows"
    using leaf_data [OF sd, of key] p1(1) by auto
  obtain pg p2 where g: "get_page ?n p1 = (Inr pg, p2)" "pager_view p2 = pager_view p1"
    "pager_same p1 p2" "pg_data pg = dt"
    using dt by (rule open_leaf)
  have so: "rows_sorted ?rows"
    using dt(2) by (simp add: table_leaf_def)
  have "(key, rec) \<in> set ?rows" using x in_leaf [OF ok] by blast
  then obtain i where i: "i < length ?rows" "?rows ! i = (key, rec)" by (auto simp: in_set_conv_nth)
  then have fk: "fst (?rows ! i) = key" by simp
  have at: "first_at (\<lambda>r. sint key \<le> rowkey r) ?rows = i"
    using first_at_key [OF so i(1)] i(2) by simp
  let ?c1 = "(btree_cursor_of b)\<lparr>cur_stack := st', cur_leaf := ?n, cur_index := i, cur_eof := False\<rparr>"
  have run: "cursor_seek fuel key (btree_cursor_of b, p) = cursor_read_current (?c1, p2)"
    using d g blob root table_leaf_count [OF dt(2)] rowid_scan [OF dt(2), of key] i(1) at
    by (simp add: cursor_seek_def btree_cursor_of_def cu_pager_app Let_def)
  have d2: "pager_view p2 (cur_leaf ?c1) = Some dt"
    "table_leaf dt (page_header_offset (cur_leaf ?c1)) ?rows"
    "\<not> bf_blobkey (bt_flags (cur_btree ?c1))"
    using dt g(2) blob by (simp_all add: btree_cursor_of_def)
  obtain p' where p': "pager_view p' = pager_view p2" "pager_same p2 p'"
    and r: "cur_index ?c1 < length ?rows \<Longrightarrow> cursor_read_current (?c1, p2) = (Inr True,
      (?c1\<lparr>cur_key := Some (fst (?rows ! cur_index ?c1)), cur_record := Some (snd (?rows ! cur_index ?c1))\<rparr>, p'))"
    using d2 by (rule read_current_leaf) blast
  let ?c' = "?c1\<lparr>cur_key := Some key, cur_record := Some rec\<rparr>"
  have "cursor_seek fuel key (btree_cursor_of b, p) = (Inr True, (?c', p'))"
    using run r i by simp
  moreover have "cursor_on t ?c' (key, rec) (filter (\<lambda>r. sint key < rowkey r) (tree_rows t))"
    unfolding above_around [OF ra tree_rows_sorted [OF ok] i(1) fk] cursor_on_def
    using pa i by (intro conjI exI [of _ ?rows] exI [of _ rest]) auto
  moreover have "pager_view p' = pager_view p" using p'(1) g(2) p1(1) by simp
  ultimately show ?thesis
    using table_state_read [OF st _ pager_same_trans [OF pager_same_trans [OF p1(2) g(3)] p'(2)]]
    by blast
qed

end
