(* ===== verification/Row_Loop.thy ===== *)
theory Row_Loop
  imports Cursor_Correct Vdbe_Run
begin

text \<open>
  The loop over the rows of a table that the schema and the machine run: it folds its body over the
  rows of the stored tree in key order. Counting rows and the next free row id are instances; so is
  the answer to \<^verbatim>\<open>SELECT COUNT(*)\<close>.
\<close>

section \<open>A transaction leaves the pages as they are\<close>

abbreviation set_tx :: "pager \<Rightarrow> pager" where
  "set_tx \<equiv> pgr_in_transaction_update (\<lambda>_. True)"

lemma open_for_fetch_tx: "open_for_fetch (set_tx p) = apsnd set_tx (open_for_fetch p)"
  by (auto simp: open_for_fetch_def ensure_wal_def bindS_app open_pager_wal_def split: option.splits
      sum.splits prod.splits)

lemma fetch_found_tx: "fetch_found n (set_tx p) = fetch_found n p"
  by (simp add: fetch_found_def cong: option.case_cong)

lemma pager_view_begin: "pager_view (set_tx p) = pager_view p"
proof
  fix n
  show "pager_view (set_tx p) n = pager_view p n"
    by (auto simp: pager_view_def get_page_eq fetch_page_eq open_for_fetch_tx fetch_found_tx
        split: option.splits sum.splits prod.splits)
qed

lemma table_state_begin: "table_state b p t \<Longrightarrow> table_state b (set_tx p) t"
  by (rule table_state_read [OF _ pager_view_begin]) (simp_all add: pager_same_def pages_keyed_def)

section \<open>Folding over the rows\<close>

text \<open>The trees a scan visits completely: every leaf has a row, or the table is one empty leaf.\<close>

fun scannable :: "tree \<Rightarrow> bool" where
  "scannable (TLeaf n rows) \<longleftrightarrow> True"
| "scannable (TNode n cs r) \<longleftrightarrow> dense (TNode n cs r)"

lemma scannable_cases: "scannable t \<Longrightarrow> dense t \<or> (\<exists>n. t = TLeaf n [])"
  by (cases t) auto

lemma row_loop_fold:
  assumes "cursor_on t c x later" and "dense t" and "stored (pager_view p) t" and "height t \<le> fuel"
    and "\<not> bf_blobkey (bt_flags (cur_btree c))" and "length later < steps"
    and "\<And>pre y post c p. x # later = pre @ y # post \<Longrightarrow> cursor_on t c y post \<Longrightarrow>
      body (foldl g acc pre) (c, p) = (Inr (foldl g acc (pre @ [y])), (c, p))"
  shows "\<exists>c' p'. row_loop fuel steps body acc (c, p) = (Inr (foldl g acc (x # later)), (c', p'))
     \<and> pager_view p' = pager_view p \<and> pager_same p p'"
  using assms
proof (induction later arbitrary: acc c p x steps)
  case Nil
  then obtain k where k: "steps = Suc k" by (cases steps) auto
  obtain c' p' where "cursor_next fuel (c, p) = (Inr False, (c', p'))" "pager_view p' = pager_view p"
    "pager_same p p'"
    using cursor_next_last [OF Nil.prems(1-5)] by blast
  moreover have "body acc (c, p) = (Inr (g acc x), (c, p))"
    using Nil.prems(7) [of "[]" x "[]" c p] Nil.prems(1) by simp
  ultimately show ?case by (simp add: k bindS_app)
next
  case (Cons y later)
  then obtain k where k: "steps = Suc k" by (cases steps) auto
  obtain c1 p1 where n: "cursor_next fuel (c, p) = (Inr True, (c1, p1))" "cursor_on t c1 y later"
    "cur_btree c1 = cur_btree c" "pager_view p1 = pager_view p" "pager_same p p1"
    using cursor_next_on [OF Cons.prems(1-5)] by blast
  have b: "body acc (c, p) = (Inr (g acc x), (c, p))"
    using Cons.prems(7) [of "[]" x "y # later" c p] Cons.prems(1) by simp
  have "body (foldl g (g acc x) pre) (c, p) = (Inr (foldl g (g acc x) (pre @ [z])), (c, p))"
    if "y # later = pre @ z # post" "cursor_on t c z post" for pre z post c p
    using Cons.prems(7) [of "x # pre" z post c p] that by simp
  then obtain c' p' where "row_loop fuel k body (g acc x) (c1, p1) = (Inr (foldl g (g acc x) (y # later)), (c', p'))"
    "pager_view p' = pager_view p1" "pager_same p1 p'"
    using Cons.IH [OF n(2) Cons.prems(2) _ Cons.prems(4), of p1 k "g acc x"] n Cons.prems(3,5,6) k by auto
  with n b show ?case by (auto simp: k bindS_app intro: pager_same_trans)
qed

lemma rows_fold:
  assumes st: "table_state b p t" and sc: "scannable t" and fuel: "height t \<le> fuel"
    and len: "length (tree_rows t) \<le> fuel"
    and body: "\<And>pre y post c p. tree_rows t = pre @ y # post \<Longrightarrow> cursor_on t c y post \<Longrightarrow>
      body (foldl g acc pre) (c, p) = (Inr (foldl g acc (pre @ [y])), (c, p))"
  obtains p' where "with_cursor b (for_each_row fuel body acc) p = (Inr (foldl g acc (tree_rows t)), p')"
    and "pager_view p' = pager_view p" and "pager_same p p'"
proof (cases "tree_rows t")
  case Nil
  have b: "cur_btree (btree_cursor_of b) = b" by (simp add: btree_cursor_of_def)
  obtain c1 p1 st' leaf lrows rest where
    r: "cursor_first fuel (btree_cursor_of b, p) = cursor_read_current (c1, p1)"
    and pa: "path t st' leaf lrows rest" "lrows @ rest = tree_rows t"
    and c1: "cur_leaf c1 = leaf" "cur_btree c1 = b" and p1: "pager_view p1 = pager_view p" "pager_same p p1"
    using st fuel b by (rule first_descends) blast
  have sd: "stored (pager_view p1) t" and blob: "\<not> bf_blobkey (bt_flags (cur_btree c1))"
    using st p1(1) c1(2) by (simp_all add: table_state_def)
  obtain d where d: "pager_view p1 (cur_leaf c1) = Some d"
    "table_leaf d (page_header_offset (cur_leaf c1)) lrows"
    using path_leaf_stored [OF pa(1) sd] c1(1) by auto
  obtain p2 where p2: "pager_view p2 = pager_view p1" "pager_same p1 p2"
    and e: "length lrows \<le> cur_index c1 \<Longrightarrow> cursor_read_current (c1, p1) = (Inr False, (c1, p2))"
    using d blob by (rule read_current_leaf) blast
  have "with_cursor b (for_each_row fuel body acc) p = (Inr acc, p2)"
    using r e pa(2) Nil by (simp add: with_cursor_def for_each_row_def bindS_app)
  with that Nil p1 p2 show thesis by (simp add: pager_same_trans)
next
  case (Cons x later)
  then have dn: "dense t" using scannable_cases [OF sc] by auto
  have b: "cur_btree (btree_cursor_of b) = b" by (simp add: btree_cursor_of_def)
  obtain c1 p1 where f: "cursor_first fuel (btree_cursor_of b, p) = (Inr True, (c1, p1))"
    "cursor_on t c1 x later" "cur_btree c1 = b" "pager_view p1 = pager_view p" "pager_same p p1"
    using cursor_first_on [OF st fuel b dn Cons] by blast
  have sd: "stored (pager_view p1) t" "\<not> bf_blobkey (bt_flags (cur_btree c1))" "length later < fuel"
    using st f len Cons by (auto simp: table_state_def)
  have "body (foldl g acc pre) (c, p) = (Inr (foldl g acc (pre @ [y])), (c, p))"
    if "x # later = pre @ y # post" and "cursor_on t c y post" for pre y post c p
    using body Cons that by simp
  then obtain c' p' where s: "row_loop fuel fuel body acc (c1, p1) = (Inr (foldl g acc (x # later)), (c', p'))"
    "pager_view p' = pager_view p1" "pager_same p1 p'"
    using row_loop_fold [OF f(2) dn sd(1) fuel sd(2,3), of body g acc] by blast
  have "with_cursor b (for_each_row fuel body acc) p = (Inr (foldl g acc (tree_rows t)), p')"
    using f(1) s(1) Cons by (simp add: with_cursor_def for_each_row_def bindS_app)
  with that f(4,5) s(2,3) show thesis by (simp add: pager_same_trans)
qed

section \<open>Counting rows and the next row id\<close>

lemma add_i64_nat:
  assumes "n < 2 ^ 63 - 1"
  shows "add_i64 (of_nat n) 1 = Inr (of_nat (Suc n))"
proof -
  have "sint (of_nat n :: i64) = int n"
    using assms by (simp add: signed_of_nat signed_take_bit_int_eq_self)
  with assms show ?thesis by (simp add: add_i64_def add.commute)
qed

lemma foldl_count: "foldl (\<lambda>n _. n + 1) a xs = a + (of_nat (length xs) :: i64)"
  by (induction xs arbitrary: a) simp_all

lemma count_rows:
  assumes "table_state b p t" and "scannable t" and "height t \<le> fuel"
    and "length (tree_rows t) \<le> fuel" and "length (tree_rows t) < 2 ^ 63"
  obtains p' where "with_cursor b (for_each_row fuel count_row 0) p = (Inr (of_nat (length (tree_rows t))), p')"
    and "pager_view p' = pager_view p" and "pager_same p p'"
proof -
  have "count_row (foldl (\<lambda>n _. n + 1) 0 pre) (c, p) = (Inr (foldl (\<lambda>n _. n + 1) 0 (pre @ [y])), (c, p))"
    if "tree_rows t = pre @ y # post" for pre y post and c :: btree_cursor and p :: pager
    using that assms(5) add_i64_nat [of "length pre"] by (simp add: count_row_def foldl_count add.commute)
  then obtain p' where "with_cursor b (for_each_row fuel count_row 0) p
      = (Inr (foldl (\<lambda>n _. n + 1) 0 (tree_rows t)), p')"
    "pager_view p' = pager_view p" "pager_same p p'"
    by (rule rows_fold [OF assms(1-4), of count_row "\<lambda>n _. n + 1" 0]) blast+
  with that show thesis by (simp add: foldl_count)
qed

text \<open>The largest key, at least 0.\<close>

definition top_key :: "i64 list \<Rightarrow> i64" where
  "top_key ks = foldl (\<lambda>m k. if sint m < sint k then k else m) 0 ks"

lemma top_key_fold: "foldl (\<lambda>m x. if sint m < sint (fst x) then fst x else m) a rows
    = foldl (\<lambda>m k. if sint m < sint k then k else m) a (map fst rows)"
  by (induction rows arbitrary: a) simp_all

lemma top_key_max:
  "(\<forall>k \<in> set ks. sint k \<le> sint (top_key ks)) \<and> 0 \<le> sint (top_key ks)"
proof (induction ks rule: rev_induct)
  case (snoc k ks)
  then show ?case by (auto simp: top_key_def)
qed (simp add: top_key_def)

lemma next_rowid_run:
  assumes "table_state b p t" and "scannable t" and "height t \<le> fuel"
    and "length (tree_rows t) \<le> fuel" and "sint (top_key (map fst (tree_rows t))) < 2 ^ 63 - 1"
  obtains p' where "next_rowid fuel b p = (Inr (top_key (map fst (tree_rows t)) + 1), p')"
    and "pager_view p' = pager_view p" and "pager_same p p'"
proof -
  let ?g = "\<lambda>m (x :: row). if sint m < sint (fst x) then fst x else m"
  have "max_key (foldl ?g 0 pre) (c, p) = (Inr (foldl ?g 0 (pre @ [y])), (c, p))"
    if "tree_rows t = pre @ y # post" and "cursor_on t c y post" for pre y post c and p :: pager
    using that by (simp add: max_key_def cursor_on_def)
  then obtain p' where "with_cursor b (for_each_row fuel max_key 0) p = (Inr (foldl ?g 0 (tree_rows t)), p')"
    "pager_view p' = pager_view p" "pager_same p p'"
    by (rule rows_fold [OF assms(1-4), of max_key ?g 0]) blast+
  moreover have "foldl ?g 0 (tree_rows t) = top_key (map fst (tree_rows t))"
    by (simp add: top_key_def top_key_fold)
  moreover have "add_i64 (top_key (map fst (tree_rows t))) 1 = Inr (top_key (map fst (tree_rows t)) + 1)"
    using assms(5) top_key_max [of "map fst (tree_rows t)"] by (simp add: add_i64_def)
  ultimately show thesis using that by (simp add: next_rowid_def bindS_app)
qed

end
