(* ===== verification/Compile_Correct.thy ===== *)
theory Compile_Correct
  imports Vdbe_Run
begin

text \<open>
  The code for an expression computes the value of the expression. \<open>eval_expr\<close> is the value by
  recursion on the tree; it fixes what the operators of the machine do with values. The code leaves
  the registers below its target alone, which is what lets operands be evaluated one after the other.
\<close>

section \<open>The value of an expression\<close>

fun binary_value :: "binary_op \<Rightarrow> val \<Rightarrow> val \<Rightarrow> val res" where
  "binary_value BAdd a b = Inr (VReal (f64_add (real_or_0 a) (real_or_0 b)))"
| "binary_value BSub a b = Inr (VReal (f64_sub (real_or_0 a) (real_or_0 b)))"
| "binary_value BMul a b = Inr (VReal (f64_mul (real_or_0 a) (real_or_0 b)))"
| "binary_value BDiv a b = Inr (VReal (f64_div (real_or_0 a) (real_or_0 b)))"
| "binary_value BMod a b = rem_i64 (int_or_0 a) (int_or_0 b)"
| "binary_value BConcat a b = Inr (VText (to_text a @ to_text b))"
| "binary_value BAnd a b = Inr (bool_value (truthy a \<and> truthy b))"
| "binary_value BOr a b =
     Inr (bool_value (a \<noteq> VNull \<and> b \<noteq> VNull \<and> (int_or_0 a \<noteq> 0 \<or> int_or_0 b \<noteq> 0)))"
| "binary_value BNotEq a b = Inr (bool_value (compare_val a b \<noteq> Equal))"
| "binary_value BLt a b = Inr (bool_value (compare_val a b = Less))"
| "binary_value BLe a b = Inr (bool_value (compare_val a b \<noteq> Less))"
| "binary_value BGt a b = Inr (bool_value (compare_val a b = Greater))"
| "binary_value BGe a b = Inr (bool_value (compare_val a b \<noteq> Greater))"
| "binary_value _ a b = Inr (bool_value (compare_val a b = Equal))"

text \<open>Unary minus subtracts the contents of register 0, whatever it holds.\<close>

fun unary_value :: "val \<Rightarrow> unary_op \<Rightarrow> val \<Rightarrow> val" where
  "unary_value v0 UMinus a = VReal (f64_sub (real_or_0 a) (real_or_0 v0))"
| "unary_value v0 _ a = bool_value (\<not> truthy a)"

text \<open>Integer literals keep their low 32 bits; the forms the compiler has no code for are NULL.\<close>

fun eval_expr :: "val \<Rightarrow> expr \<Rightarrow> val res" where
  "eval_expr v0 (EInteger n) = Inr (VInteger (scast (ucast n :: i32)))"
| "eval_expr v0 (EReal r) = Inr (VReal r)"
| "eval_expr v0 (EString s) = Inr (VText s)"
| "eval_expr v0 (EBinaryOp bop l r) =
     bindR (eval_expr v0 l) (\<lambda>a. bindR (eval_expr v0 r) (\<lambda>b. binary_value bop a b))"
| "eval_expr v0 (EUnaryOp uop e) = bindR (eval_expr v0 e) (\<lambda>a. Inr (unary_value v0 uop a))"
| "eval_expr v0 e = Inr VNull"

section \<open>The code\<close>

fun expr_regs :: "expr \<Rightarrow> nat" where
  "expr_regs (EBinaryOp bop l r) = max (1 + expr_regs l) (2 + expr_regs r)"
| "expr_regs (EUnaryOp uop e) = 1 + expr_regs e"
| "expr_regs e = 0"

fun expr_code :: "expr \<Rightarrow> i32 \<Rightarrow> insn list" where
  "expr_code (EInteger n) reg = [ins OpInteger reg (ucast n) 0]"
| "expr_code (EReal r) reg = [Insn OpReal reg 0 0 (P4Real r) 0]"
| "expr_code (EString s) reg = [Insn OpString reg 0 0 (P4String s) 0]"
| "expr_code (EBinaryOp bop l r) reg =
     expr_code l (reg + 1) @ expr_code r (reg + 2) @ [ins (binary_opcode bop) reg (reg + 1) (reg + 2)]"
| "expr_code (EUnaryOp uop e) reg = expr_code e (reg + 1) @ [ins (unary_opcode uop) reg (reg + 1) 0]"
| "expr_code e reg = [ins OpNull reg 0 0]"

lemma emit1_app [simp]:
  "emit1 i p = (Inr (), Program (pr_insns p @ [i]) (pr_n_reg p) (pr_read_only p))"
  by (simp add: emit1_def emit_def)

lemma sint_add_i32:
  fixes a b :: i32
  assumes "- (2 ^ 31) \<le> sint a + sint b" and "sint a + sint b < 2 ^ 31"
  shows "sint (a + b) = sint a + sint b"
  using assms by (simp add: sint_word_ariths signed_take_bit_int_eq_self)

lemma add_i32_nonneg:
  fixes a b :: i32
  assumes "0 \<le> sint a" and "0 \<le> sint b" and "sint a + sint b < 2 ^ 31"
  shows "add_i32 a b = Inr (a + b) \<and> sint (a + b) = sint a + sint b"
  using assms by (simp add: add_i32_def sint_add_i32)

lemma compile_expr_code:
  "0 \<le> sint reg \<Longrightarrow> sint reg + int (expr_regs e) < 2 ^ 31 \<Longrightarrow>
   compile_expr e reg p =
     (Inr (), Program (pr_insns p @ expr_code e reg) (pr_n_reg p) (pr_read_only p))"
proof (induction e arbitrary: reg p rule: expr_regs.induct)
  case (1 bop l r)
  have "add_i32 reg 1 = Inr (reg + 1) \<and> sint (reg + 1) = sint reg + 1"
    using add_i32_nonneg [of reg 1] 1(3,4) by simp
  moreover have "add_i32 reg 2 = Inr (reg + 2) \<and> sint (reg + 2) = sint reg + 2"
    using add_i32_nonneg [of reg 2] 1(3,4) by simp
  ultimately show ?case using 1 by simp
next
  case (2 uop e)
  have "add_i32 reg 1 = Inr (reg + 1) \<and> sint (reg + 1) = sint reg + 1"
    using add_i32_nonneg [of reg 1] 2(2,3) by simp
  then show ?case using 2 by simp
qed simp_all

section \<open>Running it\<close>

text \<open>What running code at the program counter does, when its value is \<open>r\<close>.\<close>

definition computes :: "env \<Rightarrow> insn list \<Rightarrow> nat \<Rightarrow> val res \<Rightarrow> vdbe \<Rightarrow> schema \<Rightarrow> pager \<Rightarrow> bool" where
  "computes en code d r v s p =
     (case r of
        Inl f \<Rightarrow> (\<forall>n. fst (step_loop (length code + n) en (v, s, p)) = Inl f)
      | Inr x \<Rightarrow>
          (\<exists>regs. value_at regs d = x \<and> (\<forall>j < d. value_at regs j = value_at (vm_regs v) j)
            \<and> (\<forall>n. step_loop (length code + n) en (v, s, p)
                 = step_loop n en (v\<lparr>vm_pc := vm_pc v + length code, vm_regs := regs\<rparr>, s, p))))"

lemma computes_store:
  assumes "code_at v (vm_pc v) [i]" and "0 \<le> sint reg"
    and "execute en i (v\<lparr>vm_pc := Suc (vm_pc v)\<rparr>, s, p) = store reg x (v\<lparr>vm_pc := Suc (vm_pc v)\<rparr>, s, p)"
  shows "computes en [i] (nat (sint reg)) (Inr x) v s p"
proof -
  let ?regs = "upd_reg (nat (sint reg)) x (vm_regs v)"
  have "step_loop (Suc n) en (v, s, p)
      = step_loop n en (v\<lparr>vm_pc := Suc (vm_pc v), vm_regs := ?regs\<rparr>, s, p)" for n
    using assms step_turn [of v en s p "(v\<lparr>vm_pc := Suc (vm_pc v), vm_regs := ?regs\<rparr>, s, p)" n]
    by (simp add: code_at_Cons store_app)
  then show ?thesis by (auto simp: computes_def intro!: exI [of _ ?regs])
qed

lemma computes_fault:
  assumes "code_at v (vm_pc v) [i]" and "execute en i (v\<lparr>vm_pc := Suc (vm_pc v)\<rparr>, s, p) = (Inl f, st)"
  shows "computes en [i] d (Inl f) v s p"
  using assms step_fails [of v en s p f st] by (simp add: computes_def code_at_Cons)

text \<open>Code for an operand, then code that uses its value.\<close>

lemma computes_seq:
  assumes "computes en c1 d1 (Inr x) v s p" and "d \<le> d1"
    and "\<And>regs. value_at regs d1 = x \<Longrightarrow> (\<forall>j < d1. value_at regs j = value_at (vm_regs v) j) \<Longrightarrow>
      computes en c2 d r (v\<lparr>vm_pc := vm_pc v + length c1, vm_regs := regs\<rparr>) s p"
  shows "computes en (c1 @ c2) d r v s p"
proof -
  obtain regs where x: "value_at regs d1 = x" "\<forall>j < d1. value_at regs j = value_at (vm_regs v) j"
    and st: "\<And>n. step_loop (length c1 + n) en (v, s, p)
       = step_loop n en (v\<lparr>vm_pc := vm_pc v + length c1, vm_regs := regs\<rparr>, s, p)"
    using assms(1) by (auto simp: computes_def)
  have st2: "step_loop (length c1 + (length c2 + n)) en (v, s, p)
      = step_loop (length c2 + n) en (v\<lparr>vm_pc := vm_pc v + length c1, vm_regs := regs\<rparr>, s, p)" for n
    using st [of "length c2 + n"] by (simp add: add.assoc)
  have c: "computes en c2 d r (v\<lparr>vm_pc := vm_pc v + length c1, vm_regs := regs\<rparr>) s p"
    by (rule assms(3) [OF x])
  show ?thesis
  proof (cases r)
    case (Inl f)
    with c show ?thesis unfolding computes_def by (simp add: st2 add.assoc del: step_loop.simps)
  next
    case (Inr y)
    with c obtain regs2 where "value_at regs2 d = y" "\<forall>j < d. value_at regs2 j = value_at regs j"
      and "\<And>n. step_loop (length c2 + n) en (v\<lparr>vm_pc := vm_pc v + length c1, vm_regs := regs\<rparr>, s, p)
         = step_loop n en (v\<lparr>vm_pc := vm_pc v + length c1 + length c2, vm_regs := regs2\<rparr>, s, p)"
      by (auto simp: computes_def)
    with x(2) assms(2) show ?thesis
      by (auto simp: computes_def Inr st2 add.assoc simp del: step_loop.simps intro!: exI [of _ regs2])
  qed
qed

lemma computes_seq_fault:
  assumes "computes en c1 d1 (Inl f) v s p"
  shows "computes en (c1 @ c2) d (Inl f) v s p"
  using assms by (auto simp: computes_def add.assoc simp del: step_loop.simps)

lemma exec_binary:
  "execute en (ins (binary_opcode bop) reg r1 r2) (v, s, p) =
     (case binary_value bop (value_at (vm_regs v) (as_usize r1)) (value_at (vm_regs v) (as_usize r2)) of
        Inr x \<Rightarrow> store reg x (v, s, p) | Inl f \<Rightarrow> (Inl f, (v, s, p)))"
proof (cases "bop = BMod")
  case True
  then show ?thesis
    by (cases "rem_i64 (int_or_0 (value_at (vm_regs v) (as_usize r1))) (int_or_0 (value_at (vm_regs v) (as_usize r2)))")
       (simp_all add: execute_def exec_arith_def binary_int_def)
next
  case False
  then show ?thesis
    by (cases bop) (simp_all add: execute_def exec_arith_def binary_numeric_def exec_logic_def
      exec_compare_def truthy_def is_null_def conj_comms conj_ac)
qed

lemma exec_unary:
  "execute en (ins (unary_opcode uop) reg r1 0) (v, s, p) =
     store reg (unary_value (value_at (vm_regs v) 0) uop (value_at (vm_regs v) (as_usize r1))) (v, s, p)"
  by (cases uop) (simp_all add: execute_def exec_arith_def binary_numeric_def exec_logic_def truthy_def
      is_null_def as_usize_nonneg)

text \<open>The code of both operands, then the operator.\<close>

lemma run_binary:
  assumes reg: "0 \<le> sint reg" and r1: "sint (reg + 1) = sint reg + 1" and r2: "sint (reg + 2) = sint reg + 2"
    and c: "code_at v (vm_pc v + length cl + length cr) [ins (binary_opcode bop) reg (reg + 1) (reg + 2)]"
    and L: "computes en cl (nat (sint (reg + 1))) el v s p"
    and R: "\<And>regs. value_at regs 0 = value_at (vm_regs v) 0 \<Longrightarrow>
      computes en cr (nat (sint (reg + 2))) er (v\<lparr>vm_pc := vm_pc v + length cl, vm_regs := regs\<rparr>) s p"
  shows "computes en (cl @ cr @ [ins (binary_opcode bop) reg (reg + 1) (reg + 2)]) (nat (sint reg))
    (bindR el (\<lambda>a. bindR er (binary_value bop a))) v s p"
proof (cases el)
  case (Inl f)
  with L show ?thesis by (simp add: computes_seq_fault)
next
  case (Inr a)
  let ?i = "ins (binary_opcode bop) reg (reg + 1) (reg + 2)"
  have "computes en (cr @ [?i]) (nat (sint reg)) (bindR er (binary_value bop a))
      (v\<lparr>vm_pc := pc, vm_regs := regs\<rparr>) s p"
    if pc: "pc = vm_pc v + length cl" and a: "value_at regs (nat (sint (reg + 1))) = a"
      and keep: "\<forall>j < nat (sint (reg + 1)). value_at regs j = value_at (vm_regs v) j" for regs pc
  proof -
    let ?v = "v\<lparr>vm_pc := pc, vm_regs := regs\<rparr>"
    have "value_at regs 0 = value_at (vm_regs v) 0" using keep r1 reg by simp
    from R [OF this] have R': "computes en cr (nat (sint (reg + 2))) er ?v s p" by (simp add: pc)
    show ?thesis
    proof (cases er)
      case (Inl f)
      with R' show ?thesis by (simp add: computes_seq_fault)
    next
      case (Inr b)
      have "computes en [?i] (nat (sint reg)) (binary_value bop a b) (?v\<lparr>vm_pc := pc2, vm_regs := regs2\<rparr>) s p"
        if pc2: "pc2 = pc + length cr" and b: "value_at regs2 (nat (sint (reg + 2))) = b"
          and keep2: "\<forall>j < nat (sint (reg + 2)). value_at regs2 j = value_at regs j" for regs2 pc2
      proof -
        have a2: "value_at regs2 (nat (sint (reg + 1))) = a" using keep2 a r1 r2 reg by simp
        have code: "code_at (?v\<lparr>vm_pc := pc2, vm_regs := regs2\<rparr>) pc2 [?i]"
          using c pc pc2 by (simp add: code_at_def)
        have u: "as_usize (reg + 1) = nat (sint (reg + 1))" "as_usize (reg + 2) = nat (sint (reg + 2))"
          using r1 r2 reg by (simp_all add: as_usize_nonneg)
        show ?thesis
          using code reg a2 b
          by (cases "binary_value bop a b")
             (auto simp: exec_binary u intro!: computes_store computes_fault)
      qed
      then show ?thesis using computes_seq [OF R' [unfolded Inr]] Inr r2 by simp
    qed
  qed
  then show ?thesis using computes_seq [OF L [unfolded Inr]] Inr r1 by simp
qed

lemma run_expr:
  assumes "0 \<le> sint reg" and "sint reg + int (expr_regs e) < 2 ^ 31"
    and "code_at v (vm_pc v) (expr_code e reg)"
  shows "computes en (expr_code e reg) (nat (sint reg)) (eval_expr (value_at (vm_regs v) 0) e) v s p"
  using assms
proof (induction e arbitrary: reg v rule: expr_regs.induct)
  case (1 bop l r)
  have r1: "sint (reg + 1) = sint reg + 1" and r2: "sint (reg + 2) = sint reg + 2"
    using add_i32_nonneg [of reg 1] add_i32_nonneg [of reg 2] 1(3,4) by simp_all
  note c = 1(5) [simplified code_at_append expr_code.simps]
  have L: "computes en (expr_code l (reg + 1)) (nat (sint (reg + 1))) (eval_expr (value_at (vm_regs v) 0) l) v s p"
    by (rule 1(1)) (use 1(3,4) c r1 in simp_all)
  have R: "computes en (expr_code r (reg + 2)) (nat (sint (reg + 2))) (eval_expr (value_at (vm_regs v) 0) r)
      (v\<lparr>vm_pc := vm_pc v + length (expr_code l (reg + 1)), vm_regs := regs\<rparr>) s p"
    if "value_at regs 0 = value_at (vm_regs v) 0" for regs
    using 1(2) [of "reg + 2" "v\<lparr>vm_pc := vm_pc v + length (expr_code l (reg + 1)), vm_regs := regs\<rparr>"]
      1(3,4) c r2 that by (simp add: code_at_def)
  from run_binary [OF 1(3) r1 r2 _ L R] c show ?case by (simp add: code_at_def add.assoc)
next
  case (2 uop e)
  let ?i = "ins (unary_opcode uop) reg (reg + 1) 0"
  have r1: "sint (reg + 1) = sint reg + 1" using add_i32_nonneg [of reg 1] 2(2,3) by simp
  note c = 2(4) [simplified code_at_append expr_code.simps]
  have L: "computes en (expr_code e (reg + 1)) (nat (sint (reg + 1))) (eval_expr (value_at (vm_regs v) 0) e) v s p"
    by (rule 2(1)) (use 2(2,3) c r1 in simp_all)
  show ?case
  proof (cases "eval_expr (value_at (vm_regs v) 0) e")
    case (Inl f)
    with L show ?thesis by (simp add: computes_seq_fault)
  next
    case (Inr a)
    have "computes en [?i] (nat (sint reg)) (Inr (unary_value (value_at (vm_regs v) 0) uop a))
        (v\<lparr>vm_pc := pc, vm_regs := regs\<rparr>) s p"
      if pc: "pc = vm_pc v + length (expr_code e (reg + 1))"
        and a: "value_at regs (nat (sint (reg + 1))) = a"
        and keep: "\<forall>j < nat (sint (reg + 1)). value_at regs j = value_at (vm_regs v) j" for regs pc
    proof -
      have v0: "value_at regs 0 = value_at (vm_regs v) 0" using keep r1 2(2) by simp
      have code: "code_at (v\<lparr>vm_pc := pc, vm_regs := regs\<rparr>) pc [?i]" using c pc by (simp add: code_at_def)
      have u: "as_usize (reg + 1) = nat (sint (reg + 1))" using r1 2(2) by (simp add: as_usize_nonneg)
      show ?thesis using code 2(2) a v0 by (auto simp: exec_unary u intro!: computes_store)
    qed
    then show ?thesis using computes_seq [OF L [unfolded Inr]] Inr r1 by simp
  qed
qed (auto intro!: computes_store simp: execute_def exec_constant_def)

text \<open>
  C5. The code \<open>compile_expr\<close> appends for an expression, run from its first instruction in any
  program, state and register file, leaves the value of the expression in its target register, keeps
  every register below it and goes on behind the code; it panics exactly when the value is a panic
  (a remainder by zero). The target and the temporaries above it must be \<open>i32\<close> numbers, and then
  code generation itself does not fail.
\<close>

theorem compiled_expression_computes:
  assumes "0 \<le> sint reg" and "sint reg + int (expr_regs e) < 2 ^ 31"
  shows "\<exists>code. (\<forall>p. compile_expr e reg p =
      (Inr (), Program (pr_insns p @ code) (pr_n_reg p) (pr_read_only p)))
    \<and> (\<forall>en v s p. code_at v (vm_pc v) code \<longrightarrow>
         (case eval_expr (value_at (vm_regs v) 0) e of
            Inl f \<Rightarrow> (\<forall>n. fst (step_loop (length code + n) en (v, s, p)) = Inl f)
          | Inr x \<Rightarrow>
              (\<exists>regs. value_at regs (nat (sint reg)) = x
                \<and> (\<forall>j < nat (sint reg). value_at regs j = value_at (vm_regs v) j)
                \<and> (\<forall>n. step_loop (length code + n) en (v, s, p)
                     = step_loop n en (v\<lparr>vm_pc := vm_pc v + length code, vm_regs := regs\<rparr>, s, p)))))"
  using compile_expr_code [OF assms] run_expr [OF assms] unfolding computes_def by blast

theorem compiled_expression_computes_witness:
  "\<forall>lx p. \<exists>code v. compile_expr (EBinaryOp BConcat (EString ''a'') (EString ''b'')) 3 program_new
       = (Inr (), Program code 0 False)
    \<and> step_loop (length code + 1) \<lparr>en_fuel = 1, en_lx = lx, en_order = id\<rparr>
         (vdbe_new (Program code 0 False), schema_new, p) = (Inr RcDone, (v, schema_new, p))
    \<and> value_at (vm_regs v) 3 = VText ''ab''"
proof (intro allI)
  fix lx p
  let ?e = "EBinaryOp BConcat (EString ''a'') (EString ''b'')"
  let ?en = "\<lparr>en_fuel = 1, en_lx = lx, en_order = id\<rparr>"
  have "(0 :: int) \<le> sint (3 :: i32)" and "sint (3 :: i32) + int (expr_regs ?e) < 2 ^ 31" by simp_all
  from compiled_expression_computes [OF this] obtain code where
    c: "\<forall>p. compile_expr ?e 3 p = (Inr (), Program (pr_insns p @ code) (pr_n_reg p) (pr_read_only p))"
    and r: "\<forall>en v s p. code_at v (vm_pc v) code \<longrightarrow>
        (\<exists>regs. value_at regs 3 = VText ''ab'' \<and> (\<forall>j < 3. value_at regs j = value_at (vm_regs v) j)
         \<and> (\<forall>n. step_loop (length code + n) en (v, s, p)
           = step_loop n en (v\<lparr>vm_pc := vm_pc v + length code, vm_regs := regs\<rparr>, s, p)))"
    by (auto simp del: step_loop.simps compile_expr.simps)
  let ?v = "vdbe_new (Program code 0 False)"
  have "code_at ?v (vm_pc ?v) code" by (simp add: code_at_def vdbe_new_def)
  with r obtain regs where "value_at regs 3 = VText ''ab''"
    and n: "\<forall>n. step_loop (length code + n) ?en (?v, schema_new, p)
     = step_loop n ?en (?v\<lparr>vm_pc := vm_pc ?v + length code, vm_regs := regs\<rparr>, schema_new, p)"
    by blast
  then show "\<exists>code v. compile_expr ?e 3 program_new = (Inr (), Program code 0 False)
      \<and> step_loop (length code + 1) ?en (vdbe_new (Program code 0 False), schema_new, p)
        = (Inr RcDone, (v, schema_new, p))
      \<and> value_at (vm_regs v) 3 = VText ''ab''"
    using spec [OF n, of 1] c
    by (intro exI [of _ code] exI [of _ "?v\<lparr>vm_pc := length code, vm_regs := regs\<rparr>"])
       (simp add: program_new_def vdbe_new_def del: compile_expr.simps)
qed

end
