(* ===== verification/Statements.thy ===== *)
theory Statements
  imports Row_Loop Compile_Correct
begin

text \<open>
  Whole statements, compiled and run by the machine on a stored table: what \<^verbatim>\<open>SELECT COUNT(*)\<close>,
  \<^verbatim>\<open>DELETE\<close> and \<^verbatim>\<open>INSERT\<close> do to the rows.
\<close>

text \<open>The table \<open>name\<close> of the catalog is stored as the tree \<open>t\<close>.\<close>

definition table_stored :: "schema \<Rightarrow> string \<Rightarrow> pager \<Rightarrow> tree \<Rightarrow> bool" where
  "table_stored s name p t \<longleftrightarrow>
     (\<exists>tab. schema_table s name = Some tab \<and> table_state (btree_new (ta_root tab) table_flags) p t)"

lemma table_stored_read:
  "table_stored s name p t \<Longrightarrow> pager_view p' = pager_view p \<Longrightarrow> pager_same p p' \<Longrightarrow> table_stored s name p' t"
  by (auto simp: table_stored_def intro: table_state_read)

section \<open>Counting\<close>

definition is_count_star :: "select \<Rightarrow> string \<Rightarrow> bool" where
  "is_count_star sel name \<longleftrightarrow>
     (\<exists>alias c f dist. s_from sel = Some (TTable name alias) \<and> s_columns sel = [c]
        \<and> rc_expr c = EFunction f dist [EStar] \<and> eq_ignore_case f ''count'')
     \<and> s_group_by sel = [] \<and> s_order_by sel = []"

definition count_code :: "string \<Rightarrow> insn list" where
  "count_code name =
     [ins OpInit 0 1 0, Insn OpOpenRead 0 0 0 (P4String name) 0, ins OpCount 0 0 0,
      ins OpResultRow 1 0 0, ins OpHalt 0 0 0]"

lemma compile_count_star:
  assumes "is_count_star sel name" and "schema_table s name \<noteq> None"
  shows "compile_select sel s = Inr (Program (count_code name) 8 True)"
  using assms
  by (auto simp: is_count_star_def compile_select_def simple_count_star_def compile_simple_count_def
      build_def program_new_def set_n_reg_def set_read_only_def count_code_def)

text \<open>
  C25. \<^verbatim>\<open>SELECT COUNT(*) FROM t\<close> compiles, and the first step of its program delivers one row with
  the number of rows the tree stores, leaving the table as it was. The hypotheses do not mention the
  \<^verbatim>\<open>WHERE\<close> clause: whatever it is, it is ignored, and every row is counted.
\<close>

theorem count_star_counts_every_row:
  assumes "is_count_star sel name" and "table_stored s name p t" and "scannable t"
    and "height t \<le> en_fuel en" and "length (tree_rows t) \<le> en_fuel en"
    and "length (tree_rows t) < 2 ^ 63" and "4 \<le> n"
  shows "\<exists>prog v p'. compile_select sel s = Inr prog
    \<and> vdbe_step n en (vdbe_new prog, s, p) = (Inr RcRow, (v, s, p'))
    \<and> column_count_of v = 1 \<and> column_value v 0 = Some (VInteger (of_nat (length (tree_rows t))))
    \<and> table_stored s name p' t"
proof -
  obtain tab where tab: "schema_table s name = Some tab"
    and st: "table_state (btree_new (ta_root tab) table_flags) p t"
    using assms(2) by (auto simp: table_stored_def)
  let ?b = "btree_new (ta_root tab) table_flags"
  obtain p' where c: "with_cursor ?b (for_each_row (en_fuel en) count_row 0) p
      = (Inr (of_nat (length (tree_rows t))), p')"
    and p': "pager_view p' = pager_view p" "pager_same p p'"
    using count_rows [OF st assms(3-6)] by blast
  obtain k where n: "n = Suc (Suc (Suc (Suc k)))"
    using assms(7) by (intro that [of "n - 4"]) simp
  have "\<exists>v. vdbe_step n en (vdbe_new (Program (count_code name) 8 True), s, p) = (Inr RcRow, (v, s, p'))
    \<and> column_count_of v = 1 \<and> column_value v 0 = Some (VInteger (of_nat (length (tree_rows t))))"
    using tab c
    by (simp add: n vdbe_step_def vdbe_new_def count_code_def execute_def exec_open_def exec_count_def
        vm_cursor_def put_cursor_def vm_schema_app vm_pager_app sc_get_def store_app Let_def
        exec_result_row_def range_len_def column_count_of_def column_value_def upd_reg_def)
  moreover have "table_stored s name p' t" by (rule table_stored_read [OF assms(2) p'])
  ultimately show ?thesis using compile_count_star [OF assms(1)] tab by auto
qed

section \<open>Deleting every row\<close>

text \<open>The second, fourth, ... element of a list.\<close>

fun every_other :: "'a list \<Rightarrow> 'a list" where
  "every_other [] = []"
| "every_other [x] = []"
| "every_other (x # y # zs) = y # every_other zs"

definition delete_code :: "string \<Rightarrow> insn list" where
  "delete_code name =
     [ins OpInit 0 1 0, ins OpTransaction 0 0 0, Insn OpOpenWrite 0 0 0 (P4String name) 0,
      ins OpRewind 0 6 0, ins OpDelete 0 0 0, ins OpLast 0 4 0, ins OpHalt 0 0 0]"

lemma compile_delete_all:
  assumes "schema_table s name \<noteq> None"
  shows "compile_delete \<lparr>de_table = name, de_where = None\<rparr> s = Inr (Program (delete_code name) 0 False)"
  using assms
  by (auto simp: compile_delete_def compile_skip_def finish_scan_def next_addr_def emit_def patch_p2_def
      build_def program_new_def delete_code_def set_p2_def get_at_def)

text \<open>A cursor on row \<open>i\<close> of a table that is one leaf.\<close>

definition leaf_cursor :: "btree \<Rightarrow> u32 \<Rightarrow> row list \<Rightarrow> nat \<Rightarrow> btree_cursor \<Rightarrow> bool" where
  "leaf_cursor b root rows i c \<longleftrightarrow>
     cur_btree c = b \<and> cur_stack c = [] \<and> cur_leaf c = root \<and> cur_index c = i \<and> \<not> cur_eof c
     \<and> i < length rows \<and> cur_key c = Some (fst (rows ! i))"

lemma leaf_first:
  assumes st: "table_state b p (TLeaf root rows)" and f: "0 < fuel" and b: "cur_btree c = b"
  shows "\<exists>c' p'. cursor_first fuel (c, p) = (Inr (rows \<noteq> []), (c', p')) \<and> table_state b p' (TLeaf root rows)
     \<and> (rows \<noteq> [] \<longrightarrow> leaf_cursor b root rows 0 c')"
proof -
  have h: "height (TLeaf root rows) \<le> fuel" using f by simp
  obtain c1 p1 st' leaf lrows rest where
    r: "cursor_first fuel (c, p) = cursor_read_current (c1, p1)"
    and pa: "path (TLeaf root rows) st' leaf lrows rest"
    and c1: "cur_stack c1 = st'" "cur_leaf c1 = leaf" "cur_index c1 = 0" "\<not> cur_eof c1" "cur_btree c1 = b"
    and p1: "pager_view p1 = pager_view p" "pager_same p p1"
    by (rule first_descends [OF st h b])
  from pa have l: "st' = []" "leaf = root" "lrows = rows" by auto
  have sd: "stored (pager_view p1) (TLeaf root rows)" and blob: "\<not> bf_blobkey (bt_flags (cur_btree c1))"
    using st p1(1) c1(5) by (simp_all add: table_state_def)
  obtain d where d: "pager_view p1 (cur_leaf c1) = Some d"
    "table_leaf d (page_header_offset (cur_leaf c1)) rows"
    using path_leaf_stored [OF pa sd] c1(2) l by auto
  obtain p2 where p2: "pager_view p2 = pager_view p1" "pager_same p1 p2"
    and y: "cur_index c1 < length rows \<Longrightarrow> cursor_read_current (c1, p1) = (Inr True,
      (c1\<lparr>cur_key := Some (fst (rows ! cur_index c1)), cur_record := Some (snd (rows ! cur_index c1))\<rparr>, p2))"
    and e: "length rows \<le> cur_index c1 \<Longrightarrow> cursor_read_current (c1, p1) = (Inr False, (c1, p2))"
    using d blob by (rule read_current_leaf) blast
  have "table_state b p2 (TLeaf root rows)"
    using table_state_read [OF st _ pager_same_trans [OF p1(2) p2(2)]] p1(1) p2(1) by simp
  with r y e c1 l show ?thesis by (cases rows) (auto simp: leaf_cursor_def)
qed

lemma leaf_next:
  assumes st: "table_state b p (TLeaf root rows)" and c: "cur_btree c = b" "cur_stack c = []"
    "cur_leaf c = root" "cur_index c = i" "\<not> cur_eof c"
  shows "\<exists>c' p'. cursor_next fuel (c, p) = (Inr (Suc i < length rows), (c', p'))
     \<and> table_state b p' (TLeaf root rows) \<and> (Suc i < length rows \<longrightarrow> leaf_cursor b root rows (Suc i) c')"
proof -
  let ?c = "cur_index_update Suc c"
  have c': "cur_btree ?c = b" "cur_stack ?c = []" "cur_leaf ?c = root" "cur_index ?c = Suc i" "\<not> cur_eof ?c"
    using c by simp_all
  have "stored (pager_view p) (TLeaf root rows)" using st by (simp add: table_state_def)
  then obtain d where d: "pager_view p (cur_leaf ?c) = Some d"
    "table_leaf d (page_header_offset (cur_leaf ?c)) rows"
    using c'(3) by auto
  have blob: "\<not> bf_blobkey (bt_flags (cur_btree ?c))" using st c'(1) by (simp add: table_state_def)
  obtain p1 where p1: "pager_view p1 = pager_view p" "pager_same p p1"
    and y: "cur_index ?c < length rows \<Longrightarrow> cursor_read_current (?c, p) = (Inr True,
      (?c\<lparr>cur_key := Some (fst (rows ! cur_index ?c)), cur_record := Some (snd (rows ! cur_index ?c))\<rparr>, p1))"
    and e: "length rows \<le> cur_index ?c \<Longrightarrow> cursor_read_current (?c, p) = (Inr False, (?c, p1))"
    using d blob by (rule read_current_leaf) blast
  have "table_state b p1 (TLeaf root rows)" by (rule table_state_read [OF st p1])
  moreover have "\<exists>c'. cursor_next fuel (c, p) = (Inr (Suc i < length rows), (c', p1))
     \<and> (Suc i < length rows \<longrightarrow> leaf_cursor b root rows (Suc i) c')"
  proof (cases "Suc i < length rows")
    case True
    with y c c' show ?thesis by (simp add: cursor_next_def leaf_cursor_def)
  next
    case False
    with e c c' show ?thesis
      by (simp add: cursor_next_def advance_to_next_leaf_def cursor_end_def bindS_app)
  qed
  ultimately show ?thesis by blast
qed

lemma leaf_delete:
  assumes st: "table_state b p (TLeaf root (kept @ x # rest))" and f: "0 < fuel"
  shows "\<exists>p'. btree_delete fuel (fst x) (b, p) = (Inr True, (b, p')) \<and> table_state b p' (TLeaf root (kept @ rest))"
proof -
  have "rows_sorted (kept @ x # rest)"
    using st tree_rows_sorted [of "TLeaf root (kept @ x # rest)"] by (simp add: table_state_def)
  then have "\<forall>r \<in> set (kept @ rest). fst r \<noteq> fst x"
    by (auto simp: rows_sorted_def sorted_wrt_append)
  then have "filter (\<lambda>r. fst r \<noteq> fst x) (kept @ x # rest) = kept @ rest" by simp
  with delete_present [OF st, of fuel "fst x"] f show ?thesis by simp
qed

text \<open>One turn of the loop: the row is deleted and the cursor passes over the one behind it.\<close>

definition at_row :: "btree \<Rightarrow> u32 \<Rightarrow> row list \<Rightarrow> nat \<Rightarrow> vdbe \<Rightarrow> bool" where
  "at_row b root rows i v \<longleftrightarrow>
     vm_pc v = 4 \<and> (\<exists>cs. map_of (vm_cursors v) 0 = Some cs \<and> cs_btree cs = b
       \<and> leaf_cursor b root rows i (cs_cursor cs))"

lemma add_i64_succ:
  assumes "sint (a :: i64) + 1 < 2 ^ 63"
  shows "add_i64 a 1 = Inr (a + 1) \<and> sint (a + 1) = sint a + 1"
proof -
  have "- (2 ^ 63) \<le> sint a" by (rule sint_range_64)
  with assms show ?thesis
    by (simp add: add_i64_def sint_word_ariths signed_take_bit_int_eq_self)
qed

lemma delete_turn:
  assumes code: "pr_insns (vm_program v) = delete_code name"
    and row: "at_row b root (kept @ x # rest) (length kept) v"
    and st: "table_state b p (TLeaf root (kept @ x # rest))" and f: "0 < en_fuel en"
    and ch: "sint (vm_changes v) + 1 < 2 ^ 63"
  shows "\<exists>v1 p1. (\<forall>n. step_loop (Suc (Suc n)) en (v, s, p) = step_loop n en (v1, s, p1))
    \<and> vm_program v1 = vm_program v \<and> table_state b p1 (TLeaf root (kept @ rest))
    \<and> sint (vm_changes v1) = sint (vm_changes v) + 1
    \<and> (if 1 < length rest then at_row b root (kept @ rest) (Suc (length kept)) v1 else vm_pc v1 = 6)"
proof -
  obtain cs where pc: "vm_pc v = 4" and cs: "map_of (vm_cursors v) 0 = Some cs" "cs_btree cs = b"
    and c: "leaf_cursor b root (kept @ x # rest) (length kept) (cs_cursor cs)"
    using row by (auto simp: at_row_def)
  have same: "cs\<lparr>cs_btree := b\<rparr> = cs" using cs(2) by (cases cs) simp
  obtain p1 where d: "btree_delete (en_fuel en) (fst x) (b, p) = (Inr True, (b, p1))"
    and st1: "table_state b p1 (TLeaf root (kept @ rest))"
    using leaf_delete [OF st f] by blast
  have key: "cur_key (cs_cursor cs) = Some (fst x)" using c by (simp add: leaf_cursor_def)
  let ?v1 = "v\<lparr>vm_pc := 5, vm_cursors := AList.update 0 cs (vm_cursors v), vm_changes := vm_changes v + 1\<rparr>"
  have e1: "execute en (ins OpDelete 0 0 0) (v\<lparr>vm_pc := 5\<rparr>, s, p) = (Inr SrContinue, (?v1, s, p1))"
    using cs d key add_i64_succ [OF ch]
    by (simp add: execute_def exec_delete_def vm_cursor_def on_btree_def count_change_def bindS_app same)
  have t1: "step_loop (Suc n) en (v, s, p) = step_loop n en (?v1, s, p1)" for n
    by (rule step_turn) (use pc code e1 in \<open>simp_all add: delete_code_def\<close>)
  have cc: "cur_btree (cs_cursor cs) = b" "cur_stack (cs_cursor cs) = []" "cur_leaf (cs_cursor cs) = root"
    "cur_index (cs_cursor cs) = length kept" "\<not> cur_eof (cs_cursor cs)"
    using c by (simp_all add: leaf_cursor_def)
  obtain c' p2 where nx: "cursor_next (en_fuel en) (cs_cursor cs, p1) = (Inr (1 < length rest), (c', p2))"
    and st2: "table_state b p2 (TLeaf root (kept @ rest))"
    and lc: "1 < length rest \<longrightarrow> leaf_cursor b root (kept @ rest) (Suc (length kept)) c'"
    using leaf_next [OF st1 cc, of "en_fuel en"] by auto
  let ?v2 = "?v1\<lparr>vm_pc := if 1 < length rest then 4 else 6,
    vm_cursors := AList.update 0 (cs\<lparr>cs_cursor := c'\<rparr>) (AList.update 0 cs (vm_cursors v))\<rparr>"
  have four: "as_usize 4 = 4" by (simp add: as_usize_nonneg)
  have e2: "execute en (ins OpLast 0 4 0) (?v1\<lparr>vm_pc := 6\<rparr>, s, p1) = (Inr SrContinue, (?v2, s, p2))"
    using nx by (simp add: execute_def exec_next_def vm_cursor_def on_cursor_def bindS_app update_conv' four)
  have t2: "step_loop (Suc n) en (?v1, s, p1) = step_loop n en (?v2, s, p2)" for n
    by (rule step_turn) (use code e2 in \<open>simp_all add: delete_code_def\<close>)
  have "(if 1 < length rest then at_row b root (kept @ rest) (Suc (length kept)) ?v2 else vm_pc ?v2 = 6)"
    using lc cs(2) by (simp add: at_row_def update_conv')
  with t1 t2 st2 add_i64_succ [OF ch] show ?thesis
    by (intro exI [of _ ?v2] exI [of _ p2]) (simp del: step_loop.simps)
qed

lemma delete_loop:
  assumes "pr_insns (vm_program v) = delete_code name"
    and "at_row b root (kept @ xs) (length kept) v"
    and "table_state b p (TLeaf root (kept @ xs))" and "0 < en_fuel en"
    and "sint (vm_changes v) + int (length xs) < 2 ^ 63" and "2 * length xs < n"
  shows "\<exists>v' p'. step_loop n en (v, s, p) = (Inr RcDone, (v', s, p'))
    \<and> table_state b p' (TLeaf root (kept @ every_other xs))"
  using assms
proof (induction xs arbitrary: kept v p n rule: every_other.induct)
  case 1
  then show ?case by (auto simp: at_row_def leaf_cursor_def)
next
  case (2 x)
  obtain k where n: "n = Suc (Suc (Suc k))" using 2(6) by (intro that [of "n - 3"]) simp
  obtain v1 p1 where t: "\<forall>n. step_loop (Suc (Suc n)) en (v, s, p) = step_loop n en (v1, s, p1)"
    and v1: "vm_program v1 = vm_program v" "vm_pc v1 = 6" and st: "table_state b p1 (TLeaf root (kept @ []))"
    using delete_turn [OF 2(1,2,3,4)] 2(5) by fastforce
  have "step_loop (Suc k) en (v1, s, p1)
      = (Inr RcDone, (v1\<lparr>vm_pc := 7, vm_halted := True, vm_halt_code := RcOk, vm_halt_message := []\<rparr>, s, p1))"
    using v1 2(1) by (simp add: delete_code_def execute_def exec_halt_def halt_with_def is_ok_def pc_suc)
  with t st show ?case by (simp add: n del: step_loop.simps)
next
  case (3 x y zs)
  have ch: "sint (vm_changes v) + 1 < 2 ^ 63" using 3(6) by simp
  obtain k where n: "n = Suc (Suc k)" and k: "2 * length zs < k"
    using 3(7) by (intro that [of "n - 2"]) simp_all
  obtain v1 p1 where t: "\<forall>n. step_loop (Suc (Suc n)) en (v, s, p) = step_loop n en (v1, s, p1)"
    and v1: "vm_program v1 = vm_program v" "sint (vm_changes v1) = sint (vm_changes v) + 1"
    and st: "table_state b p1 (TLeaf root (kept @ y # zs))"
    and nx: "if 1 < length (y # zs) then at_row b root (kept @ y # zs) (Suc (length kept)) v1 else vm_pc v1 = 6"
    using delete_turn [OF 3(2,3,4,5) ch] by blast
  show ?case
  proof (cases "zs = []")
    case True
    obtain j where j: "k = Suc j" using k by (cases k) simp_all
    have "step_loop (Suc j) en (v1, s, p1)
        = (Inr RcDone, (v1\<lparr>vm_pc := 7, vm_halted := True, vm_halt_code := RcOk, vm_halt_message := []\<rparr>, s, p1))"
      using v1 nx True 3(2) by (simp add: delete_code_def execute_def exec_halt_def halt_with_def is_ok_def pc_suc)
    with t st True show ?thesis by (simp add: n j del: step_loop.simps)
  next
    case False
    have "pr_insns (vm_program v1) = delete_code name" using v1 3(2) by simp
    moreover have "at_row b root ((kept @ [y]) @ zs) (length (kept @ [y])) v1" using nx False by simp
    moreover have "table_state b p1 (TLeaf root ((kept @ [y]) @ zs))" using st by simp
    moreover have "sint (vm_changes v1) + int (length zs) < 2 ^ 63" using v1 3(6) by simp
    ultimately obtain v' p' where "step_loop k en (v1, s, p1) = (Inr RcDone, (v', s, p'))"
      and "table_state b p' (TLeaf root ((kept @ [y]) @ every_other zs))"
      using 3(1) [of v1 "kept @ [y]" p1 k] 3(5) k by blast
    with t show ?thesis by (auto simp: n simp del: step_loop.simps)
  qed
qed

text \<open>
  C26. \<^verbatim>\<open>DELETE FROM t\<close> on a table that is one leaf deletes every other row: the first, the third
  and so on, and ends as if it had deleted all of them. The deletion moves the rows behind it down by
  one cell while the cursor keeps its cell number, so that the next step passes over a row.
\<close>

theorem delete_all_skips_rows:
  assumes "table_stored s name p (TLeaf root rows)" and "0 < en_fuel en"
    and "length rows < 2 ^ 63" and "2 * length rows + 5 \<le> n"
  shows "\<exists>prog v p'. compile_delete \<lparr>de_table = name, de_where = None\<rparr> s = Inr prog
    \<and> vdbe_step n en (vdbe_new prog, s, p) = (Inr RcDone, (v, s, p'))
    \<and> table_stored s name p' (TLeaf root (every_other rows))"
proof -
  obtain tab where tab: "schema_table s name = Some tab"
    and st: "table_state (btree_new (ta_root tab) table_flags) p (TLeaf root rows)"
    using assms(1) by (auto simp: table_stored_def)
  let ?b = "btree_new (ta_root tab) table_flags" and ?prog = "Program (delete_code name) 0 False"
  obtain m where n: "n = Suc (Suc (Suc (Suc m)))" and m: "2 * length rows < m"
    using assms(4) by (intro that [of "n - 4"]) simp_all
  have "table_state ?b (set_tx p) (TLeaf root rows)" by (rule table_state_begin [OF st])
  moreover have "cur_btree (btree_cursor_of ?b) = ?b" by (simp add: btree_cursor_of_def)
  ultimately obtain c' p1 where f: "cursor_first (en_fuel en) (btree_cursor_of ?b, set_tx p)
      = (Inr (rows \<noteq> []), (c', p1))" and st1: "table_state ?b p1 (TLeaf root rows)"
    and lc: "rows \<noteq> [] \<longrightarrow> leaf_cursor ?b root rows 0 c'"
    using leaf_first [OF _ assms(2)] by blast
  let ?cs = "\<lparr>cs_btree = ?b, cs_cursor = c', cs_table = name\<rparr>"
  let ?v = "(vdbe_new ?prog)\<lparr>vm_pc := if rows = [] then 6 else Suc (Suc (Suc (Suc 0))), vm_cursors := [(0, ?cs)]\<rparr>"
  have six: "as_usize 6 = 6" by (simp add: as_usize_nonneg)
  have run: "vdbe_step n en (vdbe_new ?prog, s, p) = step_loop m en (?v, s, p1)"
    using tab f six
    by (simp add: n vdbe_step_def vdbe_new_def delete_code_def execute_def exec_open_def exec_rewind_def
        vm_cursor_def put_cursor_def vm_schema_app vm_pager_app sc_get_def Let_def pager_begin_def
        on_cursor_def bindS_app)
  have "\<exists>v p'. step_loop m en (?v, s, p1) = (Inr RcDone, (v, s, p'))
      \<and> table_state ?b p' (TLeaf root (every_other rows))"
  proof (cases "rows = []")
    case True
    obtain j where j: "m = Suc j" using m by (cases m) simp_all
    show ?thesis using st1 True
      by (simp add: j vdbe_new_def delete_code_def execute_def exec_halt_def halt_with_def is_ok_def)
  next
    case False
    have "at_row ?b root ([] @ rows) (length []) ?v" using lc False by (simp add: at_row_def)
    moreover have "pr_insns (vm_program ?v) = delete_code name" by (simp add: vdbe_new_def)
    moreover have "sint (vm_changes ?v) + int (length rows) < 2 ^ 63"
      using assms(3) by (simp add: vdbe_new_def)
    ultimately show ?thesis
      using delete_loop [of ?v name ?b root "[]" rows p1 en m s] st1 assms(2) m by simp
  qed
  then show ?thesis using compile_delete_all [of s name] tab run by (auto simp: table_stored_def)
qed

section \<open>Inserting a row\<close>

definition insert_of :: "string \<Rightarrow> expr list list \<Rightarrow> insert_stmt" where
  "insert_of name rows =
     \<lparr>in_or_conflict = None, in_table = name, in_columns = [], in_values = rows, in_select = None\<rparr>"

fun values_code :: "nat \<Rightarrow> expr list \<Rightarrow> insn list" where
  "values_code k [] = []"
| "values_code k (e # es) = expr_code e (of_nat (k + 2)) @ values_code (Suc k) es"

definition regs_fit :: "nat \<Rightarrow> expr list \<Rightarrow> bool" where
  "regs_fit k es \<longleftrightarrow> (\<forall>e \<in> set es. k + length es + 2 + expr_regs e < 2 ^ 31)"

lemma sint_of_nat_i32: "n < 2 ^ 31 \<Longrightarrow> sint (of_nat n :: i32) = int n"
  by (simp add: signed_of_nat signed_take_bit_int_eq_self)

lemma compile_values:
  assumes "regs_fit k es"
  shows "for_each (enumerate k es) (\<lambda>(i, e). bindS (liftS (add_i32 (of_nat i) 2)) (compile_expr e)) p
    = (Inr (), Program (pr_insns p @ values_code k es) (pr_n_reg p) (pr_read_only p))"
  using assms
proof (induction es arbitrary: k p)
  case (Cons e es)
  have k: "k + 2 + expr_regs e < 2 ^ 31" using Cons.prems by (simp add: regs_fit_def)
  then have "add_i32 (of_nat k) 2 = Inr (of_nat k + 2) \<and> sint (of_nat k + 2 :: i32) = int k + 2"
    using add_i32_nonneg [of "of_nat k" 2] by (simp add: sint_of_nat_i32)
  moreover have "regs_fit (Suc k) es" using Cons.prems by (auto simp: regs_fit_def)
  ultimately show ?case
    using Cons.IH [of "Suc k"] k compile_expr_code [of "of_nat k + 2" e]
    by (simp add: bindS_app add.commute)
qed (cases p, simp)

lemma run_values:
  assumes "regs_fit k es" and "map (eval_expr (value_at (vm_regs v) 0)) es = map Inr vals"
    and "code_at v (vm_pc v) (values_code k es)"
  shows "\<exists>regs. (\<forall>j < k + 2. value_at regs j = value_at (vm_regs v) j)
    \<and> (\<forall>i < length es. value_at regs (k + 2 + i) = vals ! i)
    \<and> (\<forall>n. step_loop (length (values_code k es) + n) en (v, s, p)
         = step_loop n en (v\<lparr>vm_pc := vm_pc v + length (values_code k es), vm_regs := regs\<rparr>, s, p))"
  using assms
proof (induction es arbitrary: k v vals)
  case Nil
  then show ?case by (intro exI [of _ "vm_regs v"]) simp
next
  case (Cons e es)
  let ?c = "expr_code e (of_nat (k + 2))"
  have k: "k + 2 + expr_regs e < 2 ^ 31" and fit: "regs_fit (Suc k) es"
    using Cons.prems(1) by (auto simp: regs_fit_def)
  obtain a as where vals: "vals = a # as" and a: "eval_expr (value_at (vm_regs v) 0) e = Inr a"
    and as: "map (eval_expr (value_at (vm_regs v) 0)) es = map Inr as"
    using Cons.prems(2) by (cases vals) auto
  have r: "sint (of_nat (k + 2) :: i32) = int (k + 2)" using k by (intro sint_of_nat_i32) simp
  have code: "code_at v (vm_pc v) ?c" "code_at v (vm_pc v + length ?c) (values_code (Suc k) es)"
    using Cons.prems(3) by (simp_all add: code_at_append)
  have nr: "nat (sint (of_nat (k + 2) :: i32)) = k + 2" by (simp only: r nat_int)
  have "computes en ?c (k + 2) (Inr a) v s p"
    by (rule run_expr [of "of_nat (k + 2)" e v en s p, unfolded nr a]) (use r k code(1) in simp_all)
  then obtain regs where x: "value_at regs (k + 2) = a" "\<forall>j < k + 2. value_at regs j = value_at (vm_regs v) j"
    and st: "\<forall>n. step_loop (length ?c + n) en (v, s, p)
      = step_loop n en (v\<lparr>vm_pc := vm_pc v + length ?c, vm_regs := regs\<rparr>, s, p)"
    unfolding computes_def by auto
  let ?v = "v\<lparr>vm_pc := vm_pc v + length ?c, vm_regs := regs\<rparr>"
  have "map (eval_expr (value_at (vm_regs ?v) 0)) es = map Inr as" using x(2) as by simp
  moreover have "code_at ?v (vm_pc ?v) (values_code (Suc k) es)" using code(2) by (simp add: code_at_def)
  ultimately obtain regs2 where y: "\<forall>j < Suc k + 2. value_at regs2 j = value_at (vm_regs ?v) j"
    "\<forall>i < length es. value_at regs2 (Suc k + 2 + i) = as ! i"
    and st2: "\<forall>n. step_loop (length (values_code (Suc k) es) + n) en (?v, s, p)
      = step_loop n en (?v\<lparr>vm_pc := vm_pc ?v + length (values_code (Suc k) es), vm_regs := regs2\<rparr>, s, p)"
    using Cons.IH [OF fit, of ?v as] by blast
  have "value_at regs2 (k + 2 + i) = vals ! i" if "i < length (e # es)" for i
    using that x(1) y by (cases i) (auto simp: vals)
  moreover have "step_loop (length (values_code k (e # es)) + n) en (v, s, p)
      = step_loop n en (v\<lparr>vm_pc := vm_pc v + length (values_code k (e # es)), vm_regs := regs2\<rparr>, s, p)" for n
    using spec [OF st, of "length (values_code (Suc k) es) + n"] spec [OF st2, of n]
    by (simp add: add.assoc del: step_loop.simps)
  ultimately show ?case using x(2) y(1) by (intro exI [of _ regs2]) (simp del: step_loop.simps)
qed

definition insert_code :: "string \<Rightarrow> expr list \<Rightarrow> insn list" where
  "insert_code name es =
     [ins OpInit 0 1 0, ins OpTransaction 0 0 0, Insn OpOpenWrite 0 0 0 (P4String name) 0]
     @ values_code 0 es
     @ [ins OpNewRowid 1 0 0, ins OpMakeRecord (of_nat (length es)) 2 10, ins OpInsert 10 0 1, ins OpHalt 0 0 0]"

lemma compile_insert_code:
  assumes "schema_table s name = Some tab" and "length es = column_count tab" and "regs_fit 0 es"
  shows "compile_insert (insert_of name [es]) s = Inr (Program (insert_code name es) 16 False)"
  using assms
  by (simp add: compile_insert_def insert_of_def compile_insert_row_def compile_values build_def
      program_new_def set_n_reg_def insert_code_def bindS_app)

lemma collect_regs_run:
  "n + 2 < 2 ^ 31 \<Longrightarrow> collect_regs regs 2 n = Inr (map (\<lambda>i. value_at regs (i + 2)) [0..<n])"
proof (induction n)
  case (Suc n)
  have "sint (2 + of_nat n :: i32) = int n + 2"
    using sint_of_nat_i32 [of "n + 2"] Suc.prems by (simp add: add.commute)
  with Suc show ?case by (simp add: reg_at_value as_usize_nonneg nat_add_distrib)
qed simp

lemma top_key_new:
  assumes "sint (top_key (map fst rows)) < 2 ^ 63 - 1"
  shows "\<forall>r \<in> set rows. rowkey r < sint (top_key (map fst rows) + 1)"
    and "sint (top_key (map fst rows) + 1) = sint (top_key (map fst rows)) + 1"
  using add_i64_succ [of "top_key (map fst rows)"] top_key_max [of "map fst rows"] assms by auto

lemma insort_last:
  "\<forall>r \<in> set rows. rowkey r < rowkey x \<Longrightarrow> insort_key rowkey x rows = rows @ [x]"
  by (induction rows) auto

text \<open>The last four instructions: the row id, the record, the insertion into the tree, the end.\<close>

lemma run_insert_tail:
  assumes code: "code_at v (vm_pc v) [ins OpNewRowid 1 0 0, ins OpMakeRecord (of_nat (length vals)) 2 10,
      ins OpInsert 10 0 1, ins OpHalt 0 0 0]"
    and cs: "map_of (vm_cursors v) 0 = Some cs" "cs_btree cs = b" "cs_table cs = name"
    and tab: "schema_table s name = Some tab" "ta_root tab = bt_root b"
    and vals: "\<forall>i < length vals. value_at (vm_regs v) (i + 2) = vals ! i" "length vals + 2 < 2 ^ 31"
    and rec: "encode_record vals = Inr rec" and ch: "vm_changes v = 0"
    and rowid: "next_rowid (en_fuel en) b p = (Inr k, p1)"
    and ins: "btree_insert (en_fuel en) k rec (b, p1) = (Inr (), (b, p2))"
  shows "\<exists>v'. step_loop (Suc (Suc (Suc (Suc n)))) en (v, s, p) = (Inr RcDone, (v', s, p2))
    \<and> vm_changes v' = 1 \<and> vm_last_rowid v' = k"
proof -
  have same: "cs\<lparr>cs_btree := b\<rparr> = cs" using cs(2) by (cases cs) simp
  have u: "as_usize 1 = 1" "as_usize 10 = 10" "nat (sint (1 :: i32)) = 1" "nat (sint (10 :: i32)) = 10"
    by (simp_all add: as_usize_nonneg)
  let ?v1 = "v\<lparr>vm_pc := Suc (vm_pc v), vm_regs := upd_reg 1 (VInteger k) (vm_regs v), vm_last_rowid := k\<rparr>"
  have e1: "execute en (ins OpNewRowid 1 0 0) (v\<lparr>vm_pc := Suc (vm_pc v)\<rparr>, s, p) = (Inr SrContinue, (?v1, s, p1))"
    using cs rowid u(3)
    by (simp add: execute_def exec_new_rowid_def allocate_rowid_def vm_cursor_def vm_pager_app set_reg_app
        bindS_app)
  have l: "range_len (of_nat (length vals)) = length vals"
    using vals(2) by (simp add: range_len_def sint_of_nat_i32)
  have "map (\<lambda>i. value_at (vm_regs ?v1) (i + 2)) [0..<length vals] = vals"
    using vals(1) by (intro nth_equalityI) simp_all
  then have c: "collect_regs (vm_regs ?v1) 2 (length vals) = Inr vals"
    using collect_regs_run [OF vals(2), of "vm_regs ?v1"] by simp
  let ?v2 = "?v1\<lparr>vm_pc := Suc (Suc (vm_pc v)), vm_regs := upd_reg 10 (VBlob rec) (vm_regs ?v1)\<rparr>"
  have e2: "execute en (ins OpMakeRecord (of_nat (length vals)) 2 10) (?v1\<lparr>vm_pc := Suc (Suc (vm_pc v))\<rparr>, s, p1)
      = (Inr SrContinue, (?v2, s, p1))"
    using c l rec u(4) by (simp add: execute_def exec_make_record_def store_app bindS_app)
  let ?v3 = "?v2\<lparr>vm_pc := Suc (Suc (Suc (vm_pc v))), vm_cursors := AList.update 0 cs (vm_cursors v),
    vm_changes := 1\<rparr>"
  have root: "set_table_root_page (en_fuel en) name (bt_root b) (s, p2) = (Inr (), (s, p2))"
    using tab by (simp add: set_table_root_page_def sc_get_def schema_table_def bindS_app)
  have e3: "execute en (ins OpInsert 10 0 1) (?v2\<lparr>vm_pc := Suc (Suc (Suc (vm_pc v)))\<rparr>, s, p1)
      = (Inr SrContinue, (?v3, s, p2))"
    using cs ins root u ch
    by (simp add: execute_def exec_insert_def vm_cursor_def insert_rowid_def insert_record_def on_btree_def
        btree_root_def vm_schema_app count_change_def add_i64_def bindS_app same)
  let ?v4 = "?v3\<lparr>vm_pc := Suc (Suc (Suc (Suc (vm_pc v)))), vm_halted := True, vm_halt_code := RcOk,
    vm_halt_message := []\<rparr>"
  have "step_loop (Suc (Suc (Suc (Suc n)))) en (v, s, p) = step_loop (Suc (Suc (Suc n))) en (?v1, s, p1)"
    by (rule step_turn) (use code e1 in \<open>simp_all add: code_at_Cons\<close>)
  also have "\<dots> = step_loop (Suc (Suc n)) en (?v2, s, p1)"
    by (rule step_turn) (use code e2 in \<open>simp_all add: code_at_Cons\<close>)
  also have "\<dots> = step_loop (Suc n) en (?v3, s, p2)"
    by (rule step_turn) (use code e3 in \<open>simp_all add: code_at_Cons\<close>)
  also have "\<dots> = (Inr RcDone, (?v4, s, p2))"
    using code by (simp add: code_at_Cons execute_def exec_halt_def halt_with_def is_ok_def pc_suc)
  finally show ?thesis by (intro exI [of _ ?v4]) simp
qed

lemma insert_start:
  assumes "schema_table s name = Some tab"
  shows "vdbe_step (Suc (Suc (Suc k))) en (vdbe_new (Program (insert_code name es) 16 False), s, p)
    = step_loop k en ((vdbe_new (Program (insert_code name es) 16 False))\<lparr>vm_pc := Suc (Suc (Suc 0)),
        vm_cursors := [(0, \<lparr>cs_btree = btree_new (ta_root tab) table_flags,
          cs_cursor = btree_cursor_of (btree_new (ta_root tab) table_flags), cs_table = name\<rparr>)]\<rparr>, s, set_tx p)"
  using assms
  by (simp add: vdbe_step_def vdbe_new_def insert_code_def execute_def exec_open_def put_cursor_def
      vm_schema_app vm_pager_app sc_get_def Let_def pager_begin_def nth_append)

text \<open>
  C1. \<^verbatim>\<open>INSERT INTO t VALUES (..)\<close> of one row with as many values as the table has columns, where
  the leaf at the end of the table has room: it compiles, its program ends, and the table has one row
  more at its end, whose key is one above the largest key (or 1) and whose record encodes the values
  of the expressions. One change is counted and the key is the last row id.
\<close>

theorem insert_adds_row:
  assumes "schema_table s name = Some tab" and "table_stored s name p t" and "scannable t"
    and "height t \<le> en_fuel en" and "length (tree_rows t) \<le> en_fuel en"
    and "length es = column_count tab" and "regs_fit 0 es" and "length es + 2 < 2 ^ 31"
    and "map (eval_expr VNull) es = map Inr vals" and "encode_record vals = Inr rec"
    and "k = top_key (map fst (tree_rows t)) + 1" and "sint (top_key (map fst (tree_rows t))) < 2 ^ 63 - 1"
    and "table_row_ok (k, rec)" and "pager_view p (fst (leaf_for k t)) = Some d"
    and "leaf_fits d (page_header_offset (fst (leaf_for k t))) (table_cell (k, rec))"
    and "length (insert_code name es) \<le> n"
  shows "\<exists>prog v p' t'. compile_insert (insert_of name [es]) s = Inr prog
    \<and> vdbe_step n en (vdbe_new prog, s, p) = (Inr RcDone, (v, s, p'))
    \<and> table_stored s name p' t' \<and> tree_rows t' = tree_rows t @ [(k, rec)]
    \<and> vm_changes v = 1 \<and> vm_last_rowid v = k"
proof -
  let ?b = "btree_new (ta_root tab) table_flags" and ?prog = "Program (insert_code name es) 16 False"
  have st: "table_state ?b p t" using assms(1,2) by (simp add: table_stored_def)
  have l: "length vals = length es" using arg_cong [OF assms(9), of length] by simp
  obtain m where n: "n = Suc (Suc (Suc (length (values_code 0 es) + Suc (Suc (Suc (Suc m))))))"
    using assms(16) by (intro that [of "n - length (insert_code name es)"]) (simp add: insert_code_def)
  let ?cs = "\<lparr>cs_btree = ?b, cs_cursor = btree_cursor_of ?b, cs_table = name\<rparr>"
  let ?v = "(vdbe_new ?prog)\<lparr>vm_pc := Suc (Suc (Suc 0)), vm_cursors := [(0, ?cs)]\<rparr>"
  note start = insert_start [OF assms(1), of "length (values_code 0 es) + Suc (Suc (Suc (Suc m)))" en es p, folded n]
  have "value_at (vm_regs ?v) 0 = VNull" by (simp add: vdbe_new_def value_at_def)
  then have ev: "map (eval_expr (value_at (vm_regs ?v) 0)) es = map Inr vals" using assms(9) by simp
  have "code_at ?v (vm_pc ?v) (values_code 0 es)" by (simp add: code_at_def insert_code_def vdbe_new_def)
  from run_values [OF assms(7) ev this] obtain regs where
    regs: "\<forall>i < length es. value_at regs (0 + 2 + i) = vals ! i"
    and run: "\<forall>n. step_loop (length (values_code 0 es) + n) en (?v, s, set_tx p)
      = step_loop n en (?v\<lparr>vm_pc := vm_pc ?v + length (values_code 0 es), vm_regs := regs\<rparr>, s, set_tx p)"
    by blast
  let ?w = "?v\<lparr>vm_pc := vm_pc ?v + length (values_code 0 es), vm_regs := regs\<rparr>"
  note st1 = table_state_begin [OF st]
  obtain p1 where r: "next_rowid (en_fuel en) ?b (set_tx p) = (Inr k, p1)"
    and p1: "pager_view p1 = pager_view (set_tx p)" "pager_same (set_tx p) p1"
    using next_rowid_run [OF st1 assms(3-5,12)] assms(11) by blast
  note st2 = table_state_read [OF st1 p1]
  have d: "pager_view p1 (fst (leaf_for k t)) = Some d" using assms(14) p1(1) by (simp add: pager_view_begin)
  have new: "k \<notin> fst ` set (tree_rows t)" using top_key_new(1) [OF assms(12)] assms(11) by auto
  obtain p2 t' where i: "btree_insert (en_fuel en) k rec (?b, p1) = (Inr (), (?b, p2))"
    and t': "table_state ?b p2 t'" "tree_rows t' = insort_key rowkey (k, rec) (tree_rows t)"
    using insert_ok(2) [OF st2 assms(4,13) new d assms(15)] by blast
  have tail: "code_at ?w (vm_pc ?w) [ins OpNewRowid 1 0 0, ins OpMakeRecord (of_nat (length vals)) 2 10,
      ins OpInsert 10 0 1, ins OpHalt 0 0 0]"
    by (simp add: code_at_def insert_code_def vdbe_new_def l)
  obtain v' where v': "step_loop (Suc (Suc (Suc (Suc m)))) en (?w, s, set_tx p) = (Inr RcDone, (v', s, p2))"
    "vm_changes v' = 1" "vm_last_rowid v' = k"
    using run_insert_tail [where cs = ?cs and n = m, OF tail _ _ _ assms(1) _ _ _ assms(10) _ r i] regs l assms(8)
    by (auto simp: vdbe_new_def btree_new_def add.commute simp del: step_loop.simps)
  have "vdbe_step n en (vdbe_new ?prog, s, p) = (Inr RcDone, (v', s, p2))"
    unfolding start using spec [OF run, of "Suc (Suc (Suc (Suc m)))"] v'(1) by (simp del: step_loop.simps)
  moreover have "tree_rows t' = tree_rows t @ [(k, rec)]"
    unfolding t'(2) using top_key_new(1) [OF assms(12)] assms(11) by (intro insort_last) simp
  ultimately show ?thesis
    using compile_insert_code [OF assms(1,6,7)] t'(1) v'(2,3) assms(1) by (auto simp: table_stored_def)
qed

end
