(* ===== verification/Jump_Targets.thy ===== *)
theory Jump_Targets
  imports Vdbe_Run
begin

text \<open>
  The programs the compiler produces are closed: every jump over rows or out of a loop leads forward
  to an instruction of the program, every jump that closes a loop leads back into the code before it,
  and the program ends in a halt. \<open>cg\<close> is the contract of code generation that gives this. Code is
  only appended, and the jumps emitted without their target are accounted for until they are patched.
  The machine relies on it: it treats a program counter behind the code as the end of the statement.
\<close>

section \<open>Targets\<close>

text \<open>The jumps the compiler emits first and patches later, and those it emits with their target.\<close>

fun forward :: "opcode \<Rightarrow> bool" where
  "forward OpRewind = True"
| "forward OpIf = True"
| "forward OpIfNot = True"
| "forward OpIsNull = True"
| "forward OpNotNull = True"
| "forward OpSeekRowid = True"
| "forward OpNotFound = True"
| "forward OpFound = True"
| "forward OpBufferRewind = True"
| "forward OpBufferNext = True"
| "forward _ = False"

fun loops :: "opcode \<Rightarrow> bool" where
  "loops OpGoto = True"
| "loops OpLast = True"
| "loops OpSorterNext = True"
| "loops _ = False"

abbreviation jumps :: "opcode \<Rightarrow> bool" where
  "jumps opc \<equiv> forward opc \<or> loops opc"

lemma forward_not_loops: "forward opc \<Longrightarrow> \<not> loops opc"
  by (cases opc) simp_all

abbreviation code_len :: "program \<Rightarrow> nat" where
  "code_len p \<equiv> length (pr_insns p)"

text \<open>The instruction at address \<open>a\<close> leads forward up to \<open>n\<close>, or back, but not to the address 0.\<close>

definition aimed :: "nat \<Rightarrow> nat \<Rightarrow> insn \<Rightarrow> bool" where
  "aimed n a i \<longleftrightarrow>
     (forward (in_opcode i) \<longrightarrow> a < as_usize (in_p2 i) \<and> as_usize (in_p2 i) \<le> n)
     \<and> (loops (in_opcode i) \<longrightarrow> 0 < as_usize (in_p2 i) \<and> as_usize (in_p2 i) \<le> a)"

definition closed_program :: "program \<Rightarrow> bool" where
  "closed_program p \<longleftrightarrow>
     pr_insns p \<noteq> [] \<and> in_opcode (last (pr_insns p)) = OpHalt
     \<and> (\<forall>a < code_len p. aimed (code_len p - 1) a (pr_insns p ! a))"

lemma as_usize_of_nat: "n < 2 ^ 31 \<Longrightarrow> as_usize (of_nat n) = n"
proof -
  assume "n < 2 ^ 31"
  then have "sint (of_nat n :: i32) = int n" by (simp add: signed_of_nat signed_take_bit_int_eq_self)
  then show ?thesis by (simp add: as_usize_nonneg)
qed

lemma aimed_mono: "aimed n a i \<Longrightarrow> n \<le> m \<Longrightarrow> aimed m a i"
  by (auto simp: aimed_def)

lemma aimed_other: "\<not> forward (in_opcode i) \<Longrightarrow> \<not> loops (in_opcode i) \<Longrightarrow> aimed n a i"
  by (simp add: aimed_def)

section \<open>The contract of code generation\<close>

text \<open>
  The program under construction: \<open>F\<close> are addresses known to hold forward jumps, \<open>U\<close> those whose
  jumps may still lack their target; every other instruction is well aimed.
\<close>

definition aims :: "nat set \<Rightarrow> nat set \<Rightarrow> program \<Rightarrow> bool" where
  "aims F U p \<longleftrightarrow>
     (\<forall>a \<in> F. a < code_len p \<and> forward (in_opcode (pr_insns p ! a)))
     \<and> (\<forall>a < code_len p. a \<notin> U \<longrightarrow> aimed (code_len p) a (pr_insns p ! a))"

lemma aims_mono: "aims F U p \<Longrightarrow> G \<subseteq> F \<Longrightarrow> U \<subseteq> V \<Longrightarrow> aims G V p"
  by (auto simp: aims_def)

text \<open>
  \<open>R\<close> relates the result to the length of the code so far, \<open>Q\<close> to the program; the code before has
  length \<open>k\<close> or more. A program that exceeds the 32-bit addresses promises nothing.
\<close>

definition cg :: "nat \<Rightarrow> nat set \<Rightarrow> nat set \<Rightarrow> 'a cgm \<Rightarrow> ('a \<Rightarrow> nat \<Rightarrow> bool) \<Rightarrow> ('a \<Rightarrow> program \<Rightarrow> bool) \<Rightarrow> bool" where
  "cg k F U m R Q \<longleftrightarrow> (\<forall>p r p'. k \<le> code_len p \<longrightarrow> m p = (Inr r, p') \<longrightarrow>
     code_len p \<le> code_len p' \<and> R r (code_len p')
     \<and> (code_len p' < 2 ^ 31 \<longrightarrow> aims F U p \<longrightarrow> Q r p'))"

abbreviation any :: "'a \<Rightarrow> nat \<Rightarrow> bool" where
  "any r n \<equiv> True"

text \<open>Code that leaves no jump of its own pending.\<close>

definition neutral :: "nat \<Rightarrow> 'a cgm \<Rightarrow> bool" where
  "neutral k m \<longleftrightarrow> (\<forall>F U. cg k F U m any (\<lambda>_. aims F U))"

definition ends :: "nat \<Rightarrow> nat set \<Rightarrow> nat set \<Rightarrow> 'a cgm \<Rightarrow> bool" where
  "ends k F U m \<longleftrightarrow> cg k F U m any (\<lambda>_. closed_program)"

lemma cg_bind:
  assumes m: "cg k F U m R (\<lambda>r. aims (G r) (V r))"
    and f: "\<And>r k'. k \<le> k' \<Longrightarrow> R r k' \<Longrightarrow> cg k' (G r) (V r) (f r) S Q"
  shows "cg k F U (bindS m f) S Q"
  unfolding cg_def
proof (intro allI impI)
  fix p r p'
  assume k: "k \<le> code_len p" and run: "bindS m f p = (Inr r, p')"
  then obtain x q where q: "m p = (Inr x, q)" "f x q = (Inr r, p')" by (auto elim: bindS_E)
  from m k q(1) have 1: "code_len p \<le> code_len q" "R x (code_len q)"
    "code_len q < 2 ^ 31 \<longrightarrow> aims F U p \<longrightarrow> aims (G x) (V x) q"
    by (auto simp: cg_def)
  with f [of "code_len q" x] k q(2) have "code_len q \<le> code_len p'" "S r (code_len p')"
    "code_len p' < 2 ^ 31 \<longrightarrow> aims (G x) (V x) q \<longrightarrow> Q r p'"
    by (auto simp: cg_def)
  with 1 show "code_len p \<le> code_len p' \<and> S r (code_len p')
    \<and> (code_len p' < 2 ^ 31 \<longrightarrow> aims F U p \<longrightarrow> Q r p')" by auto
qed

lemma cg_ret:
  assumes "\<And>n. k \<le> n \<Longrightarrow> R x n" and "G x \<subseteq> F" and "U \<subseteq> V x"
  shows "cg k F U (retS x) R (\<lambda>r. aims (G r) (V r))"
  using assms aims_mono by (auto simp: cg_def)

lemma cg_emit_forward:
  assumes "forward (in_opcode i)"
  shows "cg k F U (emit i) (\<lambda>r n. k \<le> r \<and> r < n) (\<lambda>r. aims (insert r F) (insert r U))"
  using assms by (auto simp: cg_def emit_def aims_def nth_append less_Suc_eq intro: aimed_mono)

lemma cg_patch:
  assumes "a \<in> F" and "a < n" and "n \<le> k"
  shows "cg k F U (patch_p2 a (of_nat n)) any (\<lambda>_. aims F (U - {a}))"
proof -
  have set: "in_opcode (set_p2 t i) = in_opcode i" "in_p2 (set_p2 t i) = t" for t i
    by (simp_all add: set_p2_def)
  show ?thesis
    using assms unfolding cg_def
    by (auto simp: patch_p2_def bindS_app get_at_def set aims_def aimed_def nth_list_update as_usize_of_nat
        forward_not_loops split: if_splits)
qed

lemma cg_next_addr: "cg k F U next_addr (\<lambda>r n. k \<le> r \<and> r \<le> n) (\<lambda>_. aims F U)"
  by (simp add: cg_def next_addr_def)

section \<open>Rules that follow the code\<close>

text \<open>One rule per kind of first step, so that the address it returns comes with its bounds.\<close>

lemma cg_bind_emit:
  "forward (in_opcode i) \<Longrightarrow>
   (\<And>a k'. k \<le> a \<Longrightarrow> a < k' \<Longrightarrow> k \<le> k' \<Longrightarrow> cg k' (insert a F) (insert a U) (f a) S Q)
   \<Longrightarrow> cg k F U (bindS (emit i) f) S Q"
  by (rule cg_bind [OF cg_emit_forward]) auto

lemma cg_bind_next:
  "(\<And>a k'. k \<le> a \<Longrightarrow> a \<le> k' \<Longrightarrow> k \<le> k' \<Longrightarrow> cg k' F U (f a) S Q) \<Longrightarrow> cg k F U (bindS next_addr f) S Q"
  by (rule cg_bind [OF cg_next_addr]) auto

lemma cg_bind_patch:
  "a \<in> F \<Longrightarrow> a < n \<Longrightarrow> n \<le> k \<Longrightarrow> (\<And>k'. k \<le> k' \<Longrightarrow> cg k' F (U - {a}) (f ()) S Q)
   \<Longrightarrow> cg k F U (bindS (patch_p2 a (of_nat n)) f) S Q"
  by (rule cg_bind [OF cg_patch]) simp_all

text \<open>A condition that may be absent: the pending address of its jump, and its patch.\<close>

abbreviation skip_bounds :: "nat \<Rightarrow> nat option \<Rightarrow> nat \<Rightarrow> bool" where
  "skip_bounds k r n \<equiv> \<forall>a \<in> set_option r. k \<le> a \<and> a < n"

definition skips :: "nat \<Rightarrow> nat option cgm \<Rightarrow> bool" where
  "skips k m \<longleftrightarrow> (\<forall>F U. cg k F U m (skip_bounds k) (\<lambda>r. aims (set_option r \<union> F) (set_option r \<union> U)))"

lemma cg_bind_skips:
  "skips k m \<Longrightarrow>
   (\<And>r k'. \<forall>a \<in> set_option r. k \<le> a \<and> a < k' \<Longrightarrow> k \<le> k' \<Longrightarrow>
      cg k' (set_option r \<union> F) (set_option r \<union> U) (f r) S Q)
   \<Longrightarrow> cg k F U (bindS m f) S Q"
  unfolding skips_def
  by (rule cg_bind [where R = "skip_bounds k" and G = "\<lambda>r. set_option r \<union> F" and V = "\<lambda>r. set_option r \<union> U"])
    auto

lemma cg_bind_patch_option:
  assumes "set_option skip \<subseteq> F" and "\<forall>a \<in> set_option skip. a < n" and "n \<le> k"
    and "\<And>k'. k \<le> k' \<Longrightarrow> cg k' F (U - set_option skip) (f ()) S Q"
  shows "cg k F U (bindS (case skip of None \<Rightarrow> retS () | Some addr \<Rightarrow> patch_p2 addr (of_nat n)) f) S Q"
proof (cases skip)
  case None
  with assms(4) show ?thesis
    by (auto intro!: cg_bind [OF cg_ret [where R = any and G = "\<lambda>_. F" and V = "\<lambda>_. U"]])
next
  case (Some a)
  with assms show ?thesis by (auto intro: cg_bind_patch)
qed

lemma cg_bind_neutral:
  "neutral k m \<Longrightarrow> (\<And>r k'. k \<le> k' \<Longrightarrow> cg k' F U (f r) S Q) \<Longrightarrow> cg k F U (bindS m f) S Q"
  unfolding neutral_def by (rule cg_bind [where R = any]) auto

lemma cg_last_neutral:
  "neutral k m \<Longrightarrow> G \<subseteq> F \<Longrightarrow> U \<subseteq> V \<Longrightarrow> cg k F U m any (\<lambda>_. aims G V)"
  unfolding neutral_def cg_def by (meson aims_mono)

lemma cg_last_patch:
  "a \<in> F \<Longrightarrow> a < n \<Longrightarrow> n \<le> k \<Longrightarrow> G \<subseteq> F \<Longrightarrow> U - {a} \<subseteq> V
   \<Longrightarrow> cg k F U (patch_p2 a (of_nat n)) any (\<lambda>_. aims G V)"
  using cg_patch [of a F n k U] unfolding cg_def by (meson aims_mono)

lemma cg_halt: "U \<subseteq> {} \<Longrightarrow> cg k F U (emit1 (ins OpHalt a b c)) any (\<lambda>_. closed_program)"
  by (auto simp: cg_def emit1_def emit_def closed_program_def aims_def nth_append less_Suc_eq aimed_other)

section \<open>Code that leaves nothing pending\<close>

lemma neutralI: "(\<And>F U. cg k F U m any (\<lambda>_. aims F U)) \<Longrightarrow> neutral k m"
  by (simp add: neutral_def)

lemma neutral_bind:
  "neutral k m \<Longrightarrow> (\<And>r k'. k \<le> k' \<Longrightarrow> neutral k' (f r)) \<Longrightarrow> neutral k (bindS m f)"
  unfolding neutral_def by (rule allI)+ (rule cg_bind [where R = any], auto)

lemma neutral_ret: "neutral k (retS x)"
  by (simp add: neutral_def cg_def)

lemma neutral_throw: "neutral k (throwS e)"
  by (simp add: neutral_def cg_def)

lemma neutral_lift: "neutral k (liftS r)"
  by (simp add: neutral_def cg_def)

lemma neutral_if: "(b \<Longrightarrow> neutral k m) \<Longrightarrow> (\<not> b \<Longrightarrow> neutral k n) \<Longrightarrow> neutral k (if b then m else n)"
  by simp

lemma neutral_option:
  "(x = None \<Longrightarrow> neutral k m) \<Longrightarrow> (\<And>y. x = Some y \<Longrightarrow> neutral k (f y))
   \<Longrightarrow> neutral k (case x of None \<Rightarrow> m | Some y \<Rightarrow> f y)"
  by (cases x) simp_all

lemma neutral_modify: "(\<And>p. pr_insns (f p) = pr_insns p) \<Longrightarrow> neutral k (modifyS f)"
  by (simp add: neutral_def cg_def aims_def)

text \<open>An instruction that closes a loop has its target, an address of the code so far.\<close>

lemma neutral_emit1:
  assumes "\<not> forward (in_opcode i)"
    and "loops (in_opcode i) \<Longrightarrow> \<exists>n. 0 < n \<and> n \<le> k \<and> in_p2 i = of_nat n"
  shows "neutral k (emit1 i)"
proof (cases "loops (in_opcode i)")
  case True
  with assms(2) obtain n where "0 < n" "n \<le> k" "in_p2 i = of_nat n" by auto
  with assms(1) show ?thesis
    by (auto simp: neutral_def cg_def emit1_def emit_def aims_def aimed_def [of _ _ i] as_usize_of_nat
        nth_append less_Suc_eq intro: aimed_mono)
next
  case False
  with assms(1) show ?thesis
    by (auto simp: neutral_def cg_def emit1_def emit_def aims_def aimed_other nth_append less_Suc_eq
        intro: aimed_mono)
qed

lemma neutral_plain: "\<not> forward opc \<Longrightarrow> \<not> loops opc \<Longrightarrow> neutral k (emit1 (Insn opc a b c d e))"
  by (rule neutral_emit1) simp_all

lemma neutral_loop:
  "\<not> forward opc \<Longrightarrow> 0 < n \<Longrightarrow> n \<le> k \<Longrightarrow> neutral k (emit1 (Insn opc a (of_nat n) c d e))"
  by (rule neutral_emit1) auto

lemma neutral_for_each:
  assumes "\<And>x k'. x \<in> set xs \<Longrightarrow> k \<le> k' \<Longrightarrow> neutral k' (f x)"
  shows "neutral k (for_each xs f)"
  using assms
proof (induction xs arbitrary: k)
  case (Cons x xs)
  show ?case unfolding for_each.simps
  proof (rule neutral_bind)
    show "neutral k (f x)" using Cons.prems by simp
    show "neutral k' (for_each xs f)" if "k \<le> k'" for k'
      by (rule Cons.IH) (use Cons.prems that in \<open>meson list.set_intros(2) order_trans\<close>)
  qed
qed (simp add: neutral_ret)

lemma pr_insns_set [simp]: "pr_insns (set_n_reg n p) = pr_insns p" "pr_insns (set_read_only p) = pr_insns p"
  by (simp_all add: set_n_reg_def set_read_only_def)

lemmas neutral_rules = neutral_bind neutral_plain neutral_for_each neutral_if neutral_option neutral_ret
  neutral_throw neutral_lift neutral_modify

lemmas cg_first = cg_bind_emit cg_bind_next cg_bind_patch cg_bind_skips cg_bind_patch_option
  cg_bind_neutral

lemmas cg_last = cg_ret cg_halt cg_last_patch cg_last_neutral

section \<open>The compiler keeps the contract\<close>

lemma binary_no_jump [simp]: "\<not> forward (binary_opcode b)" "\<not> loops (binary_opcode b)"
  by (cases b; simp)+

lemma unary_no_jump [simp]: "\<not> forward (unary_opcode u)" "\<not> loops (unary_opcode u)"
  by (cases u; simp)+

lemma compare_no_jump [simp]: "\<not> forward (compare_opcode b)" "\<not> loops (compare_opcode b)"
  by (cases b; simp)+

lemma pred_no_jump [simp]: "\<not> forward (pred_opcode b)" "\<not> loops (pred_opcode b)"
  by (cases b; simp)+

lemma neutral_expr: "neutral k (compile_expr e reg)"
proof (induction e reg arbitrary: k rule: compile_expr.induct)
  case (5 bop l r reg)
  show ?case unfolding compile_expr.simps
    by (rule neutral_rules 5 | simp)+
next
  case (6 uop e reg)
  show ?case unfolding compile_expr.simps
    by (rule neutral_rules 6 | simp)+
qed (simp_all add: neutral_plain)

lemma neutral_expr_with_columns: "neutral k (compile_expr_with_columns e tab cursor dest)"
  unfolding compile_expr_with_columns_def by (rule neutral_rules neutral_expr | simp)+

lemma neutral_where_expr: "neutral k (compile_where_expr e t cursor dest)"
proof (cases e)
  case (EBinaryOp bop l r)
  show ?thesis unfolding compile_where_expr_def EBinaryOp expr.case
    by (rule neutral_rules neutral_expr neutral_expr_with_columns | simp)+
qed (simp_all add: compile_where_expr_def neutral_expr_with_columns)

lemma skips_condition:
  assumes "\<And>w. neutral k (f w)"
  shows "skips k (case cond of None \<Rightarrow> retS None
    | Some w \<Rightarrow> bindS (f w) (\<lambda>_. bindS (emit (ins OpIfNot dest 0 0)) (\<lambda>addr. retS (Some addr))))"
  unfolding skips_def
proof (intro allI)
  fix F U
  show "cg k F U (case cond of None \<Rightarrow> retS None
      | Some w \<Rightarrow> bindS (f w) (\<lambda>_. bindS (emit (ins OpIfNot dest 0 0)) (\<lambda>addr. retS (Some addr))))
    (skip_bounds k) (\<lambda>r. aims (set_option r \<union> F) (set_option r \<union> U))"
    by (cases cond; simp only: option.case; (rule cg_first cg_last assms | force)+)
qed

lemma skips_skip: "skips k (compile_skip cond t)"
  unfolding compile_skip_def by (rule skips_condition [OF neutral_where_expr])

lemma ends_finish_scan:
  assumes "rewind < k" and "rewind \<in> F" and "\<forall>a \<in> set_option skip. a < k" and "set_option skip \<subseteq> F"
    and "U \<subseteq> insert rewind (set_option skip)"
  shows "cg k F U (finish_scan skip rewind) any (\<lambda>_. closed_program)"
  unfolding finish_scan_def
  by (rule cg_first cg_last neutral_loop | use assms in force)+

lemma neutral_insert_row: "neutral k (compile_insert_row name n row)"
  unfolding compile_insert_row_def split_beta by (rule neutral_rules neutral_expr | simp)+

lemma neutral_assignment: "neutral k (compile_assignment t a)"
  unfolding compile_assignment_def by (rule neutral_rules neutral_expr_with_columns)+

section \<open>Scans\<close>

lemma neutral_column_or_expr: "neutral k (compile_column_or_expr e s tables dest)"
  unfolding compile_column_or_expr_def
  by (cases "resolve_expr_column e s tables") (simp add: neutral_expr, simp, (rule neutral_rules | simp)+)

lemma neutral_pred: "neutral k (compile_pred e s tables dest)"
proof (cases e)
  case (EBinaryOp bop l r)
  show ?thesis unfolding compile_pred_def EBinaryOp expr.case
    by (rule neutral_rules neutral_column_or_expr | simp)+
qed (simp_all add: compile_pred_def neutral_column_or_expr)

lemma neutral_row_load: "neutral k (compile_row_load plan tables s)"
proof -
  have "neutral k' (compile_source s tables src)" for k' src
    unfolding compile_source_def
    by (cases src; cases "snd src") (simp_all, (rule neutral_rules neutral_column_or_expr | simp)+)
  then show ?thesis unfolding compile_row_load_def by (rule neutral_for_each)
qed

lemma neutral_scan_result: "neutral k (emit_scan_result plan buffered)"
  unfolding emit_scan_result_def by (rule neutral_rules | simp)+

lemma skips_optional_where: "skips k (compile_optional_where sel s tables dest)"
  unfolding compile_optional_where_def by (rule skips_condition [OF neutral_pred])

lemmas neutral_parts = neutral_pred neutral_row_load neutral_scan_result skips_optional_where
  skips_skip neutral_assignment neutral_insert_row

lemma neutral_table_scan:
  assumes "rewind < k"
  shows "neutral k (compile_table_scan sel s tables plan buffered cursor rewind)"
  unfolding compile_table_scan_def patch_skip_def
  by (rule neutralI) (rule cg_first cg_last neutral_parts neutral_loop | use assms in force)+

lemma neutral_join_scan:
  assumes "rewind < k"
  shows "neutral k (compile_join_scan sel s tables plan buffered on outer inner rewind)"
  unfolding compile_join_scan_def patch_skip_def
  by (rule neutralI) (rule cg_first cg_last neutral_parts neutral_loop | use assms in force)+

lemma neutral_buffer_output: "neutral k (compile_buffer_output plan)"
  unfolding compile_buffer_output_def
  by (rule neutralI) (rule cg_first cg_last neutral_plain neutral_loop | force)+

lemma ends_scan_program: "ends k F {} (compile_scan_program sel s tables on plan)"
proof -
  have g: "neutral k' (case (sp_has_aggregates plan, sp_group plan) of
      (True, Some spec) \<Rightarrow> emit1 (Insn OpGroupBy (of_nat (sp_row_width plan)) 0 0 (P4GroupBy spec) 0)
    | _ \<Rightarrow> retS ())" for k'
    by (auto split: bool.splits option.splits intro!: neutral_rules)
  have s: "rewind < k' \<Longrightarrow> neutral k' (case on of
      None \<Rightarrow> compile_table_scan sel s tables plan b c rewind
    | Some w \<Rightarrow> compile_join_scan sel s tables plan b w c d rewind)" for k' b c d rewind
    by (cases on) (simp_all add: neutral_table_scan neutral_join_scan)
  show ?thesis unfolding compile_scan_program_def Let_def ends_def
    by (rule cg_first cg_last g s neutral_buffer_output neutral_rules | force)+
qed

section \<open>Statements\<close>

lemma build_closed:
  assumes "build m = Inr prog" and "ends 0 {} {} m" and "code_len prog < 2 ^ 31"
  shows "closed_program prog"
  using assms
  by (auto simp: build_def ends_def cg_def program_new_def aims_def split: prod.splits sum.splits)

lemma select_closed:
  assumes "compile_select sel s = Inr prog" and "code_len prog < 2 ^ 31"
  shows "closed_program prog"
proof -
  have c: "ends 0 {} {} (bindS (modifyS (set_n_reg 8 \<circ> set_read_only)) (\<lambda>_.
      bindS (emit1 (ins OpInit 0 1 0)) (\<lambda>_.
      bindS (emit1 (Insn OpOpenRead cursor 0 0 (P4String name) 0)) (\<lambda>_.
      bindS (emit1 (ins OpCount 0 cursor 0)) (\<lambda>_.
      bindS (emit1 (ins OpResultRow 1 0 0)) (\<lambda>_. emit1 (ins OpHalt 0 0 0)))))))" for cursor name
    unfolding ends_def by (rule cg_first cg_last neutral_rules | force)+
  from assms show ?thesis
    by (auto simp: compile_select_def compile_simple_count_def bindR_eq_Inr sql_error_def
        split: option.splits sum.splits prod.splits table_ref.splits if_splits
        elim!: build_closed intro: c ends_scan_program)
qed

lemma insert_closed:
  assumes "compile_insert st s = Inr prog" and "code_len prog < 2 ^ 31"
  shows "closed_program prog"
proof -
  have "ends 0 {} {} (bindS (modifyS (set_n_reg 16)) (\<lambda>_.
      bindS (emit1 (ins OpInit 0 1 0)) (\<lambda>_. bindS (emit1 (ins OpTransaction 0 0 0)) (\<lambda>_.
      bindS (emit1 (Insn OpOpenWrite 0 0 0 (P4String (in_table st)) 0)) (\<lambda>_.
      bindS (for_each (in_values st) (compile_insert_row (in_table st) n)) (\<lambda>_.
        emit1 (ins OpHalt 0 0 0)))))))" for n
    unfolding ends_def
    by (rule cg_first cg_last neutral_rules neutral_parts | force)+
  with assms show ?thesis
    by (auto simp: compile_insert_def Let_def split: option.splits elim!: build_closed)
qed

lemma delete_closed:
  assumes "compile_delete st s = Inr prog" and "code_len prog < 2 ^ 31"
  shows "closed_program prog"
proof -
  have "ends 0 {} {} (bindS (emit1 (ins OpInit 0 1 0)) (\<lambda>_.
      bindS (emit1 (ins OpTransaction 0 0 0)) (\<lambda>_.
      bindS (emit1 (Insn OpOpenWrite 0 0 0 (P4String name) 0)) (\<lambda>_.
      bindS (emit (ins OpRewind 0 0 0)) (\<lambda>rewind.
      bindS (compile_skip cond t) (\<lambda>skip.
      bindS (emit1 (ins OpDelete 0 0 0)) (\<lambda>_.
        finish_scan skip rewind)))))))" for name cond t
    unfolding ends_def
    by (rule cg_first cg_last neutral_rules neutral_parts ends_finish_scan | force)+
  with assms show ?thesis
    by (auto simp: compile_delete_def split: option.splits elim!: build_closed)
qed

lemma update_closed:
  assumes "compile_update st s = Inr prog" and "code_len prog < 2 ^ 31"
  shows "closed_program prog"
proof -
  have "ends 0 {} {} (bindS (modifyS (set_n_reg (n + 16))) (\<lambda>_.
      bindS (emit1 (ins OpInit 0 1 0)) (\<lambda>_.
      bindS (emit1 (ins OpTransaction 0 0 0)) (\<lambda>_.
      bindS (emit1 (Insn OpOpenWrite 0 0 0 (P4String name) 0)) (\<lambda>_.
      bindS (emit (ins OpRewind 0 0 0)) (\<lambda>rewind.
      bindS (compile_skip cond t) (\<lambda>skip.
      bindS (for_each [0..<n] (\<lambda>j. emit1 (ins OpColumn (of_nat (j + 2)) 0 (of_nat j)))) (\<lambda>_.
      bindS (for_each assigns (compile_assignment t)) (\<lambda>_.
      bindS (emit1 (ins OpRowid 1 0 0)) (\<lambda>_.
      bindS (emit1 (ins OpMakeRecord (of_nat n) 2 10)) (\<lambda>_.
      bindS (emit1 (Insn OpInsert 10 0 1 P4None 1)) (\<lambda>_.
        finish_scan skip rewind))))))))))))" for n name cond t assigns
    unfolding ends_def
    by (rule cg_first cg_last neutral_rules neutral_parts ends_finish_scan | force)+
  with assms show ?thesis
    by (auto simp: compile_update_def Let_def split: option.splits elim!: build_closed)
qed

lemma create_table_closed:
  assumes "compile_create_table c = Inr prog" and "code_len prog < 2 ^ 31"
  shows "closed_program prog"
  by (rule build_closed [OF assms(1) [unfolded compile_create_table_def] _ assms(2)])
     (unfold ends_def, (rule cg_first cg_last neutral_rules | force)+)

lemma drop_table_closed:
  assumes "compile_drop_table c = Inr prog" and "code_len prog < 2 ^ 31"
  shows "closed_program prog"
  by (rule build_closed [OF assms(1) [unfolded compile_drop_table_def] _ assms(2)])
     (unfold ends_def, (rule cg_first cg_last neutral_rules | force)+)

lemma pragma_closed:
  assumes "compile_pragma c = Inr prog" and "code_len prog < 2 ^ 31"
  shows "closed_program prog"
  by (rule build_closed [OF assms(1) [unfolded compile_pragma_def] _ assms(2)])
     (unfold ends_def, (rule cg_first cg_last neutral_rules | force)+)

lemma transaction_closed:
  "compile_begin = Inr prog \<Longrightarrow> closed_program prog"
  "compile_commit = Inr prog \<Longrightarrow> closed_program prog"
  "compile_rollback = Inr prog \<Longrightarrow> closed_program prog"
  "compile_create_index = Inr prog \<Longrightarrow> closed_program prog"
  by (auto simp: compile_begin_def compile_commit_def compile_rollback_def compile_create_index_def
      build_def emit1_def emit_def program_new_def closed_program_def aimed_other less_Suc_eq)

lemmas statement_closed = select_closed insert_closed update_closed delete_closed create_table_closed
  drop_table_closed pragma_closed transaction_closed

lemma compiled_statement_is_closed:
  assumes "compile_statement st s = Inr prog" and "length (pr_insns prog) < 2 ^ 31"
  shows "closed_program prog"
  using assms by (cases st) (auto simp: compile_statement_def intro: statement_closed)

section \<open>Statements without loops\<close>

text \<open>
  Only scans loop: the programs of \<^verbatim>\<open>INSERT\<close>, of the statements that change the schema, of pragmas
  and of transactions have no jump back.
\<close>

definition loop_free :: "program \<Rightarrow> bool" where
  "loop_free p \<longleftrightarrow> (\<forall>i \<in> set (pr_insns p). \<not> loops (in_opcode i))"

fun scans :: "statement \<Rightarrow> bool" where
  "scans (StSelect sel) = True"
| "scans (StUpdate u) = True"
| "scans (StDelete d) = True"
| "scans _ = False"

definition adds_no_loop :: "'a cgm \<Rightarrow> bool" where
  "adds_no_loop m \<longleftrightarrow> (\<forall>p r p'. m p = (Inr r, p') \<longrightarrow> loop_free p \<longrightarrow> loop_free p')"

lemma no_loop_bind: "adds_no_loop m \<Longrightarrow> (\<And>x. adds_no_loop (f x)) \<Longrightarrow> adds_no_loop (bindS m f)"
  unfolding adds_no_loop_def by (blast elim: bindS_E)

lemma no_loop_simple:
  "adds_no_loop (retS x)" "adds_no_loop (throwS e)" "adds_no_loop (liftS q)"
  by (simp_all add: adds_no_loop_def)

lemma no_loop_emit1: "\<not> loops opc \<Longrightarrow> adds_no_loop (emit1 (Insn opc a b c d e))"
  by (auto simp: adds_no_loop_def emit1_def emit_def loop_free_def)

lemma no_loop_modify: "(\<And>p. pr_insns (f p) = pr_insns p) \<Longrightarrow> adds_no_loop (modifyS f)"
  by (simp add: adds_no_loop_def loop_free_def)

lemma no_loop_if:
  "(b \<Longrightarrow> adds_no_loop m) \<Longrightarrow> (\<not> b \<Longrightarrow> adds_no_loop n) \<Longrightarrow> adds_no_loop (if b then m else n)"
  by simp

lemma no_loop_for_each: "(\<And>x. adds_no_loop (f x)) \<Longrightarrow> adds_no_loop (for_each xs f)"
  by (induction xs) (simp_all add: no_loop_simple no_loop_bind)

lemmas no_loop_rules = no_loop_bind no_loop_simple no_loop_emit1 no_loop_modify no_loop_if
  no_loop_for_each

lemma no_loop_expr: "adds_no_loop (compile_expr e reg)"
proof (induction e reg rule: compile_expr.induct)
  case (5 bop l r reg)
  show ?case unfolding compile_expr.simps by (rule no_loop_rules 5 | simp)+
next
  case (6 uop e reg)
  show ?case unfolding compile_expr.simps by (rule no_loop_rules 6 | simp)+
qed (simp_all add: no_loop_emit1)

lemma no_loop_insert_row: "adds_no_loop (compile_insert_row name n row)"
  unfolding compile_insert_row_def split_beta by (rule no_loop_rules no_loop_expr | simp)+

lemma build_loop_free: "build m = Inr prog \<Longrightarrow> adds_no_loop m \<Longrightarrow> loop_free prog"
  by (auto simp: build_def adds_no_loop_def loop_free_def program_new_def split: prod.splits sum.splits)

lemma insert_loop_free:
  assumes "compile_insert st s = Inr prog"
  shows "loop_free prog"
proof -
  have "adds_no_loop (bindS (modifyS (set_n_reg 16)) (\<lambda>_.
      bindS (emit1 (ins OpInit 0 1 0)) (\<lambda>_. bindS (emit1 (ins OpTransaction 0 0 0)) (\<lambda>_.
      bindS (emit1 (Insn OpOpenWrite 0 0 0 (P4String (in_table st)) 0)) (\<lambda>_.
      bindS (for_each (in_values st) (compile_insert_row (in_table st) n)) (\<lambda>_.
        emit1 (ins OpHalt 0 0 0)))))))" for n
    by (rule no_loop_rules no_loop_insert_row | simp)+
  with assms show ?thesis
    by (auto simp: compile_insert_def Let_def split: option.splits elim!: build_loop_free)
qed

lemma other_loop_free:
  "compile_create_table c = Inr prog \<Longrightarrow> loop_free prog"
  "compile_drop_table d = Inr prog \<Longrightarrow> loop_free prog"
  "compile_pragma q = Inr prog \<Longrightarrow> loop_free prog"
  by (unfold compile_create_table_def compile_drop_table_def compile_pragma_def)
    (erule build_loop_free, (rule no_loop_rules | simp)+)+

lemma transaction_loop_free:
  "compile_begin = Inr prog \<Longrightarrow> loop_free prog"
  "compile_commit = Inr prog \<Longrightarrow> loop_free prog"
  "compile_rollback = Inr prog \<Longrightarrow> loop_free prog"
  "compile_create_index = Inr prog \<Longrightarrow> loop_free prog"
  by (auto simp: compile_begin_def compile_commit_def compile_rollback_def compile_create_index_def
      build_def emit1_def emit_def program_new_def loop_free_def)

lemma compiled_statement_loop_free:
  "compile_statement st s = Inr prog \<Longrightarrow> \<not> scans st \<Longrightarrow> loop_free prog"
  by (cases st)
    (auto simp: compile_statement_def intro: insert_loop_free other_loop_free transaction_loop_free)

end
