(* ===== verification/Machine_Safety.thy ===== *)
theory Machine_Safety
  imports Jump_Targets
begin

text \<open>
  Why the compiler closes its programs: the machine treats a program counter behind the code as the
  end of the statement, so a wrong target would end a statement silently. Here the counter of a
  machine that runs a closed program never leaves the code, such a machine answers \<open>Done\<close> only at a
  halt, and without loops its turns are bounded by the length of the code. The contract is that of the operations of the machine: the program stays, and the
  counter moves at most to a target in \<open>T\<close>.
\<close>

definition stays :: "(nat \<Rightarrow> bool) \<Rightarrow> vdbe \<Rightarrow> vdbe \<Rightarrow> bool" where
  "stays T v v' \<longleftrightarrow> vm_program v' = vm_program v \<and> vm_halted v' = vm_halted v
     \<and> (vm_pc v' = vm_pc v \<or> T (vm_pc v'))"



lemma stays_refl [simp]: "stays T v v"
  by (simp add: stays_def)


section \<open>Rules of the contract\<close>






















section \<open>The operations\<close>






































section \<open>Running a closed program\<close>

definition runs :: "program \<Rightarrow> vdbe \<Rightarrow> bool" where
  "runs prog v \<longleftrightarrow> vm_program v = prog \<and> \<not> vm_halted v \<and> vm_pc v < code_len prog"

lemma runs_stays: "runs prog v \<Longrightarrow> stays (\<lambda>n. n < code_len prog) v v' \<Longrightarrow> runs prog v'"
  by (auto simp: runs_def stays_def)








section \<open>A call\<close>








end
