(* ===== verification/Leaf_Split.thy ===== *)
theory Leaf_Split
  imports Cursor_Correct
begin

text \<open>
  Splitting a full leaf of a table: the two halves, the promotion of a split root, and what becomes
  of the promoted root when the next divider is inserted into it.
\<close>

section \<open>The cells of a leaf\<close>

definition keyed_cell :: "row \<Rightarrow> i64 \<times> bytes" where
  "keyed_cell r = (fst r, table_cell r)"

lemma leaf_table_cell_at:
  assumes l: "table_leaf d ho rows" and j: "j < length rows"
  shows "leaf_table_cell d ho j = Inr (keyed_cell (rows ! j))"
proof -
  obtain cs where h: "holds_cells leaf_cell_ptr_offset table_cell d ho cs rows"
    and ok: "\<forall>r \<in> set rows. table_row_ok r" using l by (rule table_leafE) blast
  have "bindR (leaf_ptr d ho j) (table_row d) = Inr (rows ! j)"
    unfolding leaf_ptr_bind by (rule tl.holds_nth [OF h ok j])
  then obtain ptr where ptr: "leaf_ptr d ho j = Inr ptr" "table_row d ptr = Inr (rows ! j)"
    by (rule bindR_E)
  obtain k po where k: "read_cell_rowid d ptr = Inr (k, po)"
    using ptr(2) by (cases "read_cell_rowid d ptr") (auto simp: table_row_def)
  obtain pl m e rec where rest: "read_varint d po = Inr (pl, m)" "add_usize (po + m) (unat pl) = Inr e"
    "slice d (po + m) e = Inr rec" "rows ! j = (k, rec)"
    using ptr(2) k by (auto simp: table_row_def Let_def bindR_eq_Inr simp del: slice_eq_Inr)
  have e: "e = po + m + unat pl" using rest(2) by (simp add: add_usize_def split: if_splits)
  have len: "length rec = unat pl" using rest(3) e by auto
  have pl: "pl = of_nat (length rec)" by (simp add: len)
  have okr: "table_row_ok (k, rec)" using ok j rest(4) by (metis nth_mem)
  have "put_varint k [] = Inr (varint_enc k)"
    and "put_varint pl (varint_enc k) = Inr (varint_enc k @ varint_enc pl)"
    using okr len by (simp_all add: put_varint_small table_row_ok_def)
  then show ?thesis
    using ptr(1) k rest
    by (simp add: leaf_table_cell_def leaf_table_key_def Let_def keyed_cell_def table_cell_def pl [symmetric]
        del: slice_eq_Inr)
qed

lemma leaf_cells:
  assumes "table_leaf d ho rows"
  shows "collect_from (leaf_table_cell d ho) 0 (length rows) = Inr (map keyed_cell rows)"
  using collect_from_list [of "map keyed_cell rows" "leaf_table_cell d ho" 0]
    leaf_table_cell_at [OF assms] by simp

lemma sort_cells:
  assumes so: "rows_sorted rows" and new: "fst x \<notin> fst ` set rows"
  shows "sort_key (sint \<circ> fst) (map keyed_cell rows @ [keyed_cell x]) = map keyed_cell (insort_key rowkey x rows)"
proof (rule sort_key_inj_key_eq)
  show "mset (map keyed_cell rows @ [keyed_cell x]) = mset (map keyed_cell (insort_key rowkey x rows))"
    by simp
  have d: "distinct (map fst (rows @ [x]))" using rows_sorted_distinct [OF so] new by simp
  show "inj_on (sint \<circ> fst) (set (map keyed_cell rows @ [keyed_cell x]))"
  proof (rule inj_onI)
    fix a b assume ab: "a \<in> set (map keyed_cell rows @ [keyed_cell x])"
      "b \<in> set (map keyed_cell rows @ [keyed_cell x])" "(sint \<circ> fst) a = (sint \<circ> fst) b"
    then obtain r s where rs: "r \<in> set (rows @ [x])" "s \<in> set (rows @ [x])" "a = keyed_cell r" "b = keyed_cell s"
      unfolding map_append [symmetric, of keyed_cell rows "[x]", simplified list.map] set_map by blast
    then have "fst r = fst s" using ab(3) by (auto simp: keyed_cell_def intro: signed_word_eqI)
    with d rs(1,2) have "r = s" by (metis distinct_map inj_onD)
    then show "a = b" using rs by simp
  qed
  have "\<forall>r \<in> set rows. fst r \<noteq> fst x" using new by (metis image_eqI)
  then have "rows_sorted (insort_key rowkey x rows)" by (rule insort_sorted [OF so])
  then have "sorted (map rowkey (insort_key rowkey x rows))"
    by (auto simp: rows_sorted_def sorted_map intro: sorted_wrt_mono_rel [rotated])
  then show "sorted (map (sint \<circ> fst) (map keyed_cell (insort_key rowkey x rows)))"
    by (simp add: keyed_cell_def comp_def)
qed

section \<open>Rebuilding a leaf\<close>

definition rows_fit :: "nat \<Rightarrow> nat \<Rightarrow> row list \<Rightarrow> bool" where
  "rows_fit len ho rows \<longleftrightarrow>
     leaf_cell_ptr_offset ho (length rows) + length (concat (map table_cell rows)) \<le> len"

lemma rebuild_leaf:
  assumes ty: "d ! ho = PAGE_TYPE_LEAF_TABLE" and len: "length d < 65536"
    and so: "rows_sorted rows" and ok: "\<forall>r \<in> set rows. table_row_ok r" and fit: "rows_fit (length d) ho rows"
  obtains d' where "rebuild_leaf_table_page d ho (map keyed_cell rows) = Inr d'"
    and "table_leaf d' ho rows" and "length d' = length d" and "take ho d' = take ho d"
    and "holds_cells leaf_cell_ptr_offset table_cell d' ho (length d - length (concat (map table_cell rows))) rows"
proof -
  have ho: "ho + 8 + 2 * length rows \<le> length d" using fit by (simp add: rows_fit_def leaf_cell_ptr_offset_def)
  then have n: "length rows < 65536" using len by simp
  let ?d2 = "d[ho + 1 := 0, ho + 2 := 0]"
  let ?d3 = "overlay ?d2 (ho + 3) (be_of_u16 (of_nat (length rows)))"
  let ?d4 = "?d3[ho + 7 := 0]"
  have l: "length ?d3 = length d" "length ?d4 = length d" using ho by (simp_all add: length_overlay)
  have "agree_on (\<lambda>m. m < ho + 3 \<or> ho + 5 \<le> m) ?d2 ?d3"
    using ho by (intro agree_on_overlay) auto
  then have "?d3 ! ho = ?d2 ! ho" and "\<And>m. m < ho \<Longrightarrow> ?d3 ! m = ?d2 ! m"
    using ho by (auto simp: agree_on_def)
  then have t4: "?d4 ! ho = d ! ho" "\<And>m. m < ho \<Longrightarrow> ?d4 ! m = d ! m" using ho by auto
  have c4: "u16_at ?d4 (ho + 3) = of_nat (length rows)"
  proof -
    have "u16_at ?d4 (ho + 3) = u16_at ?d3 (ho + 3)"
      by (rule agree_on_u16 [of "\<lambda>m. m \<noteq> ho + 7"]) (use ho l in \<open>auto simp: agree_on_def\<close>)
    then show ?thesis using ho by simp
  qed
  have n4: "unat (u16_at ?d4 (ho + 3)) = length rows" unfolding c4 using n by (simp add: tl.unat_u16_of_nat)
  have room: "leaf_cell_ptr_offset ho (length rows) + length (concat (map table_cell rows)) \<le> length ?d4"
    using fit l(2) by (simp add: rows_fit_def)
  have len4: "length ?d4 < 65536" using l(2) len by simp
  obtain d' where d': "rebuild_cells leaf_cell_ptr_offset ho (map table_cell rows) ?d4 = Inr d'"
    "holds_cells leaf_cell_ptr_offset table_cell d' ho (length ?d4 - length (concat (map table_cell rows))) rows"
    "agree_on (\<lambda>m. m < ho + 5 \<or> ho + 7 \<le> m \<and> m < leaf_cell_ptr_offset ho 0) ?d4 d'"
    by (rule tl.holds_rebuild [OF len4 n4 room])
  have "rebuild_leaf_table_page d ho (map keyed_cell rows) = Inr d'"
    using ho d'(1) l
    by (simp add: rebuild_leaf_table_page_def set_at_def write_u16_be_def copy_at_def keyed_cell_def comp_def)
  moreover have "table_leaf d' ho rows"
  proof -
    have "d' ! ho = ?d4 ! ho" using d'(3) ho l by (auto simp: agree_on_def)
    then have "d' ! ho = PAGE_TYPE_LEAF_TABLE" by (simp only: t4(1) ty)
    with so ok d'(2) show ?thesis by (auto simp: table_leaf_def)
  qed
  moreover have "length d' = length d" using agree_on_length [OF d'(3)] l(2) by simp
  moreover have "take ho d' = take ho d"
  proof (rule nth_equalityI)
    fix m assume "m < length (take ho d')"
    then have m: "m < ho" by simp
    have "d' ! m = ?d4 ! m" using d'(3) m ho l by (auto simp: agree_on_def)
    then show "take ho d' ! m = take ho d ! m" using m by (simp only: t4(2) nth_take)
  qed (use \<open>length d' = length d\<close> in simp)
  ultimately show thesis using d'(2) l(2) by (intro that) simp_all
qed

section \<open>New pages\<close>

lemma page_header_other: "n \<noteq> 1 \<Longrightarrow> page_header_offset n = 0"
  by (simp add: page_header_offset_def ROOT_PAGE_def)

lemma empty_page_ok:
  assumes "n \<noteq> 1" and "512 \<le> unat ps"
  obtains d where "empty_page ps n ty = Inr d" and "length d = unat ps" and "d ! 0 = ty"
proof -
  let ?d = "(replicate (unat ps) 0)[0 := ty, 5 := ucast (drop_bit 8 (ucast ps :: u16)),
      6 := ucast (ucast ps :: u16)] :: bytes"
  have "empty_page ps n ty = Inr ?d"
    using assms(2) by (simp add: empty_page_def page_header_other [OF assms(1)] set_at_def Let_def)
  moreover have "?d ! 0 = ty" using assms(2) by simp
  ultimately show thesis using that by simp
qed

lemma new_leaf_page:
  assumes g: "can_grow p" and n: "pgr_page_count p \<noteq> - 1" and rw: "\<not> pgr_read_only p"
    and keyed: "pages_keyed p"
  obtains p1 p2 d where "allocate_page p = (Inr (pgr_page_count p + 1), p1)"
    and "init_leaf_page (pgr_page_count p + 1) ty p1 = (Inr (), p2)"
    and "pager_view p2 = (pager_view p)(pgr_page_count p + 1 \<mapsto> d)"
    and "length d = pager_psize p" and "d ! 0 = ty" and "pager_view p (pgr_page_count p + 1) = None"
    and "can_grow p2" and "pgr_page_count p2 = pgr_page_count p + 1" and "\<not> pgr_read_only p2"
    and "pages_keyed p2" and "pager_psize p2 = pager_psize p" and "pgr_page_count p + 1 \<noteq> 1"
proof -
  let ?n = "pgr_page_count p + 1"
  have n1: "?n \<noteq> 1" using g by (simp add: can_grow_def)
  have n0: "?n \<noteq> 0" by (rule word_le_succ(3) [OF n])
  obtain p1 where p1: "allocate_page p = (Inr ?n, p1)"
    "pager_view p1 = (pager_view p)(?n \<mapsto> replicate (pager_psize p) 0)"
    "can_grow p1" "pgr_page_count p1 = ?n" "pager_view p ?n = None" "map_of (pgr_cache p1) ?n \<noteq> None"
    "pager_psize p1 = pager_psize p" "pgr_read_only p1 = pgr_read_only p"
    "pages_keyed p \<Longrightarrow> pages_keyed p1"
    using g n by (rule allocate_grows) blast
  have ps: "512 \<le> unat (pgr_page_size p1)" using p1(3) by (simp add: can_grow_def pager_psize_def)
  obtain d where d: "empty_page (pgr_page_size p1) ?n ty = Inr d" "length d = unat (pgr_page_size p1)" "d ! 0 = ty"
    using n1 ps by (rule empty_page_ok)
  let ?pg = "\<lparr>pg_no = ?n, pg_data = d, pg_dirty = True\<rparr>"
  let ?q = "cache_insert (?pg\<lparr>pg_dirty := True\<rparr>) p1"
  have w: "write_page ?pg p1 = (Inr (), ?q)" "can_grow ?q"
    using can_grow_put [OF p1(3), of ?pg] rw p1(2,8) by simp_all
  have c: "map_of (pgr_cache ?q) ?n \<noteq> None" by (simp add: cache_insert_def update_conv')
  have len: "length d = pager_psize ?q" using d(2) by (simp add: pager_psize_def cache_insert_def)
  obtain p2 where p2: "write_page_direct ?n d ?q = (Inr (), p2)" "pager_view p2 = pager_view ?q"
    "can_grow p2" "pgr_page_count p2 = pgr_page_count ?q" "pager_psize p2 = pager_psize ?q"
    "pgr_read_only p2 = pgr_read_only ?q" "pages_keyed ?q \<Longrightarrow> pages_keyed p2"
    using w(2) n0 c len by (rule put_direct) blast
  have "init_leaf_page ?n ty p1 = (Inr (), p2)"
    using d(1) w(1) p2(1) by (simp add: init_leaf_page_def bindS_app)
  moreover have "pager_view p2 = (pager_view p)(?n \<mapsto> d)"
    using p2(2) p1(2) by (simp add: pager_view_insert)
  moreover have "pages_keyed p2"
    using p2(7) pages_keyed_insert [OF p1(9) [OF keyed]] by blast
  moreover have "pager_psize p2 = pager_psize p" "length d = pager_psize p"
    using p2(5) p1(7) len by (simp_all add: pager_psize_def cache_insert_def)
  ultimately show thesis
    using that [OF p1(1)] d(3) p1(4,5,8) p2(3,4,6) rw n1 by (simp add: cache_insert_def)
qed

section \<open>Splitting a leaf\<close>

definition new_rows :: "row \<Rightarrow> row list \<Rightarrow> row list" where
  "new_rows x rows = insort_key rowkey x rows"

definition left_rows :: "row \<Rightarrow> row list \<Rightarrow> row list" where
  "left_rows x rows = take (Suc (length rows) div 2) (new_rows x rows)"

definition right_rows :: "row \<Rightarrow> row list \<Rightarrow> row list" where
  "right_rows x rows = drop (Suc (length rows) div 2) (new_rows x rows)"

lemma rows_halves: "left_rows x rows @ right_rows x rows = new_rows x rows"
  by (simp add: left_rows_def right_rows_def)

lemma left_rows_nonempty: "rows \<noteq> [] \<Longrightarrow> left_rows x rows \<noteq> []"
  by (cases rows) (auto simp: left_rows_def new_rows_def)

lemma last_left_rows:
  assumes "rows \<noteq> []"
  shows "new_rows x rows ! (Suc (length rows) div 2 - 1) = last (left_rows x rows)"
proof -
  have l: "length (left_rows x rows) = Suc (length rows) div 2"
    by (simp add: left_rows_def new_rows_def)
  then have "last (left_rows x rows) = left_rows x rows ! (Suc (length rows) div 2 - 1)"
    using left_rows_nonempty [OF assms, of x] by (simp add: last_conv_nth)
  also have "\<dots> = new_rows x rows ! (Suc (length rows) div 2 - 1)"
    unfolding left_rows_def by (rule nth_take) (use assms in \<open>cases rows; simp\<close>)
  finally show ?thesis by simp
qed

lemma split_leaf_rows:
  assumes l: "table_leaf d ho rows" and x: "table_row_ok x" and new: "fst x \<notin> fst ` set rows"
    and ne: "rows \<noteq> []"
    and rd: "pager_view p rp = Some rd" "rd ! page_header_offset rp = PAGE_TYPE_LEAF_TABLE" "length rd < 65536"
    and fl: "rows_fit (length d) ho (left_rows x rows)"
    and fr: "rows_fit (length rd) (page_header_offset rp) (right_rows x rows)"
    and keyed: "pages_keyed p" and rw: "\<not> pgr_read_only p"
  obtains left right p' where
    "split_leaf_table d ho lp rp (table_cell x) (fst x) p =
      (Inr (\<lparr>ls_left = lp, ls_divider_key = fst (last (left_rows x rows)), ls_divider_blob = None,
        ls_right = rp\<rparr>, left), p')"
    and "table_leaf left ho (left_rows x rows)" and "length left = length d"
    and "table_leaf right (page_header_offset rp) (right_rows x rows)" and "length right = length rd"
    and "pager_view p' = (pager_view p)(rp \<mapsto> right)" and "pager_same p p'"
proof -
  let ?all = "new_rows x rows" and ?mid = "Suc (length rows) div 2"
  have so: "rows_sorted rows" and ok: "\<forall>r \<in> set rows. table_row_ok r" and ty: "d ! ho = PAGE_TYPE_LEAF_TABLE"
    and ld: "length d < 65536"
    by (rule table_leafE [OF l], assumption)+
  note n = table_leaf_count [OF l]
  have "\<forall>r \<in> set rows. fst r \<noteq> fst x" using new by (metis image_eqI)
  then have soa: "rows_sorted ?all" unfolding new_rows_def by (rule insort_sorted [OF so])
  have oka: "\<forall>r \<in> set ?all. table_row_ok r" using ok x by (simp add: new_rows_def set_insort_key)
  have sol: "rows_sorted (left_rows x rows)" "rows_sorted (right_rows x rows)"
    using soa unfolding rows_halves [of x rows, symmetric] by simp_all
  have okl: "\<forall>r \<in> set (left_rows x rows). table_row_ok r" "\<forall>r \<in> set (right_rows x rows). table_row_ok r"
    using oka unfolding rows_halves [of x rows, symmetric] by simp_all
  have la: "length ?all = Suc (length rows)" by (simp add: new_rows_def)
  have cells: "sort_key (sint \<circ> fst) (map keyed_cell rows @ [(fst x, table_cell x)]) = map keyed_cell ?all"
    using sort_cells [OF so new] by (simp add: keyed_cell_def new_rows_def)
  have mid: "?mid \<noteq> 0" using ne by (cases rows) auto
  obtain left where left: "rebuild_leaf_table_page d ho (map keyed_cell (left_rows x rows)) = Inr left"
    "table_leaf left ho (left_rows x rows)" "length left = length d" "take ho left = take ho d"
    using ty ld sol(1) okl(1) fl by (rule rebuild_leaf) blast
  obtain pg p1 where g: "get_page rp p = (Inr pg, p1)" "pg_data pg = rd" "pager_view p1 = pager_view p"
    "pager_same p p1" and no: "pages_keyed p \<Longrightarrow> pg_no pg = rp"
    using rd(1) by (rule page_get) blast
  obtain right where right: "rebuild_leaf_table_page rd (page_header_offset rp)
      (map keyed_cell (right_rows x rows)) = Inr right"
    "table_leaf right (page_header_offset rp) (right_rows x rows)" "length right = length rd"
    "take (page_header_offset rp) right = take (page_header_offset rp) rd"
    using rd(2,3) sol(2) okl(2) fr by (rule rebuild_leaf) blast
  have "\<not> pgr_read_only p1" using g(4) rw by (simp add: pager_same_def)
  then obtain p2 where p2: "write_page (pg\<lparr>pg_data := right\<rparr>) p1 = (Inr (), p2)"
    "pager_view p2 = (pager_view p1)(pg_no (pg\<lparr>pg_data := right\<rparr>) \<mapsto> pg_data (pg\<lparr>pg_data := right\<rparr>))"
    "pager_same p1 p2"
    by (rule page_put)
  have "split_leaf_table d ho lp rp (table_cell x) (fst x) p =
      (Inr (\<lparr>ls_left = lp, ls_divider_key = fst (last (left_rows x rows)), ls_divider_blob = None,
        ls_right = rp\<rparr>, left), p2)"
  proof -
    have tk: "take ?mid (map keyed_cell ?all) = map keyed_cell (left_rows x rows)"
      "drop ?mid (map keyed_cell ?all) = map keyed_cell (right_rows x rows)"
      by (simp_all add: left_rows_def right_rows_def take_map drop_map)
    have dv: "fst (map keyed_cell ?all ! (?mid - 1)) = fst (last (left_rows x rows))"
      using last_left_rows [OF ne, of x] la by (subst nth_map) (auto simp: keyed_cell_def)
    show ?thesis
      using n leaf_cells [OF l] cells mid left(1) g(1,2) right(1) p2(1) tk dv la
      by (simp add: split_leaf_table_def Let_def)
  qed
  from that [OF this left(2,3) right(2,3)] p2(2) g(3) no [OF keyed] pager_same_trans [OF g(4) p2(3)]
  show thesis by simp
qed

section \<open>The promoted root\<close>

text \<open>The page \<^verbatim>\<open>promote_root_split\<close> builds for a table.\<close>

definition promoted_page :: "u32 \<Rightarrow> bytes \<Rightarrow> u32 \<Rightarrow> bytes res" where
  "promoted_page ps cell right =
     bindR (set_at (replicate (unat ps) 0) 0 PAGE_TYPE_INTERIOR_TABLE) (\<lambda>data.
     bindR (write_u16_be data 5 (ucast ps)) (\<lambda>data.
     bindR (write_u32_be data 8 right) (\<lambda>data.
       if unat (ucast ps :: u16) < length cell then panic
       else bindR (copy_at data (unat (ucast ps :: u16) - length cell) cell) (\<lambda>data.
            bindR (write_u16_be data 3 1) (\<lambda>data.
              write_u16_be data 12 (of_nat (unat (ucast ps :: u16) - length cell)))))))"

lemma length_divider_cell: "divider_ok c \<Longrightarrow> length (divider_cell c) \<le> 13"
  using length_varint_enc_bounds(2) [of "snd c"] by (simp add: divider_cell_def divider_ok_def)

lemma promoted_page_ok:
  assumes ps: "512 \<le> unat ps" "unat ps < 65536" and ok: "divider_ok c"
  obtains d where "promoted_page ps (divider_cell c) right = Inr d"
    and "length d = unat ps" and "table_interior d 0 [c] right"
    and "unat (u16_at d 5) = unat ps" and "unat (u16_at d 12) = unat ps - length (divider_cell c)"
proof -
  let ?cell = "divider_cell c" and ?ps = "unat ps"
  have u: "unat (ucast ps :: u16) = ?ps"
    using tl.unat_u16_of_nat [OF ps(2)] by simp
  have cl: "length ?cell \<le> 13" by (rule length_divider_cell [OF ok])
  define cs where "cs = ?ps - length ?cell"
  have cs: "cs + length ?cell = ?ps" "499 \<le> cs" using cl ps by (simp_all add: cs_def)
  define d0 where "d0 = (replicate ?ps 0)[0 := PAGE_TYPE_INTERIOR_TABLE]"
  define d1 where "d1 = overlay d0 5 (be_of_u16 (ucast ps))"
  define d2 where "d2 = overlay d1 8 (be_of_u32 right)"
  define d3 where "d3 = overlay d2 cs ?cell"
  define d4 where "d4 = overlay d3 3 (be_of_u16 1)"
  define d5 where "d5 = overlay d4 12 (be_of_u16 (of_nat cs))"
  have l0: "length d0 = ?ps" by (simp add: d0_def)
  have a1: "agree_on (\<lambda>m. m < 5 \<or> 7 \<le> m) d0 d1" and l1: "length d1 = ?ps"
    unfolding d1_def using ps l0 by (auto intro: agree_on_overlay)
  have a2: "agree_on (\<lambda>m. m < 8 \<or> 12 \<le> m) d1 d2" and l2: "length d2 = ?ps"
    unfolding d2_def using ps l1 by (auto intro: agree_on_overlay)
  have a3: "agree_on (\<lambda>m. m < cs) d2 d3" and l3: "length d3 = ?ps"
    unfolding d3_def using cs l2 by (auto intro: agree_on_overlay)
  have a4: "agree_on (\<lambda>m. m < 3 \<or> 5 \<le> m) d3 d4" and l4: "length d4 = ?ps"
    unfolding d4_def using ps l3 by (auto intro: agree_on_overlay)
  have a5: "agree_on (\<lambda>m. m < 12 \<or> 14 \<le> m) d4 d5" and l5: "length d5 = ?ps"
    unfolding d5_def using ps l4 by (auto intro: agree_on_overlay)
  have run: "promoted_page ps ?cell right = Inr d5"
    using ps cs l0 l1 l2 l3 l4 u
    by (simp add: promoted_page_def set_at_def write_u16_be_def write_u32_be_def copy_at_def not_less
        del: of_nat_diff flip: d0_def d1_def d2_def d3_def d4_def d5_def cs_def)
      (simp add: d0_def d1_def d2_def d3_def d4_def d5_def)
  have ty: "d5 ! 0 = PAGE_TYPE_INTERIOR_TABLE"
  proof -
    have "agree_on (\<lambda>m. m = 0) d0 d5"
      by (intro agree_on_trans [OF agree_on_mono [OF a1] agree_on_trans [OF agree_on_mono [OF a2]
            agree_on_trans [OF agree_on_mono [OF a3] agree_on_trans [OF agree_on_mono [OF a4]
              agree_on_mono [OF a5]]]]]) (use cs in auto)
    then show ?thesis using ps by (auto simp: agree_on_def d0_def)
  qed
  have rm: "u32_at d5 8 = right"
  proof -
    have "agree_on (\<lambda>m. 8 \<le> m \<and> m < 12) d2 d5"
      by (intro agree_on_trans [OF agree_on_mono [OF a3] agree_on_trans [OF agree_on_mono [OF a4]
              agree_on_mono [OF a5]]]) (use cs in auto)
    then have "u32_at d5 8 = u32_at d2 8" by (rule agree_on_u32) (use l2 ps in auto)
    then show ?thesis using l1 ps by (simp add: d2_def)
  qed
  have n: "u16_at d5 3 = 1"
  proof -
    have "u16_at d5 3 = u16_at d4 3" by (rule agree_on_u16 [OF a5]) (use l4 ps in auto)
    then show ?thesis using l3 ps by (simp add: d4_def)
  qed
  have start: "u16_at d5 5 = ucast ps"
  proof -
    have "agree_on (\<lambda>m. 5 \<le> m \<and> m < 7) d1 d5"
      by (intro agree_on_trans [OF agree_on_mono [OF a2] agree_on_trans [OF agree_on_mono [OF a3]
              agree_on_trans [OF agree_on_mono [OF a4] agree_on_mono [OF a5]]]]) (use cs in auto)
    then have "u16_at d5 5 = u16_at d1 5" by (rule agree_on_u16) (use l1 ps in auto)
    then show ?thesis using l0 ps by (simp add: d1_def)
  qed
  have ptr: "unat (u16_at d5 12) = cs"
  proof -
    have "u16_at d5 12 = of_nat cs" using l4 ps by (simp add: d5_def)
    then show ?thesis using cs ps(2) by (simp add: tl.unat_u16_of_nat)
  qed
  have "cell_at divider_cell d3 (cs, c)"
    using cs l2 l3 slice_of_overlay_same [of cs ?cell d2] by (simp add: cell_at_def d3_def)
  then have "cell_at divider_cell d4 (cs, c)" by (rule cell_at_agree [OF _ a4]) (use cs in auto)
  then have "cell_at divider_cell d5 (cs, c)" by (rule cell_at_agree [OF _ a5]) (use cs in auto)
  then have "shows_cells interior_cell_ptr_offset divider_cell d5 0 [c]"
    using ps l5 n ptr by (simp add: shows_cells_def interior_cell_ptr_offset_def)
  then have "table_interior d5 0 [c] right" using ty rm ok by (simp add: table_interior_def)
  from that [OF run l5 this] start u ptr show thesis by (simp add: cs_def)
qed

section \<open>Splitting the root\<close>

lemma sorted_last_le:
  assumes "rows_sorted rows" and "r \<in> set rows"
  shows "rowkey r \<le> rowkey (last rows)"
  using assms
proof (induction rows)
  case (Cons a rows)
  show ?case
  proof (cases "rows = []")
    case False
    then have "rowkey a < rowkey (last rows)" using Cons.prems(1) by simp
    with Cons False show ?thesis by (auto intro: order.strict_implies_order)
  qed (use Cons in simp)
qed simp


lemma promote_root_app:
  assumes al: "allocate_page p = (Inr n, p1)" and n: "n \<noteq> 1" and b: "\<not> bf_blobkey (bt_flags b)"
    and cell: "build_interior_table_cell (bt_root b) (ls_divider_key split) = Inr cell"
    and d: "promoted_page (pgr_page_size p1) cell (ls_right split) = Inr d"
    and w: "write_page \<lparr>pg_no = n, pg_data = d, pg_dirty = True\<rparr> p1 = (Inr (), p2)"
  shows "promote_root_split split (b, p) = (Inr (), (b\<lparr>bt_root := n\<rparr>, p2))"
proof -
  have upd: "bt_root_update (\<lambda>_. n) b = b\<lparr>bt_root := n\<rparr>" by simp
  have "bindR (set_at (replicate (unat (pgr_page_size p1)) 0) (page_header_offset n)
          (if bf_blobkey (bt_flags b) then PAGE_TYPE_INTERIOR_INDEX else PAGE_TYPE_INTERIOR_TABLE)) (\<lambda>data.
        bindR (write_u16_be data (page_header_offset n + 5) (ucast (pgr_page_size p1))) (\<lambda>data.
        bindR (write_u32_be data (page_header_offset n + 8) (ls_right split)) (\<lambda>data.
        bindR (if bf_blobkey (bt_flags b)
               then (case ls_divider_blob split of None \<Rightarrow> Inl missing_divider
                     | Some divider \<Rightarrow> build_interior_index_cell (bt_root b) divider)
               else build_interior_table_cell (bt_root b) (ls_divider_key split)) (\<lambda>cell.
        if unat (ucast (pgr_page_size p1) :: u16) < length cell then panic
        else (let cell_start = unat (ucast (pgr_page_size p1) :: u16) - length cell in
        bindR (copy_at data cell_start cell) (\<lambda>data.
        bindR (write_u16_be data (page_header_offset n + 3) 1) (\<lambda>data.
          write_u16_be data (page_header_offset n + 12) (of_nat cell_start)))))))) = Inr d"
    using d b cell by (simp add: promoted_page_def page_header_other [OF n] Let_def del: of_nat_diff cong: if_cong)
  with al w b show ?thesis
    by (simp add: promote_root_split_def bindS_app on_pager_app blobkey_def btree_root_def Let_def cong: if_cong)
qed

lemma promote_ok:
  assumes g: "can_grow p" and cnt: "pgr_page_count p \<noteq> - 1" and rw: "\<not> pgr_read_only p"
    and keyed: "pages_keyed p" and b: "\<not> bf_blobkey (bt_flags b)"
    and dk: "divider_ok (bt_root b, ls_divider_key sp)"
  obtains rp p' where
    "promote_root_split sp (b, p) = (Inr (), (b\<lparr>bt_root := pgr_page_count p + 1\<rparr>, p'))"
    and "pager_view p' = (pager_view p)(pgr_page_count p + 1 \<mapsto> rp)"
    and "table_interior rp 0 [(bt_root b, ls_divider_key sp)] (ls_right sp)"
    and "pager_view p (pgr_page_count p + 1) = None" and "pgr_page_count p + 1 \<noteq> 1"
    and "pages_keyed p'" and "\<not> pgr_read_only p'"
    and "512 \<le> unat (pgr_page_size p')" and "unat (pgr_page_size p') < 65536"
    and "promoted_page (pgr_page_size p') (divider_cell (bt_root b, ls_divider_key sp)) (ls_right sp) = Inr rp"
proof -
  let ?n = "pgr_page_count p + 1"
  obtain p2 where p2: "allocate_page p = (Inr ?n, p2)"
    "pager_view p2 = (pager_view p)(?n \<mapsto> replicate (pager_psize p) 0)" "can_grow p2"
    "pager_view p ?n = None" "pgr_read_only p2 = pgr_read_only p" "pages_keyed p \<Longrightarrow> pages_keyed p2"
    using g cnt by (rule allocate_grows) blast
  have n: "?n \<noteq> 1" using g by (simp add: can_grow_def)
  have psz: "512 \<le> unat (pgr_page_size p2)" "unat (pgr_page_size p2) < 65536"
    using p2(3) by (simp_all add: can_grow_def pager_psize_def)
  obtain rp where rp: "promoted_page (pgr_page_size p2) (divider_cell (bt_root b, ls_divider_key sp)) (ls_right sp) = Inr rp"
    "table_interior rp 0 [(bt_root b, ls_divider_key sp)] (ls_right sp)"
    using psz dk by (rule promoted_page_ok)
  let ?pg = "\<lparr>pg_no = ?n, pg_data = rp, pg_dirty = True\<rparr>"
  have "\<not> pgr_read_only p2" using rw p2(5) by simp
  then obtain p3 where p3: "write_page ?pg p2 = (Inr (), p3)"
    "pager_view p3 = (pager_view p2)(pg_no ?pg \<mapsto> pg_data ?pg)" "pager_same p2 p3"
    by (rule page_put)
  have "promote_root_split sp (b, p) = (Inr (), (b\<lparr>bt_root := ?n\<rparr>, p3))"
    by (rule promote_root_app [OF p2(1) n b build_cells(3) [OF dk] rp(1) p3(1)])
  moreover have "pager_view p3 = (pager_view p)(?n \<mapsto> rp)" by (simp add: p3(2) p2(2))
  moreover have "pages_keyed p3" "\<not> pgr_read_only p3"
    using p3(3) p2(5) p2(6) [OF keyed] rw by (simp_all add: pager_same_def)
  moreover have "pgr_page_size p3 = pgr_page_size p2" using p3(3) by (simp add: pager_same_def)
  ultimately show thesis using that rp p2(4) n psz by simp
qed

text \<open>Two sorted halves under a divider that is the last key of the left one.\<close>

lemma two_halves_ok:
  assumes "rows_sorted (xs @ ys)" and "xs \<noteq> []"
  shows "tree_ok (TNode k [(TLeaf n xs, fst (last xs))] (TLeaf m ys))"
  using assms last_in_set [OF assms(2)] by (auto dest: sorted_last_le)

lemma pager_same_psize: "pager_same p q \<Longrightarrow> pager_psize q = pager_psize p"
  by (simp add: pager_same_def pager_psize_def)

lemma insert_leaf_split:
  assumes d: "pager_view p n = Some d" "table_leaf d (page_header_offset n) rows"
    and g: "can_grow p" and cnt: "pgr_page_count p \<noteq> - 1"
    and keyed: "pages_keyed p" and rw: "\<not> pgr_read_only p"
    and x: "table_row_ok x" and new: "fst x \<notin> fst ` set rows" and ne: "rows \<noteq> []"
    and full: "\<not> leaf_fits d (page_header_offset n) (table_cell x)"
    and fl: "rows_fit (length d) (page_header_offset n) (left_rows x rows)"
    and fr: "rows_fit (pager_psize p) 0 (right_rows x rows)"
  obtains left right p' where
    "insert_into_leaf_table n (table_cell x) (fst x) p =
      (Inr (Some \<lparr>ls_left = n, ls_divider_key = fst (last (left_rows x rows)), ls_divider_blob = None,
        ls_right = pgr_page_count p + 1\<rparr>), p')"
    and "pager_view p' = (pager_view p)(pgr_page_count p + 1 \<mapsto> right, n \<mapsto> left)"
    and "table_leaf left (page_header_offset n) (left_rows x rows)"
    and "table_leaf right 0 (right_rows x rows)" and "can_grow p'"
    and "pgr_page_count p' = pgr_page_count p + 1" and "pages_keyed p'" and "\<not> pgr_read_only p'"
    and "pager_psize p' = pager_psize p" and "pager_view p (pgr_page_count p + 1) = None"
    and "pgr_page_count p + 1 \<noteq> 1"
proof -
  let ?m = "pgr_page_count p + 1"
  obtain pg p1 where p1: "get_page n p = (Inr pg, p1)" "pg_data pg = d" "pager_view p1 = pager_view p"
    "pager_same p p1" and no: "pages_keyed p \<Longrightarrow> pg_no pg = n"
    using d(1) by (rule page_get) blast
  have ty: "get_at d (page_header_offset n) = Inr PAGE_TYPE_LEAF_TABLE"
    using d(2) by (rule table_leafE) (simp add: get_at_def)
  note fc = find_cell_leaf [OF d(2), of "fst x"]
  note ti = try_insert_leaf(2) [OF d(2) x new full]
  have g1: "can_grow p1" by (rule can_grow_same [OF g p1(4)]) (simp add: p1(3))
  have c1: "pgr_page_count p1 = pgr_page_count p" and rw1: "\<not> pgr_read_only p1" and k1: "pages_keyed p1"
    using p1(4) rw keyed by (simp_all add: pager_same_def)
  obtain p2 p3 rd where p3: "allocate_page p1 = (Inr ?m, p2)"
    "init_leaf_page ?m PAGE_TYPE_LEAF_TABLE p2 = (Inr (), p3)"
    "pager_view p3 = (pager_view p)(?m \<mapsto> rd)" "length rd = pager_psize p1" "rd ! 0 = PAGE_TYPE_LEAF_TABLE"
    "pager_view p ?m = None" "can_grow p3" "pgr_page_count p3 = ?m" "\<not> pgr_read_only p3" "pages_keyed p3"
    "pager_psize p3 = pager_psize p1" "?m \<noteq> 1"
    using new_leaf_page [OF g1 _ rw1 k1, of PAGE_TYPE_LEAF_TABLE] cnt unfolding c1 p1(3) by blast
  have ps: "pager_psize p1 = pager_psize p" by (rule pager_same_psize [OF p1(4)])
  have m: "?m \<noteq> n" using d(1) p3(6) by auto
  note ho = page_header_other [OF p3(12)]
  have rd: "pager_view p3 ?m = Some rd" "rd ! page_header_offset ?m = PAGE_TYPE_LEAF_TABLE" "length rd < 65536"
    using p3 g1 by (simp_all add: ho can_grow_def)
  have fr': "rows_fit (length rd) (page_header_offset ?m) (right_rows x rows)"
    using fr p3(4) ps ho by simp
  obtain left right p4 where p4:
    "split_leaf_table d (page_header_offset n) n ?m (table_cell x) (fst x) p3 =
      (Inr (\<lparr>ls_left = n, ls_divider_key = fst (last (left_rows x rows)), ls_divider_blob = None,
        ls_right = ?m\<rparr>, left), p4)"
    "table_leaf left (page_header_offset n) (left_rows x rows)" "length left = length d"
    "table_leaf right (page_header_offset ?m) (right_rows x rows)" "length right = length rd"
    "pager_view p4 = (pager_view p3)(?m \<mapsto> right)" "pager_same p3 p4"
    using d(2) x new ne rd fl fr' p3(10,9) by (rule split_leaf_rows)
  have g4: "can_grow p4" by (rule can_grow_same [OF p3(7) p4(7)]) (simp add: p4(6) p3(3))
  let ?pg = "pg\<lparr>pg_data := left\<rparr>"
  have rw4: "\<not> pgr_read_only p4" using p3(9) p4(7) by (simp add: pager_same_def)
  have vis: "pager_view p4 (pg_no ?pg) \<noteq> None" using no [OF keyed] d(1) by (simp add: p4(6) p3(3))
  let ?p' = "cache_insert (?pg\<lparr>pg_dirty := True\<rparr>) p4"
  note w = can_grow_put [OF g4 rw4 vis]
  have same: "pager_same p4 ?p'" by (rule pager_same_insert)
  have "insert_into_leaf_table n (table_cell x) (fst x) p =
      (Inr (Some \<lparr>ls_left = n, ls_divider_key = fst (last (left_rows x rows)), ls_divider_blob = None,
        ls_right = ?m\<rparr>), ?p')"
    using p1(1,2) ty fc new ti p3(1,2) p4(1) w(1) by (simp add: insert_into_leaf_table_def Let_def)
  moreover have "pager_view ?p' = (pager_view p)(?m \<mapsto> right, n \<mapsto> left)"
    using no [OF keyed] by (simp add: pager_view_insert p4(6) p3(3))
  ultimately show thesis
    using that p4(2,4) ho w(2) p3(6,8-12) ps p4(7) same by (simp add: pager_same_def pager_psize_def)
qed

text \<open>The table after the split, from what the three pages hold.\<close>

lemma split_state:
  assumes view: "pager_view q = (pager_view p)(m \<mapsto> right, n \<mapsto> left, n2 \<mapsto> rp)"
    and leaves: "table_leaf left (page_header_offset n) ls" "table_leaf right 0 rs"
    and node: "table_interior rp 0 [(n, fst (last ls))] m"
    and dist: "n2 \<noteq> n" "n2 \<noteq> m" "m \<noteq> n" and one: "m \<noteq> 1" "n2 \<noteq> 1"
    and so: "rows_sorted (ls @ rs)" and "ls \<noteq> []" and "\<not> bf_blobkey (bt_flags b)"
    and "pages_keyed q" and "\<not> pgr_read_only q"
  shows "table_state (b\<lparr>bt_root := n2\<rparr>) q (TNode n2 [(TLeaf n ls, fst (last ls))] (TLeaf m rs))"
proof -
  have "stored (pager_view q) (TNode n2 [(TLeaf n ls, fst (last ls))] (TLeaf m rs))"
    using leaves node dist unfolding view
    by (simp add: page_header_other [OF one(1)] page_header_other [OF one(2)])
  moreover have "tree_ok (TNode n2 [(TLeaf n ls, fst (last ls))] (TLeaf m rs))"
    using so assms(11) by (rule two_halves_ok)
  ultimately show ?thesis using dist assms(12-14) by (simp add: table_state_def)
qed

text \<open>
  C12. Splitting the root. Inserting a new row into a table that is one full leaf gives a tree of two
  leaves under a new root: the old page keeps the lower half of the rows, a new page gets the upper
  half, the divider is the last key of the lower half, and the rows are those before with the new one
  in its place. The halves must fit their pages.
\<close>

theorem root_leaf_split:
  assumes st: "table_state b p (TLeaf n rows)" and g: "can_grow p" and "rows \<noteq> []"
    and room: "pgr_page_count p \<noteq> - 1" "pgr_page_count p + 1 \<noteq> - 1"
    and x: "table_row_ok (key, rec)" and new: "key \<notin> fst ` set rows" and "pager_view p n = Some d"
    and full: "\<not> leaf_fits d (page_header_offset n) (table_cell (key, rec))"
    and "rows_fit (length d) (page_header_offset n) (left_rows (key, rec) rows)"
    and "rows_fit (pager_psize p) 0 (right_rows (key, rec) rows)"
  shows "\<exists>p'. btree_insert (Suc fuel) key rec (b, p) = (Inr (), (b\<lparr>bt_root := pgr_page_count p + 2\<rparr>, p'))
    \<and> table_state (b\<lparr>bt_root := pgr_page_count p + 2\<rparr>) p'
        (TNode (pgr_page_count p + 2)
          [(TLeaf n (left_rows (key, rec) rows), fst (last (left_rows (key, rec) rows)))]
          (TLeaf (pgr_page_count p + 1) (right_rows (key, rec) rows)))
    \<and> left_rows (key, rec) rows @ right_rows (key, rec) rows = insort_key rowkey (key, rec) rows"
proof -
  let ?x = "(key, rec)" and ?m = "pgr_page_count p + 1" and ?k = "fst (last (left_rows (key, rec) rows))"
  have blob: "\<not> bf_blobkey (bt_flags b)" and sd: "stored (pager_view p) (TLeaf n rows)"
    and root: "bt_root b = n" and keyed: "pages_keyed p" and rw: "\<not> pgr_read_only p" and so: "rows_sorted rows"
    using st by (simp_all add: table_state_def)
  have dl: "table_leaf d (page_header_offset n) rows" using sd assms(8) by auto
  have nx: "fst ?x \<notin> fst ` set rows" using new by simp
  obtain pg p0 where p0: "get_page n p = (Inr pg, p0)" "pg_data pg = d" "pager_view p0 = pager_view p"
    "pager_same p p0" using assms(8) by (rule page_get) blast
  have ty: "get_at d (page_header_offset n) = Inr PAGE_TYPE_LEAF_TABLE"
    using dl by (rule table_leafE) (simp add: get_at_def)
  have g0: "can_grow p0" by (rule can_grow_same [OF g p0(4)]) (simp add: p0(3))
  have c0: "pgr_page_count p0 = pgr_page_count p" and k0: "pages_keyed p0" and rw0: "\<not> pgr_read_only p0"
    using p0(4) keyed rw by (simp_all add: pager_same_def)
  have d0: "pager_view p0 n = Some d" using assms(8) p0(3) by simp
  have cnt: "pgr_page_count p0 \<noteq> - 1" using room(1) c0 by simp
  have fr: "rows_fit (pager_psize p0) 0 (right_rows ?x rows)" using assms(11) pager_same_psize [OF p0(4)] by simp
  obtain left right p1 where p1:
    "insert_into_leaf_table n (table_cell ?x) (fst ?x) p0 =
      (Inr (Some \<lparr>ls_left = n, ls_divider_key = ?k, ls_divider_blob = None, ls_right = pgr_page_count p0 + 1\<rparr>), p1)"
    "pager_view p1 = (pager_view p0)(pgr_page_count p0 + 1 \<mapsto> right, n \<mapsto> left)"
    "table_leaf left (page_header_offset n) (left_rows ?x rows)" "table_leaf right 0 (right_rows ?x rows)"
    "can_grow p1" "pgr_page_count p1 = pgr_page_count p0 + 1" "pages_keyed p1" "\<not> pgr_read_only p1"
    "pager_psize p1 = pager_psize p0" "pager_view p0 (pgr_page_count p0 + 1) = None" "pgr_page_count p0 + 1 \<noteq> 1"
    using d0 dl g0 cnt k0 rw0 x nx assms(3) full assms(10) fr by (rule insert_leaf_split)
  let ?sp = "\<lparr>ls_left = n, ls_divider_key = ?k, ls_divider_blob = None, ls_right = ?m\<rparr>"
  have ln: "left_rows ?x rows \<noteq> []" by (rule left_rows_nonempty [OF assms(3)])
  have "\<forall>r \<in> set (left_rows ?x rows). table_row_ok r" using p1(3) by (simp add: table_leaf_def)
  with last_in_set [OF ln] have "table_row_ok (last (left_rows ?x rows))" by blast
  then have dk: "divider_ok (bt_root b, ls_divider_key ?sp)" by (simp add: divider_ok_def table_row_ok_def)
  let ?n2 = "pgr_page_count p + 2"
  have m2: "pgr_page_count p1 + 1 = ?n2" and cnt1: "pgr_page_count p1 \<noteq> - 1"
    using p1(6) c0 room(2) by simp_all
  obtain rp p3 where p3: "promote_root_split ?sp (b, p1) = (Inr (), (b\<lparr>bt_root := ?n2\<rparr>, p3))"
    "pager_view p3 = (pager_view p1)(?n2 \<mapsto> rp)"
    "table_interior rp 0 [(bt_root b, ls_divider_key ?sp)] (ls_right ?sp)"
    "pager_view p1 ?n2 = None" "?n2 \<noteq> 1" "pages_keyed p3" "\<not> pgr_read_only p3"
    using p1(5) cnt1 p1(8,7) blob dk unfolding m2 [symmetric] by (rule promote_ok) blast
  have ins: "btree_insert (Suc fuel) key rec (b, p) = (Inr (), (b\<lparr>bt_root := ?n2\<rparr>, p3))"
    using blob build_cells(1) [OF x] p0(1,2) ty p1(1) p3(1) root c0
    by (simp add: btree_insert_def insert_table_row_def blobkey_def btree_root_def bindS_app on_pager_app Let_def
        del: get_at_eq_Inr)
  have view: "pager_view p3 = (pager_view p)(?m \<mapsto> right, n \<mapsto> left, ?n2 \<mapsto> rp)"
    by (simp add: p3(2) p1(2) p0(3) c0)
  have dist: "?n2 \<noteq> n" "?n2 \<noteq> ?m" "?m \<noteq> n"
    using p3(4) p1(2,10) d0 c0 by (auto split: if_splits)
  have m1: "?m \<noteq> 1" using p1(11) c0 by simp
  have "rows_sorted (left_rows ?x rows @ right_rows ?x rows)"
    unfolding rows_halves new_rows_def by (rule insort_sorted [OF so]) (use new in \<open>metis fst_conv image_eqI\<close>)
  from split_state [OF view p1(3,4) _ dist m1 p3(5) this ln blob p3(6,7)] p3(3) root
  have "table_state (b\<lparr>bt_root := ?n2\<rparr>) p3
      (TNode ?n2 [(TLeaf n (left_rows ?x rows), ?k)] (TLeaf ?m (right_rows ?x rows)))" by simp
  with ins show ?thesis using rows_halves [of ?x rows] by (auto simp: new_rows_def)
qed

section \<open>The next divider\<close>

text \<open>
  The promoted root keeps the page size as its content start although its first cell lies below it,
  so the next cell is written over the first.
\<close>

lemma overwrite_first_cell:
  assumes ti: "table_interior d 0 [c1] rm" and start: "unat (u16_at d 5) = length d" and len: "512 \<le> length d"
    and ptr: "unat (u16_at d 12) = length d - length (divider_cell c1)"
    and c2: "divider_ok c2" and same: "length (divider_cell c2) = length (divider_cell c1)"
    and lt: "sint (snd c1) < sint (snd c2)"
  obtains d' where "try_insert_interior_cell_table d 0 (divider_cell c2) (snd c2) = Inr (True, d')"
    and "table_interior d' 0 [c2, c2] rm"
proof -
  let ?po = interior_cell_ptr_offset and ?cell = "divider_cell c2"
  have l16: "length d < 65536" and ty: "d ! 0 = PAGE_TYPE_INTERIOR_TABLE"
    and rm: "u32_at d 8 = rm"
    using ti by (auto simp: table_interior_def shows_cells_def)
  define cs where "cs = length d - length ?cell"
  have cs: "cs + length ?cell = length d" "499 \<le> cs"
    using length_divider_cell [OF c2] len by (simp_all add: cs_def)
  define d1 where "d1 = overlay d cs ?cell"
  define d2 where "d2 = overlay d1 14 (be_of_u16 (of_nat cs))"
  define d3 where "d3 = overlay d2 5 (be_of_u16 (of_nat cs))"
  define d4 where "d4 = overlay d3 3 (be_of_u16 (of_nat 2))"
  have a1: "agree_on (\<lambda>m. m < cs) d d1" and l1: "length d1 = length d"
    unfolding d1_def using cs by (auto intro: agree_on_overlay)
  have a2: "agree_on (\<lambda>m. m < 14 \<or> 16 \<le> m) d1 d2" and l2: "length d2 = length d"
    unfolding d2_def using len l1 by (auto intro: agree_on_overlay)
  have a3: "agree_on (\<lambda>m. m < 5 \<or> 7 \<le> m) d2 d3" and l3: "length d3 = length d"
    unfolding d3_def using len l2 by (auto intro: agree_on_overlay)
  have a4: "agree_on (\<lambda>m. m < 3 \<or> 5 \<le> m) d3 d4" and l4: "length d4 = length d"
    unfolding d4_def using len l3 by (auto intro: agree_on_overlay)
  have scan: "scan_from (interior_table_cell d 0) (\<lambda>(_, k). sint (snd c2) \<le> sint k) 0 1 = Inr None"
    using interior_scan(2) [OF ti, of "\<lambda>(_, k). sint (snd c2) \<le> sint k"] lt
    by (simp add: first_at_def split_def)
  have "insert_cell_at ?po d 0 ?cell 1 1 = Inr (True, d4)"
    using cs len l1 l2 l3 start
    by (simp add: insert_cell_at_def read_u16_be_eq write_u16_be_def copy_at_def Let_def
        interior_cell_ptr_offset_def not_less numeral_2_eq_2
        del: of_nat_diff of_nat_add of_nat_Suc flip: cs_def d1_def d2_def d3_def)
      (simp add: d4_def numeral_2_eq_2 del: of_nat_Suc)
  then have run: "try_insert_interior_cell_table d 0 ?cell (snd c2) = Inr (True, d4)"
    using interior_scan(1) [OF ti] scan by (simp add: try_insert_interior_cell_table_def scan_index_def)
  have all: "agree_on (\<lambda>m. m < 3 \<or> 7 \<le> m \<and> m < 14) d d4"
    by (intro agree_on_trans [OF agree_on_mono [OF a1] agree_on_trans [OF agree_on_mono [OF a2]
            agree_on_trans [OF agree_on_mono [OF a3] agree_on_mono [OF a4]]]]) (use cs in auto)
  have "0 < length d" using len by linarith
  then have ty4: "d4 ! 0 = PAGE_TYPE_INTERIOR_TABLE" using all ty by (simp add: agree_on_def)
  have rm4: "u32_at d4 8 = rm" using agree_on_u32 [OF all, of 8] rm len by simp
  have p0: "unat (u16_at d4 12) = cs"
    using agree_on_u16 [OF all, of 12] ptr len same by (simp add: cs_def)
  have p1: "unat (u16_at d4 14) = cs"
  proof -
    have "u16_at d4 14 = u16_at d3 14" by (rule agree_on_u16 [OF a4]) (use l3 len in auto)
    also have "\<dots> = u16_at d2 14" by (rule agree_on_u16 [OF a3]) (use l2 len in auto)
    also have "\<dots> = of_nat cs" using l1 len by (simp add: d2_def)
    finally show ?thesis using cs l16 by (simp add: tl.unat_u16_of_nat)
  qed
  have n4: "unat (u16_at d4 3) = 2" using l3 len by (simp add: d4_def)
  have hi: "agree_on (\<lambda>m. cs \<le> m) d1 d4"
    by (intro agree_on_trans [OF agree_on_mono [OF a2] agree_on_trans [OF agree_on_mono [OF a3]
          agree_on_mono [OF a4]]]) (use cs in auto)
  have "cell_at divider_cell d1 (cs, c2)"
    using cs l1 slice_of_overlay_same [of cs ?cell d] by (simp add: cell_at_def d1_def)
  then have "cell_at divider_cell d4 (cs, c2)" by (rule cell_at_agree [OF _ hi]) simp
  then have "cell_at divider_cell d4 (unat (u16_at d4 (?po 0 i)), [c2, c2] ! i)" if "i < 2" for i
    using that p0 p1 by (cases i) (simp_all add: interior_cell_ptr_offset_def)
  then have "shows_cells ?po divider_cell d4 0 [c2, c2]"
    using l4 l16 len n4 by (simp add: shows_cells_def interior_cell_ptr_offset_def)
  then have "table_interior d4 0 [c2, c2] rm" using ty4 rm4 c2 by (simp add: table_interior_def)
  with that run show thesis by blast
qed

lemma second_divider:
  assumes d: "promoted_page (pgr_page_size p) (divider_cell (l, k1)) r = Inr d"
    and ps: "512 \<le> unat (pgr_page_size p)" "unat (pgr_page_size p) < 65536"
    and k: "unat k1 < 2 ^ 56" "unat k2 < 2 ^ 56" "sint k1 < sint k2"
    and len: "length (varint_enc k1) = length (varint_enc k2)"
  obtains d1 d' where "read_u32_be d 8 = Inr r" and "write_u32_be d 8 r2 = Inr d1"
    and "try_insert_interior_cell_table d1 0 (divider_cell (r, k2)) (snd (r, k2)) = Inr (True, d')"
    and "table_interior d' 0 [(r, k2), (r, k2)] r2"
proof -
  have ok: "divider_ok (l, k1)" "divider_ok (r, k2)" using k by (simp_all add: divider_ok_def)
  obtain d0 where d0: "promoted_page (pgr_page_size p) (divider_cell (l, k1)) r = Inr d0"
    "length d0 = unat (pgr_page_size p)" "table_interior d0 0 [(l, k1)] r"
    "unat (u16_at d0 5) = unat (pgr_page_size p)"
    "unat (u16_at d0 12) = unat (pgr_page_size p) - length (divider_cell (l, k1))"
    using ps ok(1) by (rule promoted_page_ok)
  have dd: "d0 = d" using d0(1) d by simp
  have ld: "512 \<le> length d" using d0(2) ps dd by simp
  define d1 where "d1 = overlay d 8 (be_of_u32 r2)"
  have a1: "agree_on (\<lambda>m. m < 8 \<or> 12 \<le> m) d d1" and l1: "length d1 = length d"
    unfolding d1_def using ld by (auto intro: agree_on_overlay)
  have "0 < length d" using ld by linarith
  then have "d1 ! 0 = d ! 0" using a1 by (simp add: agree_on_def)
  then have u: "u16_at d1 3 = u16_at d 3" "u16_at d1 5 = u16_at d 5" "u16_at d1 12 = u16_at d 12" "d1 ! 0 = d ! 0"
    using agree_on_u16 [OF a1, of 3] agree_on_u16 [OF a1, of 5] agree_on_u16 [OF a1, of 12] ld by auto
  have sc: "shows_cells interior_cell_ptr_offset divider_cell d 0 [(l, k1)]" and ty: "d ! 0 = PAGE_TYPE_INTERIOR_TABLE"
    and rm: "u32_at d 8 = r"
    using d0(3) dd by (simp_all add: table_interior_def)
  have cl: "length (divider_cell (l, k1)) \<le> 13" by (rule length_divider_cell [OF ok(1)])
  have ca: "cell_at divider_cell d (unat (u16_at d 12), (l, k1))"
    using sc by (simp add: shows_cells_def interior_cell_ptr_offset_def)
  have "cell_at divider_cell d1 (unat (u16_at d 12), (l, k1))"
    by (rule cell_at_agree [OF ca a1]) (use d0(2,5) dd cl ps in auto)
  then have "shows_cells interior_cell_ptr_offset divider_cell d1 0 [(l, k1)]"
    using sc u l1 by (simp add: shows_cells_def interior_cell_ptr_offset_def)
  then have ti1: "table_interior d1 0 [(l, k1)] r2"
    using ty u(4) ok(1) ld by (simp add: table_interior_def d1_def)
  obtain d' where d': "try_insert_interior_cell_table d1 0 (divider_cell (r, k2)) (snd (r, k2)) = Inr (True, d')"
    "table_interior d' 0 [(r, k2), (r, k2)] r2"
  proof (rule overwrite_first_cell [OF ti1])
    show "unat (u16_at d1 5) = length d1" "512 \<le> length d1"
      "unat (u16_at d1 12) = length d1 - length (divider_cell (l, k1))"
      using u l1 ld d0 dd by simp_all
    show "length (divider_cell (r, k2)) = length (divider_cell (l, k1))" using len by (simp add: divider_cell_def)
  qed (use ok(2) k(3) in auto)
  have rd: "read_u32_be d 8 = Inr r" using rm ld by (simp add: read_u32_be_eq)
  have wr: "write_u32_be d 8 r2 = Inr d1" using ld by (simp add: write_u32_be_def copy_at_def d1_def)
  show thesis by (rule that [OF rd wr d'])
qed

text \<open>The same through the operation, on a pager whose page \<open>n\<close> is a promoted root.\<close>

lemma second_divider_overwrites:
  assumes v: "pager_view p n = Some d" and n: "n \<noteq> 1"
    and d: "promoted_page (pgr_page_size p) (divider_cell (l, k1)) r = Inr d"
    and ps: "512 \<le> unat (pgr_page_size p)" "unat (pgr_page_size p) < 65536"
    and k: "unat k1 < 2 ^ 56" "unat k2 < 2 ^ 56" "sint k1 < sint k2"
    and len: "length (varint_enc k1) = length (varint_enc k2)"
    and keyed: "pages_keyed p" and rw: "\<not> pgr_read_only p"
  shows "\<exists>d' p'. insert_into_interior_table n
        \<lparr>ls_left = r, ls_divider_key = k2, ls_divider_blob = None, ls_right = r2\<rparr> (b, p)
      = (Inr None, (b, p'))
    \<and> pager_view p' n = Some d' \<and> table_interior d' 0 [(r, k2), (r, k2)] r2
    \<and> (\<forall>key. find_child_page_table d' 0 key = Inr r \<or> find_child_page_table d' 0 key = Inr r2)"
proof -
  have ok: "divider_ok (r, k2)" using k by (simp add: divider_ok_def)
  obtain d1 d' where rd: "read_u32_be d 8 = Inr r" and wr: "write_u32_be d 8 r2 = Inr d1"
    and d': "try_insert_interior_cell_table d1 0 (divider_cell (r, k2)) (snd (r, k2)) = Inr (True, d')"
      "table_interior d' 0 [(r, k2), (r, k2)] r2"
    using d ps k len by (rule second_divider)
  obtain pg p1 where g: "get_page n p = (Inr pg, p1)" "pg_data pg = d" "pager_view p1 = pager_view p"
    "pager_same p p1" and no: "pages_keyed p \<Longrightarrow> pg_no pg = n"
    using v by (rule page_get) blast
  have "\<not> pgr_read_only p1" using g(4) rw by (simp add: pager_same_def)
  then obtain p2 where p2: "write_page (pg\<lparr>pg_data := d'\<rparr>) p1 = (Inr (), p2)"
    "pager_view p2 = (pager_view p1)(pg_no (pg\<lparr>pg_data := d'\<rparr>) \<mapsto> pg_data (pg\<lparr>pg_data := d'\<rparr>))"
    "pager_same p1 p2"
    by (rule page_put)
  have "insert_into_interior_table n
      \<lparr>ls_left = r, ls_divider_key = k2, ls_divider_blob = None, ls_right = r2\<rparr> (b, p) = (Inr None, (b, p2))"
    using g(1,2) rd wr build_cells(3) [OF ok] d'(1) p2(1)
    by (simp add: insert_into_interior_table_def page_header_other [OF n] on_pager_app bindS_app Let_def
        del: read_u32_be_Inr)
  moreover have "pager_view p2 n = Some d'" using p2(2) no [OF keyed] by simp
  moreover have "find_child_page_table d' 0 key = Inr r \<or> find_child_page_table d' 0 key = Inr r2" for key
  proof -
    have rm': "read_u32_be d' 8 = Inr r2" using d'(2) by (rule table_interiorE) simp
    show ?thesis
      using interior_scan [OF d'(2)] rm'
      by (auto simp: find_child_page_table_def first_at_def less_Suc_eq simp del: read_u32_be_Inr)
  qed
  ultimately show ?thesis using d'(2) by blast
qed

text \<open>
  C29. After a root split the next divider destroys the first. \<^verbatim>\<open>promote_root_split\<close> builds the new root
  with one divider, and keys up to it lead to the old root, the table's first leaf. When then the
  right child splits and the two divider cells have the same length, \<^verbatim>\<open>insert_into_interior_table\<close>
  writes the second divider over the first: the page then holds the second twice, and no key leads to
  the left child any more, so the rows of the first leaf are lost. The cause is the content start
  \<^verbatim>\<open>promote_root_split\<close> leaves in the header, the page size, although its cell lies below.
\<close>

theorem second_split_loses_first_leaf:
  assumes "can_grow p" and "pgr_page_count p \<noteq> - 1" and "\<not> pgr_read_only p" and "pages_keyed p"
    and "\<not> bf_blobkey (bt_flags b)"
    and k: "unat (ls_divider_key sp) < 2 ^ 56" "unat k2 < 2 ^ 56" "sint (ls_divider_key sp) < sint k2"
    and len: "length (varint_enc (ls_divider_key sp)) = length (varint_enc k2)"
  shows "\<exists>n b' p1 p' d'. promote_root_split sp (b, p) = (Inr (), (b', p1)) \<and> bt_root b' = n
    \<and> find_child_page_table (the (pager_view p1 n)) 0 (ls_divider_key sp) = Inr (bt_root b)
    \<and> insert_into_interior_table n
        \<lparr>ls_left = ls_right sp, ls_divider_key = k2, ls_divider_blob = None, ls_right = r2\<rparr> (b', p1)
      = (Inr None, (b', p'))
    \<and> pager_view p' n = Some d' \<and> table_interior d' 0 [(ls_right sp, k2), (ls_right sp, k2)] r2
    \<and> (\<forall>key. find_child_page_table d' 0 key = Inr (ls_right sp) \<or> find_child_page_table d' 0 key = Inr r2)"
proof -
  let ?n = "pgr_page_count p + 1"
  have dk: "divider_ok (bt_root b, ls_divider_key sp)" using k by (simp add: divider_ok_def)
  obtain rp p1 where p1: "promote_root_split sp (b, p) = (Inr (), (b\<lparr>bt_root := ?n\<rparr>, p1))"
    "pager_view p1 = (pager_view p)(?n \<mapsto> rp)"
    "table_interior rp 0 [(bt_root b, ls_divider_key sp)] (ls_right sp)"
    and n: "?n \<noteq> 1" and keyed: "pages_keyed p1" and rw: "\<not> pgr_read_only p1"
    and ps: "512 \<le> unat (pgr_page_size p1)" "unat (pgr_page_size p1) < 65536"
    and rp: "promoted_page (pgr_page_size p1) (divider_cell (bt_root b, ls_divider_key sp)) (ls_right sp) = Inr rp"
    using assms(1-5) dk by (rule promote_ok) blast
  have v: "pager_view p1 ?n = Some rp" by (simp add: p1(2))
  have "find_child_page_table rp 0 (ls_divider_key sp) = Inr (bt_root b)"
    using interior_scan [OF p1(3)]
    by (simp add: find_child_page_table_def first_at_def)
  with second_divider_overwrites [OF v n rp ps k len keyed rw, of r2 "b\<lparr>bt_root := ?n\<rparr>"] p1(1) v
  show ?thesis by fastforce
qed

end
