(* ===== verification/Index_Payload.thy ===== *)
theory Index_Payload
  imports Cell_Formats
begin

text \<open>
  The payload of an index cell: the record of the key columns and, appended to it, the row id as a
  varint. Reading it back, the code tries the prefixes from the longest to the shortest and takes the
  first that decodes as a record and leaves one varint.
\<close>

lemma varint_enc_last:
  "varint_enc v = map (\<lambda>b. b OR 0x80) (varint_be (drop_bit 7 v)) @ [ucast (v AND 0x7f)]"
  by (cases "v = 0") (simp_all add: varint_enc_def varint_be_nonzero mark_all_but_last_snoc)

lemma and_7f_idem: "((v :: u64) AND 0x7f) AND 0x7f = v AND 0x7f"
  by (simp add: and.assoc)

lemma drop_and_7f: "drop_bit 7 ((v :: u64) AND 0x7f) = 0"
  by (rule bit_word_eqI) (auto simp: bit_simps mask_7)

lemma varint_enc_low: "varint_enc (v AND 0x7f) = [last (varint_enc v)]"
  by (simp only: varint_enc_last [of "v AND 0x7f"] varint_enc_last [of v] drop_and_7f and_7f_idem)
    simp

lemma unat_low: "unat ((v :: u64) AND 0x7f) = unat v mod 128"
proof -
  have "v AND 0x7f = v mod 2 ^ 7" by (simp only: mask_7 take_bit_eq_mask [symmetric] take_bit_eq_mod)
  then show ?thesis by (simp add: unat_mod)
qed

lemma split_encoded:
  assumes "storable_row vs"
  shows "split_index_payload (record_bytes vs @ varint_enc rowid)
    = Inr (record_bytes vs @ butlast (varint_enc rowid), rowid AND 0x7f)"
proof -
  let ?r = "record_bytes vs" and ?e = "varint_enc rowid"
  let ?p = "?r @ butlast ?e"
  have e: "?r @ ?e = ?p @ varint_enc (rowid AND 0x7f) @ []"
    by (simp add: varint_enc_low)
  have one: "length (varint_enc (rowid AND 0x7f)) = 1" by (simp add: varint_enc_low)
  have "unat (rowid AND 0x7f) < 2 ^ 56"
    unfolding unat_low by (rule less_trans [of _ 128]) simp_all
  then have rd: "read_varint (?r @ ?e) (length ?p) = Inr (rowid AND 0x7f, 1)"
    unfolding e by (subst vc.dec_enc) (simp_all only: one)
  have len: "length (?r @ ?e) - 1 = length ?p" "length ?p + 1 = length (?r @ ?e)"
    by (simp_all add: Suc_leI)
  obtain k where k: "length ?p = Suc k"
    by (cases "length ?p") (auto simp: record_bytes_def)
  have "take (Suc k) (?r @ ?e) = ?p" unfolding e using k by (simp add: take_append)
  moreover have "record_byte_length ?p = Inr (length ?r)" by (rule record_decodes(2) [OF assms])
  ultimately show ?thesis
    unfolding split_index_payload_def len(1) unfolding k
    using rd len(2) [unfolded k] k by (simp add: Let_def del: length_append)
qed

text \<open>
  C38. The row id an index entry stores comes back only when it is below 128. For a greater one (below
  \<open>2 ^ 56\<close>) the reader takes the leading bytes of the row id's varint as part of the key and returns
  the last seven bits as the row id, because \<^verbatim>\<open>record_byte_length\<close> accepts a prefix with bytes left
  over after the record.
\<close>

theorem index_rowid_read_back:
  assumes "storable_row vs" and "unat rowid < 2 ^ 56"
  shows "\<exists>payload. bindR (encode_record vs) (put_varint rowid) = Inr payload
    \<and> split_index_payload payload
      = Inr (record_bytes vs @ butlast (varint_enc rowid), rowid AND 0x7f)
    \<and> (split_index_payload payload = Inr (record_bytes vs, rowid) \<longleftrightarrow> unat rowid < 128)"
proof -
  have "rowid AND 0x7f = rowid \<longleftrightarrow> unat rowid < 128"
    by (metis mod_less mod_less_divisor unat_low word_unat_eq_iff zero_less_numeral)
  moreover have "butlast (varint_enc rowid) = []" if "unat rowid < 128"
    using that unat_drop_bit_7 [of rowid] by (simp add: varint_enc_last unat_eq_zero)
  ultimately show ?thesis
    using split_encoded [OF assms(1), of rowid] encode_record_eq [OF assms(1)]
      put_varint_small [OF assms(2), of "record_bytes vs"]
    by auto
qed

theorem index_rowid_read_back_witness:
  "\<exists>payload. bindR (encode_record [VText ''ab'']) (put_varint 300) = Inr payload
    \<and> split_index_payload payload = Inr (record_bytes [VText ''ab''] @ [0x82], 44)"
  using index_rowid_read_back [of "[VText ''ab'']" 300]
  by (fastforce simp: storable_row_def storable_def text_ok_def utf8_valid_ascii str_bytes_def
      varint_enc_last varint_be.simps)

end
