(* ===== verification/Table_Examples.thy ===== *)
theory Table_Examples
  imports Leaf_Split Index_Payload
begin

text \<open>
  Concrete tables on a pager whose pages are cached, and the witnesses of the b-tree properties on
  them: a tree of two leaves, one whose first leaf is empty, and a single leaf that is full.
\<close>

section \<open>Pages\<close>

lemma example_leaf:
  assumes "rows_sorted rows" and "\<forall>r \<in> set rows. table_row_ok r" and "rows_fit 512 0 rows"
  obtains d where "length d = 512" and "table_leaf d 0 rows"
    and "\<And>cell. leaf_fits d 0 cell \<longleftrightarrow> leaf_cell_ptr_offset 0 (length rows + 1) + 1
      \<le> 512 - length (concat (map table_cell rows)) - length cell"
proof -
  obtain z :: bytes where l: "length z = 512" and ty: "z ! 0 = PAGE_TYPE_LEAF_TABLE"
    by (rule that [of "(replicate 512 0)[0 := PAGE_TYPE_LEAF_TABLE]"]) simp_all
  have l16: "length z < 65536" and fit: "rows_fit (length z) 0 rows" using assms(3) by (simp_all add: l)
  obtain d where d: "table_leaf d 0 rows" "length d = length z"
    and h: "holds_cells leaf_cell_ptr_offset table_cell d 0
      (length z - length (concat (map table_cell rows))) rows"
    using ty l16 assms(1,2) fit by (rule rebuild_leaf)
  show thesis by (rule that [OF _ d(1)]) (use d(2) table_leaf_fits [OF h] l in simp_all)
qed

definition cached_pager :: "(u32 \<times> bytes) list \<Rightarrow> pager" where
  "cached_pager ps = example_pager
     \<lparr>pgr_cache := map (\<lambda>(n, d). (n, \<lparr>pg_no = n, pg_data = d, pg_dirty = True\<rparr>)) ps,
      pgr_page_count := of_nat (length ps)\<rparr>"

lemma map_of_cached:
  "map_of (map (\<lambda>(n, d). (n, \<lparr>pg_no = n, pg_data = d, pg_dirty = True\<rparr>)) ps) k
   = map_option (\<lambda>d. \<lparr>pg_no = k, pg_data = d, pg_dirty = True\<rparr>) (map_of ps k)"
  by (induction ps) auto

lemma cached_view: "pager_view (cached_pager ps) = map_of ps"
proof
  fix k
  have "\<not> has_page (pager_psize (cached_pager ps)) (pager_content (cached_pager ps)) k"
    by (simp add: has_page_def pager_psize_def pager_content_def cached_pager_def example_pager_def
        memory_file_new_def)
  moreover have "pager_psize (cached_pager ps) \<noteq> 0"
    by (simp add: pager_psize_def cached_pager_def example_pager_def)
  moreover have "pgr_journal_mode (cached_pager ps) \<noteq> JWal"
    by (simp add: cached_pager_def example_pager_def)
  moreover have "map_of (pgr_cache (cached_pager ps)) k
      = map_option (\<lambda>d. \<lparr>pg_no = k, pg_data = d, pg_dirty = True\<rparr>) (map_of ps k)"
    by (simp add: cached_pager_def map_of_cached)
  ultimately show "pager_view (cached_pager ps) k = map_of ps k"
    by (cases "map_of ps k") (simp_all add: pager_view_file)
qed

lemma cached_facts:
  "pages_keyed (cached_pager ps)" "\<not> pgr_read_only (cached_pager ps)" "pager_psize (cached_pager ps) = 512"
  "pgr_page_count (cached_pager ps) = of_nat (length ps)" "pgr_page_size (cached_pager ps) = 512"
  by (auto simp: pages_keyed_def cached_pager_def example_pager_def map_of_cached pager_psize_def)

section \<open>Trees\<close>

definition table_at :: "u32 \<Rightarrow> btree" where
  "table_at n = btree_new n \<lparr>bf_intkey = True, bf_blobkey = False\<rparr>"

text \<open>Two leaves under page 2, the divider 1.\<close>

definition example_tree :: "row list \<Rightarrow> row list \<Rightarrow> tree" where
  "example_tree xs ys = TNode 2 [(TLeaf 3 xs, 1)] (TLeaf 4 ys)"

lemma example_tree_state:
  assumes xs: "rows_sorted xs" "\<forall>r \<in> set xs. table_row_ok r" "rows_fit 512 0 xs" "\<forall>r \<in> set xs. rowkey r \<le> 1"
    and ys: "rows_sorted ys" "\<forall>r \<in> set ys. table_row_ok r" "rows_fit 512 0 ys" "\<forall>r \<in> set ys. 1 < rowkey r"
  obtains p d where "table_state (table_at 2) p (example_tree xs ys)" and "pager_view p 4 = Some d"
    and "\<And>cell. leaf_fits d 0 cell \<longleftrightarrow> leaf_cell_ptr_offset 0 (length ys + 1) + 1
      \<le> 512 - length (concat (map table_cell ys)) - length cell"
proof -
  obtain dx where dx: "table_leaf dx 0 xs" using xs(1-3) by (rule example_leaf)
  obtain dy where dy: "table_leaf dy 0 ys"
    and fy: "\<And>cell. leaf_fits dy 0 cell \<longleftrightarrow> leaf_cell_ptr_offset 0 (length ys + 1) + 1
      \<le> 512 - length (concat (map table_cell ys)) - length cell"
    using ys(1-3) by (rule example_leaf) blast
  have ok: "512 \<le> unat (512 :: u32)" "unat (512 :: u32) < 65536" "divider_ok (3, 1)"
    by (simp_all add: divider_ok_def)
  obtain rp where rp: "table_interior rp 0 [(3, 1)] 4" using ok by (rule promoted_page_ok)
  let ?p = "cached_pager [(2, rp), (3, dx), (4, dy)]"
  have "table_state (table_at 2) ?p (example_tree xs ys)"
    using dx dy rp xs ys cached_facts(1,2)
    by (simp add: table_state_def example_tree_def table_at_def btree_new_def cached_view
        page_header_other)
  moreover have "pager_view ?p 4 = Some dy" by (simp add: cached_view)
  ultimately show thesis using fy by (rule that)
qed

text \<open>Row 1 in the first leaf, rows 2 and 3 in the second.\<close>

definition two_leaves :: tree where
  "two_leaves = example_tree [(1, [7])] [(2, [8]), (3, [9])]"

lemma two_leaves_facts:
  "tree_rows two_leaves = [(1, [7]), (2, [8]), (3, [9])]" "height two_leaves = 2" "dense two_leaves"
  "tree_pages two_leaves = [2, 3, 4]" "leaf_for k two_leaves = (if sint k \<le> 1 then (3, [(1, [7])]) else (4, [(2, [8]), (3, [9])]))"
  by (auto simp: two_leaves_def example_tree_def child_slot_def child_at_def first_at_def)

lemma varint_one: "unat v < 128 \<Longrightarrow> length (varint_enc v) = 1"
  using unat_drop_bit_7 [of v] by (simp add: varint_enc_last unat_eq_zero)

lemma two_leaves_state:
  obtains p d where "table_state (table_at 2) p two_leaves" and "pager_view p 4 = Some d"
    and "leaf_fits d 0 (table_cell (5, [1]))"
proof -
  obtain p d where "table_state (table_at 2) p two_leaves" "pager_view p 4 = Some d"
    and f: "\<And>cell. leaf_fits d 0 cell \<longleftrightarrow> leaf_cell_ptr_offset 0 (length [(2, [8]), (3, [9]) :: row] + 1) + 1
      \<le> 512 - length (concat (map table_cell [(2, [8]), (3, [9])])) - length cell"
    unfolding two_leaves_def
    by (rule example_tree_state [of "[(1, [7])]" "[(2, [8]), (3, [9])]"])
      (simp_all add: table_row_ok_def rows_fit_def table_cell_def varint_one leaf_cell_ptr_offset_def)
  moreover have "leaf_fits d 0 (table_cell (5, [1]))"
    unfolding f by (simp add: table_cell_def varint_one leaf_cell_ptr_offset_def)
  ultimately show thesis using that by blast
qed

section \<open>Witnesses on two leaves\<close>

theorem table_delete_witness:
  "\<exists>b p p' t'. table_state b p two_leaves \<and> btree_delete 2 2 (b, p) = (Inr True, (b, p'))
    \<and> table_state b p' t' \<and> tree_rows t' = [(1, [7]), (3, [9])]"
proof -
  obtain p d where st: "table_state (table_at 2) p two_leaves" and "pager_view p 4 = Some d"
    by (rule two_leaves_state)
  have "height two_leaves \<le> 2" by (simp add: two_leaves_facts)
  from table_delete [OF st this, of 2] st show ?thesis by (fastforce simp: two_leaves_facts)
qed

theorem table_replace_witness:
  "\<exists>b p p' t'. table_state b p two_leaves \<and> btree_replace 2 2 [6] (b, p) = (Inr (), (b, p'))
    \<and> table_state b p' t' \<and> tree_rows t' = [(1, [7]), (2, [6]), (3, [9])]"
proof -
  obtain p d where st: "table_state (table_at 2) p two_leaves" and "pager_view p 4 = Some d"
    by (rule two_leaves_state)
  have "height two_leaves \<le> 2" by (simp add: two_leaves_facts)
  from table_replace [OF st this, of 2 "[6]"] st show ?thesis
    by (fastforce simp: two_leaves_facts set_row_def)
qed

theorem table_insert_witness:
  "\<exists>b p p' t'. table_state b p two_leaves \<and> btree_insert 2 5 [1] (b, p) = (Inr (), (b, p'))
    \<and> table_state b p' t' \<and> tree_rows t' = [(1, [7]), (2, [8]), (3, [9]), (5, [1])]"
proof -
  obtain p d where st: "table_state (table_at 2) p two_leaves" and d: "pager_view p 4 = Some d"
    and f: "leaf_fits d 0 (table_cell (5, [1]))"
    by (rule two_leaves_state)
  have h: "height two_leaves \<le> 2" and ok: "table_row_ok (5, [1])" and new: "5 \<notin> fst ` set (tree_rows two_leaves)"
    and d': "pager_view p (fst (leaf_for 5 two_leaves)) = Some d"
    and f': "leaf_fits d (page_header_offset (fst (leaf_for 5 two_leaves))) (table_cell (5, [1]))"
    using d f by (simp_all add: two_leaves_facts table_row_ok_def page_header_other)
  from table_insert [OF st h ok new d' f'] st show ?thesis by (auto simp: two_leaves_facts)
qed

theorem table_insert_duplicate_witness:
  "\<exists>b p p'. table_state b p two_leaves
    \<and> btree_insert 2 3 [1] (b, p) = (Inl (Fail (Sql RcConstraint ''UNIQUE constraint failed'')), (b, p'))
    \<and> pager_view p' = pager_view p"
proof -
  obtain p d where st: "table_state (table_at 2) p two_leaves" and "pager_view p 4 = Some d"
    by (rule two_leaves_state)
  have h: "height two_leaves \<le> 2" and ok: "table_row_ok (3, [1])" and k: "3 \<in> fst ` set (tree_rows two_leaves)"
    by (simp_all add: two_leaves_facts table_row_ok_def)
  from table_insert_duplicate [OF st h ok k] st show ?thesis by blast
qed

theorem table_scan_witness:
  "\<exists>b p c' p'. table_state b p two_leaves \<and> cursor_scan 2 3 (btree_cursor_of b, p)
    = (Inr [(Some 1, Some [7]), (Some 2, Some [8]), (Some 3, Some [9])], (c', p'))"
proof -
  obtain p d where st: "table_state (table_at 2) p two_leaves" and "pager_view p 4 = Some d"
    by (rule two_leaves_state)
  have "height two_leaves \<le> 2" and "length (tree_rows two_leaves) \<le> 3"
    by (simp_all add: two_leaves_facts)
  from table_scan [OF st two_leaves_facts(3) this] st show ?thesis
    by (auto simp: two_leaves_facts shown_rows_def)
qed

theorem seek_finds_witness:
  "\<exists>b p c' p'. table_state b p two_leaves
    \<and> cursor_seek 2 2 (btree_cursor_of b, p) = (Inr True, (c', p'))
    \<and> cursor_on two_leaves c' (2, [8]) [(3, [9])]"
proof -
  obtain p d where st: "table_state (table_at 2) p two_leaves" and "pager_view p 4 = Some d"
    by (rule two_leaves_state)
  have "height two_leaves \<le> 2" and "(2, [8]) \<in> set (tree_rows two_leaves)"
    by (simp_all add: two_leaves_facts)
  from seek_finds [OF st this] st show ?thesis by (fastforce simp: two_leaves_facts)
qed

text \<open>The same tree with its first leaf empty still holds rows 2 and 3.\<close>

theorem scan_stops_at_empty_leaf_witness:
  "\<exists>b p t c' p'. table_state b p t \<and> tree_rows t = [(2, [8]), (3, [9])]
    \<and> cursor_scan 2 3 (btree_cursor_of b, p) = (Inr [], (c', p'))"
proof -
  let ?t = "example_tree [] [(2, [8]), (3, [9])]"
  obtain p d where st: "table_state (table_at 2) p ?t" and "pager_view p 4 = Some d"
    by (rule example_tree_state [of "[]" "[(2, [8]), (3, [9])]"])
      (simp_all add: table_row_ok_def rows_fit_def table_cell_def varint_one leaf_cell_ptr_offset_def)
  have "leftmost_rows ?t = []" and "height ?t \<le> 2" and "tree_rows ?t = [(2, [8]), (3, [9])]"
    by (simp_all add: example_tree_def)
  with scan_stops_at_empty_leaf [OF st, of 2 3] st show ?thesis by blast
qed

section \<open>Witnesses of the splits\<close>

text \<open>A leaf of two rows of 220 bytes is full for a third.\<close>

definition big :: bytes where
  "big = replicate 220 0"

lemma length_big [simp]: "length big = 220"
  by (simp add: big_def)

lemma varint_220: "length (varint_enc (220 :: u64)) = 2"
  using length_varint_be [of 220 1] length_varint_be [of 220 2] by (simp add: length_varint_enc)

lemma length_big_cell: "unat k < 128 \<Longrightarrow> length (table_cell (k, big)) = 223"
  using varint_220 by (simp add: table_cell_def varint_one)

theorem root_leaf_split_witness:
  "\<exists>b p p'. table_state b p (TLeaf 2 [(1, big), (2, big)])
    \<and> btree_insert 1 3 big (b, p) = (Inr (), (b\<lparr>bt_root := 4\<rparr>, p'))
    \<and> table_state (b\<lparr>bt_root := 4\<rparr>) p' (TNode 4 [(TLeaf 2 [(1, big)], 1)] (TLeaf 3 [(2, big), (3, big)]))"
proof -
  let ?rows = "[(1, big), (2, big)] :: row list" and ?x = "(3, big)"
  have so: "rows_sorted ?rows" and ok: "\<forall>r \<in> set ?rows. table_row_ok r" and fit: "rows_fit 512 0 ?rows"
    by (simp_all add: table_row_ok_def rows_fit_def length_big_cell leaf_cell_ptr_offset_def)
  obtain d where d: "length d = 512" "table_leaf d 0 ?rows"
    and f: "\<And>cell. leaf_fits d 0 cell \<longleftrightarrow> leaf_cell_ptr_offset 0 (length ?rows + 1) + 1
      \<le> 512 - length (concat (map table_cell ?rows)) - length cell"
    using so ok fit by (rule example_leaf) blast
  let ?p = "cached_pager [(1, []), (2, d)]"
  have st: "table_state (table_at 2) ?p (TLeaf 2 ?rows)"
    using d(2) cached_facts(1,2)
    by (simp add: table_state_def table_at_def btree_new_def cached_view page_header_other)
  have "k = 1 \<or> k = 2 \<longleftrightarrow> k \<noteq> 0 \<and> k \<le> 2" for k :: u32
    using word_le_succ(1) [of 1 k] word_le_succ(1) [of 0 k] by auto
  moreover have "pager_view ?p k \<noteq> None \<longleftrightarrow> k = 1 \<or> k = 2" for k by (simp add: cached_view)
  moreover have "pgr_journal_mode ?p \<noteq> JWal" "file_writable (pgr_file ?p, pgr_disk ?p)"
    by (simp_all add: cached_pager_def example_pager_def)
  ultimately have g: "can_grow ?p" unfolding can_grow_def by (simp add: cached_facts)
  have c: "pgr_page_count ?p = 2" by (simp add: cached_facts)
  have halves: "left_rows ?x ?rows = [(1, big)]" "right_rows ?x ?rows = [(2, big), (3, big)]"
    by (simp_all add: left_rows_def right_rows_def new_rows_def)
  have full: "\<not> leaf_fits d (page_header_offset 2) (table_cell ?x)"
    by (simp add: page_header_other f length_big_cell leaf_cell_ptr_offset_def)
  have fl: "rows_fit (length d) (page_header_offset 2) (left_rows ?x ?rows)"
    by (simp add: page_header_other d(1) halves rows_fit_def length_big_cell leaf_cell_ptr_offset_def)
  have fr: "rows_fit (pager_psize ?p) 0 (right_rows ?x ?rows)"
    by (simp add: cached_facts halves rows_fit_def length_big_cell leaf_cell_ptr_offset_def)
  have room: "pgr_page_count ?p \<noteq> - 1" "pgr_page_count ?p + 1 \<noteq> - 1" by (simp_all add: c)
  have v: "pager_view ?p 2 = Some d" by (simp add: cached_view)
  have x: "table_row_ok ?x" by (simp add: table_row_ok_def)
  have new: "3 \<notin> fst ` set ?rows" by simp
  from root_leaf_split [OF st g _ room x new v full fl fr, of 0] show ?thesis
    unfolding halves c using st by auto
qed

theorem second_split_loses_first_leaf_witness:
  "\<exists>p b' p1 p' d'. promote_root_split
        \<lparr>ls_left = 2, ls_divider_key = 1, ls_divider_blob = None, ls_right = 4\<rparr> (table_at 2, p) = (Inr (), (b', p1))
    \<and> find_child_page_table (the (pager_view p1 (bt_root b'))) 0 1 = Inr 2
    \<and> insert_into_interior_table (bt_root b')
        \<lparr>ls_left = 4, ls_divider_key = 2, ls_divider_blob = None, ls_right = 5\<rparr> (b', p1) = (Inr None, (b', p'))
    \<and> pager_view p' (bt_root b') = Some d' \<and> table_interior d' 0 [(4, 2), (4, 2)] 5
    \<and> (\<forall>key. find_child_page_table d' 0 key = Inr 4 \<or> find_child_page_table d' 0 key = Inr 5)"
proof -
  let ?p = "cached_pager [(1, []), (2, [])]"
  let ?sp = "\<lparr>ls_left = 2, ls_divider_key = 1, ls_divider_blob = None, ls_right = 4\<rparr>"
  have "k = 1 \<or> k = 2 \<longleftrightarrow> k \<noteq> 0 \<and> k \<le> 2" for k :: u32
    using word_le_succ(1) [of 1 k] word_le_succ(1) [of 0 k] by auto
  moreover have "pager_view ?p k \<noteq> None \<longleftrightarrow> k = 1 \<or> k = 2" for k by (simp add: cached_view)
  moreover have "pgr_journal_mode ?p \<noteq> JWal" "file_writable (pgr_file ?p, pgr_disk ?p)"
    by (simp_all add: cached_pager_def example_pager_def)
  ultimately have g: "can_grow ?p" unfolding can_grow_def by (simp add: cached_facts)
  have c: "pgr_page_count ?p \<noteq> - 1" by (simp add: cached_facts)
  have len: "length (varint_enc (ls_divider_key ?sp)) = length (varint_enc (2 :: u64))" by (simp add: varint_one)
  have b: "\<not> bf_blobkey (bt_flags (table_at 2))" "bt_root (table_at 2) = 2"
    by (simp_all add: table_at_def btree_new_def)
  from second_split_loses_first_leaf [OF g c cached_facts(2,1) b(1) _ _ _ len, of 5] b(2)
  show ?thesis by fastforce
qed

end
