(* ===== verification/Statement_Examples.thy ===== *)
theory Statement_Examples
  imports Statements Machine_Safety Table_Examples
begin

text \<open>The witnesses of the statements' properties, on a table of one text column that is one leaf.\<close>

definition one_leaf :: tree where
  "one_leaf = TLeaf 2 [(1, [7]), (2, [8]), (3, [9])]"

definition one_table :: schema where
  "one_table = schema_new\<lparr>sc_tables := [(''t'', \<lparr>ta_name = ''t'', ta_root = 2,
     ta_columns = [plain_column ''a'' AffText], ta_rowid_alias = None\<rparr>)]\<rparr>"

definition one_env :: "nat \<Rightarrow> logos \<Rightarrow> env" where
  "one_env fuel lx = \<lparr>en_fuel = fuel, en_lx = lx, en_order = id\<rparr>"

lemma one_table_lookup:
  "schema_table one_table ''t'' = Some \<lparr>ta_name = ''t'', ta_root = 2,
     ta_columns = [plain_column ''a'' AffText], ta_rowid_alias = None\<rparr>"
  by (simp add: schema_table_def one_table_def lowercase_def ascii_lower_def)

lemma one_leaf_state:
  obtains p d where "table_stored one_table ''t'' p one_leaf" and "pager_view p 2 = Some d"
    and "\<And>cell. leaf_fits d 0 cell \<longleftrightarrow> length cell \<le> 486"
proof -
  let ?rows = "[(1, [7]), (2, [8]), (3, [9])] :: row list"
  obtain d where d: "table_leaf d 0 ?rows"
    and f: "\<And>cell. leaf_fits d 0 cell \<longleftrightarrow> leaf_cell_ptr_offset 0 (length ?rows + 1) + 1
      \<le> 512 - length (concat (map table_cell ?rows)) - length cell"
    by (rule example_leaf [of ?rows])
      (simp_all add: table_row_ok_def rows_fit_def table_cell_def varint_one leaf_cell_ptr_offset_def)
  let ?p = "cached_pager [(2, d)]"
  have "table_stored one_table ''t'' ?p one_leaf"
    using d cached_facts(1,2)
    by (simp add: table_stored_def one_table_lookup table_state_def one_leaf_def btree_new_def
        table_flags_def cached_view page_header_other)
  moreover have "pager_view ?p 2 = Some d" by (simp add: cached_view)
  moreover have "leaf_fits d 0 cell \<longleftrightarrow> length cell \<le> 486" for cell
    unfolding f by (auto simp: table_cell_def varint_one leaf_cell_ptr_offset_def)
  ultimately show thesis by (rule that)
qed

theorem count_star_counts_every_row_witness:
  "\<exists>sel prog v p p'. s_where sel = Some (EBinaryOp BEq (EInteger 1) (EInteger 2))
    \<and> table_stored one_table ''t'' p one_leaf \<and> compile_select sel one_table = Inr prog
    \<and> vdbe_step 4 (one_env 3 rule_scanner) (vdbe_new prog, one_table, p) = (Inr RcRow, (v, one_table, p'))
    \<and> column_value v 0 = Some (VInteger 3)"
proof -
  let ?sel = "Select False [\<lparr>rc_expr = EFunction ''COUNT'' False [EStar], rc_alias = None\<rparr>]
    (Some (TTable ''t'' None)) (Some (EBinaryOp BEq (EInteger 1) (EInteger 2))) [] None [] None None"
  obtain p d where st: "table_stored one_table ''t'' p one_leaf" and "pager_view p 2 = Some d"
    by (rule one_leaf_state)
  have c: "is_count_star ?sel ''t''"
    by (auto simp: is_count_star_def eq_ignore_case_def ascii_lower_def char_of_def bit_0)
  have h: "scannable one_leaf" "height one_leaf \<le> en_fuel (one_env 3 rule_scanner)"
    "length (tree_rows one_leaf) \<le> en_fuel (one_env 3 rule_scanner)" "length (tree_rows one_leaf) < 2 ^ 63"
    by (simp_all add: one_leaf_def one_env_def)
  from count_star_counts_every_row [OF c st h, of 4] obtain prog v p' where
    "compile_select ?sel one_table = Inr prog"
    "vdbe_step 4 (one_env 3 rule_scanner) (vdbe_new prog, one_table, p) = (Inr RcRow, (v, one_table, p'))"
    "column_value v 0 = Some (VInteger (of_nat (length (tree_rows one_leaf))))"
    by auto
  with st show ?thesis
    by (intro exI [of _ ?sel] exI [of _ prog] exI [of _ v] exI [of _ p] exI [of _ p'])
      (simp add: one_leaf_def)
qed

theorem delete_all_skips_rows_witness:
  "\<exists>prog v p p'. table_stored one_table ''t'' p one_leaf
    \<and> compile_delete \<lparr>de_table = ''t'', de_where = None\<rparr> one_table = Inr prog
    \<and> vdbe_step 11 (one_env 1 rule_scanner) (vdbe_new prog, one_table, p) = (Inr RcDone, (v, one_table, p'))
    \<and> table_stored one_table ''t'' p' (TLeaf 2 [(2, [8])])"
proof -
  obtain p d where st: "table_stored one_table ''t'' p one_leaf" and "pager_view p 2 = Some d"
    by (rule one_leaf_state)
  from delete_all_skips_rows [OF st [unfolded one_leaf_def], of "one_env 1 rule_scanner" 11] st
  show ?thesis by (auto simp: one_env_def)
qed

theorem insert_adds_row_witness:
  "\<exists>prog v p p' t' rec. table_stored one_table ''t'' p one_leaf
    \<and> compile_insert (insert_of ''t'' [[EString ''x'']]) one_table = Inr prog
    \<and> vdbe_step 20 (one_env 3 rule_scanner) (vdbe_new prog, one_table, p) = (Inr RcDone, (v, one_table, p'))
    \<and> table_stored one_table ''t'' p' t' \<and> encode_record [VText ''x''] = Inr rec
    \<and> tree_rows t' = [(1, [7]), (2, [8]), (3, [9]), (4, rec)] \<and> vm_last_rowid v = 4"
proof -
  obtain p d where st: "table_stored one_table ''t'' p one_leaf" and d: "pager_view p 2 = Some d"
    and f: "\<And>cell. leaf_fits d 0 cell \<longleftrightarrow> length cell \<le> 486"
    by (rule one_leaf_state) blast
  let ?rec = "varint_enc 2 @ varint_enc 1 @ varint_enc 14 @ [120]"
  have rec: "encode_record [VText ''x''] = Inr ?rec"
    by (simp add: encode_record_def put_varint_eq varint_one str_bytes_def)
  have len: "length ?rec < 128" by (simp add: varint_one)
  have h: "scannable one_leaf" "height one_leaf \<le> en_fuel (one_env 3 rule_scanner)"
    "length (tree_rows one_leaf) \<le> en_fuel (one_env 3 rule_scanner)"
    by (simp_all add: one_leaf_def one_env_def)
  have k: "(4 :: i64) = top_key (map fst (tree_rows one_leaf)) + 1"
    "sint (top_key (map fst (tree_rows one_leaf))) < 2 ^ 63 - 1"
    by (simp_all add: one_leaf_def top_key_def)
  have fits: "table_row_ok (4, ?rec)" "pager_view p (fst (leaf_for 4 one_leaf)) = Some d"
    "leaf_fits d (page_header_offset (fst (leaf_for 4 one_leaf))) (table_cell (4, ?rec))"
    using d len
    by (simp_all add: one_leaf_def table_row_ok_def page_header_other f table_cell_def varint_one unat_of_nat)
  have es: "length [EString ''x''] = column_count (the (schema_table one_table ''t''))"
    "regs_fit 0 [EString ''x'']" "length [EString ''x''] + 2 < 2 ^ 31"
    "map (eval_expr VNull) [EString ''x''] = map Inr [VText ''x'']"
    "length (insert_code ''t'' [EString ''x'']) \<le> 20"
    by (simp_all add: one_table_lookup column_count_def regs_fit_def insert_code_def)
  from insert_adds_row [OF one_table_lookup st h _ es(2-4) rec k fits es(5)] st rec
  show ?thesis by (fastforce simp: one_leaf_def column_count_def)
qed


end
