(* ===== verification/Transactions.thy ===== *)
theory Transactions
  imports Connection Pager_Correct
begin

text \<open>
  Transactions as a user of a connection sees them: what the statements that change the schema do to
  a transaction that \<^verbatim>\<open>BEGIN\<close> has opened.
\<close>

text \<open>
  A commit that a rollback follows: the rollback empties the cache, and the file holds what readers
  saw before the commit.
\<close>

lemma commit_then_rollback:
  assumes "pager_ok p" and "pgr_in_transaction p" and "change_counter (pgr_header p) \<noteq> - 1"
  shows "\<exists>p' hp p''. pager_commit p = (Inr (), p') \<and> pager_view p' = (pager_view p)(1 \<mapsto> hp)
    \<and> header_write (pgr_header p') (the (pager_view p 1)) = Inr hp \<and> \<not> pgr_in_transaction p'
    \<and> pager_rollback p' = (Inr (), p'') \<and> pager_view p'' = pager_view p' \<and> pgr_cache p'' = []"
proof -
  obtain hp f d where c: "pager_commit p = (Inr (), p\<lparr>pgr_file := f, pgr_disk := d,
        pgr_header := committed_header p, pgr_in_transaction := False,
        pgr_cache := clean_cache (AList.update 1 \<lparr>pg_no = 1, pg_data = hp, pg_dirty = False\<rparr>
          (pgr_cache p))\<rparr>)" (is "_ = (_, ?p')")
    "header_write (committed_header p) (the (pager_view p 1)) = Inr hp" "length hp = pager_psize p"
    "frame_of (pgr_file p, pgr_disk p) (f, d)"
    "file_content (f, d) = put_pages (pager_psize p) (dirty_writes p @ [(1, hp)]) (pager_content p)"
    using commit_ok [OF assms] by blast
  note st = commit_state [OF assms(1) c(3,4,5) refl]
  let ?p'' = "?p'\<lparr>pgr_cache := [], pgr_in_transaction := False\<rparr>"
  have "pgr_journal_mode ?p'' \<noteq> JWal" using assms(1) by (simp add: pager_ok_def)
  then have "pager_view ?p'' = (pager_view p)(1 \<mapsto> hp)"
    by (intro reopened_view [OF assms(1) c(3,5)]) (simp_all add: pager_content_def pager_psize_def)
  with c st show ?thesis
    by (intro exI [of _ ?p'] exI [of _ hp] exI [of _ ?p'']) (simp add: pager_rollback_def)
qed

text \<open>
  C27. A statement that changes the schema commits whatever transaction is open. Take a connection
  in the middle of a transaction, with pages written and not committed, whose pager is consistent and
  outside the log mode. Then \<^verbatim>\<open>DROP TABLE\<close> of a table the schema knows, followed by \<^verbatim>\<open>ROLLBACK\<close>, loses
  nothing: both answer; after the drop the pager has no transaction, although the connection still
  takes itself to be in the state \<^verbatim>\<open>BEGIN\<close> left (so that its next statements do not commit themselves);
  after the rollback, which empties the cache, every page read from the file is as the open
  transaction had written it, but for the header fields of page 1; and the table is gone.
\<close>

theorem schema_change_commits_transaction:
  assumes "parse_one (en_lx en) sql = Inr (StDropTable d)" and "parse_one (en_lx en) sql2 = Inr StRollback"
    and "pager_ok (cn_pager c)" and "change_counter (pgr_header (cn_pager c)) \<noteq> - 1"
    and "schema_table (cn_schema c) (dt_name d) \<noteq> None" and "sc_cookie (cn_schema c) \<noteq> - 1"
  shows "\<exists>c' c2 hp. connection_execute n en sql c = (Inr [], c') \<and> connection_execute n en sql2 c' = (Inr [], c2)
    \<and> \<not> pgr_in_transaction (cn_pager c') \<and> cn_in_transaction c' = cn_in_transaction c
    \<and> header_write (pgr_header (cn_pager c')) (the (pager_view (cn_pager c) 1)) = Inr hp
    \<and> pgr_cache (cn_pager c2) = [] \<and> pager_view (cn_pager c2) = (pager_view (cn_pager c))(1 \<mapsto> hp)
    \<and> schema_table (cn_schema c2) (dt_name d) = None"
proof -
  let ?p = "(cn_pager c)\<lparr>pgr_in_transaction := True\<rparr>"
  let ?s = "(cn_schema c)\<lparr>sc_tables := AList.delete (lowercase (dt_name d)) (sc_tables (cn_schema c)),
    sc_cookie := sc_cookie (cn_schema c) + 1\<rparr>"
  have "pager_ok ?p" by (rule pager_ok_begin [OF assms(3)])
  moreover have "pager_view ?p = pager_view (cn_pager c)"
  proof -
    have "pgr_journal_mode (cn_pager c) \<noteq> JWal" using assms(3) by (simp add: pager_ok_def)
    then show ?thesis
      by (intro ext) (simp add: pager_view_file pager_psize_def pager_content_def split: option.split)
  qed
  ultimately obtain p' hp p'' where p': "pager_commit ?p = (Inr (), p')"
    "pager_view p' = (pager_view (cn_pager c))(1 \<mapsto> hp)"
    "header_write (pgr_header p') (the (pager_view (cn_pager c) 1)) = Inr hp" "\<not> pgr_in_transaction p'"
    and p'': "pager_rollback p' = (Inr (), p'')" "pager_view p'' = pager_view p'" "pgr_cache p'' = []"
    using commit_then_rollback [of ?p] assms(4) by auto
  have "connection_execute n en sql c = (Inr [], c\<lparr>cn_schema := ?s, cn_pager := p'\<rparr>)"
    using assms(1,5,6) p'(1)
    by (auto simp: connection_execute_def run_ddl_def bindS_app cn_with_pager_def pager_begin_def
        cn_with_schema_def schema_drop_table_def sc_get_def sc_modify_def bump_cookie_def schema_table_def)
  moreover have "connection_execute n en sql2 (c\<lparr>cn_schema := ?s, cn_pager := p'\<rparr>)
      = (Inr [], c\<lparr>cn_schema := ?s, cn_pager := p'', cn_in_transaction := False\<rparr>)"
    using assms(2) p''(1)
    by (simp add: connection_execute_def connection_rollback_def cn_with_pager_def bindS_app)
  ultimately show ?thesis
    using p' p''
    by (intro exI [of _ "c\<lparr>cn_schema := ?s, cn_pager := p'\<rparr>"] exI [of _ hp]
        exI [of _ "c\<lparr>cn_schema := ?s, cn_pager := p'', cn_in_transaction := False\<rparr>"])
      (simp add: schema_table_def delete_conv')
qed

text \<open>A scanner of one letter per token is enough for a witness.\<close>

definition letter_scanner :: logos where
  "letter_scanner s =
     (if hd s = CHR ''D'' then Matched 15 1 else if hd s = CHR ''T'' then Matched 13 1
      else if hd s = CHR ''I'' then Matched 16 1 else if hd s = CHR ''E'' then Matched 18 1
      else if hd s = CHR ''R'' then Matched 36 1 else Matched 111 1)"

lemma letter_rules:
  "snd (lex_rules ! 15) = Emit (TKw KwDrop)" "snd (lex_rules ! 13) = Emit (TKw KwTable)"
  "snd (lex_rules ! 16) = Emit (TKw KwIf)" "snd (lex_rules ! 18) = Emit (TKw KwExists)"
  "snd (lex_rules ! 36) = Emit (TKw KwRollback)"
  "snd (lex_rules ! 111) = callback TkIdent (\<lambda>s. Inr (Some s))"
  by (simp_all add: lex_rules_def keyword_rules_def symbol_rules_def)

lemma letter_statements:
  "parse_one letter_scanner ''DTIEx'' = Inr (StDropTable \<lparr>dt_if_exists = True, dt_name = ''x''\<rparr>)"
  "parse_one letter_scanner ''R'' = Inr StRollback"
  by (simp_all add: parse_one_def tokenize_def letter_scanner_def letter_rules callback_def parser_new_def
      parse_fuel_def parse_statement_def statement_parsers_def bindS_app match_token_def check_def advance_def
      current_token_def is_at_end_def parse_drop_def parse_drop_table_def expect_def parse_ident_def)

text \<open>The witness: a transaction that has written a second page.\<close>

lemma written_page_ok:
  assumes "pager_ok p" and "pgr_page_count p = 1" and "pgr_cache p = []" and "\<not> pgr_read_only p"
    and "length b = pager_psize p"
  shows "\<exists>p'. bindS pager_begin (\<lambda>_. bindS allocate_page (\<lambda>n. put_bytes_at n b)) p = (Inr (), p')
    \<and> pager_ok p' \<and> pgr_in_transaction p' \<and> pgr_header p' = pgr_header p \<and> pager_view p' 2 = Some b"
proof -
  let ?p = "p\<lparr>pgr_in_transaction := True, pgr_page_count := 2,
    pgr_cache := [(2, \<lparr>pg_no = 2, pg_data = b, pg_dirty = True\<rparr>)]\<rparr>"
  have run: "bindS pager_begin (\<lambda>_. bindS allocate_page (\<lambda>n. put_bytes_at n b)) p = (Inr (), ?p)"
    using assms(2-4) by (simp add: bindS_app pager_begin_def allocate_page_def put_bytes_at_def write_page_def cache_insert_def)
  have ps: "pager_psize ?p = pager_psize p" "pager_content ?p = pager_content p"
    by (simp_all add: pager_psize_def pager_content_def)
  have k: "k = 1 \<or> k = 2" if "k \<noteq> 0" "k \<le> 2" for k :: u32
  proof -
    have "unat k \<noteq> 0" "unat k \<le> 2" using that by (simp_all add: unat_eq_0 word_le_nat_alt)
    then have "unat k = 1 \<or> unat k = 2" by linarith
    then show ?thesis by (simp add: word_unat_eq_iff)
  qed
  have "clean_ok p" using assms(1) by (simp add: pager_ok_def)
  with assms(2,3) have "has_page (pager_psize p) (pager_content p) 1"
    by (auto simp: clean_ok_def)
  then have "clean_ok ?p" using k by (fastforce simp: clean_ok_def ps)
  moreover have "cache_ok ?p" using assms(5) by (simp add: cache_ok_def ps)
  ultimately have "pager_ok ?p" using assms(1) by (simp add: pager_ok_def)
  moreover have "pager_view ?p 2 = Some b" by (simp add: pager_view_eq)
  ultimately show ?thesis using run by auto
qed

theorem schema_change_commits_transaction_witness:
  "\<exists>p0 p c c' c2. bindS pager_begin (\<lambda>_. bindS allocate_page (\<lambda>n. put_bytes_at n (replicate 4096 7))) p0 = (Inr (), p)
    \<and> cn_pager c = p \<and> cn_in_transaction c
    \<and> connection_execute 1 \<lparr>en_fuel = 1, en_lx = letter_scanner, en_order = id\<rparr> ''DTIEx'' c = (Inr [], c')
    \<and> connection_execute 1 \<lparr>en_fuel = 1, en_lx = letter_scanner, en_order = id\<rparr> ''R'' c' = (Inr [], c2)
    \<and> \<not> pgr_in_transaction (cn_pager c') \<and> cn_in_transaction c'
    \<and> pgr_cache (cn_pager c2) = [] \<and> pager_view (cn_pager c2) 2 = Some (replicate 4096 7)
    \<and> schema_table (cn_schema c2) ''x'' = None"
proof -
  let ?en = "\<lparr>en_fuel = 1, en_lx = letter_scanner, en_order = id\<rparr>"
  obtain p0 d where p0: "pager_ok p0" "pgr_page_count p0 = 1" "pgr_cache p0 = []" "\<not> pgr_read_only p0"
    "pgr_header p0 = (header_new 4096)\<lparr>database_size := 1\<rparr>"
    by (rule example_database)
  have "pager_psize p0 = 4096"
    using p0(1,5) by (simp add: pager_ok_def pager_psize_def header_new_def flip: p0(5))
  then obtain p where run: "bindS pager_begin (\<lambda>_. bindS allocate_page (\<lambda>n. put_bytes_at n (replicate 4096 7))) p0 = (Inr (), p)"
    and p: "pager_ok p" "pgr_header p = pgr_header p0" "pager_view p 2 = Some (replicate 4096 7)"
    using written_page_ok [OF p0(1-4), of "replicate 4096 7"] by auto
  let ?t = "\<lparr>ta_name = ''x'', ta_root = 2, ta_columns = [], ta_rowid_alias = None\<rparr>"
  let ?c = "\<lparr>cn_pager = p, cn_schema = schema_new\<lparr>sc_tables := [(''x'', ?t)]\<rparr>, cn_path = None,
    cn_last_error = [], cn_changes = 0, cn_last_rowid = 0, cn_in_transaction = True\<rparr>"
  have "lowercase ''x'' = ''x''" by (simp add: lowercase_def ascii_lower_def)
  then have "schema_table (cn_schema ?c) (dt_name \<lparr>dt_if_exists = True, dt_name = ''x''\<rparr>) \<noteq> None"
    and "sc_cookie (cn_schema ?c) \<noteq> - 1"
    by (simp_all add: schema_table_def schema_new_def)
  moreover have "change_counter (pgr_header (cn_pager ?c)) \<noteq> - 1" using p(2) p0(5) by (simp add: header_new_def)
  moreover have "pager_ok (cn_pager ?c)" using p(1) by simp
  moreover have "parse_one (en_lx ?en) ''DTIEx'' = Inr (StDropTable \<lparr>dt_if_exists = True, dt_name = ''x''\<rparr>)"
    "parse_one (en_lx ?en) ''R'' = Inr StRollback" by (simp_all add: letter_statements)
  ultimately obtain c' c2 hp where c: "connection_execute 1 ?en ''DTIEx'' ?c = (Inr [], c')"
    "connection_execute 1 ?en ''R'' c' = (Inr [], c2)" "\<not> pgr_in_transaction (cn_pager c')"
    "cn_in_transaction c' = cn_in_transaction ?c" "pgr_cache (cn_pager c2) = []"
    "pager_view (cn_pager c2) = (pager_view (cn_pager ?c))(1 \<mapsto> hp)"
    "schema_table (cn_schema c2) (dt_name \<lparr>dt_if_exists = True, dt_name = ''x''\<rparr>) = None"
    using schema_change_commits_transaction [of ?en "''DTIEx''" "\<lparr>dt_if_exists = True, dt_name = ''x''\<rparr>" "''R''" ?c 1]
    by metis
  from c p(3) run show ?thesis
    by (intro exI [of _ p0] exI [of _ p] exI [of _ ?c] exI [of _ c'] exI [of _ c2]) simp
qed

end
