(* ===== verification/Shell.thy ===== *)
theory Shell
  imports Connection
begin

text \<open>
  \<^verbatim>\<open>sqllite-cli/src/main.rs\<close>: the command line shell. What it reads is the list of the lines of its
  input, and what it writes is the list of what it prints to the standard output and the standard
  error. Parsing the command line is the work of the \<^verbatim>\<open>clap\<close> package: its result is an argument.
\<close>

section \<open>Texts\<close>

text \<open>The white space of Unicode that is ASCII, and the trimming of \<^verbatim>\<open>str\<close>.\<close>

definition is_whitespace :: "char \<Rightarrow> bool" where
  "is_whitespace c \<longleftrightarrow> c \<in> {CHR '' '', CHR 0x09, CHR 0x0A, CHR 0x0B, CHR 0x0C, CHR 0x0D}"

definition trim_start :: "string \<Rightarrow> string" where
  "trim_start s = dropWhile is_whitespace s"

definition trim :: "string \<Rightarrow> string" where
  "trim s = rev (trim_start (rev (trim_start s)))"

fun display_error :: "sqllite_error \<Rightarrow> string" where
  "display_error (Sql code message) = result_message code @ '': '' @ message"
| "display_error (Io e) = ''I/O error: '' @ e"
| "display_error (Parse m) = ''parse error: '' @ m"

section \<open>The shell\<close>

datatype printed = Out string | Err string

record shell_args =
  sa_database :: "string option"
  sa_command :: "string option"

record shell =
  sl_conn :: connection
  sl_printed :: "printed list"

type_synonym 'a shm = "(shell, 'a) sres"

definition sh_print :: "printed list \<Rightarrow> unit shm" where
  "sh_print out = modifyS (sl_printed_update (\<lambda>old. old @ out))"

definition sh_conn :: "'a cnm \<Rightarrow> 'a shm" where
  "sh_conn m = (\<lambda>s. case m (sl_conn s) of (r, c) \<Rightarrow> (r, s\<lparr>sl_conn := c\<rparr>))"

text \<open>A \<^verbatim>\<open>match\<close> on the result: an error is a value of its own, a panic is not caught.\<close>

definition attempt :: "('s, 'a) sres \<Rightarrow> ('s, sqllite_error + 'a) sres" where
  "attempt m =
     (\<lambda>s. case m s of
        (Inl (Fail e), s') \<Rightarrow> (Inr (Inl e), s')
      | (Inl f, s') \<Rightarrow> (Inl f, s')
      | (Inr x, s') \<Rightarrow> (Inr (Inr x), s'))"

text \<open>The values of all rows, separated by blanks, on one line; nothing when there are none.\<close>

definition printed_rows :: "string list \<Rightarrow> printed list" where
  "printed_rows rows = (if rows = [] then [] else [Out (join_with '' '' rows)])"

definition run_sql :: "nat \<Rightarrow> env \<Rightarrow> string \<Rightarrow> unit shm" where
  "run_sql n en sql = bindS (sh_conn (connection_execute n en sql)) (\<lambda>rows. sh_print (printed_rows rows))"

definition help_text :: "printed list" where
  "help_text = [Out ''.help     Show this message'', Out ''.quit     Exit the shell'', Out ''.tables   List tables'']"

definition tables_query :: string where
  "tables_query = ''SELECT name FROM sqlite_schema WHERE type=''
     @ [CHR 0x27] @ ''table'' @ [CHR 0x27]"

definition show_error :: "sqllite_error \<Rightarrow> printed list" where
  "show_error e = [Err (''Error: '' @ display_error e)]"

text \<open>The interactive loop, after the trimmed line has been read; it ends with the input.\<close>

definition shell_line :: "nat \<Rightarrow> env \<Rightarrow> string \<Rightarrow> unit shm" where
  "shell_line n en line =
     (if line = ''.help'' then sh_print help_text
      else if line = ''.tables''
      then bindS (attempt (sh_conn (connection_execute n en tables_query))) (\<lambda>r.
             case r of Inr rows \<Rightarrow> sh_print (map Out rows) | Inl e \<Rightarrow> sh_print (show_error e))
      else bindS (attempt (run_sql n en line)) (\<lambda>r.
             case r of Inr _ \<Rightarrow> retS () | Inl e \<Rightarrow> sh_print (show_error e)))"

fun shell_loop :: "nat \<Rightarrow> env \<Rightarrow> string list \<Rightarrow> unit shm" where
  "shell_loop n en [] = retS ()"
| "shell_loop n en (l # ls) =
     (let line = trim l in
      if line = [] then shell_loop n en ls
      else if line = ''.quit'' \<or> line = ''.exit'' then retS ()
      else bindS (shell_line n en line) (\<lambda>_. shell_loop n en ls))"

definition greeting :: "printed list" where
  "greeting = [Out ''sqllite3 version 0.1.0 (pure Rust)'',
     Out (''Enter '' @ [CHR 0x22] @ ''.help'' @ [CHR 0x22] @ '' for usage hints.'')]"

text \<open>The prompt before every line is left out.\<close>

definition shell_main :: "nat \<Rightarrow> env \<Rightarrow> shell_args \<Rightarrow> string list \<Rightarrow> disk \<Rightarrow> unit res \<times> printed list" where
  "shell_main n en args input d =
     (let path = (case sa_database args of Some p \<Rightarrow> p | None \<Rightarrow> '':memory:'') in
      case connection_open en path d of
        (Inl e, d') \<Rightarrow> (Inl e, [])
      | (Inr c, d') \<Rightarrow>
          (let m = (case sa_command args of
                      Some sql \<Rightarrow> run_sql n en sql
                    | None \<Rightarrow> bindS (sh_print greeting) (\<lambda>_. shell_loop n en input))
           in case m \<lparr>sl_conn = c, sl_printed = []\<rparr> of (r, s) \<Rightarrow> (r, sl_printed s)))"

section \<open>What a session does\<close>

text \<open>The statements a session runs: up to a quit, without blank lines and requests for help.\<close>

definition quits :: "string \<Rightarrow> bool" where
  "quits l \<longleftrightarrow> trim l = ''.quit'' \<or> trim l = ''.exit''"

definition statement_of :: "string \<Rightarrow> string" where
  "statement_of l = (if trim l = ''.tables'' then tables_query else trim l)"

definition session_statements :: "string list \<Rightarrow> string list" where
  "session_statements ls =
     map statement_of (filter (\<lambda>l. trim l \<noteq> [] \<and> trim l \<noteq> ''.help'') (takeWhile (\<lambda>l. \<not> quits l) ls))"

fun is_crash :: "fault \<Rightarrow> bool" where
  "is_crash (Fail e) = False"
| "is_crash f = True"

fun crashes :: "'a res \<Rightarrow> bool" where
  "crashes (Inl f) = is_crash f"
| "crashes (Inr x) = False"

text \<open>Executing statements one after the other, whether they succeed or not.\<close>

fun execute_all :: "nat \<Rightarrow> env \<Rightarrow> string list \<Rightarrow> connection \<Rightarrow> bool \<times> connection" where
  "execute_all n en [] c = (False, c)"
| "execute_all n en (q # qs) c =
     (case connection_execute n en q c of
        (r, c') \<Rightarrow> if crashes r then (True, c') else execute_all n en qs c')"

lemma run_sql_connection:
  "sl_conn (snd (run_sql n en q s)) = snd (connection_execute n en q (sl_conn s))"
  "crashes (fst (run_sql n en q s)) = crashes (fst (connection_execute n en q (sl_conn s)))"
  by (auto simp: run_sql_def sh_conn_def sh_print_def bindS_app split: prod.splits sum.splits)

text \<open>One line: the connection is what executing its statement leaves, whatever its result.\<close>

lemma shell_line_connection:
  assumes "line \<noteq> ''.help''" and "shell_line n en line s = (r, s')"
  shows "sl_conn s' = snd (connection_execute n en (if line = ''.tables'' then tables_query else line) (sl_conn s))
    \<and> (r = Inr () \<longleftrightarrow>
        \<not> crashes (fst (connection_execute n en (if line = ''.tables'' then tables_query else line) (sl_conn s))))"
  using assms run_sql_connection [of n en line s]
  by (cases "line = ''.tables''")
     (auto simp: shell_line_def bindS_app sh_print_def sh_conn_def attempt_def
       split: prod.splits sum.splits fault.splits)

text \<open>
  C28. A session executes exactly the statements of its lines, in their order, up to a quit or the
  end of the input: an error is printed and never ends the session or keeps a later line from being
  run; only a crash of the engine ends it.
\<close>

theorem session_runs_every_statement:
  "\<exists>printed r. shell_loop n en ls s
     = (r, \<lparr>sl_conn = snd (execute_all n en (session_statements ls) (sl_conn s)), sl_printed = printed\<rparr>)
   \<and> (r = Inr () \<longleftrightarrow> \<not> fst (execute_all n en (session_statements ls) (sl_conn s)))"
proof (induction ls arbitrary: s)
  case Nil
  show ?case by (cases s) (simp add: session_statements_def)
next
  case (Cons l ls)
  consider "quits l" | "\<not> quits l" "trim l = []" | "\<not> quits l" "trim l \<noteq> []" "trim l = ''.help''"
    | "\<not> quits l" "trim l \<noteq> []" "trim l \<noteq> ''.help''" by blast
  then show ?case
  proof cases
    case 1
    then show ?thesis by (cases s) (auto simp: session_statements_def quits_def)
  next
    case 2
    with Cons.IH [of s] show ?thesis by (simp add: session_statements_def quits_def)
  next
    case 3
    with Cons.IH [of "sl_printed_update (\<lambda>old. old @ help_text) s"] show ?thesis
      by (simp add: session_statements_def quits_def shell_line_def sh_print_def bindS_app)
  next
    case 4
    obtain r t where t: "shell_line n en (trim l) s = (r, t)" by (cases "shell_line n en (trim l) s")
    note k = shell_line_connection [OF 4(3) t, folded statement_of_def]
    have q: "session_statements (l # ls) = statement_of l # session_statements ls"
      using 4 by (simp add: session_statements_def)
    have "shell_loop n en (l # ls) s = (case r of Inl e \<Rightarrow> (Inl e, t) | Inr _ \<Rightarrow> shell_loop n en ls t)"
      using 4 t by (simp add: Let_def quits_def bindS_app split: sum.split)
    with k Cons.IH [of t] show ?thesis
      by (cases r; cases t) (auto simp: q split: prod.split)
  qed
qed

end
