(* ===== verification/Test_Script.thy ===== *)
theory Test_Script
  imports Shell
begin

text \<open>
  \<^verbatim>\<open>sqllite-tests/src/lib.rs\<close>, the texts: test scripts are lines with directives whose SQL and expected
  results stand in braces, and results are compared as lists of tokens. Positions are byte offsets.
\<close>

section \<open>Searching and splitting\<close>

definition starts_with :: "string \<Rightarrow> string \<Rightarrow> bool" where
  "starts_with pat s \<longleftrightarrow> take (length pat) s = pat"

text \<open>\<^verbatim>\<open>str::find\<close> of a string.\<close>

fun find_sub :: "string \<Rightarrow> string \<Rightarrow> nat option" where
  "find_sub pat [] = (if pat = [] then Some 0 else None)"
| "find_sub pat (c # cs) =
     (if starts_with pat (c # cs) then Some 0 else map_option Suc (find_sub pat cs))"

text \<open>\<^verbatim>\<open>split\<close> at a character, and \<^verbatim>\<open>lines\<close>, which knows both line ends.\<close>

fun split_at :: "char \<Rightarrow> string \<Rightarrow> string list" where
  "split_at d [] = [[]]"
| "split_at d (c # cs) =
     (case split_at d cs of
        [] \<Rightarrow> [[c]]
      | p # ps \<Rightarrow> if c = d then [] # p # ps else (c # p) # ps)"

definition newline :: char where
  "newline = CHR 0x0A"

definition strip_cr :: "string \<Rightarrow> string" where
  "strip_cr l = (if l \<noteq> [] \<and> last l = CHR 0x0D then butlast l else l)"

definition lines :: "string \<Rightarrow> string list" where
  "lines s =
     (let ps = split_at newline s; qs = (if last ps = [] then butlast ps else ps); k = length ps - 1
      in map2 (\<lambda>i l. if i < k then strip_cr l else l) [0..<length qs] qs)"

definition count_newlines :: "string \<Rightarrow> nat" where
  "count_newlines s = length (filter (\<lambda>c. c = newline) s)"

section \<open>Braces\<close>

text \<open>
  The loop of \<^verbatim>\<open>extract_braced_from_str\<close>: \<open>depth\<close> braces are open, \<open>content\<close> and \<open>n\<close> are what has been
  collected and consumed. A text that is never closed is no block.
\<close>

fun braced_loop :: "nat \<Rightarrow> string \<Rightarrow> nat \<Rightarrow> string \<Rightarrow> (string \<times> nat) option" where
  "braced_loop depth content n [] = None"
| "braced_loop depth content n (c # cs) =
     (if c = CHR ''{''
      then braced_loop (Suc depth) (if Suc depth > 1 then content @ [c] else content) (Suc n) cs
      else if c = CHR ''}''
      then (if depth - 1 = 0 then Some (content, Suc n)
            else braced_loop (depth - 1) (content @ [c]) (Suc n) cs)
      else braced_loop depth (content @ [c]) (Suc n) cs)"

definition extract_braced :: "string \<Rightarrow> (string \<times> nat \<times> nat) option" where
  "extract_braced s =
     (let trimmed = trim_start s; skip = length s - length trimmed in
      if \<not> starts_with ''{'' trimmed then None
      else (case braced_loop 0 [] 0 trimmed of
              None \<Rightarrow> None
            | Some (content, consumed) \<Rightarrow>
                Some (content, skip + consumed, count_newlines (take consumed trimmed))))"

section \<open>Statements of a block\<close>

definition split_sql :: "string \<Rightarrow> string list" where
  "split_sql sql =
     (let t = trim sql in
      if t = [] then []
      else if CHR '';'' \<in> set t
      then filter (\<lambda>s. s \<noteq> []) (map trim (split_at (CHR '';'') t))
      else filter (\<lambda>l. l \<noteq> [] \<and> \<not> starts_with ''#'' l) (map trim (lines t)))"

section \<open>Directives\<close>

datatype test_kind = ExecSql string string bool | DoTest string

record parsed_directive =
  pd_name :: string
  pd_kind :: test_kind
  pd_expected :: "string option"
  pd_end_line :: nat

definition first_token :: "string \<Rightarrow> string option" where
  "first_token s =
     (let t = trim_start s in
      if t = [] \<or> starts_with ''{'' t then None
      else Some (trim (takeWhile (\<lambda>c. \<not> is_whitespace c \<and> c \<noteq> CHR ''{'') t)))"

text \<open>Up to three blocks after position \<open>pos\<close>, and the position behind them.\<close>

fun braced_blocks :: "nat \<Rightarrow> string \<Rightarrow> nat \<Rightarrow> string list \<times> nat" where
  "braced_blocks 0 s pos = ([], pos)"
| "braced_blocks (Suc k) s pos =
     (let slice = trim_start (drop pos s); skip = length (drop pos s) - length slice in
      case extract_braced slice of
        None \<Rightarrow> ([], pos)
      | Some (block, consumed, _) \<Rightarrow>
          (case braced_blocks k s (pos + skip + consumed) of (bs, e) \<Rightarrow> (block # bs, e)))"

definition parse_name_and_blocks :: "string list \<Rightarrow> nat \<Rightarrow> string \<Rightarrow> (string \<times> string list \<times> nat) option" where
  "parse_name_and_blocks ls start rest =
     (case first_token rest of
        None \<Rightarrow> None
      | Some name \<Rightarrow>
          (let combined = join_with [newline] (drop start ls) in
           case find_sub name combined of
             None \<Rightarrow> None
           | Some at \<Rightarrow>
               (case braced_blocks 3 combined (at + length name) of
                  (blocks, pos) \<Rightarrow>
                    if blocks = [] then None
                    else Some (name, blocks, start + count_newlines (take pos combined)))))"

definition block_at :: "nat \<Rightarrow> string list \<Rightarrow> string option" where
  "block_at i bs = (if i < length bs then Some (bs ! i) else None)"

definition or_empty :: "string option \<Rightarrow> string" where
  "or_empty x = (case x of None \<Rightarrow> [] | Some s \<Rightarrow> s)"

text \<open>The two directives that hold SQL, and the one that holds a script.\<close>

definition sql_directive :: "bool \<Rightarrow> string \<times> string list \<times> nat \<Rightarrow> parsed_directive" where
  "sql_directive catch r =
     (case r of (name, blocks, e) \<Rightarrow>
        \<lparr>pd_name = name, pd_kind = ExecSql (or_empty (block_at 0 blocks)) (or_empty (block_at 1 blocks)) catch,
         pd_expected = None, pd_end_line = e\<rparr>)"

definition script_directive :: "string \<times> string list \<times> nat \<Rightarrow> parsed_directive" where
  "script_directive r =
     (case r of (name, blocks, e) \<Rightarrow>
        \<lparr>pd_name = name, pd_kind = DoTest (or_empty (block_at 0 blocks)),
         pd_expected = block_at 1 blocks, pd_end_line = e\<rparr>)"

definition after_prefix :: "string \<Rightarrow> string \<Rightarrow> string" where
  "after_prefix pat s = drop (length pat) s"

definition parse_test_directive :: "string list \<Rightarrow> nat \<Rightarrow> parsed_directive option" where
  "parse_test_directive ls start =
     (let line = trim (ls ! start) in
      if starts_with ''do_execsql_test '' line
      then map_option (sql_directive False)
             (parse_name_and_blocks ls start (after_prefix ''do_execsql_test '' line))
      else if starts_with ''do_catchsql_test '' line
      then map_option (sql_directive True)
             (parse_name_and_blocks ls start (after_prefix ''do_catchsql_test '' line))
      else if starts_with ''do_test '' line
      then map_option script_directive (parse_name_and_blocks ls start (after_prefix ''do_test '' line))
      else None)"

definition parse_inline_execsql :: "string list \<Rightarrow> nat \<Rightarrow> (string \<times> nat) option" where
  "parse_inline_execsql ls start =
     (let combined = join_with [newline] (drop start ls) in
      case find_sub ''execsql'' combined of
        None \<Rightarrow> None
      | Some at \<Rightarrow>
          (let exec_pos = at + 7; after = trim_start (drop exec_pos combined);
               skip = length (drop exec_pos combined) - length after
           in case extract_braced after of
                None \<Rightarrow> None
              | Some (sql, consumed, _) \<Rightarrow>
                  Some (sql, start + count_newlines (take (exec_pos + skip + consumed) combined))))"

section \<open>The commands of a script\<close>

text \<open>The block that follows the first \<open>directive\<close> in \<open>body\<close>.\<close>

definition extract_directive_call :: "string \<Rightarrow> string \<Rightarrow> string option" where
  "extract_directive_call body directive =
     (case find_sub directive body of
        None \<Rightarrow> None
      | Some i \<Rightarrow> map_option fst (extract_braced (trim_start (drop (i + length directive) body))))"

definition extract_catch_execsql :: "string \<Rightarrow> string option" where
  "extract_catch_execsql body =
     (case find_sub ''catch'' body of
        None \<Rightarrow> None
      | Some i \<Rightarrow> extract_directive_call (drop i body) ''execsql'')"

lemma find_sub_bound: "find_sub pat s = Some i \<Longrightarrow> i + length pat \<le> length s"
  by (induction s arbitrary: i) (auto simp: starts_with_def split: if_splits dest: arg_cong [where f = length])

lemma length_trim_start: "length (trim_start s) \<le> length s"
  by (simp add: trim_start_def length_dropWhile_le)

text \<open>The loop over the calls of \<^verbatim>\<open>execsql\<close>; the one under \<^verbatim>\<open>catch\<close> is kept apart.\<close>

function setup_loop :: "string option \<Rightarrow> string list \<Rightarrow> string \<Rightarrow> string list" where
  "setup_loop catch acc search =
     (case find_sub ''execsql'' search of
        None \<Rightarrow> acc
      | Some i \<Rightarrow>
          (let after = trim_start (drop (i + 7) search) in
           case extract_braced after of
             None \<Rightarrow> setup_loop catch acc (drop (i + 1) search)
           | Some (block, consumed, _) \<Rightarrow>
               (let caught = (case catch of None \<Rightarrow> False | Some c \<Rightarrow> split_sql c = split_sql block) in
                setup_loop catch (if caught then acc else acc @ split_sql block) (drop consumed after))))"
  by pat_completeness auto

termination
proof (relation "measure (\<lambda>(catch, acc, search). length search)", goal_cases)
  case (2 catch acc search i)
  from find_sub_bound [OF 2(1)] show ?case by simp
next
  case (3 catch acc search i after p block q consumed r caught)
  from find_sub_bound [OF 3(1)] length_trim_start [of "drop (i + 7) search"] 3(2) show ?case by simp
qed simp

definition extract_body_commands :: "string \<Rightarrow> string list \<times> string option \<times> bool" where
  "extract_body_commands body =
     (case extract_directive_call body ''catchsql'' of
        Some sql \<Rightarrow> (split_sql sql, None, True)
      | None \<Rightarrow>
          (let catch = extract_catch_execsql body; setup = setup_loop catch [] body in
           case catch of Some sql \<Rightarrow> (setup, Some sql, True) | None \<Rightarrow> (setup, None, False)))"

section \<open>Blocks\<close>

text \<open>
  Texts whose braces match. A block around such a text is read back, whatever follows it, together
  with the number of bytes it took.
\<close>

inductive balanced :: "string \<Rightarrow> bool" where
  balanced_Nil: "balanced []"
| balanced_char: "c \<noteq> CHR ''{'' \<Longrightarrow> c \<noteq> CHR ''}'' \<Longrightarrow> balanced b \<Longrightarrow> balanced (c # b)"
| balanced_braces: "balanced a \<Longrightarrow> balanced b \<Longrightarrow> balanced (''{'' @ a @ ''}'' @ b)"

lemma braced_loop_balanced:
  "balanced b \<Longrightarrow> braced_loop (Suc d) content n (b @ rest) = braced_loop (Suc d) (content @ b) (n + length b) rest"
proof (induction b arbitrary: d content n rest rule: balanced.induct)
  case (balanced_braces a b)
  have "braced_loop (Suc d) content n ((''{'' @ a @ ''}'' @ b) @ rest)
      = braced_loop (Suc (Suc d)) (content @ ''{'') (Suc n) (a @ ''}'' @ b @ rest)" by simp
  also have "\<dots> = braced_loop (Suc d) (content @ ''{'' @ a @ ''}'') (Suc (Suc n) + length a) (b @ rest)"
    by (simp add: balanced_braces.IH(1))
  finally show ?case by (simp add: balanced_braces.IH(2) add.assoc)
qed simp_all

lemma extract_braced_block:
  assumes "balanced b" and "list_all is_whitespace w"
  shows "extract_braced (w @ ''{'' @ b @ ''}'' @ rest) = Some (b, length w + length b + 2, count_newlines b)"
proof -
  have t: "trim_start (w @ ''{'' @ b @ ''}'' @ rest) = ''{'' @ b @ ''}'' @ rest"
    using assms(2) by (induction w) (simp_all add: trim_start_def is_whitespace_def)
  have "braced_loop 0 [] 0 (''{'' @ b @ ''}'' @ rest) = Some (b, length b + 2)"
    using braced_loop_balanced [OF assms(1), of 0 "[]" 1 "''}'' @ rest"] by simp
  moreover have "take (length b + 2) (''{'' @ b @ ''}'' @ rest) = ''{'' @ b @ ''}''" by simp
  ultimately show ?thesis
    unfolding extract_braced_def Let_def t
    by (simp add: starts_with_def count_newlines_def newline_def)
qed

end
