(* ===== verification/Test_Runner.thy ===== *)
theory Test_Runner
  imports Test_Script "HOL-Library.Char_ord" "HOL-Library.List_Lexorder"
begin

text \<open>
  \<^verbatim>\<open>sqllite-tests/src/lib.rs\<close>, running a script on a connection in memory, and the walk over the files.
  What is printed is a list of lines, except the debugging output an environment variable asks for.
  A tree of files is given as it is read: \<open>Inl\<close> of a message where reading fails. The path of the
  directory has no slash at its end.
\<close>

section \<open>Comparing results\<close>

text \<open>The characters up to the brace that closes, and the rest; a missing one is not noticed.\<close>

fun braced_token :: "nat \<Rightarrow> string \<Rightarrow> string \<times> string" where
  "braced_token depth [] = ([], [])"
| "braced_token depth (c # cs) =
     (if c = CHR ''}'' \<and> depth - 1 = 0 then ([], cs)
      else (let d = (if c = CHR ''{'' then Suc depth else if c = CHR ''}'' then depth - 1 else depth) in
            case braced_token d cs of (t, rest) \<Rightarrow> (c # t, rest)))"

definition plain_char :: "char \<Rightarrow> bool" where
  "plain_char c \<longleftrightarrow> \<not> is_whitespace c \<and> c \<noteq> CHR ''{''"

lemma length_braced_token: "length (snd (braced_token d s)) \<le> length s"
  by (induction d s rule: braced_token.induct) (auto simp: Let_def split: prod.splits)

function parse_result_tokens :: "string \<Rightarrow> string list" where
  "parse_result_tokens s =
     (case s of
        [] \<Rightarrow> []
      | c # cs \<Rightarrow>
          if is_whitespace c then parse_result_tokens cs
          else if c = CHR ''{''
          then fst (braced_token 1 cs) # parse_result_tokens (snd (braced_token 1 cs))
          else takeWhile plain_char s # parse_result_tokens (dropWhile plain_char s))"
  by pat_completeness auto

termination
  by (relation "measure length")
     (auto simp: plain_char_def less_Suc_eq_le length_braced_token length_dropWhile_le)

declare parse_result_tokens.simps [simp del]

definition results_match :: "string \<Rightarrow> string \<Rightarrow> bool" where
  "results_match actual expected =
     (let a = parse_result_tokens actual; e = parse_result_tokens expected in
      if block_at 0 e = Some ''1'' \<and> block_at 0 a = Some ''1'' then block_at 1 a = block_at 1 e
      else a = e)"

definition format_result :: "string list \<Rightarrow> string" where
  "format_result rows = join_with '' '' (map (\<lambda>v. if v = [] then ''{}'' else v) rows)"

section \<open>Running commands\<close>

definition failure_result :: "sqllite_error \<Rightarrow> string" where
  "failure_result e = ''1 {'' @ error_message e @ ''}''"

definition run_catchsql :: "nat \<Rightarrow> env \<Rightarrow> string \<Rightarrow> string \<Rightarrow> bool cnm" where
  "run_catchsql n en sql expected =
     bindS (attempt (connection_execute n en (trim sql))) (\<lambda>r.
       retS (results_match (case r of Inr _ \<Rightarrow> ''0 {}'' | Inl e \<Rightarrow> failure_result e) expected))"

text \<open>Commands whose failure is an error of the run.\<close>

fun run_setup :: "nat \<Rightarrow> env \<Rightarrow> string list \<Rightarrow> unit cnm" where
  "run_setup n en [] = retS ()"
| "run_setup n en (q # qs) =
     (if trim q = [] then run_setup n en qs
      else bindS (connection_execute n en (trim q)) (\<lambda>_. run_setup n en qs))"

text \<open>Commands whose last result, or first error, is the result.\<close>

fun run_commands :: "nat \<Rightarrow> env \<Rightarrow> string list \<Rightarrow> string list \<Rightarrow> (string + string list) cnm" where
  "run_commands n en [] last0 = retS (Inr last0)"
| "run_commands n en (q # qs) last0 =
     (if trim q = [] then run_commands n en qs last0
      else bindS (attempt (connection_execute n en (trim q))) (\<lambda>r.
             case r of Inr rows \<Rightarrow> run_commands n en qs rows
             | Inl e \<Rightarrow> retS (Inl (failure_result e))))"

text \<open>The two ways the code takes after a success (by \<^verbatim>\<open>normalize\<close> of what is expected) do the same.\<close>

definition run_commands_test ::
  "nat \<Rightarrow> env \<Rightarrow> string list \<Rightarrow> string option \<Rightarrow> string \<Rightarrow> bool \<Rightarrow> bool cnm" where
  "run_commands_test n en cmds catch_sql expected catch =
     (if catch
      then bindS (run_setup n en cmds) (\<lambda>_. run_catchsql n en (or_empty catch_sql) expected)
      else bindS (run_commands n en cmds []) (\<lambda>r.
             retS (results_match (case r of Inl actual \<Rightarrow> actual | Inr rows \<Rightarrow> format_result rows) expected)))"

definition run_sql_test :: "nat \<Rightarrow> env \<Rightarrow> string \<Rightarrow> string \<Rightarrow> bool \<Rightarrow> bool cnm" where
  "run_sql_test n en sql expected catch =
     (if catch then run_commands_test n en [] (Some sql) expected True
      else run_commands_test n en (split_sql sql) None expected False)"

section \<open>Scripts\<close>

record test_results =
  tr_passed :: nat
  tr_failed :: nat
  tr_skipped :: nat

definition no_results :: test_results where
  "no_results = \<lparr>tr_passed = 0, tr_failed = 0, tr_skipped = 0\<rparr>"

definition results_total :: "test_results \<Rightarrow> nat" where
  "results_total r = tr_passed r + tr_failed r + tr_skipped r"

definition results_merge :: "test_results \<Rightarrow> test_results \<Rightarrow> test_results" where
  "results_merge a b = \<lparr>tr_passed = tr_passed a + tr_passed b, tr_failed = tr_failed a + tr_failed b,
     tr_skipped = tr_skipped a + tr_skipped b\<rparr>"

record runner =
  rn_conn :: connection
  rn_results :: test_results
  rn_printed :: "printed list"

type_synonym 'a rnm = "(runner, 'a) sres"

definition rn_sql :: "'a cnm \<Rightarrow> 'a rnm" where
  "rn_sql m = (\<lambda>s. case m (rn_conn s) of (r, c) \<Rightarrow> (r, s\<lparr>rn_conn := c\<rparr>))"

definition record_result :: "string \<Rightarrow> bool \<Rightarrow> bool \<Rightarrow> unit rnm" where
  "record_result name ok verbose =
     modifyS (\<lambda>s. s\<lparr>
       rn_results := (if ok then (rn_results s)\<lparr>tr_passed := tr_passed (rn_results s) + 1\<rparr>
                      else (rn_results s)\<lparr>tr_failed := tr_failed (rn_results s) + 1\<rparr>),
       rn_printed := rn_printed s @ (if ok then (if verbose then [Out (''  PASS: '' @ name)] else [])
                                     else [Out (''  FAIL: '' @ name)])\<rparr>)"

text \<open>A fresh connection, on the disk of the one it replaces.\<close>

definition reset_db :: "env \<Rightarrow> unit rnm" where
  "reset_db en =
     (\<lambda>s. case connection_open en '':memory:'' (pgr_disk (cn_pager (rn_conn s))) of
        (Inl e, d) \<Rightarrow> (Inl e, s) | (Inr c, d) \<Rightarrow> (Inr (), s\<lparr>rn_conn := c\<rparr>))"

definition run_directive :: "nat \<Rightarrow> env \<Rightarrow> bool \<Rightarrow> parsed_directive \<Rightarrow> unit rnm" where
  "run_directive n en verbose pd =
     bindS
       (case pd_kind pd of
          ExecSql sql expected catch \<Rightarrow> rn_sql (run_sql_test n en sql expected catch)
        | DoTest body \<Rightarrow>
            (case extract_body_commands body of (cmds, catch_sql, catch) \<Rightarrow>
               rn_sql (run_commands_test n en cmds catch_sql (or_empty (pd_expected pd)) catch)))
       (\<lambda>ok. record_result (pd_name pd) ok verbose)"

fun execute_list :: "nat \<Rightarrow> env \<Rightarrow> string list \<Rightarrow> unit cnm" where
  "execute_list n en [] = retS ()"
| "execute_list n en (q # qs) = bindS (connection_execute n en q) (\<lambda>_. execute_list n en qs)"

text \<open>
  One turn of the loop over the lines: the next line to look at. An \<^verbatim>\<open>execsql\<close> without a block is
  looked at as a directive, of which it is none.
\<close>

definition script_turn :: "nat \<Rightarrow> env \<Rightarrow> bool \<Rightarrow> string list \<Rightarrow> nat \<Rightarrow> nat rnm" where
  "script_turn n en verbose ls i =
     (let line = trim (ls ! i) in
      if line = [] \<or> starts_with ''#'' line then retS (i + 1)
      else if line = ''reset_db'' \<or> starts_with ''reset_db '' line
      then bindS (reset_db en) (\<lambda>_. retS (i + 1))
      else
        (case (if starts_with ''execsql '' line then parse_inline_execsql ls i else None) of
           Some (sql, e) \<Rightarrow> bindS (rn_sql (execute_list n en (split_sql sql))) (\<lambda>_. retS (e + 1))
         | None \<Rightarrow>
             (case parse_test_directive ls i of
                Some pd \<Rightarrow> bindS (run_directive n en verbose pd) (\<lambda>_. retS (pd_end_line pd + 1))
              | None \<Rightarrow> retS (i + 1))))"

text \<open>Every turn goes on at a later line, so the number of lines is fuel enough.\<close>

fun script_loop :: "nat \<Rightarrow> nat \<Rightarrow> env \<Rightarrow> bool \<Rightarrow> string list \<Rightarrow> nat \<Rightarrow> unit rnm" where
  "script_loop k n en verbose ls i =
     (if length ls \<le> i then retS ()
      else case k of
        0 \<Rightarrow> throwS Diverge
      | Suc m \<Rightarrow> bindS (script_turn n en verbose ls i) (\<lambda>j. script_loop m n en verbose ls j))"

declare script_loop.simps [simp del]

definition run_test_file :: "nat \<Rightarrow> env \<Rightarrow> bool \<Rightarrow> string \<Rightarrow> disk \<Rightarrow> test_results res \<times> printed list" where
  "run_test_file n en verbose content d =
     (let ls = lines content in
      case connection_open en '':memory:'' d of
        (Inl e, d') \<Rightarrow> (Inl e, [])
      | (Inr c, d') \<Rightarrow>
          (case script_loop (length ls) n en verbose ls 0
                  \<lparr>rn_conn = c, rn_results = no_results, rn_printed = []\<rparr> of
             (Inl e, s) \<Rightarrow> (Inl e, rn_printed s)
           | (Inr _, s) \<Rightarrow>
               (let r = rn_results s in
                (Inr (if tr_passed r + tr_failed r = 0 then r\<lparr>tr_skipped := tr_skipped r + 1\<rparr> else r),
                 rn_printed s))))"

section \<open>The walk over the files\<close>

datatype fs_node = FsFile "string + string" | FsDir "string + (string \<times> fs_node) list"

text \<open>\<^verbatim>\<open>Path::extension\<close>: what follows the last dot of a name, unless only the first character is one.\<close>

definition extension :: "string \<Rightarrow> string option" where
  "extension name =
     (let ext = takeWhile (\<lambda>c. c \<noteq> CHR ''.'') (rev name) in
      if name = ''..'' \<or> length name \<le> length ext + 1 then None else Some (rev ext))"

text \<open>Paths below the directory, by their components, with what reading the file gives.\<close>

fun collect_test_files :: "string list \<Rightarrow> fs_node \<Rightarrow> (string list \<times> (string + string)) list res"
and collect_entries :: "string list \<Rightarrow> (string \<times> fs_node) list \<Rightarrow> (string list \<times> (string + string)) list res" where
  "collect_test_files path (FsFile content) = Inl (Fail (Io ''Not a directory''))"
| "collect_test_files path (FsDir (Inl msg)) = Inl (Fail (Io msg))"
| "collect_test_files path (FsDir (Inr entries)) =
     bindR (collect_entries path entries) (\<lambda>files. Inr (sort_key fst files))"
| "collect_entries path [] = Inr []"
| "collect_entries path ((name, FsFile content) # es) =
     bindR (collect_entries path es) (\<lambda>more.
       Inr (if extension name = Some ''test'' then (path @ [name], content) # more else more))"
| "collect_entries path ((name, FsDir sub) # es) =
     bindR (collect_test_files (path @ [name]) (FsDir sub)) (\<lambda>files.
     bindR (collect_entries path es) (\<lambda>more. Inr (files @ more)))"

definition path_text :: "string \<Rightarrow> string list \<Rightarrow> string" where
  "path_text base path = join_with ''/'' (base # path)"

text \<open>A file that cannot be read or whose run fails counts as one failure. A crash is not caught.\<close>

definition run_found_file :: "nat \<Rightarrow> env \<Rightarrow> bool \<Rightarrow> disk \<Rightarrow> string \<times> (string + string) \<Rightarrow> test_results \<Rightarrow>
    test_results res \<times> printed list" where
  "run_found_file n en verbose d file results =
     (case file of (name, content) \<Rightarrow>
        let failed = results\<lparr>tr_failed := tr_failed results + 1\<rparr>;
            report = (\<lambda>msg. Err (''Error running '' @ name @ '': '' @ msg)) in
        case content of
          Inl msg \<Rightarrow> (Inr failed, [report msg])
        | Inr text \<Rightarrow>
            (case run_test_file n en verbose text d of
               (Inr r, out) \<Rightarrow> (Inr (results_merge results r), out)
             | (Inl (Fail e), out) \<Rightarrow> (Inr failed, out @ [report (display_error e)])
             | (Inl f, out) \<Rightarrow> (Inl f, out)))"

fun run_found_files :: "nat \<Rightarrow> env \<Rightarrow> bool \<Rightarrow> disk \<Rightarrow> (string \<times> (string + string)) list \<Rightarrow> test_results \<Rightarrow>
    test_results res \<times> printed list" where
  "run_found_files n en verbose d [] results = (Inr results, [])"
| "run_found_files n en verbose d (f # fs) results =
     (case run_found_file n en verbose d f results of
        (Inl e, out) \<Rightarrow> (Inl e, out)
      | (Inr r, out) \<Rightarrow>
          (case run_found_files n en verbose d fs r of (res, out') \<Rightarrow> (res, out @ out')))"

definition contains_pattern :: "string option \<Rightarrow> string \<Rightarrow> bool" where
  "contains_pattern pat name = (case pat of None \<Rightarrow> True | Some p \<Rightarrow> find_sub p name \<noteq> None)"

definition run_tests :: "nat \<Rightarrow> env \<Rightarrow> string \<Rightarrow> fs_node \<Rightarrow> string option \<Rightarrow> bool \<Rightarrow> disk \<Rightarrow>
    test_results res \<times> printed list" where
  "run_tests n en base node pat verbose d =
     (case node of
        FsDir entries \<Rightarrow>
          (case collect_test_files [] node of
             Inl e \<Rightarrow> (Inl e, [])
           | Inr files \<Rightarrow>
               run_found_files n en verbose d
                 (filter (contains_pattern pat \<circ> fst) (map (map_prod (path_text base) (\<lambda>c. c)) files))
                 no_results)
      | FsFile (Inl msg) \<Rightarrow> (Inl (Fail (Io msg)), [])
      | FsFile (Inr text) \<Rightarrow> run_test_file n en verbose text d)"

text \<open>\<^verbatim>\<open>main\<close>: the summary, and whether the process succeeds.\<close>

definition summary :: "test_results \<Rightarrow> printed list" where
  "summary r = [Out (''Tests: '' @ nat_to_string (tr_passed r) @ '' passed, ''
     @ nat_to_string (tr_failed r) @ '' failed, '' @ nat_to_string (tr_skipped r) @ '' skipped'')]"

definition test_main :: "nat \<Rightarrow> env \<Rightarrow> string \<Rightarrow> fs_node \<Rightarrow> string option \<Rightarrow> bool \<Rightarrow> disk \<Rightarrow> bool \<times> printed list" where
  "test_main n en base node pat verbose d =
     (case run_tests n en base node pat verbose d of
        (Inl e, out) \<Rightarrow> (False, out)
      | (Inr r, out) \<Rightarrow> (tr_failed r = 0, out @ summary r))"

section \<open>The loop over the lines\<close>

lemma end_line_later:
  "parse_inline_execsql ls i = Some (sql, e) \<Longrightarrow> i \<le> e"
  "parse_test_directive ls i = Some pd \<Longrightarrow> i \<le> pd_end_line pd"
  by (auto simp: parse_inline_execsql_def parse_test_directive_def parse_name_and_blocks_def Let_def
      sql_directive_def script_directive_def split: option.splits if_splits prod.splits)

lemma script_turn_later: "script_turn n en verbose ls i s = (Inr j, s') \<Longrightarrow> i < j"
  by (auto simp: script_turn_def Let_def less_Suc_eq_le end_line_later
      split: if_splits option.splits elim!: bindS_E)

text \<open>More fuel than there are lines left changes nothing.\<close>

lemma script_loop_fuel:
  "length ls - i \<le> k \<Longrightarrow> length ls - i \<le> m
   \<Longrightarrow> script_loop k n en verbose ls i s = script_loop m n en verbose ls i s"
proof (induction k arbitrary: m i s)
  case 0
  then show ?case by (simp add: script_loop.simps)
next
  case (Suc k)
  show ?case
  proof (cases "length ls \<le> i")
    case True
    then show ?thesis by (simp add: script_loop.simps)
  next
    case False
    with Suc.prems obtain m' where m: "m = Suc m'" by (cases m) auto
    have "script_loop k n en verbose ls j t = script_loop m' n en verbose ls j t"
      if "script_turn n en verbose ls i s = (Inr j, t)" for j t
      using Suc.prems script_turn_later [OF that] m by (intro Suc.IH) auto
    with False m show ?thesis
      by (auto simp: script_loop.simps [of "Suc k"] script_loop.simps [of "Suc m'"] bindS_app
          split: prod.split sum.split)
  qed
qed

text \<open>A \<^verbatim>\<open>catchsql\<close> in a script is run as setup: its failure ends the file instead of being compared.\<close>

lemma catchsql_in_script:
  assumes "extract_directive_call body ''catchsql'' = Some sql"
    and "pd_kind pd = DoTest body"
    and "run_setup n en (split_sql sql) (rn_conn s) = (Inl e, c)"
  shows "run_directive n en verbose pd s = (Inl e, s\<lparr>rn_conn := c\<rparr>)"
  using assms by (simp add: run_directive_def extract_body_commands_def run_commands_test_def rn_sql_def bindS_app)

section \<open>The verdict\<close>

text \<open>A value the comparison can take apart again: no blanks and no opening brace.\<close>

definition plain :: "string \<Rightarrow> bool" where
  "plain v \<longleftrightarrow> list_all plain_char v"

definition ends_token :: "string \<Rightarrow> bool" where
  "ends_token rest \<longleftrightarrow> (case rest of [] \<Rightarrow> True | c # cs \<Rightarrow> \<not> plain_char c)"

lemma takeWhile_plain: "plain v \<Longrightarrow> ends_token rest \<Longrightarrow> takeWhile plain_char (v @ rest) = v"
  by (induction v) (auto simp: plain_def ends_token_def split: list.splits)

lemma dropWhile_plain: "plain v \<Longrightarrow> ends_token rest \<Longrightarrow> dropWhile plain_char (v @ rest) = rest"
  by (induction v) (auto simp: plain_def ends_token_def split: list.splits)

lemma tokens_Nil: "parse_result_tokens [] = []"
  by (simp add: parse_result_tokens.simps)

lemma tokens_blank: "parse_result_tokens (CHR '' '' # s) = parse_result_tokens s"
  by (subst parse_result_tokens.simps) (simp add: is_whitespace_def)

lemma tokens_empty: "parse_result_tokens (''{}'' @ rest) = [] # parse_result_tokens rest"
  by (subst parse_result_tokens.simps) (simp add: is_whitespace_def)

lemma tokens_value:
  assumes "plain v" and "v \<noteq> []" and "ends_token rest"
  shows "parse_result_tokens (v @ rest) = v # parse_result_tokens rest"
proof -
  obtain c cs where v: "v = c # cs" using assms(2) by (cases v) auto
  with assms(1) have "plain_char c" by (simp add: plain_def)
  then show ?thesis
    using takeWhile_plain [OF assms(1,3)] dropWhile_plain [OF assms(1,3)] v
    by (subst parse_result_tokens.simps) (simp add: plain_char_def)
qed

lemma tokens_shown:
  assumes "plain v" and "ends_token rest"
  shows "parse_result_tokens ((if v = [] then ''{}'' else v) @ rest) = v # parse_result_tokens rest"
  using tokens_empty tokens_value [OF assms(1) _ assms(2)] by auto

lemma tokens_format: "list_all plain rows \<Longrightarrow> parse_result_tokens (format_result rows) = rows"
proof (induction rows)
  case Nil
  then show ?case by (simp add: format_result_def tokens_Nil)
next
  case (Cons v vs)
  show ?case
  proof (cases vs)
    case Nil
    with Cons.prems tokens_shown [of v "[]"] show ?thesis
      by (simp add: format_result_def tokens_Nil ends_token_def)
  next
    case (Cons w ws)
    have "format_result (v # vs) = (if v = [] then ''{}'' else v) @ '' '' @ format_result vs"
      by (simp add: format_result_def Cons)
    with Cons.prems Cons.IH tokens_shown [of v "'' '' @ format_result vs"] show ?thesis
      by (simp add: ends_token_def plain_char_def is_whitespace_def tokens_blank)
  qed
qed

text \<open>
  C40. The verdict of the test runner on a result of plain values: it accepts exactly the expected
  values, except that a result that begins with 1 is taken for an error, of which only the second
  token is compared. So a wrong result such as 1 2 3 passes where 1 2 4 is expected.
\<close>

theorem verdict_on_plain_results:
  assumes "list_all plain rows" and "list_all plain wanted"
  shows "results_match (format_result rows) (format_result wanted) \<longleftrightarrow>
    rows = wanted \<or>
    (take 1 rows = [''1''] \<and> take 1 wanted = [''1''] \<and> take 1 (drop 1 rows) = take 1 (drop 1 wanted))"
proof -
  have "block_at 0 xs = Some ''1'' \<longleftrightarrow> take 1 xs = [''1'']" for xs
    by (cases xs) (simp_all add: block_at_def)
  moreover have "block_at 1 xs = block_at 1 ys \<longleftrightarrow> take 1 (drop 1 xs) = take 1 (drop 1 ys)" for xs ys
    by (cases "drop 1 xs"; cases "drop 1 ys"; cases xs; cases ys) (auto simp: block_at_def)
  ultimately show ?thesis
    using assms by (auto simp: results_match_def Let_def tokens_format)
qed

theorem verdict_on_plain_results_witness:
  "results_match (format_result [''1'', ''2'', ''3'']) (format_result [''1'', ''2'', ''4''])
   \<and> \<not> results_match (format_result [''2'', ''3'']) (format_result [''2'', ''4''])"
  using verdict_on_plain_results [of "[''1'', ''2'', ''3'']" "[''1'', ''2'', ''4'']"]
    verdict_on_plain_results [of "[''2'', ''3'']" "[''2'', ''4'']"]
  by (simp add: plain_def plain_char_def is_whitespace_def)

end
