(* ===== verification/Spec2Isabelle.thy ===== *)
theory Spec2Isabelle
  imports Record_Format Db_Header Wal_Correct Pager_Correct Lexer_Correct Group_By
    Order_By Statement_Examples Transactions Test_Runner
begin

text \<open>
  A verification development for the database engine of this repository: the SQL parser
  (\<^verbatim>\<open>src/sqllite-parser\<close>) and the engine that stores tables in the SQLite file format
  (\<^verbatim>\<open>src/sqllite-core\<close>).

  \<^bold>\<open>The program.\<close> \<^verbatim>\<open>Connection::execute\<close> takes a text of statements. The lexer cuts it into tokens,
  the recursive descent parser makes syntax trees of them, \<^verbatim>\<open>compile\<close> translates a tree into a
  program of a register machine, and the machine (\<^verbatim>\<open>vdbe/exec.rs\<close>) runs it. The machine reads the
  catalog (\<^verbatim>\<open>schema.rs\<close>), which is itself stored as a table, and works on tables through cursors on
  B-trees (\<^verbatim>\<open>storage/btree.rs\<close>). A B-tree reads and writes pages of the pager (\<^verbatim>\<open>storage/pager.rs\<close>),
  which caches them, collects what a transaction writes and puts it into the database file or into
  the write-ahead log (\<^verbatim>\<open>storage/wal.rs\<close>) at a commit. Files are those of \<^verbatim>\<open>os/unix.rs\<close>.

  \<^bold>\<open>How code and model correspond.\<close> A struct is a record with the code's fields, an enum a datatype,
  an \<open>n\<close>-bit integer a word. A function that can fail has a result in \<open>fault + 'a\<close>
  (theory \<^verbatim>\<open>Errors\<close>), where a fault is the code's error, a panic, or \<open>Diverge\<close>: the fuel of a loop
  without a structural measure ran out. A method on \<^verbatim>\<open>&mut self\<close> is a state transformer (\<open>sres\<close> of
  \<^verbatim>\<open>Prelude\<close>: a failed step keeps what it had written, as the code does).

    \<^item> \<^verbatim>\<open>Prelude\<close>, \<^verbatim>\<open>Errors\<close>, \<^verbatim>\<open>Constants\<close>, \<^verbatim>\<open>Codec\<close>: results, state passing, byte codecs (\<^verbatim>\<open>error.rs\<close>,
      \<^verbatim>\<open>constants.rs\<close>).
    \<^item> \<^verbatim>\<open>Float64\<close>, \<^verbatim>\<open>Float_Ops\<close>: \<^verbatim>\<open>f64\<close> as 64-bit patterns with exact rounding; \<^verbatim>\<open>Values\<close>: \<^verbatim>\<open>types.rs\<close>.
    \<^item> \<^verbatim>\<open>Varint\<close>, \<^verbatim>\<open>Record_Format\<close>, \<^verbatim>\<open>Db_Header\<close>: \<^verbatim>\<open>varint.rs\<close>, \<^verbatim>\<open>record.rs\<close>, \<^verbatim>\<open>storage/header.rs\<close>.
    \<^item> \<^verbatim>\<open>Disk\<close>, \<^verbatim>\<open>Vfs_IO\<close>, \<^verbatim>\<open>Paged_File\<close>: files as byte lists, and the lock state (\<^verbatim>\<open>os/mod.rs\<close>, \<^verbatim>\<open>os/unix.rs\<close>).
    \<^item> \<^verbatim>\<open>Wal\<close>, \<^verbatim>\<open>Wal_Correct\<close>: \<^verbatim>\<open>storage/wal.rs\<close>. \<^verbatim>\<open>Pager\<close>, \<^verbatim>\<open>Pager_Pages\<close>, \<^verbatim>\<open>Page_Store\<close>, \<^verbatim>\<open>Pager_Correct\<close>:
      \<^verbatim>\<open>storage/pager.rs\<close>.
    \<^item> \<^verbatim>\<open>Btree_Page\<close>, \<^verbatim>\<open>Btree\<close>, \<^verbatim>\<open>Btree_Cursor\<close>: \<^verbatim>\<open>storage/btree.rs\<close>, from the layout of a page to splits and
      cursors; \<^verbatim>\<open>Slotted_Page\<close>, \<^verbatim>\<open>Cell_Formats\<close>, \<^verbatim>\<open>Table_Leaf\<close>, \<^verbatim>\<open>Table_Tree\<close>, \<^verbatim>\<open>Table_Ops\<close>, \<^verbatim>\<open>Leaf_Split\<close>,
      \<^verbatim>\<open>Cursor_Correct\<close>, \<^verbatim>\<open>Index_Payload\<close>: its proofs; \<^verbatim>\<open>Table_Examples\<close>: concrete trees.
    \<^item> \<^verbatim>\<open>Ast\<close>, \<^verbatim>\<open>Lexer\<close>, \<^verbatim>\<open>Parser\<close>: \<^verbatim>\<open>ast.rs\<close>, \<^verbatim>\<open>lexer.rs\<close>, \<^verbatim>\<open>parser/parser_impl.rs\<close>; \<^verbatim>\<open>Parser_Total\<close>,
      \<^verbatim>\<open>Parser_Print\<close>, \<^verbatim>\<open>Lexer_Correct\<close>: their proofs.
    \<^item> \<^verbatim>\<open>Schema\<close>, \<^verbatim>\<open>Pragma\<close>, \<^verbatim>\<open>Program\<close>, \<^verbatim>\<open>Vdbe\<close>, \<^verbatim>\<open>Compile\<close>, \<^verbatim>\<open>Compile_Select\<close>, \<^verbatim>\<open>Connection\<close>: \<^verbatim>\<open>schema.rs\<close>,
      \<^verbatim>\<open>pragma.rs\<close>, \<^verbatim>\<open>vdbe/program.rs\<close>, \<^verbatim>\<open>vdbe/exec.rs\<close>, \<^verbatim>\<open>compile.rs\<close>, \<^verbatim>\<open>compile_select.rs\<close>,
      \<^verbatim>\<open>connection.rs\<close>; \<^verbatim>\<open>Vdbe_Run\<close>, \<^verbatim>\<open>Compile_Correct\<close>, \<^verbatim>\<open>Row_Loop\<close>, \<^verbatim>\<open>Statements\<close>, \<^verbatim>\<open>Group_By\<close>,
      \<^verbatim>\<open>Order_By\<close>, \<^verbatim>\<open>Jump_Targets\<close>, \<^verbatim>\<open>Machine_Safety\<close>, \<^verbatim>\<open>Transactions\<close>: their proofs; \<^verbatim>\<open>Statement_Examples\<close>: statements run
      on a table.
    \<^item> \<^verbatim>\<open>Shell\<close>: the command line shell (\<^verbatim>\<open>sqllite-cli/src/main.rs\<close>); \<^verbatim>\<open>Test_Script\<close>, \<^verbatim>\<open>Test_Runner\<close>: the runner
      of test scripts (\<^verbatim>\<open>sqllite-tests/src/lib.rs\<close>), both around \<^verbatim>\<open>Connection::execute\<close>.
\<close>

text \<open>
  \<^bold>\<open>What is shown.\<close>

    \<^item> Codecs. Records, the database header, values below \<open>2^56\<close> as variable-length integers and SQL
      literals survive writing and reading; the decoders stay in their input and never panic.
    \<^item> Durability. Outside the log mode a commit survives reopening. The log refines a map from pages to their latest committed contents: reads see the
      last append, a crash that tears the tail leaves exactly the frames before it, a checkpoint
      moves the latest versions into the file. The pager refines an array of pages with one pending
      transaction: reads see writes, a rollback restores the pages.
    \<^item> Tables. On a tree of any height whose pages hold an ordered set of rows (\<open>table_state\<close>),
      insertion, deletion and replacement refine the update of the sorted row list, for every leaf
      with room; the root leaf's split distributes its rows; a scan of a tree without empty leaves
      delivers all rows in order and a seek finds the first row not below the key.
    \<^item> Parsing. The parser answers on every token list within its fuel; the tokeniser on every text;
      an expression printed with the fewest parentheses is parsed back.
    \<^item> Execution. Code for an expression computes its value and touches only higher registers. The
      programs of all statements are closed (every jump that is patched later leads forward, every
      loop back), the machine cannot run out of them, and those without a scan have no loop. From
      the statement to the stored tree, \<^verbatim>\<open>INSERT\<close> adds the encoded row and \<^verbatim>\<open>SELECT COUNT(*)\<close> delivers
      the number of rows. \<^verbatim>\<open>GROUP BY\<close> is the declarative grouping of the buffered rows; \<^verbatim>\<open>ORDER BY\<close>
      sorts them stably by an order of values that is stated without the code's comparison.
    \<^item> Around the engine. A shell session executes exactly the statements of its lines; the test
      runner's verdict on plain results is characterised, its loop needs no more fuel than lines.

  Where the code does not do what it is meant to, a theorem states what it does: the second split of
  a root leaf loses rows, \<^verbatim>\<open>DELETE\<close> without a condition skips every other row, row ids of 128 and more
  in an index are read back wrongly, a stale log frame can come back, a scan stops at an empty leaf,
  a rolled back allocation leaves unreadable pages, statements that change the schema commit the
  open transaction, and \<^verbatim>\<open>SELECT 5-3\<close> is answered as \<^verbatim>\<open>SELECT 5\<close>.

  \<^bold>\<open>Interfaces.\<close> Byte codecs (\<open>codec\<close>), files (\<open>vfs_file\<close>), the pages a client of the pager sees
  (\<open>page_store\<close>) and the cells of a page (\<open>slot_array\<close>, \<open>cell_format\<close>) are locales with the laws
  their clients need, each interpreted on the model's own operations in the theory of its provider.

  \<^bold>\<open>Fuel.\<close> The descent of a tree needs its height, a scan of rows their number, the parser a
  linear function of the number of tokens (\<open>parser_always_answers\<close> states it), the tokeniser the
  length of the text; theorems that say an operation succeeds give the fuel that is enough. The
  machine's fuel bounds the instructions of one call; the end-to-end theorems state the number.

  \<^bold>\<open>Not modelled.\<close> The scanner that the \<^verbatim>\<open>logos\<close> package generates is the parameter \<open>lx\<close>, restricted
  where needed to scanners that follow the token rules (\<open>follows_rules\<close>, which \<open>rule_scanner\<close>
  meets). Errors of the operating system, the mutexes around the shared pager (each call holds them
  to its end, so calls do not interleave), Unicode case folding beyond ASCII (the keyword rules
  of the lexer, which ignore case, would also take U+017F for an s and U+212A for a k), the escapes \<^verbatim>\<open>Debug\<close>
  printing makes of unprintable characters and the payload bits of a NaN are left out. The order in
  which a hash map is visited is the parameter \<open>en_order\<close>. A stable sort is modelled by insertion,
  which is the standard library's result for orders that are total preorders. White space that the
  shell and the test runner trim is the ASCII one. The shell's input is a list of lines: a line that
  is not UTF-8 and a failing standard output, which end the program's session, are left out. The parsing of their arguments is the \<^verbatim>\<open>clap\<close>
  package's. Constants the code never reads and the unit tests inside the source files are left out.
\<close>

end
